(* ===== verification/Prelude.thy ===== *)
theory Prelude
  imports Main "HOL-Library.Word" "HOL-Library.Monad_Syntax"
begin

unbundle bit_operations_syntax

text \<open>
  Shared vocabulary of the development: the machine integers of the i386 target, the linear
  byte memory that the kernel's pointers range over, little-endian accesses of 16 and 32 bits,
  byte blocks and NUL-terminated strings in memory, and the separation lemmas that the
  component proofs use.  A pointer is a 32-bit word, a C \<open>int\<close> is a 32-bit word read with
  \<open>sint\<close> where its sign matters, and an operation that may not return (an endless loop, an
  access that the C standard leaves undefined and that the target does not pin down) has
  result type \<open>option\<close>, with \<open>None\<close> for that case.
\<close>

section \<open>Machine integers\<close>

type_synonym u8 = "8 word"
type_synonym u16 = "16 word"
type_synonym u32 = "32 word"

text \<open>C's signed division and remainder round towards zero.\<close>

definition c_div :: "u32 \<Rightarrow> u32 \<Rightarrow> u32" where
  "c_div a b = word_of_int (sgn (sint a) * sgn (sint b) * (\<bar>sint a\<bar> div \<bar>sint b\<bar>))"

definition c_mod :: "u32 \<Rightarrow> u32 \<Rightarrow> u32" where
  "c_mod a b = word_of_int (sgn (sint a) * (\<bar>sint a\<bar> mod \<bar>sint b\<bar>))"

text \<open>\<open>1 << n\<close> as the target's shift instruction computes it: the count is taken modulo 32.\<close>

definition shl1 :: "u32 \<Rightarrow> u32" where
  "shl1 n = push_bit (unat (n AND 31)) 1"

section \<open>Linear memory\<close>

type_synonym mem = "u32 \<Rightarrow> u8"

definition read16 :: "mem \<Rightarrow> u32 \<Rightarrow> u16" where
  "read16 m a = ucast (m a) OR push_bit 8 (ucast (m (a + 1)))"

definition read32 :: "mem \<Rightarrow> u32 \<Rightarrow> u32" where
  "read32 m a = ucast (m a) OR push_bit 8 (ucast (m (a + 1)))
     OR push_bit 16 (ucast (m (a + 2))) OR push_bit 24 (ucast (m (a + 3)))"

definition write16 :: "mem \<Rightarrow> u32 \<Rightarrow> u16 \<Rightarrow> mem" where
  "write16 m a v = m(a := ucast v, a + 1 := ucast (drop_bit 8 v))"

definition write32 :: "mem \<Rightarrow> u32 \<Rightarrow> u32 \<Rightarrow> mem" where
  "write32 m a v = m(a := ucast v, a + 1 := ucast (drop_bit 8 v),
     a + 2 := ucast (drop_bit 16 v), a + 3 := ucast (drop_bit 24 v))"

definition region :: "u32 \<Rightarrow> nat \<Rightarrow> u32 set" where
  "region p n = {a. unat (a - p) < n}"

definition store_bytes :: "mem \<Rightarrow> u32 \<Rightarrow> u8 list \<Rightarrow> mem" where
  "store_bytes m p xs = (\<lambda>a. if unat (a - p) < length xs then xs ! unat (a - p) else m a)"

fun load_bytes :: "mem \<Rightarrow> u32 \<Rightarrow> nat \<Rightarrow> u8 list" where
  "load_bytes m p 0 = []"
| "load_bytes m p (Suc n) = m p # load_bytes m (p + 1) n"

fun cstr :: "mem \<Rightarrow> u32 \<Rightarrow> u8 list \<Rightarrow> bool" where
  "cstr m p [] \<longleftrightarrow> m p = 0"
| "cstr m p (c # cs) \<longleftrightarrow> m p = c \<and> c \<noteq> 0 \<and> cstr m (p + 1) cs"

definition lit :: "string \<Rightarrow> u8 list" where
  "lit s = map of_char s"

named_theorems mem_simps \<open>reads after writes\<close>

section \<open>Alignment\<close>

text \<open>\<open>al k d\<close>: the word \<open>d\<close> is a multiple of \<open>2 ^ k\<close>.\<close>

definition al :: "nat \<Rightarrow> u32 \<Rightarrow> bool" where
  "al k d \<longleftrightarrow> 2 ^ k dvd uint d"

lemma al_mod:
  assumes "k \<le> 32"
  shows "2 ^ k dvd (i::int) mod 4294967296 \<longleftrightarrow> 2 ^ k dvd i"
proof -
  from assms have "(2::int) ^ k dvd 2 ^ 32" by (rule le_imp_power_dvd)
  then have "(2::int) ^ k dvd 4294967296" by simp
  then show ?thesis by (rule dvd_mod_iff)
qed

lemma al_add: "al k x \<Longrightarrow> al k y \<Longrightarrow> k \<le> 32 \<Longrightarrow> al k (x + y)"
  by (simp add: al_def uint_word_ariths al_mod)

lemma al_diff: "al k x \<Longrightarrow> al k y \<Longrightarrow> k \<le> 32 \<Longrightarrow> al k (x - y)"
  by (simp add: al_def uint_word_ariths al_mod)

lemma al_mult: "al k x \<Longrightarrow> k \<le> 32 \<Longrightarrow> al k (x * y)"
  by (simp add: al_def uint_word_ariths al_mod)

lemma al_mult2: "al k x \<Longrightarrow> k \<le> 32 \<Longrightarrow> al k (y * x)"
  by (simp add: al_def uint_word_ariths al_mod)

lemma al_mono: "al k d \<Longrightarrow> j \<le> k \<Longrightarrow> al j d"
  unfolding al_def by (meson dvd_trans le_imp_power_dvd)

lemma al_0 [simp]: "al k 0"
  by (simp add: al_def)

lemma al_take_bit: "al k d \<longleftrightarrow> take_bit k d = 0"
proof -
  have "take_bit k d = 0 \<longleftrightarrow> uint (take_bit k d) = 0" by (rule uint_0_iff [symmetric])
  also have "uint (take_bit k d) = uint d mod 2 ^ k"
    by (subst unsigned_take_bit_eq) (simp add: take_bit_eq_mod)
  finally show ?thesis by (simp add: al_def dvd_eq_mod_eq_0)
qed

section \<open>Reads after writes\<close>

lemma word_off_ne [simp]:
  fixes a :: u32
  shows "a + 1 \<noteq> a" "a + 2 \<noteq> a" "a + 3 \<noteq> a" "a + 1 \<noteq> a + 2" "a + 1 \<noteq> a + 3" "a + 2 \<noteq> a + 3"
    "a + 2 \<noteq> a + 1" "a + 3 \<noteq> a + 1" "a + 3 \<noteq> a + 2"
    "a \<noteq> a + 1" "a \<noteq> a + 2" "a \<noteq> a + 3"
  by simp_all

lemma join32:
  "(ucast (ucast v :: u8) OR push_bit 8 (ucast (ucast (drop_bit 8 v) :: u8))
     OR push_bit 16 (ucast (ucast (drop_bit 16 v) :: u8))
     OR push_bit 24 (ucast (ucast (drop_bit 24 v) :: u8)) :: u32) = v" (is "?j = v")
proof (rule bit_word_eqI)
  fix n assume n: "n < LENGTH(32)"
  consider "n < 8" | "8 \<le> n" "n < 16" | "16 \<le> n" "n < 24" | "24 \<le> n" "n < 32"
    using n by fastforce
  then show "bit ?j n = bit v n"
    by cases (auto simp: bit_or_iff bit_push_bit_iff bit_ucast_iff bit_drop_bit_eq)
qed

lemma join16:
  "(ucast (ucast v :: u8) OR push_bit 8 (ucast (ucast (drop_bit 8 v) :: u8)) :: u16) = v"
  (is "?j = v")
proof (rule bit_word_eqI)
  fix n assume n: "n < LENGTH(16)"
  consider "n < 8" | "8 \<le> n" "n < 16" using n by fastforce
  then show "bit ?j n = bit v n"
    by cases (auto simp: bit_or_iff bit_push_bit_iff bit_ucast_iff bit_drop_bit_eq)
qed

lemma read32_write32_same [mem_simps, simp]: "read32 (write32 m a v) a = v"
  by (simp add: read32_def write32_def join32)

lemma read16_write16_same [mem_simps, simp]: "read16 (write16 m a v) a = v"
  by (simp add: read16_def write16_def join16)

lemma al2_cell:
  assumes "al 2 (b - a)" "a \<noteq> b" "d \<in> {0, 1, 2, 3}" "e \<in> {0, 1, 2, 3}"
  shows "b + d \<noteq> a + e"
proof
  assume "b + d = a + e"
  then have "b - a = e - d" by (simp add: algebra_simps)
  with assms(1) have "al 2 (e - d)" by simp
  moreover from \<open>b - a = e - d\<close> assms(2) have "e - d \<noteq> 0" by auto
  ultimately show False
    using assms(3,4) by (auto simp: al_def unsigned_minus_1_eq_mask mask_eq_exp_minus_1)
qed

lemma region_0 [simp]: "region p 0 = {}"
  by (simp add: region_def)

lemma region_mono: "n \<le> k \<Longrightarrow> region p n \<subseteq> region p k"
  by (auto simp: region_def)

lemma in_region_self [simp]: "p \<in> region p n \<longleftrightarrow> 0 < n"
  by (simp add: region_def)

lemma in_region_off: "i < 2 ^ 32 \<Longrightarrow> p + of_nat i \<in> region p n \<longleftrightarrow> i < n"
  by (simp add: region_def unsigned_of_nat take_bit_eq_mod)

lemma region_Suc:
  assumes "n < 2 ^ 32"
  shows "region p (Suc n) = insert p (region (p + 1) n)"
proof -
  have "unat (a - p) < Suc n \<longleftrightarrow> a = p \<or> unat (a - (p + 1)) < n" for a
  proof (cases "a = p")
    case False
    then have "unat (a - p - 1) = unat (a - p) - 1" "unat (a - p) \<noteq> 0"
      by (simp_all add: unat_minus_one unat_eq_0)
    with False show ?thesis by (auto simp: algebra_simps)
  qed simp
  then show ?thesis by (auto simp: region_def)
qed

lemma region_4: "region p 4 = {p, p + 1, p + 2, p + 3}"
proof -
  have "region p 4 = region p (Suc (Suc (Suc (Suc 0))))" by (simp add: numeral_eq_Suc)
  then show ?thesis by (simp only: region_Suc region_0) (simp add: region_Suc add.assoc)
qed

lemma cells_disjoint:
  assumes "al 2 (b - a)" "a \<noteq> b"
  shows "region a 4 \<inter> region b 4 = {}"
  using al2_cell [OF assms, of 0] al2_cell [OF assms, of 1] al2_cell [OF assms, of 2]
    al2_cell [OF assms, of 3] unfolding region_4 by fastforce

lemma write32_outside:
  "x \<notin> region a 4 \<Longrightarrow> write32 m a v x = m x"
  by (auto simp: write32_def region_4)

lemma read32_cong:
  "(\<And>x. x \<in> region a 4 \<Longrightarrow> m x = m' x) \<Longrightarrow> read32 m a = read32 m' a"
  by (simp add: read32_def region_4)

lemma read32_write32_disjoint:
  "region a 4 \<inter> region b 4 = {} \<Longrightarrow> read32 (write32 m a v) b = read32 m b"
  by (rule read32_cong) (auto intro: write32_outside)

lemma read32_write32_other [mem_simps]:
  "al 2 (b - a) \<Longrightarrow> a \<noteq> b \<Longrightarrow> read32 (write32 m a v) b = read32 m b"
  by (simp add: read32_write32_disjoint cells_disjoint)


section \<open>Byte blocks and strings in memory\<close>

lemma store_bytes_Nil [simp]: "store_bytes m p [] = m"
  by (simp add: store_bytes_def)

lemma store_bytes_outside: "a \<notin> region p (length xs) \<Longrightarrow> store_bytes m p xs a = m a"
  by (simp add: store_bytes_def region_def)

lemma unat_of_nat_u32 [simp]: "i < 4294967296 \<Longrightarrow> unat (of_nat i :: u32) = i"
  by (simp add: unsigned_of_nat take_bit_eq_mod)

lemma of_nat_unat_u32 [simp]: "of_nat (unat (w :: u32)) = w"
  by (metis of_nat_unat ucast_id)

lemma store_bytes_nth:
  "i < length xs \<Longrightarrow> length xs \<le> 2 ^ 32 \<Longrightarrow> store_bytes m p xs (p + of_nat i) = xs ! i"
  by (simp add: store_bytes_def)

lemma store_bytes_snoc:
  assumes "length xs < 2 ^ 32"
  shows "(store_bytes m p xs)(p + of_nat (length xs) := c) = store_bytes m p (xs @ [c])"
proof
  fix a
  have "a = p + of_nat (length xs) \<longleftrightarrow> unat (a - p) = length xs"
  proof
    assume "unat (a - p) = length xs"
    then have "a - p = of_nat (length xs)" by (metis of_nat_unat_u32)
    then show "a = p + of_nat (length xs)" by (simp add: algebra_simps)
  qed (use assms in simp)
  then show "((store_bytes m p xs)(p + of_nat (length xs) := c)) a = store_bytes m p (xs @ [c]) a"
    by (auto simp: store_bytes_def nth_append)
qed

lemma cstr_iff:
  "cstr m p s \<longleftrightarrow> 0 \<notin> set s \<and> (\<forall>i<length s. m (p + of_nat i) = s ! i)
     \<and> m (p + of_nat (length s)) = 0"
proof (induction s arbitrary: p)
  case (Cons c s)
  have "(\<forall>i<length (c # s). m (p + of_nat i) = (c # s) ! i)
    \<longleftrightarrow> m p = c \<and> (\<forall>i<length s. m (p + 1 + of_nat i) = s ! i)"
    by (auto simp: All_less_Suc2 algebra_simps)
  with Cons show ?case by (auto simp: algebra_simps)
qed simp

lemma cstr_nth: "cstr m p s \<Longrightarrow> i < length s \<Longrightarrow> m (p + of_nat i) = s ! i"
  by (simp add: cstr_iff)

lemma cstr_nul: "cstr m p s \<Longrightarrow> m (p + of_nat (length s)) = 0"
  by (simp add: cstr_iff)

lemma cstr_nonzero: "cstr m p s \<Longrightarrow> 0 \<notin> set s"
  by (simp add: cstr_iff)

lemma cstr_drop: "cstr m p s \<Longrightarrow> i \<le> length s \<Longrightarrow> cstr m (p + of_nat i) (drop i s)"
proof (induction i arbitrary: p s)
  case (Suc i)
  then obtain c s' where "s = c # s'" by (cases s) auto
  with Suc show ?case by (auto simp: add.assoc [symmetric])
qed simp

lemma cstr_unique: "cstr m p s \<Longrightarrow> cstr m p t \<Longrightarrow> s = t"
proof (induction s arbitrary: p t)
  case Nil
  then show ?case by (cases t) auto
next
  case (Cons c s)
  then show ?case by (cases t) auto
qed

lemma cstr_cong:
  assumes "length s < 2 ^ 32" "\<And>x. x \<in> region p (Suc (length s)) \<Longrightarrow> m x = m' x"
  shows "cstr m p s \<longleftrightarrow> cstr m' p s"
proof -
  have "m (p + of_nat i) = m' (p + of_nat i)" if "i \<le> length s" for i
    using that assms by (simp add: in_region_off)
  then show ?thesis by (simp add: cstr_iff)
qed

lemma cstr_store_bytes_self:
  assumes "0 \<notin> set s" "length s < 2 ^ 32"
  shows "cstr (store_bytes m p (s @ [0])) p s"
proof -
  have "store_bytes m p (s @ [0]) (p + of_nat i) = (s @ [0]) ! i" if "i \<le> length s" for i
    by (rule store_bytes_nth) (use that assms in simp_all)
  with assms(1) show ?thesis by (simp add: cstr_iff nth_append)
qed

lemma cstr_store_bytes_other:
  assumes "cstr m p s" "length s < 2 ^ 32"
    and "region p (Suc (length s)) \<inter> region q (length xs) = {}"
  shows "cstr (store_bytes m q xs) p s"
proof -
  have "store_bytes m q xs x = m x" if "x \<in> region p (Suc (length s))" for x
    using that assms(3) by (auto intro: store_bytes_outside)
  with assms show ?thesis using cstr_cong by metis
qed

lemma region_mono_disjoint:
  "region p n \<inter> region q k = {} \<Longrightarrow> n' \<le> n \<Longrightarrow> k' \<le> k \<Longrightarrow> region p n' \<inter> region q k' = {}"
  using region_mono [of n' n p] region_mono [of k' k q] by blast

lemma store_bytes_step:
  assumes "i < length s" "length s \<le> 2 ^ 32"
  shows "(store_bytes m p (take i s))(p + of_nat i := s ! i) = store_bytes m p (take (Suc i) s)"
proof -
  have "length (take i s) = i" using assms by simp
  then show ?thesis
    using store_bytes_snoc [of "take i s" m p "s ! i"] assms by (simp add: take_Suc_conv_app_nth)
qed

lemma cstr_store_bytes_le:
  assumes "cstr m p s" "length s < 2 ^ 32"
    and "region p (Suc (length s)) \<inter> region q k = {}" "length xs \<le> k"
  shows "cstr (store_bytes m q xs) p s"
  using assms by (intro cstr_store_bytes_other region_mono_disjoint [OF assms(3)]) auto

lemma ucast_u8_inj: "(ucast a :: u32) = ucast (b :: u8) \<longleftrightarrow> a = b"
proof
  assume "(ucast a :: u32) = ucast b"
  then have bits: "bit (ucast a :: u32) n = bit (ucast b :: u32) n" for n by simp
  have "bit a n = bit b n" if "n < 8" for n
    using bits [of n] that by (simp add: bit_ucast_iff)
  then show "a = b" by (intro bit_word_eqI) simp
qed simp

lemma word_sint_eqI: "sint x = sint y \<Longrightarrow> x = y"
  by (metis signed_word_eqI)

section \<open>Signed values\<close>

lemma u32_less [simp]: "unat (v :: u32) < 4294967296"
proof -
  have "int (unat v) < int 4294967296" using uint_lt2p [of v] by simp
  then show ?thesis by (simp only: of_nat_less_iff)
qed

lemma wrap_sint:
  assumes "n < 4294967296"
  shows "(int n + 2147483648) mod 4294967296 - 2147483648
    = (if n < 2147483648 then int n else int n - 4294967296)"
proof (cases "n < 2147483648")
  case False
  have "(int n + 2147483648) mod 4294967296 = (int n + 2147483648 - 4294967296) mod 4294967296"
    by (simp only: minus_mod_self2)
  also have "\<dots> = int n + 2147483648 - 4294967296"
    using assms False by (intro mod_pos_pos_trivial) simp_all
  finally show ?thesis using False by simp
qed simp

lemma sint_unat:
  fixes v :: u32
  shows "sint v = (if unat v < 2147483648 then int (unat v) else int (unat v) - 4294967296)"
proof -
  have "sint v = (uint v + 2147483648) mod 4294967296 - 2147483648"
    by (simp add: sint_uint signed_take_bit_eq_take_bit_shift take_bit_eq_mod)
  also have "uint v = int (unat v)" by simp
  also note wrap_sint [OF u32_less]
  finally show ?thesis .
qed

lemma sint_nonneg_iff: "0 \<le> sint (v :: u32) \<longleftrightarrow> unat v < 2147483648"
  using u32_less [of v] unfolding sint_unat by (simp only: split: if_split) linarith

lemma sint_nonneg: "0 \<le> sint (v :: u32) \<Longrightarrow> sint v = int (unat v)"
  by (simp only: sint_nonneg_iff) (simp add: sint_unat)

lemma c_div_nonneg:
  assumes "0 \<le> sint a" "0 \<le> sint b"
  shows "c_div a b = of_nat (unat a div unat b)"
proof -
  have "sgn (int x) * sgn (int y) * (\<bar>int x\<bar> div \<bar>int y\<bar>) = int (x div y)" for x y
    by (auto simp: sgn_if zdiv_int)
  then show ?thesis using assms by (simp only: c_div_def sint_nonneg of_int_of_nat_eq)
qed

lemma c_mod_nonneg:
  assumes "0 \<le> sint a" "0 \<le> sint b"
  shows "c_mod a b = of_nat (unat a mod unat b)"
proof -
  have "sgn (int x) * (\<bar>int x\<bar> mod \<bar>int y\<bar>) = int (x mod y)" for x y
    by (auto simp: sgn_if zmod_int)
  then show ?thesis using assms by (simp only: c_mod_def sint_nonneg of_int_of_nat_eq)
qed

lemma store_bytes_upd:
  assumes "i < length xs" "length xs \<le> 2 ^ 32"
  shows "(store_bytes m p xs)(p + of_nat i := c) = store_bytes m p (xs[i := c])"
proof
  fix a
  have "a = p + of_nat i \<longleftrightarrow> unat (a - p) = i"
  proof
    assume "unat (a - p) = i"
    then have "a - p = of_nat i" by (metis of_nat_unat_u32)
    then show "a = p + of_nat i" by (simp add: algebra_simps)
  qed (use assms in simp)
  then show "((store_bytes m p xs)(p + of_nat i := c)) a = store_bytes m p (xs[i := c]) a"
    using assms by (auto simp: store_bytes_def nth_list_update)
qed

lemma region_elim:
  assumes "x \<in> region p n"
  obtains d where "x = p + of_nat d" "d < n"
proof -
  have "x = p + of_nat (unat (x - p))" by simp
  with that assms show ?thesis unfolding region_def by blast
qed

lemma region_off:
  assumes "d + n \<le> k" "k < 2 ^ 32"
  shows "region (p + of_nat d) n \<subseteq> region p k"
proof
  fix x assume x: "x \<in> region (p + of_nat d) n"
  define y where "y = unat (x - (p + of_nat d))"
  have y: "y < n" using x by (simp add: region_def y_def)
  have "x - p = of_nat (d + y)" by (simp add: y_def algebra_simps)
  with y assms show "x \<in> region p k" by (simp add: region_def del: of_nat_add)
qed

lemma region_next:
  assumes "a + b \<le> 2 ^ 32"
  shows "region p a \<inter> region (p + of_nat a) b = {}"
proof -
  have "x \<notin> region (p + of_nat a) b" if x: "x \<in> region p a" for x
  proof
    assume "x \<in> region (p + of_nat a) b"
    then obtain e where e: "x = p + of_nat a + of_nat e" "e < b" by (rule region_elim)
    then have "x - p = of_nat (a + e)" by simp
    then have "unat (x - p) = a + e" using assms e(2) by (simp del: of_nat_add)
    then show False using x by (simp add: region_def)
  qed
  then show ?thesis by blast
qed

lemma unat_mod_u32: "n < 4294967296 \<Longrightarrow> unat (of_nat (n mod k) :: u32) = n mod k"
  by (rule unat_of_nat_u32) (meson le_less_trans mod_less_eq_dividend)

lemma unat_div_u32: "n < 4294967296 \<Longrightarrow> unat (of_nat (n div k) :: u32) = n div k"
  by (rule unat_of_nat_u32) (meson le_less_trans div_le_dividend)

lemma of_nat_neq: "i < j \<Longrightarrow> j < 2 ^ 32 \<Longrightarrow> (of_nat i :: u32) \<noteq> of_nat j"
proof
  assume "i < j" "j < 2 ^ 32" "(of_nat i :: u32) = of_nat j"
  then have "unat (of_nat i :: u32) = unat (of_nat j :: u32)" by simp
  with \<open>i < j\<close> \<open>j < 2 ^ 32\<close> show False by simp
qed

lemma region_apart:
  fixes p q :: u32
  assumes "unat p + a \<le> unat q" "unat q + b \<le> 2 ^ 32"
  shows "region p a \<inter> region q b = {}"
proof -
  have "x \<notin> region q b" if x: "x \<in> region p a" for x
  proof
    assume "x \<in> region q b"
    then obtain e where e: "x = q + of_nat e" "e < b" by (rule region_elim)
    from x obtain d where d: "x = p + of_nat d" "d < a" by (rule region_elim)
    have "(of_nat (unat p + d) :: u32) = of_nat (unat q + e)" using d(1) e(1) by simp
    moreover have "unat p + d < unat q + e" "unat q + e < 2 ^ 32" using assms d(2) e(2) by simp_all
    ultimately show False using of_nat_neq by blast
  qed
  then show ?thesis by blast
qed

lemmas region_apart2 = region_apart [THEN trans [OF Int_commute]]

lemma sint_neg_nat:
  assumes "j \<le> 2147483648"
  shows "sint (- of_nat j :: u32) = - int j"
proof (cases "j = 0")
  case False
  have "- of_nat j = (of_nat (4294967296 - j) :: u32)" using assms by (simp add: of_nat_diff)
  moreover have "unat (of_nat (4294967296 - j) :: u32) = 4294967296 - j"
    using False by (intro unat_of_nat_u32) simp
  ultimately have "unat (- of_nat j :: u32) = 4294967296 - j" by (simp only:)
  moreover from this assms False have "\<not> unat (- of_nat j :: u32) < 2147483648" by simp
  ultimately show ?thesis using assms by (simp add: sint_unat)
qed simp

lemma al_of_nat4: "al 2 (of_nat (4 * j))"
proof -
  have "al 2 4" by (simp add: al_def)
  then show ?thesis unfolding of_nat_mult of_nat_numeral by (rule al_mult) simp
qed

text \<open>A 16-bit value put below a shifted one.\<close>

lemma push_or_add: "push_bit 16 x OR ucast b = 0x10000 * x + (ucast b :: 'a :: len word)" for b :: u16
proof -
  have "push_bit 16 x AND (ucast b :: 'a word) = 0"
    by (rule bit_word_eqI) (auto simp: bit_simps dest: bit_imp_le_length)
  then have "push_bit 16 x OR ucast b = push_bit 16 x + (ucast b :: 'a word)"
    by (rule disjunctive_add_eq_or [symmetric])
  then show ?thesis by (simp add: push_bit_eq_mult mult.commute)
qed

end
