(* ===== verification/Bitmap.thy ===== *)
theory Bitmap
  imports Prelude
begin

text \<open>
  The allocation bitmaps of \<open>mm/mm.c\<close> and \<open>mm/paging.c\<close>: an array of 32-bit words in memory,
  one bit per block, set for a block in use.  Both files repeat the same three routines over
  their own array; this theory holds the routines over an array at \<open>bm\<close>, the view \<open>used_at\<close>
  of one block's bit, and the interface \<open>frame_allocator\<close> that both allocators offer to the
  virtual memory manager.
\<close>

section \<open>The routines\<close>

definition bm_word :: "u32 \<Rightarrow> nat \<Rightarrow> u32" where
  "bm_word bm i = bm + 4 * of_nat i"

definition bm_set :: "mem \<Rightarrow> u32 \<Rightarrow> u32 \<Rightarrow> mem" where
  "bm_set m bm b = (let a = bm + 4 * c_div b 32
     in write32 m a (read32 m a OR shl1 (c_mod b 32)))"

definition bm_unset :: "mem \<Rightarrow> u32 \<Rightarrow> u32 \<Rightarrow> mem" where
  "bm_unset m bm b = (let a = bm + 4 * c_div b 32
     in write32 m a (read32 m a AND NOT (shl1 (c_mod b 32))))"

fun bm_scan :: "mem \<Rightarrow> u32 \<Rightarrow> nat list \<Rightarrow> u32" where
  "bm_scan m bm [] = - 1"
| "bm_scan m bm (i # is) =
     (let w = read32 m (bm_word bm i) in
      if w \<noteq> 0xFFFFFFFF then
        (case find (\<lambda>j. w AND push_bit j 1 = 0) [0..<32] of
           Some j \<Rightarrow> of_nat (i * 32 + j)
         | None \<Rightarrow> bm_scan m bm is)
      else bm_scan m bm is)"

section \<open>One block's bit\<close>

definition used_at :: "mem \<Rightarrow> u32 \<Rightarrow> nat \<Rightarrow> bool" where
  "used_at m bm n = bit (read32 m (bm_word bm (n div 32))) (n mod 32)"

lemma bm_word_inj:
  assumes "i < 2 ^ 30" "j < 2 ^ 30"
  shows "bm_word bm i = bm_word bm j \<longleftrightarrow> i = j"
proof
  assume "bm_word bm i = bm_word bm j"
  then have "(of_nat (4 * i) :: u32) = of_nat (4 * j)" by (simp add: bm_word_def)
  then have "unat (of_nat (4 * i) :: u32) = unat (of_nat (4 * j) :: u32)" by (rule arg_cong)
  moreover have "4 * i < 4294967296" "4 * j < 4294967296" using assms by simp_all
  ultimately have "4 * i = 4 * j" by (simp only: unat_of_nat_u32)
  then show "i = j" by simp
qed simp

lemma bm_word_al: "al 2 (bm_word bm i - bm_word bm j)"
proof -
  have "al 2 4" by (simp add: al_def)
  then have "al 2 (4 * of_nat i - 4 * of_nat j)" by (intro al_diff al_mult) simp_all
  then show ?thesis by (simp add: bm_word_def)
qed

lemma read32_bm_word:
  "i < 2 ^ 30 \<Longrightarrow> j < 2 ^ 30 \<Longrightarrow>
   read32 (write32 m (bm_word bm j) v) (bm_word bm i) = (if i = j then v else read32 m (bm_word bm i))"
  using bm_word_inj [of i j bm] bm_word_al [of bm i j]
  by (auto simp: read32_write32_other)

lemma bm_index:
  assumes "n < 2 ^ 31"
  shows "bm + 4 * c_div (of_nat n) 32 = bm_word bm (n div 32)" "c_mod (of_nat n) 32 = of_nat (n mod 32)"
proof -
  have "unat (of_nat n :: u32) = n" using assms by simp
  moreover from this assms have "0 \<le> sint (of_nat n :: u32)" by (simp add: sint_nonneg_iff)
  ultimately show "bm + 4 * c_div (of_nat n) 32 = bm_word bm (n div 32)"
    "c_mod (of_nat n) 32 = of_nat (n mod 32)"
    by (simp_all add: c_div_nonneg c_mod_nonneg bm_word_def)
qed

lemma shl1_small: "k < 32 \<Longrightarrow> shl1 (of_nat k) = push_bit k 1"
proof -
  assume k: "k < 32"
  have "(of_nat k :: u32) AND 31 = take_bit 5 (of_nat k)"
    by (simp add: take_bit_eq_mask mask_eq_exp_minus_1)
  also have "unat (take_bit 5 (of_nat k :: u32)) = k"
    using k by (subst unsigned_take_bit_eq) (simp add: take_bit_eq_mod)
  finally show ?thesis by (simp add: shl1_def)
qed

lemma used_at_bm_set:
  assumes "n < 2 ^ 31" "k < 2 ^ 31"
  shows "used_at (bm_set m bm (of_nat k)) bm n \<longleftrightarrow> n = k \<or> used_at m bm n"
proof -
  have "n div 32 < 2 ^ 30" "k div 32 < 2 ^ 30" using assms by simp_all
  moreover have "n div 32 = k div 32 \<and> n mod 32 = k mod 32 \<longleftrightarrow> n = k"
    by (metis div_mult_mod_eq)
  ultimately show ?thesis using assms
    by (auto simp: used_at_def bm_set_def bm_index Let_def read32_bm_word shl1_small
        bit_or_iff bit_exp_iff)
qed

lemma used_at_bm_unset:
  assumes "n < 2 ^ 31" "k < 2 ^ 31"
  shows "used_at (bm_unset m bm (of_nat k)) bm n \<longleftrightarrow> n \<noteq> k \<and> used_at m bm n"
proof -
  have "n div 32 < 2 ^ 30" "k div 32 < 2 ^ 30" using assms by simp_all
  moreover have "n div 32 = k div 32 \<and> n mod 32 = k mod 32 \<longleftrightarrow> n = k"
    by (metis div_mult_mod_eq)
  ultimately show ?thesis using assms
    by (auto simp: used_at_def bm_unset_def bm_index Let_def read32_bm_word shl1_small
        bit_and_iff bit_not_iff bit_exp_iff)
qed

lemma bm_word_region:
  assumes "i < N" "N \<le> 2 ^ 30"
  shows "region (bm_word bm i) 4 \<subseteq> region bm (4 * N)"
proof
  fix x assume "x \<in> region (bm_word bm i) 4"
  then obtain d where d: "x = bm_word bm i + of_nat d" "d < 4"
    unfolding region_def by (metis (no_types, lifting) add.commute diff_add_cancel mem_Collect_eq of_nat_unat_u32)
  then have "x - bm = of_nat (4 * i + d)" by (simp add: bm_word_def)
  moreover have "4 * i + d < 4 * N" using assms d(2) by simp
  ultimately show "x \<in> region bm (4 * N)" using assms(2) by (simp add: region_def del: of_nat_add of_nat_mult)
qed

lemma bm_update_outside:
  assumes "x \<notin> region bm (4 * N)" "k < 32 * N" "N \<le> 2 ^ 26"
  shows "bm_set m bm (of_nat k) x = m x" "bm_unset m bm (of_nat k) x = m x"
proof -
  have "k div 32 < N" "k < 2 ^ 31" using assms by (simp_all add: less_mult_imp_div_less mult.commute)
  moreover from this assms bm_word_region [of "k div 32" N bm] have "x \<notin> region (bm_word bm (k div 32)) 4"
    by auto
  ultimately show "bm_set m bm (of_nat k) x = m x" "bm_unset m bm (of_nat k) x = m x"
    using bm_index(1) [of k bm] by (simp_all add: bm_set_def bm_unset_def write32_outside Let_def)
qed

lemma used_at_cong:
  assumes "\<And>x. x \<in> region bm (4 * N) \<Longrightarrow> m x = m' x" "n < 32 * N" "N \<le> 2 ^ 26"
  shows "used_at m bm n = used_at m' bm n"
proof -
  have "n div 32 < N" using assms(2) by (simp add: less_mult_imp_div_less mult.commute)
  with assms(1,3) bm_word_region [of "n div 32" N bm]
  have "read32 m (bm_word bm (n div 32)) = read32 m' (bm_word bm (n div 32))"
    by (intro read32_cong) auto
  then show ?thesis by (simp add: used_at_def)
qed

section \<open>The search\<close>

lemma full_word: "(\<forall>j<32. bit (w :: u32) j) \<longleftrightarrow> w = 0xFFFFFFFF"
proof -
  have "(\<forall>j<32. bit w j) \<longleftrightarrow> w = - 1" by (auto simp: bit_eq_iff)
  also have "- 1 = (0xFFFFFFFF :: u32)" by simp
  finally show ?thesis .
qed

lemma and_push1: "j < 32 \<Longrightarrow> (w :: u32) AND push_bit j 1 = 0 \<longleftrightarrow> \<not> bit w j"
proof -
  assume j: "j < 32"
  have "bit (w AND push_bit j 1) n \<longleftrightarrow> n = j \<and> bit w j" for n
    using j by (auto simp: bit_and_iff bit_exp_iff)
  then show ?thesis
    using bit_eq_iff [of "w AND push_bit j 1" 0] j by simp
qed

definition first_unused :: "mem \<Rightarrow> u32 \<Rightarrow> nat list \<Rightarrow> u32" where
  "first_unused m bm ns = (case find (\<lambda>n. \<not> used_at m bm n) ns of
     Some n \<Rightarrow> of_nat n | None \<Rightarrow> - 1)"

lemma find_append:
  "find P (xs @ ys) = (case find P xs of None \<Rightarrow> find P ys | Some x \<Rightarrow> Some x)"
  by (induction xs) auto

lemma find_map_shift: "find P (map f xs) = map_option f (find (P \<circ> f) xs)"
  by (induction xs) auto

lemma find_word:
  "find (\<lambda>n. \<not> used_at m bm n) [32 * i..<32 * Suc i]
   = map_option (\<lambda>j. i * 32 + j) (find (\<lambda>j. read32 m (bm_word bm i) AND push_bit j 1 = 0) [0..<32])"
proof -
  have "[32 * i..<32 * Suc i] = map (\<lambda>j. i * 32 + j) [0..<32]"
    using map_add_upt [of "32 * i" 32] by (simp add: add.commute mult.commute)
  moreover have "find ((\<lambda>n. \<not> used_at m bm n) \<circ> (\<lambda>j. i * 32 + j)) [0..<32]
      = find (\<lambda>j. read32 m (bm_word bm i) AND push_bit j 1 = 0) [0..<32]"
    by (rule find_cong) (auto simp: used_at_def and_push1 [symmetric])
  ultimately show ?thesis by (simp add: find_map_shift)
qed

lemma bm_scan_eq:
  "lo \<le> hi \<Longrightarrow> bm_scan m bm [lo..<hi] = first_unused m bm [32 * lo..<32 * hi]"
proof (induction "hi - lo" arbitrary: lo)
  case (Suc k)
  then have lo: "lo < hi" by simp
  let ?w = "read32 m (bm_word bm lo)"
  have split: "[32 * lo..<32 * hi] = [32 * lo..<32 * Suc lo] @ [32 * Suc lo..<32 * hi]"
    using lo upt_add_eq_append [of "32 * lo" "32 * Suc lo" "32 * hi - 32 * Suc lo"] by simp
  have full: "find (\<lambda>j. ?w AND push_bit j 1 = 0) [0..<32] = None" if "?w = 0xFFFFFFFF"
    using that by (auto simp: find_None_iff and_push1 full_word [symmetric] simp del: push_bit_of_1)
  have "bm_scan m bm [lo..<hi] = (case find (\<lambda>j. ?w AND push_bit j 1 = 0) [0..<32] of
      Some j \<Rightarrow> of_nat (lo * 32 + j) | None \<Rightarrow> bm_scan m bm [Suc lo..<hi])"
    using lo full by (cases "?w = 0xFFFFFFFF") (simp_all add: upt_conv_Cons Let_def split: option.split)
  moreover have "bm_scan m bm [Suc lo..<hi] = first_unused m bm [32 * Suc lo..<32 * hi]"
    using Suc lo by (intro Suc.hyps) auto
  ultimately show ?case
    by (simp only: first_unused_def split find_append find_word) (simp split: option.split)
qed (simp add: first_unused_def)

lemma first_unused_Some:
  assumes "n \<in> set ns" "\<not> used_at m bm n" "sorted ns" "\<forall>k \<in> set ns. k < 2 ^ 31"
  shows "\<exists>k \<in> set ns. first_unused m bm ns = of_nat k \<and> \<not> used_at m bm k
    \<and> (\<forall>j \<in> set ns. j < k \<longrightarrow> used_at m bm j)"
  using assms
proof (induction ns)
  case (Cons a ns)
  show ?case
  proof (cases "used_at m bm a")
    case True
    with Cons show ?thesis by (auto simp: first_unused_def)
  next
    case False
    with Cons.prems show ?thesis by (intro bexI [of _ a]) (auto simp: first_unused_def)
  qed
qed simp

lemma first_unused_None:
  "(\<And>n. n \<in> set ns \<Longrightarrow> used_at m bm n) \<Longrightarrow> first_unused m bm ns = - 1"
  by (induction ns) (simp_all add: first_unused_def)

section \<open>The interface of a frame allocator\<close>

text \<open>
  What the memory manager relies on: while some frame is free, an allocation returns the address
  of a free frame, marks that frame and no other, and keeps the allocator's invariant.
\<close>

fun alloc_n :: "('s \<Rightarrow> u32 \<times> 's) \<Rightarrow> nat \<Rightarrow> 's \<Rightarrow> u32 list \<times> 's" where
  "alloc_n alloc 0 s = ([], s)"
| "alloc_n alloc (Suc k) s = (let (a, s) = alloc s; (as, s) = alloc_n alloc k s in (a # as, s))"

locale frame_allocator =
  fixes alloc :: "'s \<Rightarrow> u32 \<times> 's"
    and used :: "'s \<Rightarrow> nat \<Rightarrow> bool"
    and frames :: "'s \<Rightarrow> nat set"
    and inv :: "'s \<Rightarrow> bool"
    and addr :: "nat \<Rightarrow> u32"
  assumes frames_finite: "inv s \<Longrightarrow> finite (frames s)"
    and addr_inj: "inv s \<Longrightarrow> inj_on addr (frames s)"
    and alloc_free: "inv s \<Longrightarrow> n \<in> frames s \<Longrightarrow> \<not> used s n \<Longrightarrow>
      \<exists>k \<in> frames s. \<not> used s k \<and> fst (alloc s) = addr k
        \<and> (\<forall>j \<in> frames s. used (snd (alloc s)) j \<longleftrightarrow> j = k \<or> used s j)"
    and alloc_inv: "inv s \<Longrightarrow> n \<in> frames s \<Longrightarrow> \<not> used s n \<Longrightarrow>
      inv (snd (alloc s)) \<and> frames (snd (alloc s)) = frames s"
begin

lemma alloc_fresh:
  assumes "inv s" "n \<in> frames s" "\<not> used s n"
  obtains k where "k \<in> frames s" "\<not> used s k" "fst (alloc s) = addr k"
    "\<And>j. j \<in> frames s \<Longrightarrow> used (snd (alloc s)) j \<longleftrightarrow> j = k \<or> used s j"
    "inv (snd (alloc s))" "frames (snd (alloc s)) = frames s"
  using alloc_free [OF assms] alloc_inv [OF assms] by blast

lemma alloc_n_distinct:
  assumes "inv s" "k \<le> card {n \<in> frames s. \<not> used s n}"
  shows "\<exists>ks. length ks = k \<and> distinct ks \<and> set ks \<subseteq> {n \<in> frames s. \<not> used s n}
    \<and> fst (alloc_n alloc k s) = List.map addr ks \<and> distinct (List.map addr ks)
    \<and> inv (snd (alloc_n alloc k s))"
  using assms
proof (induction k arbitrary: s)
  case (Suc k)
  let ?F = "{n \<in> frames s. \<not> used s n}"
  have fin: "finite ?F" using frames_finite [OF Suc.prems(1)] by simp
  from Suc.prems(2) have "0 < card ?F" by simp
  then have "?F \<noteq> {}" by (metis card.empty less_irrefl)
  then obtain n where "n \<in> frames s" "\<not> used s n" by auto
  then obtain q where q: "q \<in> frames s" "\<not> used s q" "fst (alloc s) = addr q"
      "\<And>j. j \<in> frames s \<Longrightarrow> used (snd (alloc s)) j \<longleftrightarrow> j = q \<or> used s j"
      "inv (snd (alloc s))" "frames (snd (alloc s)) = frames s"
    by (rule alloc_fresh [OF Suc.prems(1)]) blast
  let ?s' = "snd (alloc s)"
  have F': "{n \<in> frames ?s'. \<not> used ?s' n} = ?F - {q}" using q by auto
  have "k \<le> card (?F - {q})" using Suc.prems(2) fin q(1,2) by simp
  then obtain ks where ks: "length ks = k" "distinct ks" "set ks \<subseteq> ?F - {q}"
      "fst (alloc_n alloc k ?s') = List.map addr ks" "inv (snd (alloc_n alloc k ?s'))"
    using Suc.IH [OF q(5)] unfolding F' by blast
  have "distinct (List.map addr (q # ks))"
    using ks q addr_inj [OF Suc.prems(1)]
    by (auto simp: distinct_map intro: inj_on_subset dest: inj_onD)
  with ks q show ?case
    by (intro exI [of _ "q # ks"]) (auto simp: case_prod_unfold Let_def)
qed simp

end

end
