(* ===== verification/Cstring.thy ===== *)
theory Cstring
  imports Prelude
begin

text \<open>
  The kernel's string library, \<open>lib/string.c\<close>, over linear memory.  Every function takes the
  memory and the pointers it is called with; those that write return the new memory.  A loop
  that runs until it meets a NUL byte is a partial function: \<open>None\<close> where no NUL is ever met.
  Characters are signed, as on the target.  \<open>itoa\<close> is \<open>None\<close> where the source indexes outside
  its digit table.
\<close>

section \<open>The functions of lib/string.c\<close>

partial_function (option) strlen_from :: "mem \<Rightarrow> u32 \<Rightarrow> nat \<Rightarrow> nat option" where
  "strlen_from m str i =
     (if m (str + of_nat i) \<noteq> 0 then strlen_from m str (i + 1) else Some i)"

definition strlen :: "mem \<Rightarrow> u32 \<Rightarrow> nat option" where
  "strlen m str = strlen_from m str 0"

partial_function (option) strcpy_from :: "u32 \<Rightarrow> u32 \<Rightarrow> nat \<Rightarrow> mem \<Rightarrow> mem option" where
  "strcpy_from str format i m = do {
     n \<leftarrow> strlen m format;
     if i < n then strcpy_from str format (i + 1) (m(str + of_nat i := m (format + of_nat i)))
     else Some (m(str + of_nat i := 0))
   }"

definition strcpy :: "mem \<Rightarrow> u32 \<Rightarrow> u32 \<Rightarrow> mem option" where
  "strcpy m str format = strcpy_from str format 0 m"

fun strncpy_loop :: "nat \<Rightarrow> u32 \<Rightarrow> u32 \<Rightarrow> mem \<Rightarrow> mem" where
  "strncpy_loop 0 str format m = m(str := 0)"
| "strncpy_loop (Suc len) str format m =
     (if m format \<noteq> 0 then strncpy_loop len (str + 1) (format + 1) (m(str := m format))
      else m(str := 0))"

definition strncpy :: "mem \<Rightarrow> u32 \<Rightarrow> u32 \<Rightarrow> u32 \<Rightarrow> mem" where
  "strncpy m str format len = strncpy_loop (unat len) str format m"

partial_function (option) strcmp :: "mem \<Rightarrow> u32 \<Rightarrow> u32 \<Rightarrow> u32 option" where
  "strcmp m str1 str2 =
     (if m str1 \<noteq> 0 then
        if m str2 = 0 \<or> sint (m str1) > sint (m str2) then Some 1
        else if sint (m str2) > sint (m str1) then Some (- 1)
        else strcmp m (str1 + 1) (str2 + 1)
      else if m str2 \<noteq> 0 then Some (- 1)
      else Some 0)"

fun strncmp_loop :: "nat \<Rightarrow> mem \<Rightarrow> u32 \<Rightarrow> u32 \<Rightarrow> u32" where
  "strncmp_loop 0 m str1 str2 = 0"
| "strncmp_loop (Suc len) m str1 str2 =
     (if m str1 \<noteq> m str2 then ucast (m str1) - ucast (m str2)
      else strncmp_loop len m (str1 + 1) (str2 + 1))"

definition strncmp :: "mem \<Rightarrow> u32 \<Rightarrow> u32 \<Rightarrow> u32 \<Rightarrow> u32" where
  "strncmp m str1 str2 len = strncmp_loop (unat len) m str1 str2"

definition memset :: "mem \<Rightarrow> u32 \<Rightarrow> u32 \<Rightarrow> u32 \<Rightarrow> mem" where
  "memset m start val len = (\<lambda>a. if unat (a - start) < unat len then ucast val else m a)"

fun movsb :: "nat \<Rightarrow> u32 \<Rightarrow> u32 \<Rightarrow> mem \<Rightarrow> mem" where
  "movsb 0 dest src m = m"
| "movsb (Suc n) dest src m = movsb n (dest + 1) (src + 1) (m(dest := m src))"

definition memcpy :: "mem \<Rightarrow> u32 \<Rightarrow> u32 \<Rightarrow> u32 \<Rightarrow> mem" where
  "memcpy m dest src sz = movsb (unat sz) dest src m"

definition tokens :: "u8 list" where
  "tokens = lit ''0123456789ABCDEF'' @ [0]"

partial_function (option) itoa_digits :: "u32 \<Rightarrow> u32 \<Rightarrow> u32 \<Rightarrow> nat \<Rightarrow> mem \<Rightarrow> (nat \<times> mem) option" where
  "itoa_digits str base val i m =
     (if base = 0 then None
      else let d = sint (c_mod val base) in
        if d < 0 \<or> d > 16 then None
        else let m' = m(str + of_nat i := tokens ! nat d); val' = c_div val base in
          if val' \<noteq> 0 then itoa_digits str base val' (i + 1) m' else Some (i + 1, m'))"

function itoa_reverse :: "u32 \<Rightarrow> nat \<Rightarrow> nat \<Rightarrow> mem \<Rightarrow> mem" where
  "itoa_reverse str n i m =
     (if n < i then
        let c = m (str + of_nat n) in
        itoa_reverse str (n + 1) (i - 1)
          ((m(str + of_nat n := m (str + of_nat i)))(str + of_nat i := c))
      else m)"
  by pat_completeness auto
termination
  by (relation "measure (\<lambda>(str, n, i, m). i - n)") auto

declare itoa_reverse.simps [simp del]

definition itoa :: "mem \<Rightarrow> u32 \<Rightarrow> u32 \<Rightarrow> u32 \<Rightarrow> mem option" where
  "itoa m val str base = do {
     let flag = sint val < 0;
     let val = (if flag then - val else val);
     (i, m) \<leftarrow> itoa_digits str base val 0 m;
     let (i, m) = (if flag then (i + 1, m(str + of_nat i := 45)) else (i, m));
     let m = m(str + of_nat i := 0);
     Some (itoa_reverse str 0 (i - 1) m)
   }"

partial_function (option) atoi_from :: "mem \<Rightarrow> u32 \<Rightarrow> u32 \<Rightarrow> u32 option" where
  "atoi_from m str n =
     (if m str \<noteq> 0 then
        atoi_from m (str + 1) (push_bit 3 n + push_bit 1 n + scast (m str) - 48)
      else Some n)"

definition atoi :: "mem \<Rightarrow> u32 \<Rightarrow> u32 option" where
  "atoi m str = atoi_from m str 0"

definition char_at :: "mem \<Rightarrow> u32 \<Rightarrow> u32 \<Rightarrow> u8 option" where
  "char_at m str pos = do {
     n \<leftarrow> strlen m str;
     if sint pos < int n then Some (m (str + pos)) else Some 0
   }"

partial_function (option) case_from :: "u8 \<Rightarrow> u32 \<Rightarrow> u32 \<Rightarrow> nat \<Rightarrow> mem \<Rightarrow> mem option" where
  "case_from delta str format i m = do {
     n \<leftarrow> strlen m format;
     if i < n then
       case_from delta str format (i + 1) (m(str + of_nat i := m (format + of_nat i) + delta))
     else Some (m(str + of_nat (i + 1) := 0))
   }"

definition to_uppercase :: "mem \<Rightarrow> u32 \<Rightarrow> u32 \<Rightarrow> mem option" where
  "to_uppercase m str format = case_from (- 32) str format 0 m"

definition to_lowercase :: "mem \<Rightarrow> u32 \<Rightarrow> u32 \<Rightarrow> mem option" where
  "to_lowercase m str format = case_from 32 str format 0 m"

definition toupper :: "u8 \<Rightarrow> u8" where
  "toupper c = c - 32"

definition tolower :: "u8 \<Rightarrow> u8" where
  "tolower c = c + 32"

partial_function (option) vs_append :: "u32 \<Rightarrow> u32 \<Rightarrow> nat \<Rightarrow> nat \<Rightarrow> mem \<Rightarrow> (nat \<times> mem) option" where
  "vs_append str src k j m = do {
     n \<leftarrow> strlen m src;
     if k < n then vs_append str src (k + 1) (j + 1) (m(str + of_nat j := m (src + of_nat k)))
     else Some (j, m)
   }"

definition vs_number :: "u32 \<Rightarrow> u32 \<Rightarrow> u32 \<Rightarrow> u32 list \<Rightarrow> nat \<Rightarrow> mem
    \<Rightarrow> (nat \<times> u32 list \<times> mem) option" where
  "vs_number str buf base args j m = (case args of
      [] \<Rightarrow> None
    | a # args \<Rightarrow> do {
        m \<leftarrow> itoa m a buf base;
        (j, m) \<leftarrow> vs_append str buf 0 j m;
        Some (j, args, m)
      })"

definition vs_conv :: "u32 \<Rightarrow> u32 \<Rightarrow> u8 \<Rightarrow> u32 list \<Rightarrow> nat \<Rightarrow> mem
    \<Rightarrow> (nat \<times> u32 list \<times> mem) option" where
  "vs_conv str buf c args j m =
     (if c = of_char CHR ''c'' then
        (case args of [] \<Rightarrow> None | a # args \<Rightarrow> Some (j + 1, args, m(str + of_nat j := ucast a)))
      else if c = of_char CHR ''d'' \<or> c = of_char CHR ''i'' then vs_number str buf 10 args j m
      else if c = of_char CHR ''f'' then Some (j, args, m)
      else if c = of_char CHR ''s'' then
        (case args of [] \<Rightarrow> None
         | a # args \<Rightarrow> do { (j, m) \<leftarrow> vs_append str a 0 j m; Some (j, args, m) })
      else if c = of_char CHR ''x'' then vs_number str buf 16 args j m
      else if c = of_char CHR ''b'' then vs_number str buf 2 args j m
      else Some (j, args, m))"

partial_function (option) vs_loop :: "u32 \<Rightarrow> u32 \<Rightarrow> u32 \<Rightarrow> nat \<Rightarrow> nat \<Rightarrow> u32 list \<Rightarrow> mem \<Rightarrow> mem option"
where
  "vs_loop str format buf i j args m = do {
     n \<leftarrow> strlen m format;
     if i < n then
       if m (format + of_nat i) = of_char CHR ''%'' then do {
         (j, args, m) \<leftarrow> vs_conv str buf (m (format + of_nat (i + 1))) args j m;
         vs_loop str format buf (i + 2) j args m
       }
       else vs_loop str format buf (i + 1) (j + 1) args (m(str + of_nat j := m (format + of_nat i)))
     else Some (m(str + of_nat j := 0))
   }"

definition vsprintf :: "mem \<Rightarrow> u32 \<Rightarrow> u32 \<Rightarrow> u32 list \<Rightarrow> u32 \<Rightarrow> mem option" where
  "vsprintf m str format args buf = vs_loop str format buf 0 0 args m"

partial_function (option) strchr :: "mem \<Rightarrow> u32 \<Rightarrow> u32 \<Rightarrow> u32 option" where
  "strchr m str c =
     (if m str \<noteq> 0 then if scast (m str) = c then Some str else strchr m (str + 1) c
      else Some 0)"

partial_function (option) strend :: "mem \<Rightarrow> u32 \<Rightarrow> u32 option" where
  "strend m dest = (if m dest \<noteq> 0 then strend m (dest + 1) else Some dest)"

partial_function (option) strcat_copy :: "u32 \<Rightarrow> u32 \<Rightarrow> mem \<Rightarrow> mem option" where
  "strcat_copy dest src m =
     (let c = m src; m' = m(dest := c)
      in if c \<noteq> 0 then strcat_copy (dest + 1) (src + 1) m' else Some m')"

definition strcat :: "mem \<Rightarrow> u32 \<Rightarrow> u32 \<Rightarrow> mem option" where
  "strcat m dest src = do { e \<leftarrow> strend m dest; strcat_copy e src m }"

section \<open>Length, copy and concatenation\<close>

lemma strlen_from_cstr: "cstr m (str + of_nat i) s \<Longrightarrow> strlen_from m str i = Some (i + length s)"
proof (induction s arbitrary: i)
  case (Cons c s)
  then have "strlen_from m str (i + 1) = Some (i + 1 + length s)"
    by (simp add: algebra_simps)
  with Cons.prems show ?case by (simp add: strlen_from.simps [of m str i])
qed (simp add: strlen_from.simps)

lemma strlen_cstr [simp]: "cstr m str s \<Longrightarrow> strlen m str = Some (length s)"
  using strlen_from_cstr [of m str 0 s] by (simp add: strlen_def)

lemma strlen_from_Some: "strlen_from m str i = Some n \<Longrightarrow> \<exists>s. cstr m (str + of_nat i) s \<and> n = i + length s"
proof (rule strlen_from.raw_induct [where P = "\<lambda>m str i n. \<exists>s. cstr m (str + of_nat i) s \<and> n = i + length s"])
  fix f :: "mem \<Rightarrow> u32 \<Rightarrow> nat \<Rightarrow> nat option" and m str i n
  assume IH: "\<And>m str i n. f m str i = Some n \<Longrightarrow> \<exists>s. cstr m (str + of_nat i) s \<and> n = i + length s"
    and eq: "(if m (str + of_nat i) \<noteq> 0 then f m str (i + 1) else Some i) = Some n"
  show "\<exists>s. cstr m (str + of_nat i) s \<and> n = i + length s"
  proof (cases "m (str + of_nat i) = 0")
    case True
    with eq show ?thesis by (intro exI [of _ "[]"]) simp
  next
    case False
    with eq IH [of m str "i + 1" n] obtain s where "cstr m (str + of_nat i + 1) s" "n = i + 1 + length s"
      by (auto simp: algebra_simps)
    with False show ?thesis by (intro exI [of _ "m (str + of_nat i) # s"]) simp
  qed
qed assumption

lemma strlen_Some_iff: "strlen m str = Some n \<longleftrightarrow> (\<exists>s. cstr m str s \<and> n = length s)"
  using strlen_from_Some [of m str 0 n] by (auto simp: strlen_def [symmetric])

lemma strcpy_from_cstr:
  assumes s: "cstr m src s" "Suc (length s) < 2 ^ 32"
    and dis: "region src (Suc (length s)) \<inter> region dst (Suc (length s)) = {}"
    and i: "i \<le> length s"
  shows "strcpy_from dst src i (store_bytes m dst (take i s)) = Some (store_bytes m dst (s @ [0]))"
  using i
proof (induction "length s - i" arbitrary: i)
  case 0
  have "cstr (store_bytes m dst s) src s"
    using s dis by (intro cstr_store_bytes_le [where k = "Suc (length s)"]) auto
  with 0 s show ?case
    using store_bytes_snoc [of s m dst 0] by (simp add: strcpy_from.simps [of dst src i])
next
  case (Suc n)
  then have i: "i < length s" by simp
  let ?m = "store_bytes m dst (take i s)"
  have "cstr ?m src s"
    using s dis i by (intro cstr_store_bytes_le [where k = "Suc (length s)"]) auto
  moreover have "?m(dst + of_nat i := s ! i) = store_bytes m dst (take (Suc i) s)"
    using i s by (intro store_bytes_step) simp_all
  moreover have "?m (src + of_nat i) = s ! i"
    using \<open>cstr ?m src s\<close> i by (rule cstr_nth)
  ultimately show ?case
    using Suc.hyps(1) [of "Suc i"] Suc.hyps(2) i by (simp add: strcpy_from.simps [of dst src i])
qed

lemma strcpy_cstr:
  assumes "cstr m src s" "Suc (length s) < 2 ^ 32"
    "region src (Suc (length s)) \<inter> region dst (Suc (length s)) = {}"
  shows "strcpy m dst src = Some (store_bytes m dst (s @ [0]))"
  using strcpy_from_cstr [OF assms, of 0] by (simp add: strcpy_def)


lemma strncpy_loop_cstr:
  assumes "cstr m0 src s" "Suc (length s) < 2 ^ 32"
    "region src (Suc (length s)) \<inter> region dst (Suc (length s)) = {}" "i \<le> length s" 
  shows "strncpy_loop n (dst + of_nat i) (src + of_nat i) (store_bytes m0 dst (take i s))
    = store_bytes m0 dst (take (i + n) s @ [0])"
  using assms(4)
proof (induction n arbitrary: i)
  case 0
  then show ?case using store_bytes_snoc [of "take i s" m0 dst 0] assms by simp
next
  case (Suc n)
  let ?m = "store_bytes m0 dst (take i s)"
  have c: "cstr ?m src s"
    using assms by (intro cstr_store_bytes_le [where k = "Suc (length s)"]) auto
  show ?case
  proof (cases "i = length s")
    case True
    with c have "?m (src + of_nat i) = 0" using cstr_nul by blast
    with True show ?thesis using store_bytes_snoc [of "take i s" m0 dst 0] assms by simp
  next
    case False
    with Suc.prems have i: "i < length s" by simp
    then have "?m (src + of_nat i) = s ! i" by (rule cstr_nth [OF c])
    moreover from c i have "s ! i \<noteq> 0" by (metis cstr_nonzero nth_mem)
    moreover have "?m(dst + of_nat i := s ! i) = store_bytes m0 dst (take (Suc i) s)"
      using i assms by (intro store_bytes_step) simp_all
    ultimately show ?thesis using Suc.IH [of "Suc i"] i by (simp add: algebra_simps)
  qed
qed

lemma strncpy_cstr:
  assumes "cstr m src s" "Suc (length s) < 2 ^ 32"
    "region src (Suc (length s)) \<inter> region dst (Suc (length s)) = {}"
  shows "strncpy m dst src len = store_bytes m dst (take (unat len) s @ [0])"
  using strncpy_loop_cstr [OF assms, of 0] by (simp add: strncpy_def)

lemma strend_cstr: "cstr m p s \<Longrightarrow> strend m p = Some (p + of_nat (length s))"
proof (induction s arbitrary: p)
  case (Cons c s)
  then show ?case by (simp add: strend.simps [of m p] algebra_simps)
qed (simp add: strend.simps)

lemma strcat_copy_cstr:
  assumes "cstr m0 src s" "Suc (length s) < 2 ^ 32"
    "region src (Suc (length s)) \<inter> region dst (Suc (length s)) = {}" "i \<le> length s"
  shows "strcat_copy (dst + of_nat i) (src + of_nat i) (store_bytes m0 dst (take i s))
    = Some (store_bytes m0 dst (s @ [0]))"
  using assms(4)
proof (induction "length s - i" arbitrary: i)
  case 0
  let ?m = "store_bytes m0 dst (take i s)"
  have c: "cstr ?m src s"
    using assms by (intro cstr_store_bytes_le [where k = "Suc (length s)"]) auto
  then have "?m (src + of_nat i) = 0" using cstr_nul 0 by fastforce
  with 0 show ?case using store_bytes_snoc [of s m0 dst 0] assms
    by (simp add: strcat_copy.simps [of "dst + of_nat i"] Let_def)
next
  case (Suc n)
  let ?m = "store_bytes m0 dst (take i s)"
  have c: "cstr ?m src s"
    using assms Suc.prems by (intro cstr_store_bytes_le [where k = "Suc (length s)"]) auto
  from Suc have i: "i < length s" by simp
  then have "?m (src + of_nat i) = s ! i" by (rule cstr_nth [OF c])
  moreover from c i have "s ! i \<noteq> 0" by (metis cstr_nonzero nth_mem)
  moreover have "?m(dst + of_nat i := s ! i) = store_bytes m0 dst (take (Suc i) s)"
    using i assms by (intro store_bytes_step) simp_all
  ultimately show ?case using Suc.hyps(1) [of "Suc i"] Suc.hyps(2) i
    by (simp add: algebra_simps strcat_copy.simps [of "dst + of_nat i"] Let_def)
qed

lemma strcat_cstr:
  assumes "cstr m dst d" "cstr m src s" "Suc (length s) < 2 ^ 32"
    "region src (Suc (length s)) \<inter> region (dst + of_nat (length d)) (Suc (length s)) = {}"
  shows "strcat m dst src = Some (store_bytes m (dst + of_nat (length d)) (s @ [0]))"
  using strcat_copy_cstr [OF assms(2-4), of 0] strend_cstr [OF assms(1)] by (simp add: strcat_def)

section \<open>Comparison\<close>

text \<open>The order that \<open>strcmp\<close> decides, on the strings themselves.\<close>

fun str_order :: "u8 list \<Rightarrow> u8 list \<Rightarrow> u32" where
  "str_order [] [] = 0"
| "str_order [] (y # ys) = - 1"
| "str_order (x # xs) [] = 1"
| "str_order (x # xs) (y # ys) =
     (if sint x > sint y then 1 else if sint y > sint x then - 1 else str_order xs ys)"

lemma strcmp_cstr: "cstr m p s \<Longrightarrow> cstr m q t \<Longrightarrow> strcmp m p q = Some (str_order s t)"
proof (induction s t arbitrary: p q rule: str_order.induct)
  case (4 x xs y ys)
  then show ?case by (auto simp: strcmp.simps [of m p q])
qed (auto simp: strcmp.simps)

lemma str_order_0: "str_order s t = 0 \<longleftrightarrow> s = t"
proof (induction s t rule: str_order.induct)
  case (4 x xs y ys)
  have "x = y" if "\<not> sint x > sint y" "\<not> sint y > sint x"
    using that by (simp add: word_sint_eqI)
  with 4 show ?case by auto
qed simp_all

lemma str_order_anti: "str_order t s = - str_order s t"
  by (induction s t rule: str_order.induct) auto

lemma strncmp_loop_0: "strncmp_loop n m p q = 0 \<longleftrightarrow> load_bytes m p n = load_bytes m q n"
proof (induction n arbitrary: p q)
  case (Suc n)
  have "(ucast (m p) - ucast (m q) :: u32) = 0 \<longleftrightarrow> m p = m q"
    by (simp add: ucast_u8_inj)
  with Suc show ?case by auto
qed simp

lemma strncmp_0: "strncmp m p q len = 0 \<longleftrightarrow> load_bytes m p (unat len) = load_bytes m q (unat len)"
  by (simp add: strncmp_def strncmp_loop_0)
section \<open>Numbers\<close>

text \<open>The digits of a number, least significant first, and their characters in reading order.\<close>

fun digs :: "nat \<Rightarrow> nat \<Rightarrow> nat list" where
  "digs b n = (if b < 2 \<or> n < b then [n] else (n mod b) # digs b (n div b))"

declare digs.simps [simp del]

definition digit_chars :: "nat list \<Rightarrow> u8 list" where
  "digit_chars ds = map ((!) tokens) (rev ds)"

lemma digs_range: "2 \<le> b \<Longrightarrow> set (digs b n) \<subseteq> {..<b}"
proof (induction b n rule: digs.induct)
  case (1 b n)
  then show ?case by (auto simp: digs.simps [of b n])
qed

lemma digs_value: "2 \<le> b \<Longrightarrow> foldr (\<lambda>d v. d + b * v) (digs b n) 0 = n"
proof (induction b n rule: digs.induct)
  case (1 b n)
  then show ?case by (auto simp: digs.simps [of b n])
qed

lemma digs_length: "2 \<le> b \<Longrightarrow> n < 2 ^ k \<Longrightarrow> 0 < k \<Longrightarrow> length (digs b n) \<le> k"
proof (induction b n arbitrary: k rule: digs.induct)
  case (1 b n)
  show ?case
  proof (cases "n < b")
    case True
    with 1 show ?thesis by (simp add: digs.simps [of b n])
  next
    case False
    with 1 obtain k' where k: "k = Suc k'" by (cases k) auto
    have "n div b \<le> n div 2" using 1 by (intro div_le_mono2) auto
    also have "n div 2 < 2 ^ k'" using 1 k by auto
    finally have "n div b < 2 ^ k'" .
    moreover have "0 < n div b" using False 1 by (simp add: div_greater_zero_iff)
    ultimately have "0 < k'" by (cases k') auto
    with \<open>n div b < 2 ^ k'\<close> 1 False k show ?thesis by (simp add: digs.simps [of b n])
  qed
qed

lemma itoa_digits_eq:
  assumes b: "2 \<le> unat b" "unat b \<le> 16"
  shows "0 \<le> sint v \<Longrightarrow> length xs + length (digs (unat b) (unat v)) < 2 ^ 32 \<Longrightarrow>
    itoa_digits str b v (length xs) (store_bytes m str xs)
    = Some (length xs + length (digs (unat b) (unat v)),
        store_bytes m str (xs @ map ((!) tokens) (digs (unat b) (unat v))))"
proof (induction "unat b" "unat v" arbitrary: v xs rule: digs.induct)
  case 1
  let ?n = "unat v" let ?k = "unat b"
  from b have sb: "0 \<le> sint b" "b \<noteq> 0" by (auto simp: sint_nonneg_iff)
  have q: "c_div v b = of_nat (?n div ?k)" "c_mod v b = of_nat (?n mod ?k)"
    using "1.prems"(1) sb(1) by (simp_all add: c_div_nonneg c_mod_nonneg)
  have uq: "unat (c_div v b) = ?n div ?k" "unat (c_mod v b) = ?n mod ?k"
    unfolding q by (simp_all add: unat_mod_u32 unat_div_u32)
  have "?n mod ?k < 16" using b by (metis less_le_trans mod_less_divisor not_gr_zero not_numeral_le_zero)
  then have sd: "sint (c_mod v b) = int (?n mod ?k)"
    by (simp only: sint_unat uq) simp
  have g: "\<not> (sint (c_mod v b) < 0 \<or> 16 < sint (c_mod v b))" "nat (sint (c_mod v b)) = ?n mod ?k"
    using \<open>?n mod ?k < 16\<close> by (simp_all only: sd) simp_all
  have sq: "0 \<le> sint (c_div v b)"
    using "1.prems"(1) unfolding sint_nonneg_iff uq
    by (meson div_le_dividend le_less_trans)
  let ?d = "tokens ! (?n mod ?k)"
  have m': "(store_bytes m str xs)(str + of_nat (length xs) := ?d) = store_bytes m str (xs @ [?d])"
    using "1.prems"(2) by (intro store_bytes_snoc) simp
  have z: "c_div v b = 0 \<longleftrightarrow> ?n < ?k"
    using b by (metis uq(1) unat_0 unat_eq_zero div_eq_0_iff not_numeral_le_zero)
  show ?case
  proof (cases "?n < ?k")
    case True
    then have d: "digs ?k ?n = [?n mod ?k]" by (simp add: digs.simps [of ?k ?n])
    show ?thesis using True z sb
      by (simp only: itoa_digits.simps [of str b v] Let_def g if_False m' d simp_thms) simp
  next
    case False
    with b have d: "digs ?k ?n = ?n mod ?k # digs ?k (?n div ?k)"
      by (simp add: digs.simps [of ?k ?n])
    have "itoa_digits str b (c_div v b) (length (xs @ [?d])) (store_bytes m str (xs @ [?d]))
      = Some (length (xs @ [?d]) + length (digs ?k (unat (c_div v b))),
          store_bytes m str ((xs @ [?d]) @ map ((!) tokens) (digs ?k (unat (c_div v b)))))"
      using False b uq d "1.prems" sq by (intro "1.hyps") auto
    then show ?thesis using False z sb
      by (simp only: itoa_digits.simps [of str b v] Let_def g if_False m' d simp_thms uq) simp
  qed
qed

lemma itoa_reverse_eq:
  "length A = n \<Longrightarrow> length B = Suc i - n \<Longrightarrow> length (A @ B @ C) \<le> 2 ^ 32 \<Longrightarrow>
   itoa_reverse str n i (store_bytes m str (A @ B @ C)) = store_bytes m str (A @ rev B @ C)"
proof (induction "length B" arbitrary: A B C n i rule: less_induct)
  case less
  let ?xs = "A @ B @ C"
  show ?case
  proof (cases "n < i")
    case False
    then have "length B \<le> 1" using less.prems by simp
    then have "rev B = B" by (cases B) auto
    with False show ?thesis by (simp add: itoa_reverse.simps [of str n i])
  next
    case True
    then obtain a B' where B: "B = a # B'" using less.prems by (cases B) auto
    then obtain B2 b where B': "B' = B2 @ [b]"
      using less.prems True by (cases B' rule: rev_cases) auto
    have len: "length ?xs \<le> 2 ^ 32" "n < length ?xs" "i < length ?xs" and i: "i = n + 1 + length B2"
      using less.prems True B B' by auto
    have nth: "?xs ! n = a" "?xs ! i = b"
      using less.prems B B' i by (simp_all add: nth_append)
    have rd: "store_bytes m str ?xs (str + of_nat n) = a" "store_bytes m str ?xs (str + of_nat i) = b"
      using store_bytes_nth [OF len(2,1)] store_bytes_nth [OF len(3,1)] nth by simp_all
    have up: "?xs[n := b, i := a] = (A @ [b]) @ B2 @ ([a] @ C)"
      using less.prems B B' i by (simp add: list_update_append)
    have mem: "(store_bytes m str ?xs)(str + of_nat n := b, str + of_nat i := a)
        = store_bytes m str ((A @ [b]) @ B2 @ ([a] @ C))"
      using len up by (simp only: store_bytes_upd length_list_update)
    have "itoa_reverse str n i (store_bytes m str ?xs)
        = itoa_reverse str (n + 1) (i - 1) (store_bytes m str ((A @ [b]) @ B2 @ ([a] @ C)))"
      by (subst itoa_reverse.simps) (simp only: True Let_def rd mem if_True)
    also have "\<dots> = store_bytes m str ((A @ [b]) @ rev B2 @ ([a] @ C))"
      using less.prems True B B' i len by (intro less.hyps) auto
    finally show ?thesis using B B' by simp
  qed
qed

lemma itoa_mag:
  assumes b: "2 \<le> unat b" "unat b \<le> 16" and v: "0 \<le> sint v"
  defines "ds \<equiv> map ((!) tokens) (digs (unat b) (unat v))"
  shows "itoa_digits str b v 0 m = Some (length ds, store_bytes m str ds)"
    "length ds \<le> 31"
proof -
  have "unat v < 2 ^ 31" using v by (simp add: sint_nonneg_iff)
  then show l: "length ds \<le> 31"
    unfolding ds_def length_map using b digs_length [of "unat b" "unat v" 31] by simp
  then show "itoa_digits str b v 0 m = Some (length ds, store_bytes m str ds)"
    using itoa_digits_eq [OF b v, of "[]" str m] by (simp add: ds_def)
qed

lemma digs_ne: "digs b n \<noteq> []"
  by (subst digs.simps) simp

lemma itoa_finish:
  assumes "ds \<noteq> []" "length ds \<le> 40"
  shows "itoa_reverse str 0 (length ds - 1) ((store_bytes m str ds)(str + of_nat (length ds) := 0))
    = store_bytes m str (rev ds @ [0])"
proof -
  have "(store_bytes m str ds)(str + of_nat (length ds) := 0) = store_bytes m str ([] @ ds @ [0])"
    using assms store_bytes_snoc [of ds m str 0] by simp
  then show ?thesis
    using assms itoa_reverse_eq [of "[]" 0 ds "length ds - 1" "[0]" str m] by simp
qed

lemma itoa_nonneg:
  assumes b: "2 \<le> unat b" "unat b \<le> 16" and v: "0 \<le> sint v"
  shows "itoa m v str b = Some (store_bytes m str (digit_chars (digs (unat b) (unat v)) @ [0]))"
  using itoa_mag [OF b v] itoa_finish [of "map ((!) tokens) (digs (unat b) (unat v))"] v
  by (simp add: itoa_def digit_chars_def rev_map digs_ne Let_def)

lemma sint_uminus:
  fixes v :: u32
  assumes "sint v < 0" "v \<noteq> 0x80000000"
  shows "0 \<le> sint (- v)" "unat (- v) = nat (- sint v)"
proof -
  have u: "2147483648 \<le> unat v" "unat v \<noteq> 2147483648"
    using assms sint_nonneg_iff [of v] by auto (metis of_nat_numeral of_nat_unat_u32)
  have "- v = (of_nat (4294967296 - unat v) :: u32)"
    by (simp add: of_nat_diff less_imp_le)
  then have "unat (- v) = 4294967296 - unat v"
    using u by simp
  moreover have "sint v = int (unat v) - 4294967296"
    using u sint_unat [of v] by (simp only: if_False not_less [symmetric])
  moreover have "nat (- (int k - 4294967296)) = 4294967296 - k" for k by arith
  ultimately show "0 \<le> sint (- v)" "unat (- v) = nat (- sint v)"
    using u unfolding sint_nonneg_iff by (linarith, simp only:)
qed

lemma itoa_neg:
  assumes b: "2 \<le> unat b" "unat b \<le> 16" and v: "sint v < 0" "v \<noteq> 0x80000000"
  shows "itoa m v str b
    = Some (store_bytes m str ([45] @ digit_chars (digs (unat b) (nat (- sint v))) @ [0]))"
proof -
  let ?ds = "map ((!) tokens) (digs (unat b) (nat (- sint v)))"
  note neg = sint_uminus [OF v]
  note mag = itoa_mag [OF b neg(1), unfolded neg(2)]
  have "(store_bytes m str ?ds)(str + of_nat (length ?ds) := 45) = store_bytes m str (?ds @ [45])"
    using mag(2) by (intro store_bytes_snoc) simp
  then show ?thesis
    using mag v itoa_finish [of "?ds @ [45]" str m]
    by (simp add: itoa_def digit_chars_def rev_map Let_def)
qed

definition num_of :: "nat list \<Rightarrow> nat" where
  "num_of ds = foldl (\<lambda>n d. 10 * n + d) 0 ds"

lemma tokens_digit: "d < 10 \<Longrightarrow> tokens ! d = of_nat (48 + d)"
proof -
  assume "d < 10"
  then have "d \<in> {0, 1, 2, 3, 4, 5, 6, 7, 8, 9}" by auto
  then show ?thesis by (auto simp: tokens_def lit_def)
qed

lemma atoi_step:
  assumes "d < 10"
  shows "push_bit 3 n + push_bit 1 n + scast (tokens ! d) - 48 = (10 * n + of_nat d :: u32)"
proof -
  have "d \<in> {0, 1, 2, 3, 4, 5, 6, 7, 8, 9}" using assms by auto
  then have "(scast (tokens ! d) :: u32) = 48 + of_nat d" by (auto simp: tokens_def lit_def)
  moreover have "push_bit 3 n + push_bit 1 n = 10 * n" for n :: u32
    by (simp add: push_bit_eq_mult)
  ultimately show ?thesis by simp
qed

lemma atoi_from_digits:
  assumes "\<forall>d \<in> set ds. d < 10" "cstr m p (map ((!) tokens) ds)"
  shows "atoi_from m p n = Some (foldl (\<lambda>n d. 10 * n + of_nat d) n ds)"
  using assms
proof (induction ds arbitrary: p n)
  case (Cons d ds)
  then have mp: "m p = tokens ! d" "tokens ! d \<noteq> 0" "d < 10" by auto
  have "atoi_from m p n = atoi_from m (p + 1) (10 * n + of_nat d)"
    by (subst atoi_from.simps) (simp only: mp atoi_step if_True simp_thms)
  with Cons show ?case by simp
qed (simp add: atoi_from.simps)

lemma foldl_of_nat: "foldl (\<lambda>n d. 10 * n + of_nat d) (of_nat k :: u32) ds
    = of_nat (foldl (\<lambda>n d. 10 * n + d) k ds)"
proof (induction ds arbitrary: k)
  case (Cons d ds)
  then show ?case using Cons [of "10 * k + d"] by simp
qed simp

lemma digs_num: "foldl (\<lambda>n d. 10 * n + d) 0 (rev (digs 10 n)) = n"
  using digs_value [of 10 n] by (simp add: foldl_conv_foldr add.commute) 

lemma atoi_digits:
  assumes "cstr m p (digit_chars (digs 10 n))"
  shows "atoi m p = Some (of_nat n)"
proof -
  have "\<forall>d \<in> set (rev (digs 10 n)). d < 10" using digs_range [of 10 n] by auto
  then have "atoi m p = Some (foldl (\<lambda>n d. 10 * n + of_nat d) (of_nat 0) (rev (digs 10 n)))"
    using assms atoi_from_digits [of "rev (digs 10 n)" m p 0] by (simp add: atoi_def digit_chars_def)
  also have "\<dots> = Some (of_nat n)" by (simp only: foldl_of_nat digs_num)
  finally show ?thesis .
qed

lemma digit_chars_nonzero: "2 \<le> b \<Longrightarrow> b \<le> 16 \<Longrightarrow> 0 \<notin> set (digit_chars (digs b n))"
proof
  assume b: "2 \<le> b" "b \<le> 16" and "0 \<in> set (digit_chars (digs b n))"
  then obtain d where d: "d \<in> set (digs b n)" "tokens ! d = 0" by (auto simp: digit_chars_def)
  then have "d < 16" using digs_range [OF b(1), of n] b by auto
  moreover have "list_all (\<lambda>d. tokens ! d \<noteq> 0) [0..<16]" by code_simp
  ultimately show False using d by (simp add: list_all_iff)
qed

lemma digit_chars_length: "2 \<le> b \<Longrightarrow> length (digit_chars (digs b (unat (v :: u32)))) \<le> 32"
  using digs_length [of b "unat v" 32] by (simp add: digit_chars_def)

lemma atoi_itoa:
  assumes "0 \<le> sint v"
  shows "\<exists>m'. itoa m v str 10 = Some m' \<and> atoi m' str = Some v"
proof -
  let ?s = "digit_chars (digs 10 (unat v))"
  have "itoa m v str 10 = Some (store_bytes m str (?s @ [0]))"
    using itoa_nonneg [of 10 v m str] assms by simp
  moreover have "cstr (store_bytes m str (?s @ [0])) str ?s"
    using digit_chars_length [of 10 v] digit_chars_nonzero [of 10 "unat v"]
    by (intro cstr_store_bytes_self) simp_all
  then have "atoi (store_bytes m str (?s @ [0])) str = Some v"
    using atoi_digits by simp
  ultimately show ?thesis by blast
qed

section \<open>Formatting\<close>

lemma vs_append_from:
  assumes "cstr m0 src t" "Suc (length t) < 2 ^ 32"
    "region src (Suc (length t)) \<inter> region (str + of_nat j) (Suc (length t)) = {}" "k \<le> length t"
  shows "vs_append str src k (j + k) (store_bytes m0 (str + of_nat j) (take k t))
    = Some (j + length t, store_bytes m0 (str + of_nat j) t)"
  using assms(4)
proof (induction "length t - k" arbitrary: k)
  case 0
  let ?m = "store_bytes m0 (str + of_nat j) (take k t)"
  have "cstr ?m src t"
    using assms by (intro cstr_store_bytes_le [where k = "Suc (length t)"]) auto
  with 0 show ?case by (simp add: vs_append.simps [of str src k])
next
  case (Suc n)
  let ?m = "store_bytes m0 (str + of_nat j) (take k t)"
  have c: "cstr ?m src t"
    using assms by (intro cstr_store_bytes_le [where k = "Suc (length t)"]) auto
  from Suc have k: "k < length t" by simp
  have "?m(str + of_nat j + of_nat k := t ! k) = store_bytes m0 (str + of_nat j) (take (Suc k) t)"
    using k assms by (intro store_bytes_step) simp_all
  with c k cstr_nth [OF c k] Suc.hyps(1) [of "Suc k"] Suc.hyps(2) show ?case
    by (simp add: vs_append.simps [of str src k] add.assoc)
qed

lemma vs_append_cstr:
  assumes "cstr m src t" "Suc (length t) < 2 ^ 32"
    "region src (Suc (length t)) \<inter> region (str + of_nat j) (Suc (length t)) = {}"
  shows "vs_append str src 0 j m = Some (j + length t, store_bytes m (str + of_nat j) t)"
  using vs_append_from [OF assms, of 0] by simp

text \<open>The text of a number: a minus sign and the magnitude for a negative one, in every base.\<close>

definition num_text :: "nat \<Rightarrow> u32 \<Rightarrow> u8 list" where
  "num_text b v = (if 0 \<le> sint v then digit_chars (digs b (unat v))
     else 45 # digit_chars (digs b (nat (- sint v))))"

lemma num_text_length:
  assumes "2 \<le> b" "b \<le> 16" "v \<noteq> 0x80000000"
  shows "length (num_text b v) \<le> 32" "0 \<notin> set (num_text b v)"
proof -
  have "length (digs b (unat v)) \<le> 31" if "0 \<le> sint v" for v :: u32
    using that digs_length [OF assms(1), of "unat v" 31] by (simp add: sint_nonneg_iff)
  from this [of v] this [of "- v"] show "length (num_text b v) \<le> 32"
    using sint_uminus [of v] assms(3) by (auto simp: num_text_def digit_chars_def)
  show "0 \<notin> set (num_text b v)"
    using digit_chars_nonzero [OF assms(1,2)] by (simp add: num_text_def)
qed

lemma itoa_num_text:
  assumes "2 \<le> b" "b \<le> 16" "v \<noteq> 0x80000000"
  shows "itoa m v buf (of_nat b) = Some (store_bytes m buf (num_text b v @ [0]))"
proof -
  have "unat (of_nat b :: u32) = b" using assms by simp
  then show ?thesis
    using assms itoa_nonneg [of "of_nat b" v m buf] itoa_neg [of "of_nat b" v m buf]
    by (cases "0 \<le> sint v") (simp_all add: num_text_def)
qed

text \<open>\<open>renders m W f args out\<close>: the format \<open>f\<close> with the arguments \<open>args\<close> describes the text \<open>out\<close>,
  the strings named by the arguments being read from \<open>m\<close>, outside the written addresses \<open>W\<close>.\<close>

inductive renders :: "mem \<Rightarrow> u32 set \<Rightarrow> u8 list \<Rightarrow> u32 list \<Rightarrow> u8 list \<Rightarrow> bool" for m W where
  r_end: "renders m W [] args []"
| r_plain: "c \<noteq> of_char CHR ''%'' \<Longrightarrow> renders m W f args out \<Longrightarrow> renders m W (c # f) args (c # out)"
| r_last: "renders m W [of_char CHR ''%''] args []"
| r_char: "renders m W f args out
    \<Longrightarrow> renders m W (of_char CHR ''%'' # of_char CHR ''c'' # f) (a # args) (ucast a # out)"
| r_number: "(k, b) \<in> {(of_char CHR ''d'', 10), (of_char CHR ''i'', 10), (of_char CHR ''x'', 16), (of_char CHR ''b'', 2)}
    \<Longrightarrow> v \<noteq> 0x80000000 \<Longrightarrow> renders m W f args out
    \<Longrightarrow> renders m W (of_char CHR ''%'' # k # f) (v # args) (num_text b v @ out)"
| r_string: "cstr m a t \<Longrightarrow> Suc (length t) < 2 ^ 32 \<Longrightarrow> region a (Suc (length t)) \<inter> W = {}
    \<Longrightarrow> renders m W f args out
    \<Longrightarrow> renders m W (of_char CHR ''%'' # of_char CHR ''s'' # f) (a # args) (t @ out)"
| r_other: "k \<notin> of_char ` {CHR ''c'', CHR ''d'', CHR ''i'', CHR ''s'', CHR ''x'', CHR ''b''}
    \<Longrightarrow> renders m W f args out \<Longrightarrow> renders m W (of_char CHR ''%'' # k # f) args out"


text \<open>The state of the formatting loop: the text \<open>pre\<close> has been written at \<open>str\<close>, and memory
  outside the destination and the number buffer is unchanged.\<close>

definition vs_inv :: "mem \<Rightarrow> u32 \<Rightarrow> nat \<Rightarrow> u32 \<Rightarrow> mem \<Rightarrow> u8 list \<Rightarrow> bool" where
  "vs_inv m0 str L buf m pre \<longleftrightarrow> (\<forall>x. x \<notin> region str (Suc L) \<union> region buf 40 \<longrightarrow> m x = m0 x)
     \<and> (\<forall>k<length pre. m (str + of_nat k) = pre ! k)"

lemma store_bytes_single: "m(p := c) = store_bytes m p [c]"
  using store_bytes_snoc [of "[]" m p c] by simp

lemma vs_inv_store:
  assumes "vs_inv m0 str L buf m pre" "length pre + length t \<le> L" "L < 2 ^ 31"
  shows "vs_inv m0 str L buf (store_bytes m (str + of_nat (length pre)) t) (pre @ t)"
proof -
  let ?p = "str + of_nat (length pre)"
  have "region ?p (length t) \<subseteq> region str (Suc L)" using assms(2,3) by (intro region_off) simp_all
  moreover have "store_bytes m ?p t (str + of_nat k) = (pre @ t) ! k"
    if "k < length (pre @ t)" for k
  proof (cases "k < length pre")
    case True
    have "str + of_nat k \<notin> region ?p (length t)"
    proof
      assume "str + of_nat k \<in> region ?p (length t)"
      then obtain d where d: "str + of_nat k = ?p + of_nat d" "d < length t" by (rule region_elim)
      then have "unat (of_nat k :: u32) = unat (of_nat (length pre + d) :: u32)" by simp
      with True d(2) assms(2,3) show False by (simp del: of_nat_add)
    qed
    then show ?thesis using True assms(1) by (simp add: store_bytes_outside vs_inv_def nth_append)
  next
    case False
    then have "str + of_nat k = ?p + of_nat (k - length pre)" by (simp add: of_nat_diff)
    moreover have "store_bytes m ?p t (?p + of_nat (k - length pre)) = t ! (k - length pre)"
      using False that assms(2,3) by (intro store_bytes_nth) simp_all
    ultimately show ?thesis using False by (simp only: nth_append if_False)
  qed
  ultimately show ?thesis
    using assms(1) by (auto simp: vs_inv_def store_bytes_outside subset_eq)
qed

lemma vs_inv_buf:
  assumes "vs_inv m0 str L buf m pre" "length t \<le> 40" "length pre \<le> L" "L < 2 ^ 31"
    "region str (Suc L) \<inter> region buf 40 = {}"
  shows "vs_inv m0 str L buf (store_bytes m buf t) pre"
proof -
  have "region buf (length t) \<subseteq> region buf 40" using assms(2) by (rule region_mono)
  moreover from this have "str + of_nat k \<notin> region buf (length t)" if "k < length pre" for k
    using that assms(3,4,5) in_region_off [of k str "Suc L"] by auto
  ultimately show ?thesis
    using assms(1,5) by (auto simp: vs_inv_def store_bytes_outside subset_eq disjoint_iff)
qed

lemma vs_inv_cstr:
  assumes "vs_inv m0 str L buf m pre" "cstr m0 p s" "Suc (length s) < 2 ^ 32"
    "region p (Suc (length s)) \<inter> (region str (Suc L) \<union> region buf 40) = {}"
  shows "cstr m p s"
proof -
  have "m0 x = m x" if "x \<in> region p (Suc (length s))" for x
    using that assms(1,4) by (auto simp: vs_inv_def)
  then show ?thesis using cstr_cong [of s p m0 m] assms(2,3) by simp
qed

lemma vs_number_step:
  assumes "vs_inv m0 str L buf m pre" "length pre + length (num_text b v) \<le> L" "L < 2 ^ 31"
    "region str (Suc L) \<inter> region buf 40 = {}" "2 \<le> b" "b \<le> 16" "v \<noteq> 0x80000000"
  shows "\<exists>m'. vs_number str buf (of_nat b) (v # args) (length pre) m
      = Some (length (pre @ num_text b v), args, m') \<and> vs_inv m0 str L buf m' (pre @ num_text b v)"
proof -
  let ?t = "num_text b v" and ?m = "store_bytes m buf (num_text b v @ [0])"
  note len = num_text_length [OF assms(5-7)]
  have inv: "vs_inv m0 str L buf ?m pre"
    using assms len by (intro vs_inv_buf) simp_all
  have "cstr ?m buf ?t" using len by (intro cstr_store_bytes_self) simp_all
  moreover have "region (str + of_nat (length pre)) (Suc (length ?t)) \<subseteq> region str (Suc L)"
    using assms(2,3) by (intro region_off) simp_all
  moreover have "region buf (Suc (length ?t)) \<subseteq> region buf 40" using len(1) by (intro region_mono) simp
  ultimately have "vs_append str buf 0 (length pre) ?m
      = Some (length pre + length ?t, store_bytes ?m (str + of_nat (length pre)) ?t)"
    using assms(4) len(1) by (intro vs_append_cstr) auto
  then show ?thesis
    using vs_inv_store [OF inv assms(2,3)] itoa_num_text [OF assms(5-7)] by (simp add: vs_number_def)
qed

lemma vs_conv_cases:
  "vs_conv str buf (of_char CHR ''c'') (a # args) j m = Some (j + 1, args, m(str + of_nat j := ucast a))"
  "(k, b) \<in> {(of_char CHR ''d'', 10), (of_char CHR ''i'', 10), (of_char CHR ''x'', 16), (of_char CHR ''b'', 2)}
    \<Longrightarrow> vs_conv str buf k args j m = vs_number str buf (of_nat b) args j m"
  "vs_conv str buf (of_char CHR ''s'') (a # args) j m
    = do { (j, m) \<leftarrow> vs_append str a 0 j m; Some (j, args, m) }"
  "k \<notin> of_char ` {CHR ''c'', CHR ''d'', CHR ''i'', CHR ''s'', CHR ''x'', CHR ''b''}
    \<Longrightarrow> vs_conv str buf k args j m = Some (j, args, m)"
  by (auto simp: vs_conv_def)


lemma vs_inv_nul:
  assumes "vs_inv m0 str (length pre) buf m pre" "length pre < 2 ^ 31"
  shows "vs_inv m0 str (length pre) buf (m(str + of_nat (length pre) := 0)) pre"
proof -
  have "(of_nat k :: u32) \<noteq> of_nat (length pre)" if "k < length pre" for k
    using that assms(2) by (intro of_nat_neq) simp_all
  then show ?thesis
    using assms in_region_off [of "length pre" str "Suc (length pre)"] by (auto simp: vs_inv_def)
qed

lemma vs_string_step:
  assumes "vs_inv m0 str L buf m pre" "length pre + length t \<le> L" "L < 2 ^ 31"
    "cstr m0 a t" "Suc (length t) < 2 ^ 32"
    "region a (Suc (length t)) \<inter> (region str (Suc L) \<union> region buf 40) = {}"
  shows "\<exists>m'. vs_append str a 0 (length pre) m = Some (length (pre @ t), m') \<and> vs_inv m0 str L buf m' (pre @ t)"
proof -
  have "cstr m a t" using assms by (intro vs_inv_cstr [OF assms(1)])
  moreover have "region (str + of_nat (length pre)) (Suc (length t)) \<subseteq> region str (Suc L)"
    using assms(2,3) by (intro region_off) simp_all
  ultimately have "vs_append str a 0 (length pre) m
      = Some (length pre + length t, store_bytes m (str + of_nat (length pre)) t)"
    using assms(5,6) by (intro vs_append_cstr) auto
  then show ?thesis using vs_inv_store [OF assms(1-3)] by simp
qed

lemma vs_conv_renders:
  assumes r: "renders m0 W (of_char CHR ''%'' # k # f) args out"
    and W: "W = region str (Suc L) \<union> region buf 40" "region str (Suc L) \<inter> region buf 40 = {}" "L < 2 ^ 31"
    and inv: "vs_inv m0 str L buf m pre" "length pre + length out = L"
  shows "\<exists>t args' out' m'. out = t @ out' \<and> renders m0 W f args' out'
    \<and> vs_conv str buf k args (length pre) m = Some (length (pre @ t), args', m')
    \<and> vs_inv m0 str L buf m' (pre @ t)" (is "\<exists>t args' out' m'. ?P t args' out' m'")
  using r
proof cases
  case (r_char args' out' a)
  have "vs_inv m0 str L buf (m(str + of_nat (length pre) := ucast a)) (pre @ [ucast a])"
    using inv r_char(3) W(3) by (subst store_bytes_single) (intro vs_inv_store, simp_all)
  then have "?P [ucast a] args' out' (m(str + of_nat (length pre) := ucast a))"
    unfolding r_char(1,2) vs_conv_cases(1) using r_char(4) r_char(3) by simp
  then show ?thesis by (intro exI)
next
  case (r_number b v args' out')
  have b: "2 \<le> b" "b \<le> 16" using r_number(3) by auto
  obtain m' where m': "vs_number str buf (of_nat b) (v # args') (length pre) m
      = Some (length (pre @ num_text b v), args', m')" "vs_inv m0 str L buf m' (pre @ num_text b v)"
    using vs_number_step [OF inv(1) _ W(3,2) b, of v args'] r_number(2,4) inv(2) by auto
  have "?P (num_text b v) args' out' m'"
    using m' r_number(5) unfolding r_number(1,2) vs_conv_cases(2) [OF r_number(3)] by simp
  then show ?thesis by (intro exI)
next
  case (r_string a t args' out')
  obtain m' where "vs_append str a 0 (length pre) m = Some (length (pre @ t), m')"
      "vs_inv m0 str L buf m' (pre @ t)"
    using vs_string_step [OF inv(1) _ W(3) r_string(4,5)] r_string(3,6) inv(2) W(1) by auto
  then have "?P t args' out' m'"
    using r_string(7) unfolding r_string(1-3) vs_conv_cases(3) by simp
  then show ?thesis by (intro exI)
next
  case r_other
  then have "?P [] args out m" using inv(1) by (simp add: vs_conv_cases(4))
  then show ?thesis by (intro exI)
qed simp_all

lemma vs_loop_renders:
  assumes "renders m0 W f args out" "f = drop i F" "cstr m0 format F" "Suc (length F) < 2 ^ 32"
    and W: "W = region str (Suc L) \<union> region buf 40" "region str (Suc L) \<inter> region buf 40 = {}" "L < 2 ^ 31"
    and sep: "region format (Suc (length F)) \<inter> W = {}"
    and inv: "vs_inv m0 str L buf m pre" "length pre + length out = L"
  shows "\<exists>m'. vs_loop str format buf i (length pre) args m = Some m'
    \<and> vs_inv m0 str L buf m' (pre @ out) \<and> m' (str + of_nat L) = 0"
  using assms(1,2,9,10)
proof (induction "length f" arbitrary: f i args out m pre rule: less_induct)
  case less
  have cF: "cstr m format F"
    using vs_inv_cstr [OF less.prems(3) assms(3,4)] sep W(1) by auto
  then have n: "strlen m format = Some (length F)" by simp
  show ?case
  proof (cases f)
    case Nil
    then have "out = []" "\<not> i < length F" using less.prems by (auto elim: renders.cases)
    moreover have "vs_inv m0 str L buf (m(str + of_nat L := 0)) pre"
      using less.prems(3,4) W(3) \<open>out = []\<close> vs_inv_nul by auto
    ultimately show ?thesis using n less.prems(4) by (subst vs_loop.simps) simp
  next
    case (Cons c f')
    then have i: "i < length F" using less.prems(2) by (metis drop_all list.distinct(1) not_le)
    have c: "m (format + of_nat i) = c" "f' = drop (i + 1) F"
      using cstr_nth [OF cF i] Cons less.prems(2) i by (simp_all add: Cons_nth_drop_Suc [symmetric])
    show ?thesis
    proof (cases "c = of_char CHR ''%''")
      case False
      have "\<exists>out'. out = c # out' \<and> renders m0 W f' args out'"
        using less.prems(1) False unfolding Cons by cases auto
      then obtain out' where out: "out = c # out'" "renders m0 W f' args out'" by blast
      have "vs_inv m0 str L buf (m(str + of_nat (length pre) := c)) (pre @ [c])"
        using less.prems(3,4) out W(3) by (subst store_bytes_single) (intro vs_inv_store, simp_all)
      then obtain m' where "vs_loop str format buf (i + 1) (length (pre @ [c])) args
          (m(str + of_nat (length pre) := c)) = Some m'" "vs_inv m0 str L buf m' ((pre @ [c]) @ out')"
          "m' (str + of_nat L) = 0"
        using less.hyps [OF _ out(2) c(2), of _ "pre @ [c]"] Cons less.prems(4) out(1) by auto
      then show ?thesis using n i c(1) False out(1) by (subst vs_loop.simps) simp
    next
      case True
      show ?thesis
      proof (cases f')
        case Nil
        have "out = []" using less.prems(1) unfolding Cons Nil True by cases simp_all
        have last: "length F = i + 1" using c(2) Nil i by simp
        then have "m (format + of_nat (i + 1)) = 0" using cstr_nul [OF cF] by simp
        then have "vs_conv str buf (m (format + of_nat (i + 1))) args (length pre) m
            = Some (length pre, args, m)"
          by (simp only:) (rule vs_conv_cases(4), auto)
        then have "vs_loop str format buf i (length pre) args m
            = vs_loop str format buf (i + 2) (length pre) args m"
          using n i c(1) True by (subst vs_loop.simps) simp
        also have "\<dots> = Some (m(str + of_nat (length pre) := 0))"
          using n last by (subst vs_loop.simps) simp
        finally show ?thesis
          using less.prems(3,4) W(3) \<open>out = []\<close> vs_inv_nul by auto
      next
        case (Cons k f'')
        have i1: "i + 1 < length F" using c(2) Cons by (metis drop_all list.distinct(1) not_le)
        have k: "m (format + of_nat (i + 1)) = k" "f'' = drop (i + 2) F"
          using cstr_nth [OF cF i1] Cons c(2) i1 by (simp_all add: Cons_nth_drop_Suc [symmetric])
        obtain t args' out' m1 where st: "out = t @ out'" "renders m0 W f'' args' out'"
            "vs_conv str buf k args (length pre) m = Some (length (pre @ t), args', m1)"
            "vs_inv m0 str L buf m1 (pre @ t)"
          using vs_conv_renders [OF _ W less.prems(3,4)] less.prems(1) \<open>f = c # f'\<close> Cons True by blast
        then obtain m' where "vs_loop str format buf (i + 2) (length (pre @ t)) args' m1 = Some m'"
            "vs_inv m0 str L buf m' ((pre @ t) @ out')" "m' (str + of_nat L) = 0"
          using less.hyps [OF _ st(2) k(2) st(4)] \<open>f = c # f'\<close> Cons less.prems(4) by auto
        then show ?thesis using n i c(1) k(1) True st(1,3) by (subst vs_loop.simps) simp
      qed
    qed
  qed
qed

section \<open>Properties\<close>

text \<open>C7: \<open>vsprintf\<close> returns, and what it leaves at the destination is the text that the format
  and the arguments describe, with its terminator; memory outside the destination and the number
  buffer is unchanged.\<close>
theorem vsprintf_renders:
  assumes "renders m W f args out" "W = region str (Suc (length out)) \<union> region buf 40"
    "region str (Suc (length out)) \<inter> region buf 40 = {}" "length out < 2 ^ 31"
    "cstr m format f" "Suc (length f) < 2 ^ 32" "region format (Suc (length f)) \<inter> W = {}"
  shows "\<exists>m'. vsprintf m str format args buf = Some m'
    \<and> (\<forall>k<length out. m' (str + of_nat k) = out ! k) \<and> m' (str + of_nat (length out)) = 0
    \<and> (\<forall>x. x \<notin> W \<longrightarrow> m' x = m x)"
proof -
  have "vs_inv m str (length out) buf m []" by (simp add: vs_inv_def)
  then obtain m' where "vs_loop str format buf 0 (length ([] :: u8 list)) args m = Some m'"
      "vs_inv m str (length out) buf m' ([] @ out)" "m' (str + of_nat (length out)) = 0"
    using vs_loop_renders [OF assms(1) _ assms(5,6,2,3,4,7), where i = 0 and pre = "[]"] by auto
  then show ?thesis using assms(2) by (auto simp: vsprintf_def vs_inv_def)
qed

text \<open>\<open>strcpy\<close> of a string that does not overlap the destination returns, leaves the same
  string at the destination and changes nothing else.\<close>
theorem strcpy_copies:
  assumes "cstr m src s" "Suc (length s) < 2 ^ 32"
    "region src (Suc (length s)) \<inter> region dst (Suc (length s)) = {}"
  shows "\<exists>m'. strcpy m dst src = Some m' \<and> cstr m' dst s \<and> cstr m' src s
    \<and> (\<forall>x. x \<notin> region dst (Suc (length s)) \<longrightarrow> m' x = m x)"
proof -
  have nz: "0 \<notin> set s" using assms(1) by (rule cstr_nonzero)
  have "cstr (store_bytes m dst (s @ [0])) dst s"
    using nz assms(2) by (intro cstr_store_bytes_self) simp_all
  moreover have "cstr (store_bytes m dst (s @ [0])) src s"
    using assms by (intro cstr_store_bytes_le [where k = "Suc (length s)"]) simp_all
  ultimately show ?thesis using strcpy_cstr [OF assms] by (auto intro: store_bytes_outside)
qed

text \<open>\<open>strcat\<close> returns with the concatenation of the two strings at the destination.\<close>
theorem strcat_appends:
  assumes "cstr m dst d" "cstr m src s" "Suc (length d + length s) < 2 ^ 32"
    "region src (Suc (length s)) \<inter> region dst (Suc (length d + length s)) = {}"
  shows "\<exists>m'. strcat m dst src = Some m' \<and> cstr m' dst (d @ s)
    \<and> (\<forall>x. x \<notin> region dst (Suc (length d + length s)) \<longrightarrow> m' x = m x)"
proof -
  let ?p = "dst + of_nat (length d)" and ?m = "store_bytes m (dst + of_nat (length d)) (s @ [0])"
  have sub: "region ?p (Suc (length s)) \<subseteq> region dst (Suc (length d + length s))"
    using assms(3) by (intro region_off) simp_all
  then have eq: "strcat m dst src = Some ?m"
    using assms by (intro strcat_cstr [OF assms(1,2)]) auto
  have "dst + of_nat i \<notin> region ?p (Suc (length s))" if "i < length d" for i
  proof
    assume "dst + of_nat i \<in> region ?p (Suc (length s))"
    then obtain k where "dst + of_nat i = ?p + of_nat k" "k < Suc (length s)" by (rule region_elim)
    then have "(of_nat i :: u32) = of_nat (length d + k)" "length d + k < 2 ^ 32" using assms(3) by simp_all
    with of_nat_neq [of i "length d + k"] that show False by simp
  qed
  then have "?m (dst + of_nat i) = d ! i" if "i < length d" for i
    using that cstr_nth [OF assms(1) that] by (simp add: store_bytes_outside)
  moreover have "?m (?p + of_nat i) = (s @ [0]) ! i" if "i \<le> length s" for i
    using that assms(3) by (intro store_bytes_nth) simp_all
  ultimately have b: "?m (dst + of_nat i) = ((d @ s) @ [0]) ! i" if "i \<le> length (d @ s)" for i
    using that spec [of _ "i - length d"]
    by (cases "i < length d") (auto simp: nth_append of_nat_diff add.assoc [symmetric] not_less
        dest!: le_Suc_ex)
  then have "cstr ?m dst (d @ s)"
    using cstr_nonzero [OF assms(1)] cstr_nonzero [OF assms(2)] b b [of "length (d @ s)"]
    unfolding cstr_iff by (auto simp: nth_append)
  then show ?thesis using eq sub by (auto simp: store_bytes_outside subset_eq)
qed

text \<open>\<open>strcmp\<close> of two strings returns, is 0 exactly for equal strings, and negates its result
  when the arguments are exchanged.\<close>
theorem strcmp_decides:
  assumes "cstr m p s" "cstr m q t"
  shows "\<exists>r. strcmp m p q = Some r \<and> strcmp m q p = Some (- r) \<and> (r = 0 \<longleftrightarrow> s = t)"
  using strcmp_cstr [OF assms] strcmp_cstr [OF assms(2,1)] str_order_0 str_order_anti by metis


section \<open>Witnesses\<close>

definition demo_text :: mem where
  "demo_text = store_bytes (store_bytes (\<lambda>_. 0) 0x100 (lit ''a%d'' @ [0])) 0x200 (lit ''xy'' @ [0])"

lemma demo_text_strings: "cstr demo_text 0x100 (lit ''a%d'')" "cstr demo_text 0x200 (lit ''xy'')"
  by (simp_all add: demo_text_def lit_def store_bytes_def)

theorem vsprintf_renders_witness:
  "\<exists>m'. vsprintf demo_text 0x1000 0x100 [- 7] 0x2000 = Some m' \<and> m' 0x1000 = of_char CHR ''a''
    \<and> m' 0x1001 = of_char CHR ''-'' \<and> m' 0x1002 = of_char CHR ''7'' \<and> m' 0x1003 = 0"
proof -
  let ?W = "region 0x1000 (Suc (length (lit ''a-7''))) \<union> region 0x2000 40"
  have t: "num_text 10 (- 7) = lit ''-7''" by code_simp
  have "renders demo_text ?W (lit ''%d'') [- 7] (num_text 10 (- 7) @ [])"
    unfolding lit_def list.map by (rule r_number) (auto intro: r_end)
  then have "renders demo_text ?W (lit ''a%d'') [- 7] (lit ''a-7'')"
    unfolding t by (auto simp: lit_def intro: r_plain)
  then have "\<exists>m'. vsprintf demo_text 0x1000 0x100 [- 7] 0x2000 = Some m'
    \<and> (\<forall>k<length (lit ''a-7''). m' (0x1000 + of_nat k) = lit ''a-7'' ! k)
    \<and> m' (0x1000 + of_nat (length (lit ''a-7''))) = 0 \<and> (\<forall>x. x \<notin> ?W \<longrightarrow> m' x = demo_text x)"
    by (rule vsprintf_renders [OF _ refl _ _ demo_text_strings(1)])
      (auto simp: lit_def Int_Un_distrib intro!: region_apart)
  then show ?thesis by (auto simp: lit_def numeral_3_eq_3 All_less_Suc)
qed

theorem strcpy_copies_witness: "\<exists>m'. strcpy demo_text 0x300 0x200 = Some m' \<and> cstr m' 0x300 (lit ''xy'')"
  using strcpy_copies [OF demo_text_strings(2), of "0x300"]
  by (auto simp: lit_def region_apart)

theorem strcat_appends_witness:
  "\<exists>m'. strcat demo_text 0x100 0x200 = Some m' \<and> cstr m' 0x100 (lit ''a%dxy'')"
  using strcat_appends [OF demo_text_strings]
  by (auto simp: lit_def region_apart2)

theorem strcmp_decides_witness: "\<exists>r. strcmp demo_text 0x100 0x200 = Some r \<and> r \<noteq> 0"
  using strcmp_decides [OF demo_text_strings] by (auto simp: lit_def)


section \<open>Blocks of bytes\<close>

lemma load_bytes_length [simp]: "length (load_bytes m p n) = n"
  by (induction n arbitrary: p) simp_all

lemma load_bytes_nth: "i < n \<Longrightarrow> load_bytes m p n ! i = m (p + of_nat i)"
proof (induction n arbitrary: p i)
  case (Suc n)
  then show ?case by (cases i) (auto simp: add.assoc)
qed simp

lemma load_bytes_cong:
  assumes "n < 2 ^ 32" "\<And>x. x \<in> region p n \<Longrightarrow> m' x = m x"
  shows "load_bytes m' p n = load_bytes m p n"
  using assms by (intro nth_equalityI) (simp_all add: load_bytes_nth in_region_off)

lemma load_store_same: "length xs = n \<Longrightarrow> n < 2 ^ 32 \<Longrightarrow> load_bytes (store_bytes m p xs) p n = xs"
  by (intro nth_equalityI) (simp_all add: load_bytes_nth store_bytes_nth)

lemma load_store_other:
  "region p n \<inter> region q (length xs) = {} \<Longrightarrow> n < 2 ^ 32 \<Longrightarrow> load_bytes (store_bytes m q xs) p n = load_bytes m p n"
  by (intro load_bytes_cong) (auto intro: store_bytes_outside)

lemma store_bytes_Cons:
  assumes "length xs < 2 ^ 32 - 1"
  shows "store_bytes (m(p := x)) (p + 1) xs = store_bytes m p (x # xs)"
proof
  fix a
  show "store_bytes (m(p := x)) (p + 1) xs a = store_bytes m p (x # xs) a"
  proof (cases "a = p")
    case True
    have "unat (- 1 :: u32) = 4294967295" by (simp add: unsigned_minus_1_eq_mask mask_eq_exp_minus_1)
    then have "unat (p - (p + 1)) = 4294967295" by simp
    then show ?thesis using True assms by (simp add: store_bytes_def)
  next
    case False
    then have "a - p \<noteq> 0" by simp
    then have "unat (a - p - 1) = unat (a - p) - 1" "unat (a - p) \<noteq> 0"
      by (simp_all only: unat_minus_one unat_eq_0 not_False_eq_True)
    then have "unat (a - p) = Suc (unat (a - (p + 1)))" by (simp add: diff_diff_eq)
    then show ?thesis using False by (simp add: store_bytes_def)
  qed
qed

lemma movsb_eq:
  "n < 2 ^ 31 \<Longrightarrow> region s n \<inter> region d n = {} \<Longrightarrow> movsb n d s m = store_bytes m d (load_bytes m s n)"
proof (induction n arbitrary: d s m)
  case (Suc n)
  have sub: "region (s + 1) n \<subseteq> region s (Suc n)" "region (d + 1) n \<subseteq> region d (Suc n)"
    using Suc.prems(1) by (auto simp: region_Suc)
  then have "movsb n (d + 1) (s + 1) (m(d := m s)) = store_bytes (m(d := m s)) (d + 1) (load_bytes (m(d := m s)) (s + 1) n)"
    using Suc.prems by (intro Suc.IH) auto
  also have "load_bytes (m(d := m s)) (s + 1) n = load_bytes m (s + 1) n"
    using Suc.prems sub(1) in_region_self [of d "Suc n"] by (intro load_bytes_cong) auto
  also have "store_bytes (m(d := m s)) (d + 1) (load_bytes m (s + 1) n) = store_bytes m d (m s # load_bytes m (s + 1) n)"
    using Suc.prems(1) by (intro store_bytes_Cons) simp
  finally show ?case by (simp only: movsb.simps load_bytes.simps)
qed simp

lemma memcpy_eq:
  "unat n < 2 ^ 31 \<Longrightarrow> region src (unat n) \<inter> region dst (unat n) = {} \<Longrightarrow>
   memcpy m dst src n = store_bytes m dst (load_bytes m src (unat n))"
  by (simp add: memcpy_def movsb_eq)

end
