(* ===== verification/Pmm.thy ===== *)
theory Pmm
  imports Bitmap Cstring
begin

text \<open>
  The physical memory manager, \<open>mm/mm.c\<close>: the bitmap of 4096-byte blocks, its initialisation
  from the multiboot memory map, allocation and release of a block, and the control registers
  the file reads and writes.  The bitmap lives in linear memory at \<open>mi_map\<close>; the address of the
  static array is the argument \<open>bitmap\<close> of \<open>pmm_init\<close>.
\<close>

definition BLOCKS_LEN :: u32 where "BLOCKS_LEN = 4096"
definition BYTE_SET :: u32 where "BYTE_SET = 0xFFFFFFFF"
definition BITMAP_LEN :: u32 where "BITMAP_LEN = 0x8000"
definition KERNEL_SPACE_END :: u32 where "KERNEL_SPACE_END = 0x401000"

record mem_info =
  mi_size :: u32
  mi_used_blocks :: u32
  mi_max_blocks :: u32
  mi_map :: u32

record pmm_state =
  ram :: mem
  pmm :: mem_info
  cr0 :: u32
  cr2 :: u32
  cr3 :: u32
  invalidated :: "u32 list"
  klog :: "(string \<times> u32 list) list"

text \<open>The kernel's own messages: a call of \<open>printk\<close> is recorded with its format and arguments.\<close>

abbreviation NL :: string where "NL \<equiv> [CHR 0x0A]"

definition kprint :: "string \<Rightarrow> u32 list \<Rightarrow> 'a pmm_state_scheme \<Rightarrow> 'a pmm_state_scheme" where
  "kprint fmt args s = s\<lparr>klog := klog s @ [(fmt, args)]\<rparr>"

section \<open>Operations\<close>

definition pmm_set_bit :: "u32 \<Rightarrow> 'a pmm_state_scheme \<Rightarrow> 'a pmm_state_scheme" where
  "pmm_set_bit b s = s\<lparr>ram := bm_set (ram s) (mi_map (pmm s)) b\<rparr>"

definition pmm_unset_bit :: "u32 \<Rightarrow> 'a pmm_state_scheme \<Rightarrow> 'a pmm_state_scheme" where
  "pmm_unset_bit b s = s\<lparr>ram := bm_unset (ram s) (mi_map (pmm s)) b\<rparr>"

definition pmm_first_free :: "'a pmm_state_scheme \<Rightarrow> u32" where
  "pmm_first_free s =
     bm_scan (ram s) (mi_map (pmm s)) [0..<unat (mi_max_blocks (pmm s) div 32)]"

definition pmm_add_used :: "u32 \<Rightarrow> 'a pmm_state_scheme \<Rightarrow> 'a pmm_state_scheme" where
  "pmm_add_used d s = s\<lparr>pmm := (pmm s)\<lparr>mi_used_blocks := mi_used_blocks (pmm s) + d\<rparr>\<rparr>"

definition pmm_init_reg :: "u32 \<Rightarrow> u32 \<Rightarrow> 'a pmm_state_scheme \<Rightarrow> 'a pmm_state_scheme" where
  "pmm_init_reg addr sz s =
     (let blocks = sz div BLOCKS_LEN; align = addr div BLOCKS_LEN;
          s = fold (\<lambda>i s. pmm_add_used (- 1) (pmm_unset_bit (align + of_nat i) s))
                [0..<unat blocks] s
      in pmm_set_bit 0 s)"

definition pmm_deinit_reg :: "u32 \<Rightarrow> u32 \<Rightarrow> 'a pmm_state_scheme \<Rightarrow> 'a pmm_state_scheme" where
  "pmm_deinit_reg addr sz s =
     (let blocks = sz div BLOCKS_LEN; align = (if addr = 0 then 0 else addr div BLOCKS_LEN)
      in fold (\<lambda>i s. pmm_add_used 1 (pmm_set_bit (align + of_nat i) s)) [0..<unat blocks] s)"

partial_function (option) pmm_parse ::
  "u32 \<Rightarrow> u32 \<Rightarrow> 'a pmm_state_scheme \<Rightarrow> 'a pmm_state_scheme option" where
  "pmm_parse mm_reg end s =
     (if mm_reg < end then
        let s = (if read32 (ram s) (mm_reg + 20) = 1
                 then pmm_init_reg (read32 (ram s) (mm_reg + 4)) (read32 (ram s) (mm_reg + 12)) s
                 else s)
        in pmm_parse (mm_reg + read32 (ram s) mm_reg + 4) end s
      else Some s)"

definition pmm_init :: "u32 \<Rightarrow> u32 \<Rightarrow> u32 \<Rightarrow> u32 \<Rightarrow> 'a pmm_state_scheme \<Rightarrow> 'a pmm_state_scheme option"
where
  "pmm_init bitmap mem_size mmap_addr mmap_len s = do {
     let s = s\<lparr>pmm := (pmm s)\<lparr>mi_max_blocks := mem_size div 4, mi_used_blocks := mem_size div 4,
               mi_map := bitmap\<rparr>\<rparr>;
     let s = s\<lparr>ram := memset (ram s) (mi_map (pmm s)) BYTE_SET BITMAP_LEN\<rparr>;
     s \<leftarrow> pmm_parse mmap_addr (mmap_addr + 24 * mmap_len) s;
     let s = pmm_deinit_reg 0 KERNEL_SPACE_END s;
     Some (s\<lparr>pmm := (pmm s)\<lparr>mi_size := (mi_max_blocks (pmm s) - mi_used_blocks (pmm s)) * 4\<rparr>\<rparr>)
   }"

definition pmm_malloc :: "'a pmm_state_scheme \<Rightarrow> u32 \<times> 'a pmm_state_scheme" where
  "pmm_malloc s = (let p = pmm_first_free s in
     if p = 0 then (0, s)
     else (BLOCKS_LEN * p, pmm_add_used 1 (pmm_set_bit p s)))"

definition pmm_free :: "u32 \<Rightarrow> 'a pmm_state_scheme \<Rightarrow> 'a pmm_state_scheme" where
  "pmm_free addr s =
     (if addr < KERNEL_SPACE_END then s
      else pmm_add_used (- 1) (pmm_unset_bit (addr div BLOCKS_LEN) s))"

definition get_mem_map :: "'a pmm_state_scheme \<Rightarrow> u32" where "get_mem_map s = mi_map (pmm s)"
definition get_mem_size :: "'a pmm_state_scheme \<Rightarrow> u32" where "get_mem_size s = mi_size (pmm s)"
definition get_used_blocks :: "'a pmm_state_scheme \<Rightarrow> u32" where
  "get_used_blocks s = mi_used_blocks (pmm s)"
definition get_max_blocks :: "'a pmm_state_scheme \<Rightarrow> u32" where
  "get_max_blocks s = mi_max_blocks (pmm s)"

definition enable_paging :: "'a pmm_state_scheme \<Rightarrow> 'a pmm_state_scheme" where
  "enable_paging s = s\<lparr>cr0 := cr0 s OR 0x80000000\<rparr>"

definition load_pdbr :: "u32 \<Rightarrow> 'a pmm_state_scheme \<Rightarrow> 'a pmm_state_scheme" where
  "load_pdbr addr s = s\<lparr>cr3 := addr\<rparr>"

definition get_pdbr :: "'a pmm_state_scheme \<Rightarrow> u32" where "get_pdbr s = cr3 s"
definition flush_tlb :: "u32 \<Rightarrow> 'a pmm_state_scheme \<Rightarrow> 'a pmm_state_scheme" where
  "flush_tlb addr s = s\<lparr>invalidated := addr # invalidated s\<rparr>"
definition get_cr0 :: "'a pmm_state_scheme \<Rightarrow> u32" where "get_cr0 s = cr0 s"
definition get_cr2 :: "'a pmm_state_scheme \<Rightarrow> u32" where "get_cr2 s = cr2 s"

section \<open>The blocks in use\<close>

definition pmm_used :: "'a pmm_state_scheme \<Rightarrow> nat \<Rightarrow> bool" where
  "pmm_used s n = used_at (ram s) (mi_map (pmm s)) n"

definition pmm_frames :: "'a pmm_state_scheme \<Rightarrow> nat set" where
  "pmm_frames s = {..<32 * unat (mi_max_blocks (pmm s) div 32)}"

definition pmm_ok :: "'a pmm_state_scheme \<Rightarrow> bool" where
  "pmm_ok s \<longleftrightarrow> unat (mi_max_blocks (pmm s)) \<le> 2 ^ 20 \<and> pmm_used s 0"

definition frame_addr :: "nat \<Rightarrow> u32" where
  "frame_addr n = BLOCKS_LEN * of_nat n"

lemma pmm_frames_bound: "pmm_ok s \<Longrightarrow> n \<in> pmm_frames s \<Longrightarrow> n < 2 ^ 20"
  by (auto simp: pmm_frames_def pmm_ok_def unat_div)

lemma pmm_set_bit_used [simp]:
  "n < 2 ^ 31 \<Longrightarrow> k < 2 ^ 31 \<Longrightarrow> pmm_used (pmm_set_bit (of_nat k) s) n \<longleftrightarrow> n = k \<or> pmm_used s n"
  by (simp add: pmm_used_def pmm_set_bit_def used_at_bm_set)

lemma pmm_unset_bit_used [simp]:
  "n < 2 ^ 31 \<Longrightarrow> k < 2 ^ 31 \<Longrightarrow> pmm_used (pmm_unset_bit (of_nat k) s) n \<longleftrightarrow> n \<noteq> k \<and> pmm_used s n"
  by (simp add: pmm_used_def pmm_unset_bit_def used_at_bm_unset)

lemma pmm_add_used_simps [simp]:
  "pmm_used (pmm_add_used d s) n = pmm_used s n"
  "mi_max_blocks (pmm (pmm_add_used d s)) = mi_max_blocks (pmm s)"
  "mi_used_blocks (pmm (pmm_add_used d s)) = mi_used_blocks (pmm s) + d"
  "mi_map (pmm (pmm_add_used d s)) = mi_map (pmm s)"
  "ram (pmm_add_used d s) = ram s"
  by (simp_all add: pmm_add_used_def pmm_used_def)

lemma pmm_bit_simps [simp]:
  "pmm (pmm_set_bit b s) = pmm s" "pmm (pmm_unset_bit b s) = pmm s"
  by (simp_all add: pmm_set_bit_def pmm_unset_bit_def)

lemma pmm_first_free_eq:
  "pmm_first_free s = first_unused (ram s) (mi_map (pmm s)) [0..<32 * unat (mi_max_blocks (pmm s) div 32)]"
  using bm_scan_eq [of 0] by (simp add: pmm_first_free_def)

lemma pmm_first_free_least:
  assumes "pmm_ok s" "n \<in> pmm_frames s" "\<not> pmm_used s n"
  obtains k where "k \<in> pmm_frames s" "pmm_first_free s = of_nat k" "\<not> pmm_used s k"
    "\<And>j. j < k \<Longrightarrow> pmm_used s j" "k < 2 ^ 20" "k \<noteq> 0"
proof -
  let ?ns = "[0..<32 * unat (mi_max_blocks (pmm s) div 32)]"
  have bound: "\<forall>k \<in> set ?ns. k < 2 ^ 31"
    using assms(1) by (auto simp: pmm_ok_def unat_div)
  have "n \<in> set ?ns" using assms(2) by (simp add: pmm_frames_def)
  then obtain k where k: "k \<in> set ?ns" "pmm_first_free s = of_nat k" "\<not> pmm_used s k"
      "\<forall>j \<in> set ?ns. j < k \<longrightarrow> pmm_used s j"
    using first_unused_Some [OF _ _ _ bound] assms(3) unfolding pmm_first_free_eq pmm_used_def
    by (metis sorted_upt)
  moreover from k have "k \<in> pmm_frames s" by (simp add: pmm_frames_def)
  moreover from this assms(1) have "k < 2 ^ 20" by (rule pmm_frames_bound [rotated])
  moreover have "k \<noteq> 0" using k(3) assms(1) by (auto simp: pmm_ok_def intro: gr0I)
  ultimately show ?thesis using that by fastforce
qed

lemma pmm_malloc_eq:
  assumes "pmm_first_free s = of_nat k" "k < 2 ^ 20" "k \<noteq> 0"
  shows "pmm_malloc s = (frame_addr k, pmm_add_used 1 (pmm_set_bit (of_nat k) s))"
proof -
  have "(of_nat k :: u32) \<noteq> 0"
    using assms(2,3) unat_of_nat_u32 [of k] by fastforce
  then show ?thesis using assms(1) by (simp add: pmm_malloc_def frame_addr_def Let_def)
qed

lemma frame_addr_inj: "a < 2 ^ 20 \<Longrightarrow> b < 2 ^ 20 \<Longrightarrow> frame_addr a = frame_addr b \<longleftrightarrow> a = b"
proof
  assume b: "a < 2 ^ 20" "b < 2 ^ 20" and "frame_addr a = frame_addr b"
  then have "(of_nat (4096 * a) :: u32) = of_nat (4096 * b)" by (simp add: frame_addr_def BLOCKS_LEN_def)
  then have "unat (of_nat (4096 * a) :: u32) = unat (of_nat (4096 * b) :: u32)" by (rule arg_cong)
  moreover have "4096 * a < 4294967296" "4096 * b < 4294967296" using b by simp_all
  ultimately have "4096 * a = 4096 * b" by (simp only: unat_of_nat_u32)
  then show "a = b" by simp
qed simp

interpretation pmm_alloc: frame_allocator pmm_malloc pmm_used pmm_frames pmm_ok frame_addr
proof
  fix s :: "'a pmm_state_scheme" and n
  show "finite (pmm_frames s)" by (simp add: pmm_frames_def)
  assume ok: "pmm_ok s"
  then show "inj_on frame_addr (pmm_frames s)"
    by (intro inj_onI) (metis frame_addr_inj pmm_frames_bound)
  assume "n \<in> pmm_frames s" "\<not> pmm_used s n"
  then obtain k where k: "k \<in> pmm_frames s" "pmm_first_free s = of_nat k" "\<not> pmm_used s k"
      "k < 2 ^ 20" "k \<noteq> 0"
    using pmm_first_free_least [OF ok] by blast
  note eq = pmm_malloc_eq [OF k(2,4,5)]
  have "j < 2 ^ 31" if "j \<in> pmm_frames s" for j using pmm_frames_bound [OF ok that] by simp
  with k show "\<exists>k \<in> pmm_frames s. \<not> pmm_used s k \<and> fst (pmm_malloc s) = frame_addr k
      \<and> (\<forall>j \<in> pmm_frames s. pmm_used (snd (pmm_malloc s)) j \<longleftrightarrow> j = k \<or> pmm_used s j)"
    by (intro bexI [of _ k]) (auto simp: eq)
  show "pmm_ok (snd (pmm_malloc s)) \<and> pmm_frames (snd (pmm_malloc s)) = pmm_frames s"
    using ok k(4) by (simp add: eq pmm_ok_def pmm_frames_def)
qed


section \<open>Allocation and release\<close>

text \<open>C1: while a block is free, \<open>pmm_malloc\<close> returns the address of the lowest free block, marks
  that block and no other, counts it, and keeps the allocator's invariant.\<close>
theorem pmm_malloc_least:
  assumes "pmm_ok s" "n \<in> pmm_frames s" "\<not> pmm_used s n"
  shows "\<exists>k s'. pmm_malloc s = (frame_addr k, s') \<and> k \<in> pmm_frames s \<and> \<not> pmm_used s k
    \<and> (\<forall>j<k. pmm_used s j) \<and> (\<forall>j<2 ^ 31. pmm_used s' j \<longleftrightarrow> j = k \<or> pmm_used s j)
    \<and> get_used_blocks s' = get_used_blocks s + 1 \<and> pmm_ok s'"
proof -
  obtain k where k: "k \<in> pmm_frames s" "pmm_first_free s = of_nat k" "\<not> pmm_used s k"
      "\<And>j. j < k \<Longrightarrow> pmm_used s j" "k < 2 ^ 20" "k \<noteq> 0"
    using pmm_first_free_least [OF assms] by blast
  show ?thesis
    using k assms(1)
    by (intro exI [of _ k] exI [of _ "pmm_add_used 1 (pmm_set_bit (of_nat k) s)"])
      (auto simp: pmm_malloc_eq get_used_blocks_def pmm_ok_def)
qed

text \<open>C25: as many allocations as there are free blocks return pairwise different frames.\<close>
theorem pmm_malloc_distinct:
  assumes "pmm_ok s" "k \<le> card {n \<in> pmm_frames s. \<not> pmm_used s n}"
  shows "distinct (fst (alloc_n pmm_malloc k s)) \<and> length (fst (alloc_n pmm_malloc k s)) = k
    \<and> set (fst (alloc_n pmm_malloc k s)) \<subseteq> frame_addr ` {n \<in> pmm_frames s. \<not> pmm_used s n}"
proof -
  obtain ks where "length ks = k" "set ks \<subseteq> {n \<in> pmm_frames s. \<not> pmm_used s n}"
      "fst (alloc_n pmm_malloc k s) = List.map frame_addr ks" "distinct (List.map frame_addr ks)"
    using pmm_alloc.alloc_n_distinct [OF assms] by blast
  then show ?thesis by auto
qed

lemma div_block: "k < 2 ^ 20 \<Longrightarrow> frame_addr k div BLOCKS_LEN = of_nat k"
proof -
  assume k: "k < 2 ^ 20"
  have "frame_addr k = of_nat (4096 * k)" by (simp add: frame_addr_def BLOCKS_LEN_def)
  then have "unat (frame_addr k) = 4096 * k" using k unat_of_nat_u32 [of "4096 * k"] by simp
  then have "unat (frame_addr k div BLOCKS_LEN) = unat (of_nat k :: u32)"
    using k by (simp add: unat_div BLOCKS_LEN_def)
  then show ?thesis by (simp only: word_unat_eq_iff)
qed

text \<open>Releasing the block just allocated restores every block's mark and the count of used
  blocks, for a block above the kernel's space.\<close>
theorem pmm_free_malloc:
  assumes "pmm_ok s" "n \<in> pmm_frames s" "\<not> pmm_used s n" "\<forall>j < 0x401. pmm_used s j" "k < 2 ^ 20"
  shows "case pmm_malloc s of (a, s') \<Rightarrow> pmm_used (pmm_free a s') k = pmm_used s k
    \<and> get_used_blocks (pmm_free a s') = get_used_blocks s"
proof -
  obtain q where q: "q \<in> pmm_frames s" "pmm_first_free s = of_nat q" "\<not> pmm_used s q"
      "q < 2 ^ 20" "q \<noteq> 0"
    using pmm_first_free_least [OF assms(1-3)] by blast
  then have "0x401 \<le> q" using assms(4) by (meson not_le)
  then have "\<not> frame_addr q < KERNEL_SPACE_END"
    using q(4) by (simp add: frame_addr_def BLOCKS_LEN_def KERNEL_SPACE_END_def word_less_nat_alt
        unat_word_ariths)
  with q assms(5) show ?thesis
    by (auto simp: pmm_malloc_eq pmm_free_def get_used_blocks_def div_block)
qed

text \<open>C26: when every block is in use the allocator does not fail: it marks bit 31 of the bitmap's
  first word, counts a block and returns the address \<open>0xFFFFF000\<close>.\<close>
theorem pmm_malloc_exhausted:
  assumes "\<forall>n \<in> pmm_frames s. pmm_used s n"
  shows "\<exists>s'. pmm_malloc s = (0xFFFFF000, s') \<and> get_used_blocks s' = get_used_blocks s + 1
    \<and> pmm_used s' 31"
proof -
  have "pmm_first_free s = - 1"
    using assms unfolding pmm_first_free_eq pmm_frames_def pmm_used_def
    by (intro first_unused_None) auto
  moreover have "c_div (- 1) 32 = 0" "c_mod (- 1) 32 = - 1" "shl1 (- 1) = 0x80000000"
    by (simp_all add: c_div_def c_mod_def shl1_def)
  ultimately show ?thesis
    by (simp add: pmm_malloc_def BLOCKS_LEN_def get_used_blocks_def pmm_used_def used_at_def
        pmm_set_bit_def bm_set_def bm_word_def bit_or_iff Let_def)
qed

section \<open>Initialisation from the memory map\<close>

text \<open>The bitmap's own bytes, and states that differ from \<open>s\<close> there and in the counters only.\<close>

definition same_outside :: "'a pmm_state_scheme \<Rightarrow> 'a pmm_state_scheme \<Rightarrow> bool" where
  "same_outside s s' \<longleftrightarrow> mi_map (pmm s') = mi_map (pmm s) \<and> mi_max_blocks (pmm s') = mi_max_blocks (pmm s)
     \<and> (\<forall>x. x \<notin> region (mi_map (pmm s)) 0x20000 \<longrightarrow> ram s' x = ram s x)"

lemma same_outside_refl [simp]: "same_outside s s"
  by (simp add: same_outside_def)

lemma same_outside_trans: "same_outside s t \<Longrightarrow> same_outside t u \<Longrightarrow> same_outside s u"
  by (simp add: same_outside_def)

lemma same_outside_step [simp]:
  assumes "k < 2 ^ 20"
  shows "same_outside s (pmm_add_used d (pmm_set_bit (of_nat k) s))"
    "same_outside s (pmm_add_used d (pmm_unset_bit (of_nat k) s))"
    "same_outside s (pmm_set_bit (of_nat k) s)"
  using assms bm_update_outside [where bm = "mi_map (pmm s)" and N = "0x8000" and k = k and m = "ram s"]
  by (simp_all add: same_outside_def pmm_add_used_def pmm_set_bit_def pmm_unset_bit_def)

lemma fold_unset:
  fixes s :: "'a pmm_state_scheme"
  assumes "a + c \<le> 2 ^ 20"
  defines "r \<equiv> fold (\<lambda>i s. pmm_add_used (- 1) (pmm_unset_bit (of_nat a + of_nat i) s)) [0..<c] s"
  shows "same_outside s r \<and> (\<forall>n<2 ^ 20. pmm_used r n \<longleftrightarrow> pmm_used s n \<and> \<not> (a \<le> n \<and> n < a + c))
    \<and> get_used_blocks r = get_used_blocks s - of_nat c"
  using assms(1) unfolding r_def
proof (induction c)
  case (Suc c)
  let ?r = "fold (\<lambda>i s. pmm_add_used (- 1) (pmm_unset_bit (of_nat a + of_nat i) s)) [0..<c] s"
  have eq: "of_nat a + of_nat c = (of_nat (a + c) :: u32)" by simp
  have "a + c < 2 ^ 20" using Suc.prems by simp
  with Suc show ?case
    unfolding upt_Suc_append [OF le0] fold_append comp_apply fold_simps eq
    by (auto simp: get_used_blocks_def simp del: of_nat_add intro: same_outside_trans)
qed (simp add: get_used_blocks_def)

lemma fold_set:
  fixes s :: "'a pmm_state_scheme"
  assumes "a + c \<le> 2 ^ 20"
  defines "r \<equiv> fold (\<lambda>i s. pmm_add_used 1 (pmm_set_bit (of_nat a + of_nat i) s)) [0..<c] s"
  shows "same_outside s r \<and> (\<forall>n<2 ^ 20. pmm_used r n \<longleftrightarrow> pmm_used s n \<or> a \<le> n \<and> n < a + c)
    \<and> get_used_blocks r = get_used_blocks s + of_nat c"
  using assms(1) unfolding r_def
proof (induction c)
  case (Suc c)
  let ?r = "fold (\<lambda>i s. pmm_add_used 1 (pmm_set_bit (of_nat a + of_nat i) s)) [0..<c] s"
  have eq: "of_nat a + of_nat c = (of_nat (a + c) :: u32)" by simp
  have "a + c < 2 ^ 20" using Suc.prems by simp
  with Suc show ?case
    unfolding upt_Suc_append [OF le0] fold_append comp_apply fold_simps eq
    by (auto simp: get_used_blocks_def simp del: of_nat_add intro: same_outside_trans)
qed (auto simp: get_used_blocks_def)

lemma pmm_set_bit_0 [simp]:
  "n < 2 ^ 31 \<Longrightarrow> pmm_used (pmm_set_bit 0 s) n \<longleftrightarrow> n = 0 \<or> pmm_used s n"
  "same_outside s (pmm_set_bit 0 s)"
  using pmm_set_bit_used [of n 0 s] same_outside_step(3) [of 0 s] by simp_all

definition first_block :: "u32 \<Rightarrow> nat" where "first_block a = unat a div 4096"

lemma unat_first_block [simp]: "unat (of_nat (first_block x) :: u32) = first_block x"
  by (simp add: first_block_def unat_div_u32)

lemma div_first_block: "x div BLOCKS_LEN = of_nat (first_block x)"
  by (simp add: BLOCKS_LEN_def first_block_def word_unat_eq_iff unat_div unat_div_u32)

lemma pmm_init_reg_used:
  assumes "first_block a + first_block l \<le> 2 ^ 20"
  shows "same_outside s (pmm_init_reg a l s) \<and> (\<forall>n<2 ^ 20. pmm_used (pmm_init_reg a l s) n \<longleftrightarrow>
      n = 0 \<or> pmm_used s n \<and> \<not> (first_block a \<le> n \<and> n < first_block a + first_block l))
    \<and> get_used_blocks (pmm_init_reg a l s) = get_used_blocks s - of_nat (first_block l)"
proof -
  let ?r = "fold (\<lambda>i s. pmm_add_used (- 1) (pmm_unset_bit (of_nat (first_block a) + of_nat i) s))
    [0..<first_block l] s"
  have eq: "pmm_init_reg a l s = pmm_set_bit 0 ?r"
    unfolding pmm_init_reg_def Let_def div_first_block unat_first_block by simp
  show ?thesis
    using fold_unset [OF assms, where ?s = s] unfolding eq
    by (auto simp: get_used_blocks_def intro: same_outside_trans)
qed

lemma pmm_deinit_reg_used:
  assumes "first_block a + first_block l \<le> 2 ^ 20"
  shows "same_outside s (pmm_deinit_reg a l s) \<and> (\<forall>n<2 ^ 20. pmm_used (pmm_deinit_reg a l s) n \<longleftrightarrow>
      pmm_used s n \<or> first_block a \<le> n \<and> n < first_block a + first_block l)
    \<and> get_used_blocks (pmm_deinit_reg a l s) = get_used_blocks s + of_nat (first_block l)"
proof -
  have a: "(if a = 0 then 0 else a div BLOCKS_LEN) = of_nat (first_block a)"
    by (simp add: div_first_block first_block_def)
  show ?thesis
    using fold_set [OF assms] unfolding pmm_deinit_reg_def Let_def a unfolding div_first_block unat_first_block by simp
qed


text \<open>The multiboot memory map from \<open>p\<close> up to \<open>e\<close>: its entries (low address, low length, type),
  none of which lies in the bitmap at \<open>bm\<close>.\<close>

fun mmap_at :: "mem \<Rightarrow> u32 \<Rightarrow> u32 \<Rightarrow> u32 \<Rightarrow> (u32 \<times> u32 \<times> u32) list \<Rightarrow> bool" where
  "mmap_at m bm p e [] \<longleftrightarrow> \<not> p < e"
| "mmap_at m bm p e ((a, l, t) # es) \<longleftrightarrow> p < e \<and> region p 24 \<inter> region bm 0x20000 = {}
     \<and> read32 m (p + 4) = a \<and> read32 m (p + 12) = l \<and> read32 m (p + 20) = t
     \<and> mmap_at m bm (p + read32 m p + 4) e es"

definition available :: "(u32 \<times> u32 \<times> u32) list \<Rightarrow> nat \<Rightarrow> bool" where
  "available es n \<longleftrightarrow>
     (\<exists>(a, l, t) \<in> set es. t = 1 \<and> first_block a \<le> n \<and> n < first_block a + first_block l)"

definition map_fits :: "(u32 \<times> u32 \<times> u32) list \<Rightarrow> bool" where
  "map_fits es \<longleftrightarrow> (\<forall>(a, l, t) \<in> set es. t = 1 \<longrightarrow> first_block a + first_block l \<le> 2 ^ 20)"

definition map_blocks :: "(u32 \<times> u32 \<times> u32) list \<Rightarrow> nat" where
  "map_blocks es = (\<Sum>(a, l, t) \<leftarrow> es. if t = 1 then first_block l else 0)"

lemma mmap_at_cong:
  "(\<And>x. x \<notin> region bm 0x20000 \<Longrightarrow> m' x = m x) \<Longrightarrow> mmap_at m bm p e es \<Longrightarrow> mmap_at m' bm p e es"
proof (induction es arbitrary: p)
  case (Cons x es)
  obtain a l t where x: "x = (a, l, t)" by (cases x)
  have sep: "region p 24 \<inter> region bm 0x20000 = {}" using Cons.prems x by simp
  have "read32 m' (p + of_nat d) = read32 m (p + of_nat d)" if "d + 4 \<le> 24" for d
    using region_off [of d 4 24 p] that sep Cons.prems(1) by (intro read32_cong) auto
  from this [of 0] this [of 4] this [of 12] this [of 20] Cons show ?case by (simp add: x)
qed simp

lemma pmm_parse_result:
  assumes "mmap_at (ram s) (mi_map (pmm s)) p e es" "map_fits es"
  shows "\<exists>s'. pmm_parse p e s = Some s' \<and> same_outside s s'
    \<and> (\<forall>n<2 ^ 20. 0 < n \<longrightarrow> (pmm_used s' n \<longleftrightarrow> pmm_used s n \<and> \<not> available es n))
    \<and> get_used_blocks s' = get_used_blocks s - of_nat (map_blocks es)"
  using assms
proof (induction es arbitrary: p s)
  case Nil
  then show ?case by (simp add: pmm_parse.simps available_def map_blocks_def)
next
  case (Cons x es)
  obtain a l t where x: "x = (a, l, t)" by (cases x)
  define s1 where "s1 = (if t = 1 then pmm_init_reg a l s else s)"
  have s1: "same_outside s s1"
      "\<And>n. n < 2 ^ 20 \<Longrightarrow> 0 < n \<Longrightarrow> pmm_used s1 n \<longleftrightarrow> pmm_used s n \<and> \<not> available [x] n"
      "get_used_blocks s1 = get_used_blocks s - of_nat (map_blocks [x])"
    using pmm_init_reg_used [of a l s] Cons.prems(2)
    by (auto simp: s1_def x map_fits_def available_def map_blocks_def)
  have split: "available (x # es) n \<longleftrightarrow> available [x] n \<or> available es n"
      "map_blocks (x # es) = map_blocks [x] + map_blocks es" for n
    by (auto simp: available_def map_blocks_def)
  have "mmap_at (ram s1) (mi_map (pmm s1)) p e (x # es)"
    using s1(1) Cons.prems(1) by (auto simp: same_outside_def intro: mmap_at_cong)
  moreover have "read32 (ram s1) p = read32 (ram s) p"
    using region_off [of 0 4 24 p] Cons.prems(1) s1(1)
    by (intro read32_cong) (auto simp: x same_outside_def)
  ultimately obtain s' where "pmm_parse (p + read32 (ram s) p + 4) e s1 = Some s'" "same_outside s1 s'"
      "\<forall>n<2 ^ 20. 0 < n \<longrightarrow> (pmm_used s' n \<longleftrightarrow> pmm_used s1 n \<and> \<not> available es n)"
      "get_used_blocks s' = get_used_blocks s1 - of_nat (map_blocks es)"
    using Cons.IH [of s1 "p + read32 (ram s) p + 4"] Cons.prems(2) by (auto simp: x map_fits_def)
  moreover have "pmm_parse p e s = pmm_parse (p + read32 (ram s1) p + 4) e s1"
    using Cons.prems(1) by (subst pmm_parse.simps) (simp add: x s1_def Let_def)
  ultimately show ?case
    using s1 \<open>read32 (ram s1) p = _\<close> by (auto simp: split intro: same_outside_trans)
qed

lemma memset_used:
  assumes "unat len = 4 * k" "n < 2 ^ 20" "k \<le> 2 ^ 26"
  shows "used_at (memset m bm BYTE_SET len) bm n \<longleftrightarrow> n < 32 * k \<or> used_at m bm n"
proof (cases "n < 32 * k")
  case True
  have "used_at (memset m bm BYTE_SET len) bm n = used_at (\<lambda>_. 0xFF) bm n"
    using True assms by (intro used_at_cong [of bm k]) (simp_all add: memset_def region_def BYTE_SET_def)
  moreover have "read32 (\<lambda>_. 0xFF) (bm_word bm (n div 32)) = - 1" by (simp add: read32_def)
  ultimately show ?thesis using True by (simp add: used_at_def)
next
  case False
  have "read32 (memset m bm BYTE_SET len) (bm_word bm (n div 32)) = read32 m (bm_word bm (n div 32))"
  proof (rule read32_cong)
    fix x assume "x \<in> region (bm_word bm (n div 32)) 4"
    then obtain d where d: "x = bm_word bm (n div 32) + of_nat d" "d < 4"
      unfolding region_def by (metis (no_types, lifting) add.commute diff_add_cancel mem_Collect_eq of_nat_unat_u32)
    have q: "k \<le> n div 32" "n div 32 < 1048576" using False assms(2) by (simp_all add: less_eq_div_iff_mult_less_eq mult.commute)
    have "x - bm = of_nat (4 * (n div 32) + d)" by (simp add: bm_word_def d)
    moreover have "4 * k \<le> 4 * (n div 32) + d" "4 * (n div 32) + d < 4294967296"
      using q d(2) by linarith+
    ultimately show "memset m bm BYTE_SET len x = m x"
      using assms(1) by (simp add: memset_def del: of_nat_add of_nat_mult)
  qed
  then show ?thesis using False by (simp add: used_at_def)
qed

text \<open>C6: \<open>pmm_init\<close> returns for a memory map whose entries lie outside the bitmap, and leaves
  exactly the kernel's blocks and the blocks outside the available regions in use, for the first
  \<open>2 ^ 18\<close> blocks (1 GB); above them, where the initial fill of \<open>BITMAP_LEN\<close> bytes does not
  reach, a block outside the map keeps the bit the array held before.  The count of used blocks
  is the memory size less the available blocks plus the kernel's.\<close>
theorem pmm_init_used:
  assumes "mmap_at (memset (ram s) bm BYTE_SET BITMAP_LEN) bm mmap (mmap + 24 * len) es" "map_fits es"
  shows "\<exists>s'. pmm_init bm mem_size mmap len s = Some s'
    \<and> (\<forall>n<2 ^ 20. pmm_used s' n \<longleftrightarrow>
         n < 0x401 \<or> \<not> available es n \<and> (n < 2 ^ 18 \<or> used_at (ram s) bm n))
    \<and> get_used_blocks s' = mem_size div 4 - of_nat (map_blocks es) + 0x401
    \<and> get_max_blocks s' = mem_size div 4
    \<and> get_mem_size s' = 4 * (of_nat (map_blocks es) - 0x401)"
proof -
  define s1 where "s1 = s\<lparr>pmm := (pmm s)\<lparr>mi_max_blocks := mem_size div 4,
    mi_used_blocks := mem_size div 4, mi_map := bm\<rparr>, ram := memset (ram s) bm BYTE_SET BITMAP_LEN\<rparr>"
  have s1: "mi_map (pmm s1) = bm" "get_used_blocks s1 = mem_size div 4"
      "mi_max_blocks (pmm s1) = mem_size div 4"
      "\<And>n. n < 2 ^ 20 \<Longrightarrow> pmm_used s1 n \<longleftrightarrow> n < 2 ^ 18 \<or> used_at (ram s) bm n"
    using memset_used [of "0x8000" "0x2000"] by (simp_all add: s1_def get_used_blocks_def pmm_used_def BITMAP_LEN_def)
  have "mmap_at (ram s1) (mi_map (pmm s1)) mmap (mmap + 24 * len) es" using assms(1) by (simp add: s1_def)
  then obtain s2 where s2: "pmm_parse mmap (mmap + 24 * len) s1 = Some s2" "same_outside s1 s2"
      "\<forall>n<2 ^ 20. 0 < n \<longrightarrow> (pmm_used s2 n \<longleftrightarrow> pmm_used s1 n \<and> \<not> available es n)"
      "get_used_blocks s2 = get_used_blocks s1 - of_nat (map_blocks es)"
    using pmm_parse_result [OF _ assms(2)] by blast
  define s3 where "s3 = pmm_deinit_reg 0 KERNEL_SPACE_END s2"
  have fb: "first_block 0 = 0" "first_block KERNEL_SPACE_END = 0x401"
    by (simp_all add: first_block_def KERNEL_SPACE_END_def)
  have s3: "same_outside s2 s3" "\<forall>n<2 ^ 20. pmm_used s3 n \<longleftrightarrow> pmm_used s2 n \<or> n < 0x401"
      "get_used_blocks s3 = get_used_blocks s2 + 0x401"
    using pmm_deinit_reg_used [of 0 KERNEL_SPACE_END s2] by (simp_all add: fb s3_def)
  have "pmm_init bm mem_size mmap len s
    = Some (s3\<lparr>pmm := (pmm s3)\<lparr>mi_size := (mi_max_blocks (pmm s3) - mi_used_blocks (pmm s3)) * 4\<rparr>\<rparr>)"
    using s2(1) by (simp add: pmm_init_def s1_def s3_def Let_def)
  moreover have "mi_max_blocks (pmm s3) = mem_size div 4"
    using s1(3) s2(2) s3(1) by (simp add: same_outside_def)
  ultimately show ?thesis
    using s1 s2(3,4) s3(2,3)
    by (auto simp: get_used_blocks_def get_max_blocks_def get_mem_size_def pmm_used_def)
qed

section \<open>Witnesses\<close>

definition demo_pmm :: "mem \<Rightarrow> u32 \<Rightarrow> pmm_state" where
  "demo_pmm m n = \<lparr>ram = m, pmm = \<lparr>mi_size = 0, mi_used_blocks = 1, mi_max_blocks = n, mi_map = 0x1000\<rparr>,
     cr0 = 0, cr2 = 0, cr3 = 0, invalidated = [], klog = []\<rparr>"

definition demo_free :: pmm_state where "demo_free = demo_pmm ((\<lambda>_. 0)(0x1000 := 1)) 64"

lemma demo_free_ok: "pmm_ok demo_free" "pmm_frames demo_free = {..<64}"
  by (simp_all add: demo_free_def demo_pmm_def pmm_ok_def pmm_frames_def pmm_used_def used_at_def
      bm_word_def read32_def bit_or_iff bit_push_bit_iff)

lemma demo_free_unused: "n < 64 \<Longrightarrow> pmm_used demo_free n \<longleftrightarrow> n = 0"
proof -
  have "\<forall>n \<in> set [0..<64]. pmm_used demo_free n = (n = 0)" by code_simp
  moreover assume "n < 64"
  ultimately show ?thesis by simp
qed

theorem pmm_malloc_least_witness:
  "\<exists>k s'. pmm_malloc demo_free = (frame_addr k, s') \<and> \<not> pmm_used demo_free k \<and> pmm_used s' k"
  using pmm_malloc_least [of demo_free 5] demo_free_ok demo_free_unused by fastforce

theorem pmm_malloc_distinct_witness: "distinct (fst (alloc_n pmm_malloc 3 demo_free))"
proof -
  have "card {1, 2, 3 :: nat} \<le> card {n \<in> pmm_frames demo_free. \<not> pmm_used demo_free n}"
    by (rule card_mono) (auto simp: demo_free_ok demo_free_unused)
  then show ?thesis using pmm_malloc_distinct [OF demo_free_ok(1), of 3] by simp
qed

lemma used_at_ones: "used_at (\<lambda>_. 0xFF) bm n"
proof -
  have "read32 (\<lambda>_. 0xFF) a = - 1" for a by (simp add: read32_def)
  then show ?thesis by (simp add: used_at_def)
qed

definition demo_full :: pmm_state where "demo_full = demo_pmm (\<lambda>_. 0xFF) 64"

theorem pmm_malloc_exhausted_witness: "fst (pmm_malloc demo_full) = 0xFFFFF000"
proof -
  have "\<forall>n \<in> pmm_frames demo_full. pmm_used demo_full n"
    by (simp add: demo_full_def demo_pmm_def pmm_used_def used_at_ones)
  then show ?thesis using pmm_malloc_exhausted [of demo_full] by auto
qed

definition demo_kernel :: pmm_state where
  "demo_kernel = demo_pmm (\<lambda>a. if a < 0x2084 then 0xFF else 0) 0x10000"

lemma demo_kernel_used: "n < 0x420 \<Longrightarrow> pmm_used demo_kernel n"
proof -
  assume n: "n < 0x420"
  let ?m = "\<lambda>a :: u32. if a < 0x2084 then 0xFF else 0 :: u8"
  have "?m x = 0xFF" if "x \<in> region 0x1000 (4 * 33)" for x
  proof -
    have "x = 0x1000 + of_nat (unat (x - 0x1000))" "unat (x - 0x1000) < 132"
      using that by (simp_all add: region_def)
    then obtain d where "x = of_nat (0x1000 + d)" "d < 132" by (metis of_nat_add of_nat_numeral)
    then show ?thesis by (simp add: word_less_nat_alt del: of_nat_add)
  qed
  with n have "used_at ?m 0x1000 n = used_at (\<lambda>_. 0xFF) 0x1000 n"
    by (intro used_at_cong [of _ 33]) simp_all
  then show ?thesis by (simp add: pmm_used_def demo_kernel_def demo_pmm_def used_at_ones)
qed

theorem pmm_free_malloc_witness:
  "case pmm_malloc demo_kernel of (a, s') \<Rightarrow> pmm_used (pmm_free a s') 0x500 = pmm_used demo_kernel 0x500"
proof -
  have "pmm_ok demo_kernel"
    using demo_kernel_used [of 0] by (simp add: pmm_ok_def demo_kernel_def demo_pmm_def)
  moreover have "\<not> pmm_used demo_kernel 0x9000"
    unfolding pmm_used_def used_at_def read32_def bm_word_def demo_kernel_def demo_pmm_def by simp
  moreover have "0x9000 \<in> pmm_frames demo_kernel"
    by (simp add: pmm_frames_def demo_kernel_def demo_pmm_def)
  ultimately show ?thesis using pmm_free_malloc [of demo_kernel "0x9000" "0x500"] demo_kernel_used by auto
qed

definition demo_map :: pmm_state where
  "demo_map = demo_pmm (write32 (write32 (write32 (\<lambda>_. 0) 0x100 20) 0x10C 0x1000000) 0x114 1) 0"

lemma demo_map_entries:
  "mmap_at (memset (ram demo_map) 0x100000 BYTE_SET BITMAP_LEN) 0x100000 0x100 (0x100 + 24 * 1)
     [(0, 0x1000000, 1)]"
proof -
  have "x - 0x100000 \<noteq> d" if "unat (x - 0x100) < 24" "unat d < 0x20000" for x d :: u32
  proof
    assume "x - 0x100000 = d"
    then have "x - 0x100 = d + 0xFFF00" by (simp add: algebra_simps)
    with that show False by (simp add: unat_word_ariths)
  qed
  then have "region 0x100 24 \<inter> region 0x100000 0x20000 = {}" by (auto simp: region_def)
  then show ?thesis
    by (simp add: demo_map_def demo_pmm_def memset_def read32_def write32_def BITMAP_LEN_def)
qed

theorem pmm_init_used_witness:
  "\<exists>s'. pmm_init 0x100000 0x8000 0x100 1 demo_map = Some s' \<and> pmm_used s' 0x400 \<and> \<not> pmm_used s' 0x401"
proof -
  have "map_fits [(0, 0x1000000, 1)]" "available [(0, 0x1000000, 1)] n \<longleftrightarrow> n < 0x1000" for n
    by (auto simp: map_fits_def available_def first_block_def)
  then show ?thesis using pmm_init_used [OF demo_map_entries, of "0x8000"] by auto
qed

end
