(* ===== verification/Paging.thy ===== *)
theory Paging
  imports Pmm
begin

text \<open>
  The allocator of paging structures, \<open>mm/paging.c\<close>: a bitmap of 512 blocks over the two
  megabytes at \<open>PAGE_START\<close>.  The state extends that of the physical memory manager by the
  address of the static bitmap and the count of used blocks.
\<close>

definition MAX_BLOCKS :: u32 where "MAX_BLOCKS = 512"
definition PAGE_START :: u32 where "PAGE_START = 0x200000"
definition PAGE_SIZE :: u32 where "PAGE_SIZE = 4096"

record paging_state = pmm_state +
  pg_bitmap :: u32
  pg_used_blocks :: u32

section \<open>Operations\<close>

definition paging_set_bit :: "u32 \<Rightarrow> 'a paging_state_scheme \<Rightarrow> 'a paging_state_scheme" where
  "paging_set_bit b s = s\<lparr>ram := bm_set (ram s) (pg_bitmap s) b\<rparr>"

definition paging_unset_bit :: "u32 \<Rightarrow> 'a paging_state_scheme \<Rightarrow> 'a paging_state_scheme" where
  "paging_unset_bit b s = s\<lparr>ram := bm_unset (ram s) (pg_bitmap s) b\<rparr>"

definition paging_first_free :: "'a paging_state_scheme \<Rightarrow> u32" where
  "paging_first_free s = bm_scan (ram s) (pg_bitmap s) [0..<unat (MAX_BLOCKS div 32)]"

definition page_table_malloc :: "'a paging_state_scheme \<Rightarrow> u32 \<times> 'a paging_state_scheme" where
  "page_table_malloc s = (let p = paging_first_free s in
     if p = - 1 then (0, s)
     else
       let s = paging_set_bit p s;
           s = s\<lparr>pg_used_blocks := pg_used_blocks s + 1\<rparr>;
           addr = BLOCKS_LEN * p + PAGE_START
       in (addr, s\<lparr>ram := memset (ram s) addr 0 PAGE_SIZE\<rparr>))"

definition page_table_free :: "u32 \<Rightarrow> 'a paging_state_scheme \<Rightarrow> 'a paging_state_scheme" where
  "page_table_free addr s =
     (let s = paging_unset_bit (addr div BLOCKS_LEN - PAGE_START) s
      in s\<lparr>pg_used_blocks := pg_used_blocks s - 1\<rparr>)"

definition get_page_table_bitmap :: "'a paging_state_scheme \<Rightarrow> u32" where
  "get_page_table_bitmap s = pg_bitmap s"

section \<open>The frames of paging structures\<close>

definition pg_used :: "'a paging_state_scheme \<Rightarrow> nat \<Rightarrow> bool" where
  "pg_used s n = used_at (ram s) (pg_bitmap s) n"

definition pg_frames :: "'a paging_state_scheme \<Rightarrow> nat set" where
  "pg_frames s = {..<512}"

definition pg_addr :: "nat \<Rightarrow> u32" where
  "pg_addr n = 0x200000 + 4096 * of_nat n"

definition pg_ok :: "'a paging_state_scheme \<Rightarrow> bool" where
  "pg_ok s \<longleftrightarrow> region (pg_bitmap s) 64 \<inter> region 0x200000 0x200000 = {}"

lemma pg_addr_nat: "pg_addr n = of_nat (0x200000 + 4096 * n)"
  by (simp add: pg_addr_def)

lemma unat_pg_addr: "n < 512 \<Longrightarrow> unat (pg_addr n) = 0x200000 + 4096 * n"
  unfolding pg_addr_nat by (rule unat_of_nat_u32) simp

lemma pg_addr_inj: "a < 512 \<Longrightarrow> b < 512 \<Longrightarrow> pg_addr a = pg_addr b \<longleftrightarrow> a = b"
proof
  assume "a < 512" "b < 512" "pg_addr a = pg_addr b"
  then have "0x200000 + 4096 * a = 0x200000 + 4096 * b" using unat_pg_addr by metis
  then show "a = b" by linarith
qed simp

lemma pg_addr_al: "al 12 (pg_addr n)"
proof -
  have "al 12 0x200000" "al 12 4096" by code_simp+
  then show ?thesis unfolding pg_addr_def by (intro al_add al_mult) simp_all
qed

lemma pg_page_area: "n < 512 \<Longrightarrow> region (pg_addr n) 4096 \<subseteq> region 0x200000 0x200000"
  using region_off [of "4096 * n" 4096 "0x200000" "0x200000"] by (simp add: pg_addr_def)

lemma memset_outside: "x \<notin> region p (unat len) \<Longrightarrow> memset m p v len x = m x"
  by (simp add: memset_def region_def)

lemma paging_first_free_eq:
  "paging_first_free s = first_unused (ram s) (pg_bitmap s) [0..<512]"
  using bm_scan_eq [of 0 16 "ram s" "pg_bitmap s"] by (simp add: paging_first_free_def MAX_BLOCKS_def)

lemma page_table_malloc_frame:
  assumes "pg_ok s" "n \<in> pg_frames s" "\<not> pg_used s n"
  obtains k where "k < 512" "\<not> pg_used s k" "fst (page_table_malloc s) = pg_addr k"
    "\<And>j. j < 512 \<Longrightarrow> pg_used (snd (page_table_malloc s)) j \<longleftrightarrow> j = k \<or> pg_used s j"
    "\<And>x. x \<in> region (pg_addr k) 4096 \<Longrightarrow> ram (snd (page_table_malloc s)) x = 0"
    "\<And>x. x \<notin> region (pg_addr k) 4096 \<Longrightarrow> x \<notin> region (pg_bitmap s) 64
      \<Longrightarrow> ram (snd (page_table_malloc s)) x = ram s x"
    "snd (page_table_malloc s)
      = s\<lparr>ram := ram (snd (page_table_malloc s)), pg_used_blocks := pg_used_blocks s + 1\<rparr>"
proof -
  obtain k where k: "k < 512" "paging_first_free s = of_nat k" "\<not> pg_used s k"
    using first_unused_Some [of n "[0..<512]" "ram s" "pg_bitmap s"] assms(2,3)
    unfolding paging_first_free_eq pg_used_def pg_frames_def by auto
  have "(of_nat k :: u32) \<noteq> - 1"
  proof
    assume "(of_nat k :: u32) = - 1"
    then have "(of_nat 0 :: u32) = of_nat (Suc k)" by simp
    with of_nat_neq [of 0 "Suc k"] k(1) show False by simp
  qed
  then have eq: "page_table_malloc s = (pg_addr k, s\<lparr>
      ram := memset (bm_set (ram s) (pg_bitmap s) (of_nat k)) (pg_addr k) 0 4096,
      pg_used_blocks := pg_used_blocks s + 1\<rparr>)"
    using k(2) by (simp add: page_table_malloc_def paging_set_bit_def Let_def pg_addr_def
        BLOCKS_LEN_def PAGE_START_def PAGE_SIZE_def add.commute)
  let ?m = "bm_set (ram s) (pg_bitmap s) (of_nat k)"
  have sep: "region (pg_bitmap s) (4 * 16) \<inter> region (pg_addr k) 4096 = {}"
    using assms(1) pg_page_area [OF k(1)] by (auto simp: pg_ok_def)
  have "pg_used (snd (page_table_malloc s)) j \<longleftrightarrow> j = k \<or> pg_used s j" if "j < 512" for j
  proof -
    have "used_at (memset ?m (pg_addr k) 0 4096) (pg_bitmap s) j = used_at ?m (pg_bitmap s) j"
      using that sep by (intro used_at_cong [of _ 16] memset_outside) auto
    also have "\<dots> \<longleftrightarrow> j = k \<or> used_at (ram s) (pg_bitmap s) j"
      using that k(1) by (intro used_at_bm_set) simp_all
    finally show ?thesis by (simp add: eq pg_used_def)
  qed
  moreover have "ram (snd (page_table_malloc s)) x = 0" if "x \<in> region (pg_addr k) 4096" for x
    using that by (simp add: eq memset_def region_def)
  moreover have "ram (snd (page_table_malloc s)) x = ram s x"
    if "x \<notin> region (pg_addr k) 4096" "x \<notin> region (pg_bitmap s) 64" for x
    using that k(1) bm_update_outside(1) [of x "pg_bitmap s" 16 k "ram s"]
    by (simp add: eq memset_outside)
  ultimately show ?thesis using k that [of k] by (simp add: eq)
qed

interpretation pg_alloc: frame_allocator page_table_malloc pg_used pg_frames pg_ok pg_addr
proof
  fix s :: "'a paging_state_scheme" and n
  show "finite (pg_frames s)" by (simp add: pg_frames_def)
  assume ok: "pg_ok s"
  show "inj_on pg_addr (pg_frames s)"
    by (auto simp: inj_on_def pg_frames_def pg_addr_inj)
  assume n: "n \<in> pg_frames s" "\<not> pg_used s n"
  obtain k where k: "k < 512" "\<not> pg_used s k" "fst (page_table_malloc s) = pg_addr k"
      "\<And>j. j < 512 \<Longrightarrow> pg_used (snd (page_table_malloc s)) j \<longleftrightarrow> j = k \<or> pg_used s j"
      "snd (page_table_malloc s)
        = s\<lparr>ram := ram (snd (page_table_malloc s)), pg_used_blocks := pg_used_blocks s + 1\<rparr>"
    by (rule page_table_malloc_frame [OF ok n]) (rule that)
  then show "\<exists>k \<in> pg_frames s. \<not> pg_used s k \<and> fst (page_table_malloc s) = pg_addr k
      \<and> (\<forall>j \<in> pg_frames s. pg_used (snd (page_table_malloc s)) j \<longleftrightarrow> j = k \<or> pg_used s j)"
    by (auto simp: pg_frames_def)
  have "pg_bitmap (snd (page_table_malloc s)) = pg_bitmap s" by (subst k(5)) simp
  then show "pg_ok (snd (page_table_malloc s)) \<and> pg_frames (snd (page_table_malloc s)) = pg_frames s"
    using ok by (simp add: pg_ok_def pg_frames_def)
qed

text \<open>Releasing a page table frees nothing: \<open>page_table_free\<close> subtracts the area's address
  instead of its block number, so the bit it clears lies about 256 KB below the bitmap; every
  block keeps its mark while the count of used blocks goes down.\<close>
theorem page_table_free_leaks:
  assumes "k < 512" "n < 512"
  shows "pg_used (page_table_free (pg_addr k) s) n = pg_used s n
    \<and> pg_used_blocks (page_table_free (pg_addr k) s) = pg_used_blocks s - 1"
proof -
  let ?b = "pg_addr k div BLOCKS_LEN - PAGE_START" and ?q = "(2096640 - k) div 32"
  have d: "pg_addr k div BLOCKS_LEN = of_nat (512 + k)"
    using assms(1) unat_pg_addr [OF assms(1)]
    by (simp add: word_unat_eq_iff unat_div BLOCKS_LEN_def del: of_nat_add)
  have "?b = - of_nat (2096640 - k)"
    unfolding d PAGE_START_def using assms(1) by (simp add: of_nat_diff)
  moreover have "sint (- of_nat (2096640 - k) :: u32) = - int (2096640 - k)"
    by (rule sint_neg_nat) simp
  ultimately have b: "sint ?b = - int (2096640 - k)" by simp
  have "- (int (2096640 - k) div 32) = - int ?q" by (simp only: zdiv_int of_nat_numeral)
  then have "word_of_int (- (int (2096640 - k) div 32)) = (- of_nat ?q :: u32)"
    by (simp only: of_int_minus of_int_of_nat_eq)
  moreover have "c_div ?b 32 = word_of_int (- (int (2096640 - k) div 32))"
    using assms(1) unfolding c_div_def b by (simp add: sgn_if)
  ultimately have "c_div ?b 32 = - of_nat ?q" by (simp only:)
  then have a: "pg_bitmap s + 4 * c_div ?b 32 = pg_bitmap s - 4 * of_nat ?q" by simp
  have q: "0 < ?q" "?q < 65536" using assms(1) by simp_all
  let ?i = "n div 32"
  have diff: "bm_word (pg_bitmap s) ?i - (pg_bitmap s - 4 * of_nat ?q) = of_nat (4 * (?i + ?q))"
    by (simp add: bm_word_def algebra_simps)
  have "(of_nat (4 * (?i + ?q)) :: u32) \<noteq> of_nat 0"
    using q assms(2) of_nat_neq [of 0 "4 * (?i + ?q)"] by fastforce
  then have "pg_bitmap s - 4 * of_nat ?q \<noteq> bm_word (pg_bitmap s) ?i"
    unfolding diff [symmetric] by fastforce
  moreover have "al 2 (bm_word (pg_bitmap s) ?i - (pg_bitmap s - 4 * of_nat ?q))"
    unfolding diff by (rule al_of_nat4)
  ultimately have "read32 (write32 (ram s) (pg_bitmap s - 4 * of_nat ?q) v) (bm_word (pg_bitmap s) ?i)
      = read32 (ram s) (bm_word (pg_bitmap s) ?i)" for v
    by (intro read32_write32_other)
  then show ?thesis
    by (simp add: page_table_free_def paging_unset_bit_def pg_used_def used_at_def bm_unset_def Let_def a)
qed

definition demo_paging :: paging_state where
  "demo_paging = pmm_state.extend demo_free \<lparr>pg_bitmap = 0x1100, pg_used_blocks = 0\<rparr>"

theorem page_table_free_leaks_witness:
  "pg_used (page_table_free (pg_addr 3) demo_paging) 3 = pg_used demo_paging 3"
  using page_table_free_leaks [of 3 3 demo_paging] by simp

text \<open>While a frame of the area is free, an allocated page table is the address of one of
  them, zeroed, and exactly that frame becomes used.\<close>
theorem page_table_malloc_fresh:
  assumes "pg_ok s" "n < 512" "\<not> pg_used s n"
  shows "\<exists>k<512. \<not> pg_used s k \<and> (case page_table_malloc s of (a, s') \<Rightarrow> a = pg_addr k
    \<and> (\<forall>j<512. pg_used s' j \<longleftrightarrow> j = k \<or> pg_used s j) \<and> (\<forall>x \<in> region a 4096. ram s' x = 0)
    \<and> pg_ok s')"
proof -
  have n: "n \<in> pg_frames s" using assms(2) by (simp add: pg_frames_def)
  obtain k where k: "k < 512" "\<not> pg_used s k" "fst (page_table_malloc s) = pg_addr k"
      "\<And>j. j < 512 \<Longrightarrow> pg_used (snd (page_table_malloc s)) j \<longleftrightarrow> j = k \<or> pg_used s j"
      "\<And>x. x \<in> region (pg_addr k) 4096 \<Longrightarrow> ram (snd (page_table_malloc s)) x = 0"
    by (rule page_table_malloc_frame [OF assms(1) n assms(3)]) (rule that)
  moreover have "pg_ok (snd (page_table_malloc s))"
    using pg_alloc.alloc_inv [OF assms(1) n assms(3)] by simp
  ultimately show ?thesis by (auto simp: case_prod_unfold)
qed

lemma demo_paging_ok: "pg_ok demo_paging" "n < 512 \<Longrightarrow> \<not> pg_used demo_paging n"
proof -
  show "pg_ok demo_paging"
    by (simp add: pg_ok_def demo_paging_def pmm_state.defs demo_free_def demo_pmm_def region_apart)
  assume n: "n < 512"
  have "used_at ((\<lambda>_. 0)(0x1000 := 1)) 0x1100 n = used_at (\<lambda>_. 0) 0x1100 n"
    using n by (intro used_at_cong [of _ 16]) (auto simp: region_def)
  then show "\<not> pg_used demo_paging n" by (simp add: pg_used_def demo_paging_def pmm_state.defs demo_free_def demo_pmm_def used_at_def read32_def)
qed

theorem page_table_malloc_fresh_witness:
  "\<exists>k<512. fst (page_table_malloc demo_paging) = pg_addr k"
  using page_table_malloc_fresh [OF demo_paging_ok(1), of 7] demo_paging_ok(2) [of 7]
  by (auto simp: case_prod_unfold)

end
