(* ===== verification/Vmm.thy ===== *)
theory Vmm
  imports Paging
begin

text \<open>
  The virtual memory manager, \<open>mm/vmm.c\<close>: page directories and page tables in linear memory,
  identity mapping of the kernel, mapping and unmapping of pages, address spaces of processes.
  The state adds the pointer to the current directory and the address of the kernel's directory.
\<close>

definition PAGE_PRESENT :: u32 where "PAGE_PRESENT = 0x1"
definition PAGE_RW :: u32 where "PAGE_RW = 0x2"
definition PAGE_USER :: u32 where "PAGE_USER = 0x4"
definition PAGE_FRAME_MASK :: u32 where "PAGE_FRAME_MASK = 0x7FFFF000"
definition PAGEDIR_SIZE :: u32 where "PAGEDIR_SIZE = 1024"
definition RETURN_ADDR :: u32 where "RETURN_ADDR = 0x400000"

record vmm_state = paging_state +
  current_dir :: u32
  kern_dir :: u32

section \<open>Operations\<close>

text \<open>The slot of a directory for an address, and the slot of the table that a directory entry
  names.\<close>

definition pd_index :: "u32 \<Rightarrow> u32" where "pd_index virt = drop_bit 22 virt"
definition pt_index :: "u32 \<Rightarrow> u32" where
  "pt_index virt = drop_bit 12 (drop_bit 10 (push_bit 10 virt))"

definition pde_at :: "u32 \<Rightarrow> u32 \<Rightarrow> u32" where "pde_at pdir virt = pdir + 4 * pd_index virt"
definition pte_at :: "u32 \<Rightarrow> u32 \<Rightarrow> u32" where
  "pte_at pde virt = (pde AND NOT 0xFFF) + 4 * pt_index virt"

definition pde :: "'a vmm_state_scheme \<Rightarrow> u32 \<Rightarrow> u32 \<Rightarrow> u32" where
  "pde s pdir virt = read32 (ram s) (pde_at pdir virt)"

definition set_pte :: "u32 \<Rightarrow> u32 \<Rightarrow> u32 \<Rightarrow> 'a vmm_state_scheme \<Rightarrow> 'a vmm_state_scheme" where
  "set_pte pdir virt v s = s\<lparr>ram := write32 (ram s) (pte_at (pde s pdir virt) virt) v\<rparr>"

definition vmm_create_page_table ::
  "u32 \<Rightarrow> u32 \<Rightarrow> u32 \<Rightarrow> 'a vmm_state_scheme \<Rightarrow> u32 \<times> 'a vmm_state_scheme" where
  "vmm_create_page_table pdir virt flags s = (let (pt, s) = page_table_malloc s in
     if pt = 0 then (0, s)
     else (1, s\<lparr>ram := write32 (ram s) (pde_at pdir virt) (pt OR flags)\<rparr>))"

definition vmm_map :: "u32 \<Rightarrow> u32 \<Rightarrow> u32 \<Rightarrow> 'a vmm_state_scheme \<Rightarrow> u32 \<times> 'a vmm_state_scheme" where
  "vmm_map pdir virt flags s = (let (phys, s) = pmm_malloc s in
     if phys = 0 then (0, kprint (''VMM: Failed allocating memory %x'' @ NL) [phys] s)
     else
       let (ok, s) = (if pde s pdir virt = 0 then vmm_create_page_table pdir virt flags s else (1, s))
       in if ok = 0 then (0, s) else (1, set_pte pdir virt (phys OR flags) s))"

definition vmm_map_phys ::
  "u32 \<Rightarrow> u32 \<Rightarrow> u32 \<Rightarrow> u32 \<Rightarrow> 'a vmm_state_scheme \<Rightarrow> u32 \<times> 'a vmm_state_scheme" where
  "vmm_map_phys pdir virt phys flags s =
     (let (ok, s) = (if pde s pdir virt = 0 then vmm_create_page_table pdir virt flags s else (1, s))
      in if ok = 0 then (0, s) else (1, set_pte pdir virt (phys OR flags) s))"

definition get_phys_addr :: "'a vmm_state_scheme \<Rightarrow> u32 \<Rightarrow> u32 \<Rightarrow> u32" where
  "get_phys_addr s pdir virt = (if pde s pdir virt = 0 then 0
     else push_bit 12 (drop_bit 12 (read32 (ram s) (pte_at (pde s pdir virt) virt))))"

definition vmm_unmap_page_table :: "u32 \<Rightarrow> u32 \<Rightarrow> 'a vmm_state_scheme \<Rightarrow> 'a vmm_state_scheme" where
  "vmm_unmap_page_table pdir virt s =
     (let frame = pde s pdir virt AND PAGE_FRAME_MASK;
          s = page_table_free frame s;
          s = s\<lparr>ram := write32 (ram s) (pde_at pdir virt) 0\<rparr>
      in flush_tlb virt s)"

definition vmm_unmap :: "u32 \<Rightarrow> u32 \<Rightarrow> 'a vmm_state_scheme \<Rightarrow> 'a vmm_state_scheme" where
  "vmm_unmap pdir virt s =
     (if pde s pdir virt \<noteq> 0 then
        let addr = get_phys_addr s pdir virt in
        if addr \<noteq> 0 then set_pte pdir virt 0 (pmm_free addr s)
        else kprint (''Error unmapping memory'' @ NL) [] s
      else s)"

definition vmm_unmap_phys :: "u32 \<Rightarrow> u32 \<Rightarrow> 'a vmm_state_scheme \<Rightarrow> 'a vmm_state_scheme" where
  "vmm_unmap_phys pdir virt s = (if pde s pdir virt \<noteq> 0 then set_pte pdir virt 0 s else s)"

text \<open>The loop of \<open>map_kernel\<close> over the remaining steps; its \<open>bool\<close> is false when a table could
  not be created, where the function returns early.\<close>

fun map_kernel_loop :: "nat \<Rightarrow> u32 \<Rightarrow> u32 \<Rightarrow> u32 \<Rightarrow> 'a vmm_state_scheme \<Rightarrow> bool \<times> 'a vmm_state_scheme"
where
  "map_kernel_loop 0 pdir virt phys s = (True, s)"
| "map_kernel_loop (Suc n) pdir virt phys s =
     (let (ok, s) = (if pde s pdir virt = 0
        then vmm_create_page_table pdir virt (PAGE_PRESENT OR PAGE_RW) s else (1, s))
      in if ok = 0 then (False, kprint ''Error creating page table'' [] s)
         else map_kernel_loop n pdir (virt + PAGE_SIZE) (phys + PAGE_SIZE)
           (set_pte pdir virt (phys OR PAGE_PRESENT OR PAGE_RW) s))"

definition map_kernel :: "u32 \<Rightarrow> 'a vmm_state_scheme \<Rightarrow> 'a vmm_state_scheme" where
  "map_kernel pdir s = (let (go, s) = map_kernel_loop 1024 pdir 0 0 s in
     if go then
       let flags = PAGE_PRESENT OR PAGE_RW OR PAGE_USER;
           (ok, s) = vmm_create_page_table pdir RETURN_ADDR flags s
       in if ok = 0 then kprint ''Error creating page table'' [] s
          else set_pte pdir RETURN_ADDR (RETURN_ADDR OR flags) s
     else s)"

definition change_page_directory :: "u32 \<Rightarrow> 'a vmm_state_scheme \<Rightarrow> 'a vmm_state_scheme" where
  "change_page_directory p s = load_pdbr p (s\<lparr>current_dir := p\<rparr>)"

definition get_page_directory :: "'a vmm_state_scheme \<Rightarrow> u32" where
  "get_page_directory s = current_dir s"

definition get_kern_directory :: "'a vmm_state_scheme \<Rightarrow> u32" where
  "get_kern_directory s = kern_dir s"

definition vmm_init :: "'a vmm_state_scheme \<Rightarrow> 'a vmm_state_scheme" where
  "vmm_init s =
     (let s = s\<lparr>ram := memset (ram s) (kern_dir s) 0 PAGEDIR_SIZE\<rparr>;
          s = s\<lparr>ram := memset (ram s) (get_page_table_bitmap s) 0 0x10\<rparr>;
          s = map_kernel (kern_dir s) s;
          s = change_page_directory (kern_dir s) s
      in enable_paging s)"

fun clone_loop :: "nat list \<Rightarrow> u32 \<Rightarrow> u32 \<Rightarrow> 'a vmm_state_scheme \<Rightarrow> bool \<times> 'a vmm_state_scheme" where
  "clone_loop [] pdir addr s = (True, s)"
| "clone_loop (i # is) pdir addr s =
     (let e = read32 (ram s) (kern_dir s + 4 * of_nat i) in
      if e AND PAGE_PRESENT \<noteq> 0 then
        let (ok, s) = vmm_create_page_table pdir addr (drop_bit 20 (push_bit 20 e)) s in
        if ok = 0 then (False, s)
        else
          let dst = push_bit 12 (drop_bit 12 (read32 (ram s) (pdir + 4 * of_nat i)));
              src = push_bit 12 (drop_bit 12 (read32 (ram s) (kern_dir s + 4 * of_nat i)));
              s = s\<lparr>ram := memcpy (ram s) dst src PAGE_SIZE\<rparr>
          in clone_loop is pdir (addr + KERNEL_SPACE_END) s
      else clone_loop is pdir (addr + KERNEL_SPACE_END) s)"

definition create_address_space :: "'a vmm_state_scheme \<Rightarrow> u32 \<times> 'a vmm_state_scheme" where
  "create_address_space s = (let (pdir, s) = page_table_malloc s in
     if pdir = 0 then (0, s)
     else let (ok, s) = clone_loop [0..<unat PAGEDIR_SIZE] pdir 0 s in (if ok then pdir else 0, s))"

definition delete_address_space :: "u32 \<Rightarrow> 'a vmm_state_scheme \<Rightarrow> 'a vmm_state_scheme" where
  "delete_address_space pdir s = fold (\<lambda>i s.
     let virt = of_nat i * PAGE_SIZE in
     if pde s pdir virt \<noteq> 0 then vmm_unmap_page_table pdir virt s else s) [0..<unat PAGEDIR_SIZE] s"

section \<open>Pages and their cells\<close>

lemma al12_of_nat: "al 12 (of_nat d) \<Longrightarrow> d < 4096 \<Longrightarrow> d = 0"
  by (auto simp: al_def uint_nat dest: zdvd_imp_le)

lemma page_offset:
  assumes "al 12 (p - q)" "p + of_nat d = q + of_nat e" "d \<le> e" "e < 4096"
  shows "p = q"
proof -
  have "p - q = of_nat (e - d)" using assms(2,3) by (simp add: of_nat_diff algebra_simps)
  moreover from this assms(1) have "al 12 (of_nat (e - d))" by simp
  then have "e - d = 0" using assms(4) by (intro al12_of_nat) simp_all
  ultimately show ?thesis by simp
qed

lemma pages_disjoint:
  assumes "al 12 p" "al 12 q" "p \<noteq> q"
  shows "region p 4096 \<inter> region q 4096 = {}"
proof -
  have False if x: "x \<in> region p 4096" "x \<in> region q 4096" for x
  proof -
    obtain d where d: "x = p + of_nat d" "d < 4096" using x(1) by (rule region_elim)
    obtain e where e: "x = q + of_nat e" "e < 4096" using x(2) by (rule region_elim)
    have "al 12 (p - q)" "al 12 (q - p)" using assms by (simp_all add: al_diff)
    then show False
      using page_offset [of p q d e] page_offset [of q p e d] d e assms(3) by (cases "d \<le> e") auto
  qed
  then show ?thesis by blast
qed

lemma cell_page: "i < 1024 \<Longrightarrow> region (p + 4 * i) 4 \<subseteq> region p 4096"
  using region_off [of "4 * unat i" 4 4096 p] by (simp add: word_less_nat_alt)

lemma cell_inj: "i < 1024 \<Longrightarrow> j < 1024 \<Longrightarrow> (p :: u32) + 4 * i = p + 4 * j \<longleftrightarrow> i = j"
proof
  assume b: "i < 1024" "j < 1024" and "p + 4 * i = p + 4 * j"
  then have "unat (4 * i) = unat (4 * j)" by simp
  moreover have "unat (4 * k) = 4 * unat k" if "k < 1024" for k :: u32
    using that by (simp add: unat_word_ariths word_less_nat_alt)
  ultimately have "4 * unat i = 4 * unat j" using b by simp
  then show "i = j" by (simp add: word_unat_eq_iff)
qed simp

lemma cell_rw:
  assumes "al 12 p" "al 12 q" "i < 1024" "j < 1024"
  shows "read32 (write32 m (p + 4 * i) v) (q + 4 * j) = (if p = q \<and> i = j then v else read32 m (q + 4 * j))"
proof (cases "p = q")
  case True
  have "al 2 4" by (simp add: al_def)
  then have "al 2 (4 * (j - i))" by (rule al_mult) simp
  then have "al 2 (q + 4 * j - (q + 4 * i))" by (simp add: algebra_simps)
  then show ?thesis using True assms cell_inj [of i j q] by (simp add: read32_write32_other)
next
  case False
  then have "region (p + 4 * i) 4 \<inter> region (q + 4 * j) 4 = {}"
    using pages_disjoint [OF assms(1,2)] cell_page [OF assms(3), of p] cell_page [OF assms(4), of q] by blast
  then show ?thesis using False by (simp add: read32_write32_disjoint)
qed

lemma index_less [simp]: "pd_index v < 1024" "pt_index v < 1024"
proof -
  have "pd_index v = take_bit 10 (pd_index v)" "pt_index v = take_bit 10 (pt_index v)"
    by (auto simp: pd_index_def pt_index_def bit_eq_iff bit_take_bit_iff bit_drop_bit_eq bit_push_bit_iff dest: bit_imp_le_length)
  moreover have "take_bit 10 x < 1024" for x :: u32
    using take_bit_nat_less_exp [of 10 "unat x"] by (simp add: word_less_nat_alt unsigned_take_bit_eq)
  ultimately show "pd_index v < 1024" "pt_index v < 1024" by metis+
qed

lemma same_page: "pd_index v = pd_index w \<and> pt_index v = pt_index w \<longleftrightarrow> drop_bit 12 v = drop_bit 12 w"
proof
  assume eq: "pd_index v = pd_index w \<and> pt_index v = pt_index w"
  have "bit v (12 + n) = bit w (12 + n)" if n: "12 + n < 32" for n
  proof (cases "n < 10")
    case True
    have "bit (pt_index v) n = bit (pt_index w) n" using eq by simp
    with True n show ?thesis by (simp add: pt_index_def bit_drop_bit_eq bit_push_bit_iff add.commute)
  next
    case False
    have "bit (pd_index v) (n - 10) = bit (pd_index w) (n - 10)" using eq by simp
    with False show ?thesis by (simp add: pd_index_def bit_drop_bit_eq)
  qed
  then have "bit v (12 + n) = bit w (12 + n)" for n
    by (cases "12 + n < 32") (auto dest: bit_imp_le_length)
  then show "drop_bit 12 v = drop_bit 12 w"
    by (simp add: bit_eq_iff bit_drop_bit_eq)
next
  assume eq: "drop_bit 12 v = drop_bit 12 w"
  have b: "bit v (12 + n) = bit w (12 + n)" for n
    using arg_cong [OF eq, of "\<lambda>x. bit x n"] by (simp add: bit_drop_bit_eq)
  have "bit v (22 + n) = bit w (22 + n)" for n using b [of "10 + n"] by simp
  with b show "pd_index v = pd_index w \<and> pt_index v = pt_index w"
    by (simp add: bit_eq_iff pd_index_def pt_index_def bit_drop_bit_eq bit_push_bit_iff)
qed

lemma al_page_mask: "al 12 (x AND NOT 0xFFF)"
proof -
  have "(0xFFF :: u32) = mask 12" by (simp add: mask_eq_exp_minus_1)
  then show ?thesis
    by (auto simp: al_take_bit bit_eq_iff bit_take_bit_iff bit_and_iff bit_not_iff bit_mask_iff)
qed

lemma page_of_or:
  assumes "al 12 p" "f < 0x1000"
  shows "(p OR f) AND NOT 0xFFF = p"
proof -
  have m: "(0xFFF :: u32) = mask 12" by (simp add: mask_eq_exp_minus_1)
  have "\<not> bit (take_bit 12 p) n" for n using assms(1) by (simp add: al_take_bit)
  then have "bit p n \<Longrightarrow> 12 \<le> n" for n by (metis bit_take_bit_iff not_le)
  moreover have "f = take_bit 12 f"
    using assms(2) by (simp add: word_unat_eq_iff unsigned_take_bit_eq word_less_nat_alt take_bit_nat_eq_self)
  then have "bit f n \<Longrightarrow> n < 12" for n by (metis bit_take_bit_iff)
  ultimately show ?thesis
    unfolding m by (auto simp: bit_eq_iff bit_or_iff bit_and_iff bit_not_iff bit_mask_iff dest: bit_imp_le_length)
       (meson leD)
qed

lemma frame_of_or: "f < 0x1000 \<Longrightarrow> push_bit 12 (drop_bit 12 (p OR f)) = p AND NOT 0xFFF" for p :: u32
proof -
  assume f: "f < 0x1000"
  have m: "(0xFFF :: u32) = mask 12" by (simp add: mask_eq_exp_minus_1)
  have "f = take_bit 12 f"
    using f by (simp add: word_unat_eq_iff unsigned_take_bit_eq word_less_nat_alt take_bit_nat_eq_self)
  then have "bit f n \<Longrightarrow> n < 12" for n by (metis bit_take_bit_iff)
  then show ?thesis
    unfolding m by (auto simp: bit_eq_iff bit_or_iff bit_and_iff bit_not_iff bit_mask_iff bit_push_bit_iff
      bit_drop_bit_eq dest: bit_imp_le_length)
qed

section \<open>The invariant of a directory\<close>

text \<open>A directory is a page outside the bitmap; the entries in use name different frames of the
  area that are marked used, none of them the directory itself.\<close>

definition slot :: "mem \<Rightarrow> u32 \<Rightarrow> u32 \<Rightarrow> u32" where "slot m p i = read32 m (p + 4 * i)"

definition table :: "u32 \<Rightarrow> u32" where "table e = e AND NOT 0xFFF"

definition vm_ok :: "u32 \<Rightarrow> 'a vmm_state_scheme \<Rightarrow> bool" where
  "vm_ok pdir s \<longleftrightarrow> pg_ok s \<and> al 12 pdir \<and> region (pg_bitmap s) 64 \<inter> region pdir 4096 = {}
     \<and> (\<forall>n<512. pdir = pg_addr n \<longrightarrow> pg_used s n)
     \<and> (\<forall>i<1024. slot (ram s) pdir i \<noteq> 0 \<longrightarrow>
          (\<exists>n<512. table (slot (ram s) pdir i) = pg_addr n \<and> pg_used s n \<and> pg_addr n \<noteq> pdir))
     \<and> (\<forall>i<1024. \<forall>j<1024. slot (ram s) pdir i \<noteq> 0 \<longrightarrow> slot (ram s) pdir j \<noteq> 0 \<longrightarrow>
          table (slot (ram s) pdir i) = table (slot (ram s) pdir j) \<longrightarrow> i = j)"

lemma slot_pde: "pde s pdir v = slot (ram s) pdir (pd_index v)"
  by (simp add: pde_def pde_at_def slot_def)

lemma pte_table: "pte_at e v = table e + 4 * pt_index v"
  by (simp add: pte_at_def table_def)

lemma table_al [simp]: "al 12 (table e)"
  unfolding table_def by (rule al_page_mask)

lemma slot_write:
  assumes "al 12 p" "al 12 q" "i < 1024" "j < 1024"
  shows "slot (write32 m (p + 4 * i) v) q j = (if p = q \<and> i = j then v else slot m q j)"
  unfolding slot_def by (rule cell_rw [OF assms])

lemma slot_cong:
  assumes "j < 1024" "\<And>x. x \<in> region q 4096 \<Longrightarrow> m' x = m x"
  shows "slot m' q j = slot m q j"
  using assms cell_page [of j q] unfolding slot_def by (intro read32_cong) auto

lemma vm_okD:
  assumes "vm_ok pdir s"
  shows "pg_ok s" "al 12 pdir" "region (pg_bitmap s) 64 \<inter> region pdir 4096 = {}"
    "n < 512 \<Longrightarrow> pdir = pg_addr n \<Longrightarrow> pg_used s n"
  using assms by (auto simp: vm_ok_def)

lemma vm_ok_table:
  assumes "vm_ok pdir s" "i < 1024" "slot (ram s) pdir i \<noteq> 0"
  obtains n where "n < 512" "table (slot (ram s) pdir i) = pg_addr n" "pg_used s n" "pg_addr n \<noteq> pdir"
  using assms unfolding vm_ok_def by blast

lemma vm_ok_inj:
  "vm_ok pdir s \<Longrightarrow> i < 1024 \<Longrightarrow> j < 1024 \<Longrightarrow> slot (ram s) pdir i \<noteq> 0 \<Longrightarrow> slot (ram s) pdir j \<noteq> 0
    \<Longrightarrow> table (slot (ram s) pdir i) = table (slot (ram s) pdir j) \<Longrightarrow> i = j"
  unfolding vm_ok_def by blast

lemma vm_okI:
  assumes "pg_ok s" "al 12 pdir" "region (pg_bitmap s) 64 \<inter> region pdir 4096 = {}"
    "\<And>n. n < 512 \<Longrightarrow> pdir = pg_addr n \<Longrightarrow> pg_used s n"
    "\<And>i. i < 1024 \<Longrightarrow> slot (ram s) pdir i \<noteq> 0 \<Longrightarrow>
      \<exists>n<512. table (slot (ram s) pdir i) = pg_addr n \<and> pg_used s n \<and> pg_addr n \<noteq> pdir"
    "\<And>i j. i < 1024 \<Longrightarrow> j < 1024 \<Longrightarrow> slot (ram s) pdir i \<noteq> 0 \<Longrightarrow> slot (ram s) pdir j \<noteq> 0 \<Longrightarrow>
      table (slot (ram s) pdir i) = table (slot (ram s) pdir j) \<Longrightarrow> i = j"
  shows "vm_ok pdir s"
  unfolding vm_ok_def using assms by blast

lemma vm_ok_cong:
  assumes "vm_ok pdir s" "pg_bitmap s' = pg_bitmap s"
    "\<And>n. n < 512 \<Longrightarrow> pg_used s' n = pg_used s n"
    "\<And>i. i < 1024 \<Longrightarrow> slot (ram s') pdir i = slot (ram s) pdir i"
  shows "vm_ok pdir s'"
proof (rule vm_okI)
  show "pg_ok s'" using vm_okD(1) [OF assms(1)] by (simp add: pg_ok_def assms(2))
next
  fix i assume i: "i < 1024" "slot (ram s') pdir i \<noteq> 0"
  show "\<exists>n<512. table (slot (ram s') pdir i) = pg_addr n \<and> pg_used s' n \<and> pg_addr n \<noteq> pdir"
    using vm_ok_table [OF assms(1) i(1)] i assms(3) assms(4) [OF i(1)] by metis
qed (use vm_okD [OF assms(1)] vm_ok_inj [OF assms(1)] assms(2-4) in simp_all)

text \<open>A write into a page of the area or of the directory leaves every frame's mark.\<close>

lemma pg_used_write:
  assumes "n < 512" "i < 1024" "region (pg_bitmap s) 64 \<inter> region p 4096 = {}"
    "s' = s\<lparr>ram := write32 (ram s) (p + 4 * i) v\<rparr>"
  shows "pg_used s' n = pg_used s n"
proof -
  have "used_at (write32 (ram s) (p + 4 * i) v) (pg_bitmap s) n = used_at (ram s) (pg_bitmap s) n"
    using assms(1,3) cell_page [OF assms(2), of p]
    by (intro used_at_cong [of _ 16] write32_outside) auto
  then show ?thesis by (simp add: pg_used_def assms(4))
qed

lemma bitmap_page: "pg_ok s \<Longrightarrow> n < 512 \<Longrightarrow> region (pg_bitmap s) 64 \<inter> region (pg_addr n) 4096 = {}"
  using pg_page_area [of n] by (auto simp: pg_ok_def)

text \<open>The entry of an address, the page it is translated to, and the effect of writing an entry.\<close>

definition pte :: "'a vmm_state_scheme \<Rightarrow> u32 \<Rightarrow> u32 \<Rightarrow> u32" where
  "pte s pdir v = slot (ram s) (table (pde s pdir v)) (pt_index v)"

lemma get_phys_addr_pte:
  "get_phys_addr s pdir v = (if pde s pdir v = 0 then 0 else push_bit 12 (drop_bit 12 (pte s pdir v)))"
  by (simp add: get_phys_addr_def pte_def slot_def pte_table)

lemma set_pte_effect:
  assumes "vm_ok pdir s" "pde s pdir v \<noteq> 0"
  shows "vm_ok pdir (set_pte pdir v x s)"
    "pde (set_pte pdir v x s) pdir w = pde s pdir w"
    "pde s pdir w \<noteq> 0 \<Longrightarrow>
      pte (set_pte pdir v x s) pdir w = (if drop_bit 12 w = drop_bit 12 v then x else pte s pdir w)"
    "n < 512 \<Longrightarrow> pg_used (set_pte pdir v x s) n = pg_used s n"
proof -
  note ok = vm_okD [OF assms(1)]
  obtain n0 where n0: "n0 < 512" "table (pde s pdir v) = pg_addr n0" "pg_used s n0" "pg_addr n0 \<noteq> pdir"
    using vm_ok_table [OF assms(1), of "pd_index v"] assms(2) unfolding slot_pde by auto
  have s': "set_pte pdir v x s = s\<lparr>ram := write32 (ram s) (table (pde s pdir v) + 4 * pt_index v) x\<rparr>"
    by (simp add: set_pte_def pte_table)
  have slots: "slot (ram (set_pte pdir v x s)) pdir i = slot (ram s) pdir i" if "i < 1024" for i
    using that ok(2) n0 unfolding s' by (simp add: slot_write pg_addr_al)
  show used: "pg_used (set_pte pdir v x s) n = pg_used s n" if "n < 512" for n
    using pg_used_write [OF that index_less(2) _ s'] bitmap_page [OF ok(1) n0(1)] n0(2) by simp
  have "pg_bitmap (set_pte pdir v x s) = pg_bitmap s" by (simp add: s')
  then show "vm_ok pdir (set_pte pdir v x s)"
    by (intro vm_ok_cong [OF assms(1)] used slots)
  show pd: "pde (set_pte pdir v x s) pdir w = pde s pdir w" for w
    unfolding slot_pde by (rule slots) simp
  show "pte (set_pte pdir v x s) pdir w = (if drop_bit 12 w = drop_bit 12 v then x else pte s pdir w)"
    if "pde s pdir w \<noteq> 0"
  proof -
    have "table (pde s pdir w) = table (pde s pdir v) \<longleftrightarrow> pd_index w = pd_index v"
      using vm_ok_inj [OF assms(1), of "pd_index w" "pd_index v"] assms(2) that
      unfolding slot_pde by auto
    then have "drop_bit 12 w = drop_bit 12 v
        \<longleftrightarrow> table (pde s pdir v) = table (pde s pdir w) \<and> pt_index v = pt_index w"
      using same_page [of w v] by metis
    then show ?thesis unfolding pte_def pd by (simp add: s' slot_write)
  qed
qed


text \<open>A fresh page table: the slot names it, every address it covers has the entry 0, and all else
  is as before.\<close>

lemma vmm_create_page_table_effect:
  assumes "vm_ok pdir s" "pde s pdir v = 0" "n < 512" "\<not> pg_used s n" "flags < 0x1000"
  obtains k s' where "vmm_create_page_table pdir v flags s = (1, s')" "vm_ok pdir s'" "pde s' pdir v \<noteq> 0"
    "\<And>w. pd_index w \<noteq> pd_index v \<Longrightarrow> pde s' pdir w = pde s pdir w"
    "\<And>w. pd_index w = pd_index v \<Longrightarrow> pte s' pdir w = 0 \<and> pde s' pdir w \<noteq> 0"
    "\<And>w. pde s pdir w \<noteq> 0 \<Longrightarrow> pte s' pdir w = pte s pdir w"
    "\<And>j. j < 512 \<Longrightarrow> pg_used s' j \<longleftrightarrow> j = k \<or> pg_used s j"
proof -
  note ok = vm_okD [OF assms(1)]
  have fr: "n \<in> pg_frames s" using assms(3) by (simp add: pg_frames_def)
  obtain k where k: "k < 512" "\<not> pg_used s k" "fst (page_table_malloc s) = pg_addr k"
      "\<And>j. j < 512 \<Longrightarrow> pg_used (snd (page_table_malloc s)) j \<longleftrightarrow> j = k \<or> pg_used s j"
      "\<And>x. x \<in> region (pg_addr k) 4096 \<Longrightarrow> ram (snd (page_table_malloc s)) x = 0"
      "\<And>x. x \<notin> region (pg_addr k) 4096 \<Longrightarrow> x \<notin> region (pg_bitmap s) 64
        \<Longrightarrow> ram (snd (page_table_malloc s)) x = ram s x"
      "snd (page_table_malloc s)
        = s\<lparr>ram := ram (snd (page_table_malloc s)), pg_used_blocks := pg_used_blocks s + 1\<rparr>"
    by (rule page_table_malloc_frame [OF ok(1) fr assms(4)]) (rule that)
  define s1 where "s1 = snd (page_table_malloc s)"
  define s' where "s' = s1\<lparr>ram := write32 (ram s1) (pdir + 4 * pd_index v) (pg_addr k OR flags)\<rparr>"
  have "unat (pg_addr k) \<noteq> 0" using unat_pg_addr [OF k(1)] by simp
  then have ne: "pg_addr k \<noteq> 0" by (metis unat_0)
  have eq: "vmm_create_page_table pdir v flags s = (1, s')"
    using k(3) ne by (simp add: vmm_create_page_table_def case_prod_unfold s'_def s1_def pde_at_def Let_def)
  have bm: "pg_bitmap s1 = pg_bitmap s" using k(7) by (metis s1_def paging_state.select_convs(1) paging_state.update_convs(2) paging_state.surjective pmm_state.update_convs(1))
  have pk: "pdir \<noteq> pg_addr k" using ok(4) [OF k(1)] k(2) by blast
  have tk: "table (pg_addr k OR flags) = pg_addr k"
    unfolding table_def by (rule page_of_or [OF pg_addr_al assms(5)])
  then have tne: "pg_addr k OR flags \<noteq> 0" using ne by (auto simp: table_def)
  have old: "slot (ram s') q j = slot (ram s) q j"
    if "al 12 q" "j < 1024" "q \<noteq> pg_addr k" "region (pg_bitmap s) 64 \<inter> region q 4096 = {}"
      "q \<noteq> pdir \<or> j \<noteq> pd_index v" for q j
  proof -
    have "slot (ram s1) q j = slot (ram s) q j"
      using that(2-4) pages_disjoint [OF that(1) pg_addr_al, of k]
      by (intro slot_cong k(6) [folded s1_def]) auto
    then show ?thesis using that ok(2) by (auto simp: s'_def slot_write)
  qed
  have new: "slot (ram s') (pg_addr k) j = 0" if "j < 1024" for j
  proof -
    have "slot (ram s1) (pg_addr k) j = slot (\<lambda>_. 0) (pg_addr k) j"
      using that k(5) by (intro slot_cong) (simp_all add: s1_def)
    then show ?thesis using that ok(2) pk by (simp add: s'_def slot_write pg_addr_al) (simp add: slot_def read32_def)
  qed
  have at: "slot (ram s') pdir (pd_index v) = pg_addr k OR flags"
    using ok(2) by (simp add: s'_def slot_write)
  have dir: "slot (ram s') pdir i = slot (ram s) pdir i" if "i < 1024" "i \<noteq> pd_index v" for i
    using old [of pdir i] that ok(2,3) pk by simp
  have used: "pg_used s' j \<longleftrightarrow> j = k \<or> pg_used s j" if "j < 512" for j
    using k(4) [OF that] pg_used_write [OF that, of "pd_index v" s1 pdir s'] ok(3) bm
    by (simp add: s'_def s1_def)
  have inj: "pg_addr j \<noteq> pg_addr k" if "pg_used s j" "j < 512" for j
    using that k(1,2) pg_addr_inj [of j k] by auto
  have tab: "\<exists>n<512. table (slot (ram s') pdir i) = pg_addr n \<and> pg_used s' n \<and> pg_addr n \<noteq> pdir"
    if i: "i < 1024" "slot (ram s') pdir i \<noteq> 0" for i
  proof (cases "i = pd_index v")
    case True
    then show ?thesis using at tk k(1) pk used by auto
  next
    case False
    then show ?thesis using vm_ok_table [OF assms(1) i(1)] i dir [OF i(1)] used by metis
  qed
  have oldtab: "table (slot (ram s) pdir i) \<noteq> pg_addr k" if "i < 1024" "slot (ram s) pdir i \<noteq> 0" for i
    using vm_ok_table [OF assms(1) that] inj by metis
  have "vm_ok pdir s'"
  proof (rule vm_okI)
    show "pg_ok s'" using ok(1) bm by (simp add: pg_ok_def s'_def)
    show "region (pg_bitmap s') 64 \<inter> region pdir 4096 = {}" using ok(3) bm by (simp add: s'_def)
    fix i j assume "i < 1024" "j < 1024" "slot (ram s') pdir i \<noteq> 0" "slot (ram s') pdir j \<noteq> 0"
      "table (slot (ram s') pdir i) = table (slot (ram s') pdir j)"
    then show "i = j"
      using vm_ok_inj [OF assms(1), of i j] oldtab [of i] oldtab [of j] dir [of i] dir [of j] at tk
      by (cases "i = pd_index v"; cases "j = pd_index v") auto
  qed (use ok(2,4) tab used in auto)
  moreover have "pte s' pdir w = 0 \<and> pde s' pdir w \<noteq> 0" if "pd_index w = pd_index v" for w
    unfolding pte_def slot_pde that at tk using new tne by simp
  moreover have "pde s' pdir w = pde s pdir w" if "pd_index w \<noteq> pd_index v" for w
    unfolding slot_pde using that by (intro dir) simp_all
  moreover have "pte s' pdir w = pte s pdir w" if w: "pde s pdir w \<noteq> 0" for w
  proof -
    have "slot (ram s) pdir (pd_index w) \<noteq> 0" using w by (simp add: slot_pde)
    then obtain j where j: "j < 512" "table (pde s pdir w) = pg_addr j" "pg_used s j" "pg_addr j \<noteq> pdir"
      using vm_ok_table [OF assms(1), of "pd_index w"] unfolding slot_pde by auto
    have "pd_index w \<noteq> pd_index v" using w assms(2) by (metis slot_pde)
    then have "pde s' pdir w = pde s pdir w" unfolding slot_pde by (intro dir) simp_all
    then show ?thesis
      using old [of "pg_addr j" "pt_index w"] j inj pg_addr_al bitmap_page [OF ok(1)]
      by (simp add: pte_def)
  qed
  moreover have "pde s' pdir v \<noteq> 0" unfolding slot_pde at by (rule tne)
  ultimately show ?thesis using that [OF eq _ _ _ _ _ used] by blast
qed


lemma vmm_map_phys_effect:
  assumes "vm_ok pdir s" "pde s pdir v \<noteq> 0 \<or> (\<exists>n<512. \<not> pg_used s n)" "flags < 0x1000"
  obtains k s' where "vmm_map_phys pdir v phys flags s = (1, s')" "vm_ok pdir s'"
    "\<And>w. get_phys_addr s' pdir w = (if drop_bit 12 w = drop_bit 12 v then phys AND NOT 0xFFF
       else get_phys_addr s pdir w)"
    "\<And>w. pde s' pdir w \<noteq> 0 \<longleftrightarrow> pd_index w = pd_index v \<or> pde s pdir w \<noteq> 0"
    "\<And>j. j < 512 \<Longrightarrow> pg_used s' j \<longleftrightarrow> j = k \<or> pg_used s j"
    "pde s pdir v \<noteq> 0 \<Longrightarrow> 512 \<le> k"
proof -
  have same: "drop_bit 12 w = drop_bit 12 v \<Longrightarrow> pd_index w = pd_index v" for w
    using same_page by metis
  show ?thesis
  proof (cases "pde s pdir v = 0")
    case False
    note eff = set_pte_effect [OF assms(1) False, where x = "phys OR flags"]
    have "vmm_map_phys pdir v phys flags s = (1, set_pte pdir v (phys OR flags) s)"
      using False by (simp add: vmm_map_phys_def)
    moreover have "get_phys_addr (set_pte pdir v (phys OR flags) s) pdir w
        = (if drop_bit 12 w = drop_bit 12 v then phys AND NOT 0xFFF else get_phys_addr s pdir w)" for w
      using eff(2,3) False same [of w] frame_of_or [OF assms(3)]
      by (auto simp: get_phys_addr_pte slot_pde)
    moreover have "pde (set_pte pdir v (phys OR flags) s) pdir w \<noteq> 0
        \<longleftrightarrow> pd_index w = pd_index v \<or> pde s pdir w \<noteq> 0" for w
      using eff(2) False by (auto simp: slot_pde)
    ultimately show ?thesis using that [of _ 512] eff(1,4) by auto
  next
    case True
    with assms(2) obtain n where n: "n < 512" "\<not> pg_used s n" by blast
    obtain k s1 where s1: "vmm_create_page_table pdir v flags s = (1, s1)" "vm_ok pdir s1"
        "pde s1 pdir v \<noteq> 0" "\<And>w. pd_index w \<noteq> pd_index v \<Longrightarrow> pde s1 pdir w = pde s pdir w"
        "\<And>w. pd_index w = pd_index v \<Longrightarrow> pte s1 pdir w = 0 \<and> pde s1 pdir w \<noteq> 0"
        "\<And>w. pde s pdir w \<noteq> 0 \<Longrightarrow> pte s1 pdir w = pte s pdir w"
        "\<And>j. j < 512 \<Longrightarrow> pg_used s1 j \<longleftrightarrow> j = k \<or> pg_used s j"
      by (rule vmm_create_page_table_effect [OF assms(1) True n assms(3)]) (rule that)
    note eff = set_pte_effect [OF s1(2,3), where x = "phys OR flags"]
    have "vmm_map_phys pdir v phys flags s = (1, set_pte pdir v (phys OR flags) s1)"
      using True s1(1) by (simp add: vmm_map_phys_def)
    moreover have "get_phys_addr (set_pte pdir v (phys OR flags) s1) pdir w
        = (if drop_bit 12 w = drop_bit 12 v then phys AND NOT 0xFFF else get_phys_addr s pdir w)" for w
    proof (cases "pd_index w = pd_index v")
      case eq: True
      then have "pde s pdir w = 0" using True by (simp add: slot_pde)
      with eq s1(5) [OF eq] eff(2,3) frame_of_or [OF assms(3)] show ?thesis
        by (simp add: get_phys_addr_pte)
    next
      case False
      with s1(4,6) eff(2,3) same [of w] show ?thesis by (auto simp: get_phys_addr_pte)
    qed
    moreover have "pde (set_pte pdir v (phys OR flags) s1) pdir w \<noteq> 0
        \<longleftrightarrow> pd_index w = pd_index v \<or> pde s pdir w \<noteq> 0" for w
      using eff(2) s1(4,5) by (cases "pd_index w = pd_index v") auto
    ultimately show ?thesis using that [of _ k] eff(1,4) s1(7) True by auto
  qed
qed

text \<open>C4: mapping a physical page at a virtual address succeeds while the slot's table exists or a
  frame for one is free; afterwards exactly the addresses of that page are translated to it, every
  other translation of the directory is unchanged, and the directory's invariant holds.\<close>
theorem vmm_map_phys_translates:
  assumes "vm_ok pdir s" "pde s pdir v \<noteq> 0 \<or> (\<exists>n<512. \<not> pg_used s n)" "flags < 0x1000"
  shows "\<exists>s'. vmm_map_phys pdir v phys flags s = (1, s') \<and> vm_ok pdir s'
    \<and> (\<forall>w. get_phys_addr s' pdir w = (if drop_bit 12 w = drop_bit 12 v then phys AND NOT 0xFFF
         else get_phys_addr s pdir w))"
proof -
  obtain k s' where "vmm_map_phys pdir v phys flags s = (1, s')" "vm_ok pdir s'"
    "\<And>w. get_phys_addr s' pdir w = (if drop_bit 12 w = drop_bit 12 v then phys AND NOT 0xFFF
       else get_phys_addr s pdir w)"
    by (rule vmm_map_phys_effect [OF assms]) (rule that)
  then show ?thesis by blast
qed

text \<open>Unmapping a virtual address clears the translation of its page only.\<close>
theorem vmm_unmap_phys_clears:
  assumes "vm_ok pdir s"
  shows "vm_ok pdir (vmm_unmap_phys pdir v s)
    \<and> get_phys_addr (vmm_unmap_phys pdir v s) pdir w
      = (if drop_bit 12 w = drop_bit 12 v then 0 else get_phys_addr s pdir w)"
proof (cases "pde s pdir v = 0")
  case True
  moreover have "drop_bit 12 w = drop_bit 12 v \<Longrightarrow> pde s pdir w = 0"
    using True same_page by (metis slot_pde)
  ultimately show ?thesis using assms by (simp add: vmm_unmap_phys_def get_phys_addr_pte)
next
  case False
  have "drop_bit 12 w = drop_bit 12 v \<Longrightarrow> pde s pdir w \<noteq> 0"
    using False same_page by (metis slot_pde)
  with set_pte_effect [OF assms False, where x = 0] False show ?thesis
    by (auto simp: vmm_unmap_phys_def get_phys_addr_pte)
qed

section \<open>The kernel's mapping\<close>

lemma drop12_of_nat:
  assumes "i < 2 ^ 20"
  shows "drop_bit 12 (of_nat (4096 * i) :: u32) = of_nat i"
proof -
  have "unat (of_nat (4096 * i) :: u32) = 4096 * i" using assms by (intro unat_of_nat_u32) simp
  then have "unat (drop_bit 12 (of_nat (4096 * i) :: u32)) = i"
    by (simp add: unsigned_drop_bit_eq drop_bit_eq_div unat_div del: of_nat_mult)
  moreover have "unat (of_nat i :: u32) = i" using assms by simp
  ultimately show ?thesis by (simp only: word_unat_eq_iff)
qed

lemma mask_page: "(w :: u32) AND NOT 0xFFF = push_bit 12 (drop_bit 12 w)"
proof -
  have m: "(0xFFF :: u32) = mask 12" by (simp add: mask_eq_exp_minus_1)
  show ?thesis unfolding m
    by (auto simp: bit_eq_iff bit_and_iff bit_not_iff bit_mask_iff bit_push_bit_iff bit_drop_bit_eq)
qed

lemma page_of_nat:
  assumes "i < 1024"
  shows "drop_bit 12 w = drop_bit 12 (of_nat (4096 * i) :: u32) \<longleftrightarrow> unat (drop_bit 12 w) = i"
    "pd_index (of_nat (4096 * i)) = 0"
    "unat (drop_bit 12 (w :: u32)) = i \<Longrightarrow> (of_nat (4096 * i) :: u32) AND NOT 0xFFF = w AND NOT 0xFFF"
proof -
  have d: "drop_bit 12 (of_nat (4096 * i) :: u32) = of_nat i" using assms by (intro drop12_of_nat) simp
  show eq: "drop_bit 12 w = drop_bit 12 (of_nat (4096 * i) :: u32) \<longleftrightarrow> unat (drop_bit 12 w) = i" for w :: u32
    unfolding d using assms by (auto simp: word_unat_eq_iff)
  show "(of_nat (4096 * i) :: u32) AND NOT 0xFFF = w AND NOT 0xFFF" if "unat (drop_bit 12 w) = i" for w :: u32
    using eq [of w] that unfolding mask_page by simp
  have "unat (of_nat (4096 * i) :: u32) = 4096 * i" using assms by (intro unat_of_nat_u32) simp
  then show "pd_index (of_nat (4096 * i)) = 0"
    using assms by (simp add: pd_index_def word_unat_eq_iff unsigned_drop_bit_eq drop_bit_eq_div unat_div del: of_nat_mult)
qed

lemma map_kernel_loop_Suc:
  "vmm_map_phys pdir virt phys (PAGE_PRESENT OR PAGE_RW) s = (1, s') \<Longrightarrow>
   map_kernel_loop (Suc n) pdir virt phys s = map_kernel_loop n pdir (virt + PAGE_SIZE) (phys + PAGE_SIZE) s'"
  by (auto simp: vmm_map_phys_def case_prod_unfold Let_def or.assoc split: if_splits)

lemma map_kernel_loop_effect:
  assumes "vm_ok pdir s" "pde s pdir 0 \<noteq> 0 \<or> (\<exists>n<512. \<not> pg_used s n)" "n + i \<le> 1024"
  shows "\<exists>k s'. map_kernel_loop n pdir (of_nat (4096 * i)) (of_nat (4096 * i)) s = (True, s') \<and> vm_ok pdir s'
    \<and> (\<forall>w. get_phys_addr s' pdir w = (if i \<le> unat (drop_bit 12 w) \<and> unat (drop_bit 12 w) < i + n
         then w AND NOT 0xFFF else get_phys_addr s pdir w))
    \<and> (\<forall>w. pde s' pdir w \<noteq> 0 \<longleftrightarrow> 0 < n \<and> pd_index w = 0 \<or> pde s pdir w \<noteq> 0)
    \<and> (\<forall>j<512. pg_used s' j \<longleftrightarrow> j = k \<or> pg_used s j) \<and> (pde s pdir 0 \<noteq> 0 \<longrightarrow> 512 \<le> k)"
  using assms
proof (induction n arbitrary: i s)
  case 0
  then show ?case by (intro exI [of _ 512] exI [of _ s]) auto
next
  case (Suc n)
  let ?v = "of_nat (4096 * i) :: u32"
  have i: "i < 1024" using Suc.prems(3) by simp
  have pd: "pde t pdir ?v = pde t pdir 0" for t
    unfolding slot_pde page_of_nat(2) [OF i] by (simp add: pd_index_def)
  have flags: "PAGE_PRESENT OR PAGE_RW < 0x1000" by (simp add: PAGE_PRESENT_def PAGE_RW_def)
  obtain k s1 where s1: "vmm_map_phys pdir ?v ?v (PAGE_PRESENT OR PAGE_RW) s = (1, s1)" "vm_ok pdir s1"
    "\<And>w. get_phys_addr s1 pdir w = (if drop_bit 12 w = drop_bit 12 ?v then ?v AND NOT 0xFFF
       else get_phys_addr s pdir w)"
    "\<And>w. pde s1 pdir w \<noteq> 0 \<longleftrightarrow> pd_index w = pd_index ?v \<or> pde s pdir w \<noteq> 0"
    "\<And>j. j < 512 \<Longrightarrow> pg_used s1 j \<longleftrightarrow> j = k \<or> pg_used s j"
    "pde s pdir ?v \<noteq> 0 \<Longrightarrow> 512 \<le> k"
    by (rule vmm_map_phys_effect [OF Suc.prems(1) _ flags, of ?v])
      (use Suc.prems(2) in \<open>simp only: pd\<close>, rule that)
  have p1: "pde s1 pdir 0 \<noteq> 0" using s1(4) [of 0] page_of_nat(2) [OF i] by (simp add: pd_index_def)
  have next_v: "?v + PAGE_SIZE = of_nat (4096 * Suc i)" by (simp add: PAGE_SIZE_def)
  obtain k' s' where s': "map_kernel_loop n pdir (of_nat (4096 * Suc i)) (of_nat (4096 * Suc i)) s1 = (True, s')"
      "vm_ok pdir s'" "\<forall>w. get_phys_addr s' pdir w = (if Suc i \<le> unat (drop_bit 12 w)
         \<and> unat (drop_bit 12 w) < Suc i + n then w AND NOT 0xFFF else get_phys_addr s1 pdir w)"
      "\<forall>w. pde s' pdir w \<noteq> 0 \<longleftrightarrow> 0 < n \<and> pd_index w = 0 \<or> pde s1 pdir w \<noteq> 0"
      "\<forall>j<512. pg_used s' j \<longleftrightarrow> j = k' \<or> pg_used s1 j" "512 \<le> k'"
    using Suc.IH [OF s1(2), of "Suc i"] p1 Suc.prems(3) by auto
  have "get_phys_addr s1 pdir w = (if unat (drop_bit 12 w) = i then w AND NOT 0xFFF
      else get_phys_addr s pdir w)" for w
    using s1(3) [of w] page_of_nat(1,3) [OF i, of w] by simp
  then have "get_phys_addr s' pdir w = (if i \<le> unat (drop_bit 12 w) \<and> unat (drop_bit 12 w) < i + Suc n
      then w AND NOT 0xFFF else get_phys_addr s pdir w)" for w
    using s'(3) by auto
  moreover have "pde s' pdir w \<noteq> 0 \<longleftrightarrow> 0 < Suc n \<and> pd_index w = 0 \<or> pde s pdir w \<noteq> 0" for w
    using s'(4) s1(4) [of w] page_of_nat(2) [OF i] by auto
  moreover have "\<forall>j<512. pg_used s' j \<longleftrightarrow> j = k \<or> pg_used s j" using s'(5,6) s1(5) by auto
  moreover have "map_kernel_loop (Suc n) pdir ?v ?v s = (True, s')"
    using map_kernel_loop_Suc [OF s1(1), of n] s'(1) unfolding next_v by (simp only:)
  moreover have "pde s pdir 0 \<noteq> 0 \<longrightarrow> 512 \<le> k" using s1(6) unfolding pd by blast
  ultimately show ?case using s'(2) by (intro exI conjI) blast+
qed

text \<open>C5: \<open>map_kernel\<close> on a directory whose first two slots are empty, with two frames free for
  tables, translates every address below \<open>KERNEL_SPACE_END\<close> to itself and changes no other
  translation.\<close>
theorem map_kernel_identity:
  assumes "vm_ok pdir s" "pde s pdir 0 = 0" "pde s pdir RETURN_ADDR = 0"
    "a < 512" "b < 512" "a \<noteq> b" "\<not> pg_used s a" "\<not> pg_used s b"
  shows "vm_ok pdir (map_kernel pdir s)
    \<and> get_phys_addr (map_kernel pdir s) pdir w
      = (if w < KERNEL_SPACE_END then w AND NOT 0xFFF else get_phys_addr s pdir w)"
proof -
  obtain k s1 where s1: "map_kernel_loop 1024 pdir 0 0 s = (True, s1)" "vm_ok pdir s1"
      "\<forall>w. get_phys_addr s1 pdir w = (if unat (drop_bit 12 w) < 1024 then w AND NOT 0xFFF
         else get_phys_addr s pdir w)"
      "\<forall>w. pde s1 pdir w \<noteq> 0 \<longleftrightarrow> pd_index w = 0 \<or> pde s pdir w \<noteq> 0"
      "\<forall>j<512. pg_used s1 j \<longleftrightarrow> j = k \<or> pg_used s j"
  proof -
    have "pde s pdir 0 \<noteq> 0 \<or> (\<exists>n<512. \<not> pg_used s n)" using assms(4,7) by blast
    from map_kernel_loop_effect [OF assms(1) this, of 1024 0] show thesis by (auto intro: that)
  qed
  let ?flags = "PAGE_PRESENT OR PAGE_RW OR PAGE_USER"
  have flags: "?flags < 0x1000" by (simp add: PAGE_PRESENT_def PAGE_RW_def PAGE_USER_def)
  have empty: "pde s1 pdir RETURN_ADDR = 0"
  proof -
    have "pd_index RETURN_ADDR \<noteq> 0" by (simp add: pd_index_def RETURN_ADDR_def)
    with s1(4) assms(3) show ?thesis by blast
  qed
  have "\<exists>n<512. \<not> pg_used s1 n" using s1(5) assms(4-8) by metis
  then obtain s' where s': "vmm_map_phys pdir RETURN_ADDR RETURN_ADDR ?flags s1 = (1, s')" "vm_ok pdir s'"
      "\<And>w. get_phys_addr s' pdir w = (if drop_bit 12 w = drop_bit 12 RETURN_ADDR
         then RETURN_ADDR AND NOT 0xFFF else get_phys_addr s1 pdir w)"
    using vmm_map_phys_effect [OF s1(2) _ flags, of RETURN_ADDR RETURN_ADDR] by metis
  have eq: "map_kernel pdir s = s'"
    using s1(1) s'(1) empty
    by (auto simp: map_kernel_def vmm_map_phys_def case_prod_unfold Let_def split: if_splits)
  have r: "drop_bit 12 RETURN_ADDR = (1024 :: u32)" by (simp add: RETURN_ADDR_def)
  have u: "unat (drop_bit 12 w) = unat w div 4096" by (simp add: unsigned_drop_bit_eq drop_bit_eq_div unat_div)
  have lt: "w < KERNEL_SPACE_END \<longleftrightarrow> unat (drop_bit 12 w) < 1024 \<or> drop_bit 12 w = 1024"
  proof -
    have "unat w < 4198400 \<longleftrightarrow> unat w div 4096 < 1025" by (simp add: div_less_iff_less_mult)
    also have "\<dots> \<longleftrightarrow> unat w div 4096 < 1024 \<or> unat w div 4096 = 1024" by linarith
    finally show ?thesis unfolding word_unat_eq_iff u by (simp add: KERNEL_SPACE_END_def word_less_nat_alt)
  qed
  moreover have "drop_bit 12 w = 1024 \<Longrightarrow> RETURN_ADDR AND NOT 0xFFF = w AND NOT 0xFFF"
    unfolding mask_page r by simp
  ultimately show ?thesis
    using s'(2,3) s1(3) unfolding eq r by auto
qed


text \<open>\<open>delete_address_space\<close> shifts its loop counter as an address: every step looks at slot 0,
  so the table of slot 0 is the only one that is released.\<close>
theorem delete_address_space_slot0:
  "delete_address_space pdir s = (if pde s pdir 0 \<noteq> 0 then vmm_unmap_page_table pdir 0 s else s)"
proof -
  define f where "f = (\<lambda>i (s :: 'a vmm_state_scheme). let virt = of_nat i * PAGE_SIZE in
     if pde s pdir virt \<noteq> 0 then vmm_unmap_page_table pdir virt s else s)"
  have pd: "pde s pdir (of_nat i * PAGE_SIZE) = pde s pdir 0" if "i < 1024" for i and s :: "'a vmm_state_scheme"
    using page_of_nat(2) [OF that]
    by (simp add: pde_def pde_at_def PAGE_SIZE_def mult.commute) (simp add: pd_index_def)
  have rest: "pde s pdir 0 = 0 \<Longrightarrow> set is \<subseteq> {..<1024} \<Longrightarrow> fold f is s = s" for "is" s
    by (induction "is") (auto simp: f_def pd)
  have 0: "pde (vmm_unmap_page_table pdir 0 s) pdir 0 = 0"
    by (simp add: vmm_unmap_page_table_def Let_def flush_tlb_def pde_def)
  obtain xs where xs: "[0..<1024] = 0 # xs" "set xs \<subseteq> {..<1024 :: nat}"
  proof
    show "[0..<1024] = 0 # [Suc 0..<1024]" by (rule upt_conv_Cons) simp
    show "set [Suc 0..<1024] \<subseteq> {..<1024}" unfolding set_upt by auto
  qed
  have f0: "f 0 s = (if pde s pdir 0 \<noteq> 0 then vmm_unmap_page_table pdir 0 s else s)"
    by (simp add: f_def)
  have "delete_address_space pdir s = fold f [0..<unat PAGEDIR_SIZE] s"
    by (simp only: delete_address_space_def f_def)
  also have "unat PAGEDIR_SIZE = 1024" by (simp add: PAGEDIR_SIZE_def)
  also have "fold f [0..<1024] s = fold f xs (f 0 s)" by (simp only: xs(1) fold_simps)
  also have "\<dots> = f 0 s" using rest [OF _ xs(2)] 0 unfolding f0 by (cases "pde s pdir 0 = 0") simp_all
  finally show ?thesis unfolding f0 .
qed

section \<open>Witnesses\<close>

definition demo_vmm :: vmm_state where
  "demo_vmm = paging_state.extend (paging_state.truncate demo_paging) \<lparr>current_dir = 0, kern_dir = 0x10000\<rparr>"

lemma demo_vmm_simps:
  "ram demo_vmm = (\<lambda>_. 0)(0x1000 := 1)" "pg_bitmap demo_vmm = 0x1100" "kern_dir demo_vmm = 0x10000"
  by (simp_all add: demo_vmm_def demo_paging_def paging_state.defs pmm_state.defs demo_free_def demo_pmm_def)

lemma demo_vmm_used: "n < 512 \<Longrightarrow> \<not> pg_used demo_vmm n"
  using demo_paging_ok(2) [of n]
  by (simp add: pg_used_def demo_vmm_simps demo_paging_def paging_state.defs pmm_state.defs demo_free_def demo_pmm_def)

lemma demo_vmm_empty: "i < 1024 \<Longrightarrow> slot (ram demo_vmm) 0x10000 i = 0"
proof -
  assume "i < 1024"
  then have "slot (ram demo_vmm) 0x10000 i = slot (\<lambda>_. 0) 0x10000 i"
    by (intro slot_cong) (auto simp: demo_vmm_simps region_def)
  then show ?thesis by (simp add: slot_def read32_def)
qed

lemma demo_vmm_ok: "vm_ok 0x10000 demo_vmm"
proof (rule vm_okI)
  show "pg_ok demo_vmm" by (simp add: pg_ok_def demo_vmm_simps region_apart)
  show "al 12 0x10000" by code_simp
  show "region (pg_bitmap demo_vmm) 64 \<inter> region 0x10000 4096 = {}" by (simp add: demo_vmm_simps region_apart)
  fix n :: nat assume "n < 512" "0x10000 = pg_addr n"
  then show "pg_used demo_vmm n" using unat_pg_addr [of n] by simp
qed (simp_all add: demo_vmm_empty)

lemma demo_vmm_pde: "pde demo_vmm 0x10000 v = 0"
  unfolding slot_pde by (rule demo_vmm_empty) simp

theorem vmm_map_phys_translates_witness:
  "\<exists>s'. vmm_map_phys 0x10000 0x800123 0x5000 3 demo_vmm = (1, s') \<and> get_phys_addr s' 0x10000 0x800456 = 0x5000"
  using vmm_map_phys_translates [OF demo_vmm_ok, of "0x800123" 3 "0x5000"] demo_vmm_used [of 0] by fastforce

theorem vmm_unmap_phys_clears_witness:
  "get_phys_addr (vmm_unmap_phys 0x10000 0x800123 demo_vmm) 0x10000 0x800456 = 0"
  using vmm_unmap_phys_clears [OF demo_vmm_ok, of "0x800123" "0x800456"] by simp

theorem map_kernel_identity_witness:
  "get_phys_addr (map_kernel 0x10000 demo_vmm) 0x10000 0x12345 = 0x12000"
  using map_kernel_identity [OF demo_vmm_ok demo_vmm_pde demo_vmm_pde, of 0 1 "0x12345"] demo_vmm_used
  by (simp add: KERNEL_SPACE_END_def)

end
