(* ===== verification/Heap.thy ===== *)
theory Heap
  imports Vmm
begin

text \<open>
  The block lists of \<open>mm/kheap.c\<close> and \<open>mm/heap.c\<close>.  Both files keep a chain of 16-byte headers
  (magic, size, free flag, next) in memory and share the code of first-fit allocation and of
  release with merging; the definitions here are that code over linear memory, and the
  abstraction is the list of a chain's blocks.  Pointer arithmetic is the source's: adding
  \<open>n\<close> to a header pointer advances it by \<open>16 * n\<close> bytes.
\<close>

definition HEAP_MAGIC :: u32 where "HEAP_MAGIC = 0xA0B0C0"

section \<open>Headers\<close>

definition h_magic :: "mem \<Rightarrow> u32 \<Rightarrow> u32" where "h_magic m h = read32 m h"
definition h_size :: "mem \<Rightarrow> u32 \<Rightarrow> u32" where "h_size m h = read32 m (h + 4)"
definition h_free :: "mem \<Rightarrow> u32 \<Rightarrow> u32" where "h_free m h = read32 m (h + 8)"
definition h_next :: "mem \<Rightarrow> u32 \<Rightarrow> u32" where "h_next m h = read32 m (h + 12)"

definition set_h_magic :: "u32 \<Rightarrow> u32 \<Rightarrow> mem \<Rightarrow> mem" where "set_h_magic h v m = write32 m h v"
definition set_h_size :: "u32 \<Rightarrow> u32 \<Rightarrow> mem \<Rightarrow> mem" where "set_h_size h v m = write32 m (h + 4) v"
definition set_h_free :: "u32 \<Rightarrow> u32 \<Rightarrow> mem \<Rightarrow> mem" where "set_h_free h v m = write32 m (h + 8) v"
definition set_h_next :: "u32 \<Rightarrow> u32 \<Rightarrow> mem \<Rightarrow> mem" where "set_h_next h v m = write32 m (h + 12) v"

lemmas h_defs = h_magic_def h_size_def h_free_def h_next_def
  set_h_magic_def set_h_size_def set_h_free_def set_h_next_def

section \<open>Operations\<close>

definition heap_usable :: "mem \<Rightarrow> u32 \<Rightarrow> u32 \<Rightarrow> bool" where
  "heap_usable m head len \<longleftrightarrow> h_size m head \<ge> len \<and> h_free m head = 1 \<and> h_magic m head = HEAP_MAGIC"

definition heap_split :: "u32 \<Rightarrow> u32 \<Rightarrow> mem \<Rightarrow> mem" where
  "heap_split head len m =
     (let m = set_h_free head 0 m;
          head2 = head + 16 * len + 16 * 16;
          m = set_h_size head2 (h_size m head - len - 16) m;
          m = set_h_magic head2 HEAP_MAGIC m;
          m = set_h_free head2 1 m;
          m = set_h_next head2 0 m;
          m = set_h_next head head2 m
      in set_h_size head len m)"

partial_function (option) heap_find :: "(u32 \<Rightarrow> bool) \<Rightarrow> u32 \<Rightarrow> mem \<Rightarrow> u32 \<Rightarrow> u32 option option" where
  "heap_find inside len m head =
     (if head \<noteq> 0 \<and> inside head then
        if heap_usable m head len then Some (Some head) else heap_find inside len m (h_next m head)
      else Some None)"

partial_function (option) heap_merge :: "u32 \<Rightarrow> u32 \<Rightarrow> mem \<Rightarrow> mem option" where
  "heap_merge head app m =
     (if app \<noteq> 0 \<and> h_free m app = 1 then
        let m = set_h_size head (h_size m head + (h_size m app + 16)) m;
            m = set_h_next head (h_next m app) m
        in heap_merge head (h_next m app) m
      else Some m)"

section \<open>The blocks of a chain\<close>

type_synonym block = "u32 \<times> u32 \<times> bool"

text \<open>\<open>blocks m p bs\<close>: the chain of headers from \<open>p\<close> is the list \<open>bs\<close> of address, size and
  free flag.\<close>

definition block_at :: "mem \<Rightarrow> block \<Rightarrow> bool" where
  "block_at m = (\<lambda>(a, sz, f). h_magic m a = HEAP_MAGIC \<and> h_size m a = sz
     \<and> h_free m a = (if f then 1 else 0))"

fun blocks :: "mem \<Rightarrow> u32 \<Rightarrow> block list \<Rightarrow> bool" where
  "blocks m p [] \<longleftrightarrow> p = 0"
| "blocks m p (b # bs) \<longleftrightarrow> p \<noteq> 0 \<and> p = fst b \<and> block_at m b \<and> blocks m (h_next m p) bs"

text \<open>Headers of a well-formed chain ascend by multiples of 16 and end below the top of memory.\<close>

definition apart :: "u32 \<Rightarrow> u32 \<Rightarrow> bool" where
  "apart a b \<longleftrightarrow> unat a + 16 \<le> unat b \<and> al 4 (b - a) \<and> unat b + 16 \<le> 2 ^ 32"

abbreviation ascending :: "block list \<Rightarrow> bool" where
  "ascending bs \<equiv> sorted_wrt (\<lambda>b c. apart (fst b) (fst c)) bs"

text \<open>First fit on the blocks: the block found is cut, and every block behind it is dropped.\<close>

definition cut :: "u32 \<Rightarrow> u32 \<Rightarrow> u32 \<Rightarrow> block list" where
  "cut a sz len = [(a, len, False), (a + 16 * len + 256, sz - len - 16, True)]"

fun fit :: "u32 \<Rightarrow> block list \<Rightarrow> (u32 \<times> block list) option" where
  "fit len [] = None"
| "fit len ((a, sz, f) # bs) = (if f \<and> len \<le> sz then Some (a, cut a sz len)
     else map_option (\<lambda>(p, bs'). (p, (a, sz, f) # bs')) (fit len bs))"

text \<open>Release: the block is marked free and absorbs the run of free blocks behind it.\<close>

fun absorb :: "block \<Rightarrow> block list \<Rightarrow> block list" where
  "absorb (a, sz, f) ((b, sz', True) # bs) = absorb (a, sz + (sz' + 16), f) bs"
| "absorb blk bs = blk # bs"

fun release :: "u32 \<Rightarrow> block list \<Rightarrow> block list" where
  "release p [] = []"
| "release p ((a, sz, f) # bs) = (if a = p then absorb (a, sz, True) bs else (a, sz, f) # release p bs)"

section \<open>Field access\<close>

lemma unat_off: "unat a + n \<le> 2 ^ 32 \<Longrightarrow> 0 < n \<Longrightarrow> unat d < n \<Longrightarrow> unat (a + d) = unat a + unat d"
  for a d :: u32
  by (simp add: unat_word_ariths)

lemma apart_region: "apart a b \<Longrightarrow> region a 16 \<inter> region b 16 = {}"
  by (rule region_apart) (simp_all add: apart_def)

lemma field_region:
  "region h 4 \<subseteq> region h 16" "region (h + 4) 4 \<subseteq> region h 16" "region (h + 8) 4 \<subseteq> region h 16"
  "region (h + 12) 4 \<subseteq> region h 16"
  using region_off [of 0 4 16 h] region_off [of 4 4 16 h] region_off [of 8 4 16 h] region_off [of 12 4 16 h]
  by simp_all

lemma h_cong:
  assumes "\<forall>x \<in> region h 16. m' x = m x"
  shows "h_magic m' h = h_magic m h" "h_size m' h = h_size m h" "h_free m' h = h_free m h"
    "h_next m' h = h_next m h"
  unfolding h_defs using assms field_region [of h] by (auto intro!: read32_cong)

lemma set_h_outside:
  assumes "x \<notin> region h 16"
  shows "set_h_magic h v m x = m x" "set_h_size h v m x = m x" "set_h_free h v m x = m x"
    "set_h_next h v m x = m x"
  unfolding h_defs using assms field_region [of h] by (auto intro!: write32_outside)

lemma set_h_other:
  assumes "region g 16 \<inter> region h 16 = {}"
  shows "h_magic (set_h_magic h v m) g = h_magic m g" "h_size (set_h_magic h v m) g = h_size m g"
    "h_free (set_h_magic h v m) g = h_free m g" "h_next (set_h_magic h v m) g = h_next m g"
    "h_magic (set_h_size h v m) g = h_magic m g" "h_size (set_h_size h v m) g = h_size m g"
    "h_free (set_h_size h v m) g = h_free m g" "h_next (set_h_size h v m) g = h_next m g"
    "h_magic (set_h_free h v m) g = h_magic m g" "h_size (set_h_free h v m) g = h_size m g"
    "h_free (set_h_free h v m) g = h_free m g" "h_next (set_h_free h v m) g = h_next m g"
    "h_magic (set_h_next h v m) g = h_magic m g" "h_size (set_h_next h v m) g = h_size m g"
    "h_free (set_h_next h v m) g = h_free m g" "h_next (set_h_next h v m) g = h_next m g"
  using assms by (auto intro!: h_cong set_h_outside)

lemma field_other:
  fixes h :: u32
  assumes "d \<in> {0, 4, 8, 12}" "e \<in> {0, 4, 8, 12}" "d \<noteq> e"
  shows "read32 (write32 m (h + d) v) (h + e) = read32 m (h + e)"
proof (rule read32_write32_other)
  show "al 2 (h + e - (h + d))" using assms by (auto simp: al_take_bit take_bit_eq_mod)
qed (use assms in auto)

lemma set_h_same:
  "h_magic (set_h_magic h v m) h = v" "h_size (set_h_magic h v m) h = h_size m h"
  "h_free (set_h_magic h v m) h = h_free m h" "h_next (set_h_magic h v m) h = h_next m h"
  "h_magic (set_h_size h v m) h = h_magic m h" "h_size (set_h_size h v m) h = v"
  "h_free (set_h_size h v m) h = h_free m h" "h_next (set_h_size h v m) h = h_next m h"
  "h_magic (set_h_free h v m) h = h_magic m h" "h_size (set_h_free h v m) h = h_size m h"
  "h_free (set_h_free h v m) h = v" "h_next (set_h_free h v m) h = h_next m h"
  "h_magic (set_h_next h v m) h = h_magic m h" "h_size (set_h_next h v m) h = h_size m h"
  "h_free (set_h_next h v m) h = h_free m h" "h_next (set_h_next h v m) h = v"
  using field_other [where h = h and d = 0] field_other [where h = h and e = 0]
  by (simp_all add: h_defs field_other)

lemmas h_simps = set_h_same set_h_other

section \<open>Chains and the writes of the operations\<close>

lemma apart_trans: "apart a b \<Longrightarrow> apart b c \<Longrightarrow> apart a c"
proof -
  assume ab: "apart a b" and bc: "apart b c"
  have "c - a = (b - a) + (c - b)" by simp
  then have "al 4 (c - a)" using ab bc by (simp only: apart_def) (intro al_add, simp_all)
  with ab bc show ?thesis by (simp add: apart_def)
qed

lemma apart_disjoint: "apart a b \<Longrightarrow> region a 16 \<inter> region b 16 = {}" "apart a b \<Longrightarrow> region b 16 \<inter> region a 16 = {}"
  using apart_region by blast+

lemma blocks_cong:
  assumes "\<And>b. b \<in> set bs \<Longrightarrow> \<forall>x \<in> region (fst b) 16. m' x = m x"
  shows "blocks m' p bs \<longleftrightarrow> blocks m p bs"
  using assms
proof (induction bs arbitrary: p)
  case (Cons b bs)
  have "block_at m' b \<longleftrightarrow> block_at m b" "h_next m' (fst b) = h_next m (fst b)"
    using Cons.prems [of b] h_cong [of "fst b" m' m] by (auto simp: block_at_def split: prod.splits)
  moreover have "blocks m' (h_next m (fst b)) bs \<longleftrightarrow> blocks m (h_next m (fst b)) bs"
    by (rule Cons.IH, rule Cons.prems, simp)
  ultimately show ?case by auto
qed simp

lemma heap_find_fit:
  assumes "blocks m p bs" "\<forall>b \<in> set bs. inside (fst b)"
  shows "heap_find inside len m p = Some (map_option fst (fit len bs))"
  using assms
proof (induction bs arbitrary: p)
  case (Cons b bs)
  obtain a sz f where b: "b = (a, sz, f)" by (cases b)
  have "heap_usable m a len \<longleftrightarrow> f \<and> len \<le> sz"
    using Cons.prems(1) by (auto simp: heap_usable_def block_at_def b)
  moreover have "heap_find inside len m (h_next m a) = Some (map_option fst (fit len bs))"
    using Cons.IH [of "h_next m a"] Cons.prems by (auto simp: b)
  ultimately show ?case
    using Cons.prems by (subst heap_find.simps) (auto simp: b option.map_comp comp_def case_prod_unfold)
qed (simp add: heap_find.simps)

lemma fit_addrs:
  "fit len bs = Some (a, bs') \<Longrightarrow>
    a \<in> fst ` set bs \<and> fst ` set bs' \<subseteq> fst ` set bs \<union> {a, a + 16 * len + 256}"
proof (induction bs arbitrary: bs')
  case (Cons b bs)
  obtain c sz f where b: "b = (c, sz, f)" by (cases b)
  show ?case
  proof (cases "f \<and> len \<le> sz")
    case True
    with Cons.prems show ?thesis by (auto simp: b cut_def)
  next
    case False
    with Cons.prems obtain bs'' where "fit len bs = Some (a, bs'')" "bs' = b # bs''" by (auto simp: b)
    with Cons.IH [of bs''] show ?thesis by auto
  qed
qed simp

lemma fit_shape: "fit len bs = Some (a, bs') \<Longrightarrow> \<exists>pre sz. bs' = pre @ cut a sz len"
proof (induction bs arbitrary: bs')
  case (Cons b bs)
  obtain c sz f where b: "b = (c, sz, f)" by (cases b)
  show ?case
  proof (cases "f \<and> len \<le> sz")
    case True
    then have "bs' = [] @ cut a sz len" using Cons.prems by (auto simp: b)
    then show ?thesis by blast
  next
    case False
    then obtain bs'' where "fit len bs = Some (a, bs'')" "bs' = b # bs''" using Cons.prems by (auto simp: b)
    with Cons.IH [of bs''] show ?thesis by (metis append_Cons)
  qed
qed simp

lemma fit_block: "fit len bs = Some (a, bs') \<Longrightarrow> (a, len, False) \<in> set bs'"
  using fit_shape [of len bs a bs'] by (auto simp: cut_def)

lemma heap_split_outside:
  assumes "x \<notin> region a 16" "x \<notin> region (a + 16 * len + 256) 16"
  shows "heap_split a len m x = m x"
  using assms by (simp add: heap_split_def Let_def set_h_outside)

lemma heap_split_cut:
  assumes "block_at m (a, sz, f)" "apart a (a + 16 * len + 256)" "a \<noteq> 0"
  shows "blocks (heap_split a len m) a (cut a sz len)"
proof -
  let ?b = "a + 16 * len + 256"
  have "unat ?b \<noteq> 0" using assms(2) by (simp add: apart_def)
  then have "?b \<noteq> 0" by (metis unat_0)
  with assms(1,3) apart_disjoint [OF assms(2)] show ?thesis
    by (simp add: heap_split_def Let_def cut_def block_at_def h_simps)
qed

lemma heap_split_fit:
  assumes "blocks m p bs" "ascending bs" "fit len bs = Some (a, bs')" "apart a (a + 16 * len + 256)"
  shows "blocks (heap_split a len m) p bs' \<and> ascending bs'"
  using assms(1-3)
proof (induction bs arbitrary: p bs')
  case (Cons b bs)
  obtain c sz f where b: "b = (c, sz, f)" by (cases b)
  show ?case
  proof (cases "f \<and> len \<le> sz")
    case True
    then have eq: "bs' = cut a sz len" "c = a" using Cons.prems(3) by (auto simp: b)
    have p: "p = a" "a \<noteq> 0" "block_at m (a, sz, f)" using Cons.prems(1) eq(2) by (auto simp: b)
    have "ascending (cut a sz len)" using assms(4) by (simp add: cut_def)
    then show ?thesis unfolding eq(1) p(1) using heap_split_cut [OF p(3) assms(4) p(2)] by blast
  next
    case False
    then obtain bs'' where bs'': "fit len bs = Some (a, bs'')" "bs' = b # bs''"
      using Cons.prems(3) by (auto simp: b)
    have far: "apart c d" if "d \<in> fst ` set bs" for d using Cons.prems(2) that by (auto simp: b)
    note addrs = fit_addrs [OF bs''(1)]
    have ca: "apart c a" using far addrs by blast
    have cb: "apart c (a + 16 * len + 256)" using apart_trans [OF ca assms(4)] .
    have keep: "\<forall>x \<in> region c 16. heap_split a len m x = m x"
      using apart_disjoint(1) [OF ca] apart_disjoint(1) [OF cb] by (intro ballI heap_split_outside) auto
    have ih: "blocks (heap_split a len m) (h_next m c) bs'' \<and> ascending bs''"
    proof (rule Cons.IH [OF _ _ bs''(1)])
      show "blocks m (h_next m c) bs" "ascending bs" using Cons.prems(1,2) by (auto simp: b)
    qed
    have at: "block_at (heap_split a len m) b" "h_next (heap_split a len m) c = h_next m c"
    proof -
      note same = h_cong [OF keep]
      have "block_at m (c, sz, f)" using Cons.prems(1) by (simp add: b)
      then show "block_at (heap_split a len m) b" by (simp add: b block_at_def same)
      show "h_next (heap_split a len m) c = h_next m c" by (rule same(4))
    qed
    have aps: "\<forall>d \<in> set bs''. apart (fst b) (fst d)"
    proof
      fix d assume "d \<in> set bs''"
      then have "fst d \<in> fst ` set bs \<union> {a, a + 16 * len + 256}" using addrs by blast
      then have "fst d \<in> fst ` set bs \<or> fst d = a \<or> fst d = a + 16 * len + 256" by blast
      then show "apart (fst b) (fst d)" unfolding b fst_conv
        by (elim disjE) (simp_all only: far ca cb)
    qed
    have "p = c" "c \<noteq> 0" using Cons.prems(1) by (auto simp: b)
    moreover have "fst b = c" by (simp add: b)
    ultimately show ?thesis
      unfolding bs''(2) blocks.simps sorted_wrt.simps using ih at aps by (metis (no_types))
  qed
qed simp

lemma absorb_addrs: "fst ` set (absorb b bs) \<subseteq> insert (fst b) (fst ` set bs)"
  by (induction b bs rule: absorb.induct) auto

lemma absorb_ascending: "ascending (b # bs) \<Longrightarrow> ascending (absorb b bs)"
  by (induction b bs rule: absorb.induct) auto

lemma heap_merge_absorb:
  assumes "blocks m a ((a, sz, f) # bs)" "ascending ((a, sz, f) # bs)"
  shows "\<exists>m'. heap_merge a (h_next m a) m = Some m' \<and> blocks m' a (absorb (a, sz, f) bs)
    \<and> (\<forall>x. x \<notin> region a 16 \<longrightarrow> m' x = m x)"
  using assms
proof (induction bs arbitrary: m sz)
  case Nil
  then show ?case by (subst heap_merge.simps) (simp add: h_simps)
next
  case (Cons b bs)
  obtain c sz' g where b: "b = (c, sz', g)" by (cases b)
  have n: "h_next m a = c" "c \<noteq> 0" "h_free m c = (if g then 1 else 0)" "h_size m c = sz'" "h_size m a = sz"
    using Cons.prems(1) by (auto simp: b block_at_def)
  show ?case
  proof (cases g)
    case False
    with n have "heap_merge a (h_next m a) m = Some m" by (subst heap_merge.simps) simp
    with Cons.prems False show ?thesis by (auto simp: b)
  next
    case True
    let ?m = "set_h_next a (h_next m c) (set_h_size a (sz + (sz' + 16)) m)"
    have sep: "region c 16 \<inter> region a 16 = {}"
      using Cons.prems(2) by (intro apart_disjoint(2)) (simp add: b)
    have "heap_merge a (h_next m a) m = heap_merge a (h_next ?m a) ?m"
      using n True sep by (subst heap_merge.simps) (simp add: Let_def h_simps)
    moreover have "blocks ?m (h_next m c) bs"
    proof -
      have "region (fst d) 16 \<inter> region a 16 = {}" if "d \<in> set bs" for d
        using Cons.prems(2) that by (intro apart_disjoint(2)) (auto simp: b)
      then have "blocks ?m (h_next m c) bs = blocks m (h_next m c) bs"
        by (intro blocks_cong) (simp add: set_h_outside disjoint_iff)
      then show ?thesis using Cons.prems(1) by (simp add: b n)
    qed
    then have "blocks ?m a ((a, sz + (sz' + 16), f) # bs)"
      using Cons.prems(1) by (simp add: block_at_def h_simps)
    then obtain m' where "heap_merge a (h_next ?m a) ?m = Some m'"
        "blocks m' a (absorb (a, sz + (sz' + 16), f) bs)" "\<forall>x. x \<notin> region a 16 \<longrightarrow> m' x = ?m x"
      using Cons.IH [of ?m "sz + (sz' + 16)"] Cons.prems(2) by auto
    ultimately show ?thesis using True by (auto simp: b set_h_outside)
  qed
qed

lemma release_addrs: "fst ` set (release a bs) \<subseteq> fst ` set bs"
proof (induction bs)
  case (Cons d ds)
  obtain c sz g where d: "d = (c, sz, g)" by (cases d)
  show ?case using Cons.IH absorb_addrs [of "(c, sz, True)" ds] by (auto simp: d)
qed simp

lemma heap_release:
  assumes "blocks m p bs" "ascending bs" "(a, sz, f) \<in> set bs"
  shows "\<exists>m'. heap_merge a (h_next m a) (set_h_free a 1 m) = Some m' \<and> blocks m' p (release a bs)
    \<and> ascending (release a bs) \<and> (\<forall>x. x \<notin> region a 16 \<longrightarrow> m' x = m x)"
  using assms
proof (induction bs arbitrary: p)
  case (Cons b bs)
  obtain c sz' g where b: "b = (c, sz', g)" by (cases b)
  show ?case
  proof (cases "c = a")
    case True
    let ?m = "set_h_free a 1 m"
    have "blocks ?m (h_next m a) bs"
    proof -
      have "region (fst d) 16 \<inter> region a 16 = {}" if "d \<in> set bs" for d
        using Cons.prems(2) that True by (intro apart_disjoint(2)) (auto simp: b)
      then have "blocks ?m (h_next m a) bs = blocks m (h_next m a) bs"
        by (intro blocks_cong) (simp add: set_h_outside disjoint_iff)
      then show ?thesis using Cons.prems(1) True by (auto simp: b)
    qed
    then have "blocks ?m a ((a, sz', True) # bs)" "h_next ?m a = h_next m a" "p = a"
      using Cons.prems(1) True by (auto simp: b block_at_def h_simps)
    then obtain m' where "heap_merge a (h_next m a) ?m = Some m'" "blocks m' a (absorb (a, sz', True) bs)"
        "\<forall>x. x \<notin> region a 16 \<longrightarrow> m' x = ?m x"
      using heap_merge_absorb [of ?m a sz' True bs] Cons.prems(2) True by (auto simp: b)
    moreover have "ascending (absorb (a, sz', True) bs)"
      using Cons.prems(2) True by (intro absorb_ascending) (simp add: b)
    ultimately show ?thesis using True \<open>p = a\<close> by (auto simp: b set_h_outside)
  next
    case False
    then have "(a, sz, f) \<in> set bs" using Cons.prems(3) by (auto simp: b)
    then obtain m' where m': "heap_merge a (h_next m a) (set_h_free a 1 m) = Some m'"
        "blocks m' (h_next m c) (release a bs)" "ascending (release a bs)"
        "\<forall>x. x \<notin> region a 16 \<longrightarrow> m' x = m x"
    proof -
      have "blocks m (h_next m c) bs" "ascending bs" using Cons.prems(1,2) by (auto simp: b)
      from Cons.IH [OF this \<open>(a, sz, f) \<in> set bs\<close>] that show thesis by blast
    qed
    have ca: "apart c a" using Cons.prems(2) \<open>(a, sz, f) \<in> set bs\<close> by (auto simp: b)
    then have "\<forall>x \<in> region c 16. m' x = m x" using apart_disjoint(1) [OF ca] m'(4) by auto
    then have "block_at m' b" "h_next m' c = h_next m c"
      using Cons.prems(1) h_cong [of c m' m] by (auto simp: b block_at_def)
    moreover have "apart c (fst d)" if "d \<in> set (release a bs)" for d
    proof -
      have "fst d \<in> fst ` set bs" using release_addrs that by blast
      then show ?thesis using Cons.prems(2) by (auto simp: b)
    qed
    ultimately show ?thesis using m' Cons.prems(1) False by (auto simp: b)
  qed
qed simp

end
