(* ===== verification/Kheap.thy ===== *)
theory Kheap
  imports Heap
begin

text \<open>
  The kernel heap, \<open>mm/kheap.c\<close>: the static \<open>heap_info\<close> over the block chain of theory Heap.
  The theorems relate \<open>kmalloc\<close> and \<open>kfree\<close> to first fit and release on the list of blocks.
\<close>

definition HEAP_END :: u32 where "HEAP_END = 0x200000"

record heap_info =
  hi_size :: u32
  hi_start :: u32
  hi_used :: u32
  hi_first :: u32

record kheap_state = vmm_state +
  kheap :: heap_info

section \<open>Operations\<close>

definition kheap_init :: "u32 \<Rightarrow> 'a kheap_state_scheme \<Rightarrow> 'a kheap_state_scheme" where
  "kheap_init kernel_end s =
     (let s = s\<lparr>kheap := \<lparr>hi_size = HEAP_END - kernel_end, hi_start = kernel_end, hi_used = 16,
                hi_first = kernel_end\<rparr>\<rparr>;
          h = hi_first (kheap s);
          m = set_h_magic h HEAP_MAGIC (ram s);
          m = set_h_size h (hi_size (kheap s) - hi_used (kheap s)) m;
          m = set_h_free h 1 m;
          m = set_h_next h 0 m
      in s\<lparr>ram := m\<rparr>)"

definition kheap_add_used :: "u32 \<Rightarrow> 'a kheap_state_scheme \<Rightarrow> 'a kheap_state_scheme" where
  "kheap_add_used d s = s\<lparr>kheap := (kheap s)\<lparr>hi_used := hi_used (kheap s) + d\<rparr>\<rparr>"

definition first_free :: "u32 \<Rightarrow> 'a kheap_state_scheme \<Rightarrow> (u32 \<times> 'a kheap_state_scheme) option" where
  "first_free len s =
     (if hi_used (kheap s) \<ge> hi_size (kheap s) then Some (0, s)
      else do {
        r \<leftarrow> heap_find (\<lambda>_. True) len (ram s) (hi_first (kheap s));
        (case r of
           None \<Rightarrow> Some (0, s)
         | Some head \<Rightarrow> Some (head + 16, kheap_add_used (len + 16) (s\<lparr>ram := heap_split head len (ram s)\<rparr>)))
      })"

definition kmalloc :: "u32 \<Rightarrow> 'a kheap_state_scheme \<Rightarrow> (u32 \<times> 'a kheap_state_scheme) option" where
  "kmalloc len s = first_free len s"

definition kfree :: "u32 \<Rightarrow> 'a kheap_state_scheme \<Rightarrow> 'a kheap_state_scheme option" where
  "kfree ptr s = (let head = ptr - 16 in
     if h_free (ram s) head = 0 \<and> h_magic (ram s) head = HEAP_MAGIC then do {
       let s = s\<lparr>ram := set_h_free head 1 (ram s)\<rparr>;
       let s = kheap_add_used (- h_size (ram s) head) s;
       m \<leftarrow> heap_merge head (h_next (ram s) head) (ram s);
       Some (s\<lparr>ram := m\<rparr>)
     }
     else Some s)"

definition get_heap_size :: "'a kheap_state_scheme \<Rightarrow> u32" where "get_heap_size s = hi_size (kheap s)"
definition get_used_heap :: "'a kheap_state_scheme \<Rightarrow> u32" where "get_used_heap s = hi_used (kheap s)"

definition print_header :: "u32 \<Rightarrow> 'a kheap_state_scheme \<Rightarrow> 'a kheap_state_scheme" where
  "print_header head s = kprint (''Size: %d Is free: %d Next: %x'' @ NL)
     [h_size (ram s) head, h_free (ram s) head, h_next (ram s) head] s"

section \<open>The blocks of the kernel heap\<close>

definition kheap_at :: "'a kheap_state_scheme \<Rightarrow> block list \<Rightarrow> bool" where
  "kheap_at s bs \<longleftrightarrow> blocks (ram s) (hi_first (kheap s)) bs \<and> ascending bs"

definition room :: "u32 \<Rightarrow> u32 \<Rightarrow> bool" where
  "room a len \<longleftrightarrow> unat a + 16 * unat len + 272 \<le> 2 ^ 32"

lemma room_end: "room a len \<Longrightarrow> unat (a + 16 * len + 256) = unat a + 16 * unat len + 256"
proof -
  assume r: "room a len"
  have "a + 16 * len + 256 = of_nat (unat a + 16 * unat len + 256)" by simp
  also have "unat \<dots> = unat a + 16 * unat len + 256"
    using r by (intro unat_of_nat_u32) (simp add: room_def)
  finally show ?thesis .
qed

lemma room_apart: "room a len \<Longrightarrow> apart a (a + 16 * len + 256)"
proof -
  assume r: "room a len"
  have "al 4 16" "al 4 256" by (simp_all add: al_def)
  then have "al 4 (16 * len + 256)" by (intro al_add al_mult) simp_all
  moreover have "a + 16 * len + 256 - a = 16 * len + 256" by simp
  ultimately show ?thesis unfolding apart_def room_end [OF r] using r by (simp add: room_def)
qed

text \<open>What the two calls change: the headers of the block and of the one cut off behind it.\<close>

lemma kmalloc_step:
  assumes "kheap_at s bs" "get_used_heap s < get_heap_size s" "fit len bs = Some (a, bs')" "room a len"
  shows "\<exists>m. kmalloc len s = Some (a + 16, kheap_add_used (len + 16) (s\<lparr>ram := m\<rparr>))
    \<and> kheap_at (kheap_add_used (len + 16) (s\<lparr>ram := m\<rparr>)) bs'
    \<and> (\<forall>x. x \<notin> region a 16 \<union> region (a + 16 * len + 256) 16 \<longrightarrow> m x = ram s x)"
proof -
  let ?m = "heap_split a len (ram s)"
  have "heap_find (\<lambda>_. True) len (ram s) (hi_first (kheap s)) = Some (Some a)"
    using heap_find_fit [of "ram s" _ bs] assms(1,3) by (simp add: kheap_at_def)
  moreover have "\<not> hi_size (kheap s) \<le> hi_used (kheap s)"
    using assms(2) by (simp add: get_used_heap_def get_heap_size_def not_le)
  moreover have "blocks ?m (hi_first (kheap s)) bs' \<and> ascending bs'"
    using assms(1) by (intro heap_split_fit [OF _ _ assms(3) room_apart [OF assms(4)]]) (simp_all add: kheap_at_def)
  ultimately show ?thesis
    by (intro exI [of _ ?m]) (simp add: kmalloc_def first_free_def kheap_at_def kheap_add_used_def heap_split_outside)
qed

lemma kmalloc_fit:
  assumes "kheap_at s bs" "get_used_heap s < get_heap_size s" "fit len bs = Some (a, bs')" "room a len"
  shows "\<exists>s'. kmalloc len s = Some (a + 16, s') \<and> kheap_at s' bs'
    \<and> get_used_heap s' = get_used_heap s + len + 16 \<and> get_heap_size s' = get_heap_size s"
proof -
  from kmalloc_step [OF assms] obtain m where "kmalloc len s = Some (a + 16, kheap_add_used (len + 16) (s\<lparr>ram := m\<rparr>))"
    "kheap_at (kheap_add_used (len + 16) (s\<lparr>ram := m\<rparr>)) bs'" by blast
  then show ?thesis by (simp add: kheap_add_used_def get_used_heap_def get_heap_size_def)
qed

lemma blocks_at: "blocks m p bs \<Longrightarrow> b \<in> set bs \<Longrightarrow> block_at m b"
  by (induction bs arbitrary: p) auto

lemma kfree_step:
  assumes "kheap_at s bs" "(a, sz, False) \<in> set bs"
  shows "\<exists>m. kfree (a + 16) s = Some (kheap_add_used (- sz) (s\<lparr>ram := m\<rparr>))
    \<and> kheap_at (kheap_add_used (- sz) (s\<lparr>ram := m\<rparr>)) (release a bs) \<and> (\<forall>x. x \<notin> region a 16 \<longrightarrow> m x = ram s x)"
proof -
  have at: "block_at (ram s) (a, sz, False)" using assms by (auto simp: kheap_at_def intro: blocks_at)
  obtain m where m: "heap_merge a (h_next (ram s) a) (set_h_free a 1 (ram s)) = Some m"
      "blocks m (hi_first (kheap s)) (release a bs)" "ascending (release a bs)" "\<forall>x. x \<notin> region a 16 \<longrightarrow> m x = ram s x"
    using heap_release [OF _ _ assms(2)] assms(1) unfolding kheap_at_def by blast
  with at show ?thesis
    by (intro exI [of _ m]) (simp add: kfree_def Let_def block_at_def h_simps kheap_at_def kheap_add_used_def)
qed

lemma kfree_block:
  assumes "kheap_at s bs" "(a, sz, False) \<in> set bs"
  shows "\<exists>s'. kfree (a + 16) s = Some s' \<and> kheap_at s' (release a bs)
    \<and> get_used_heap s' = get_used_heap s - sz \<and> get_heap_size s' = get_heap_size s"
proof -
  from kfree_step [OF assms] obtain m where "kfree (a + 16) s = Some (kheap_add_used (- sz) (s\<lparr>ram := m\<rparr>))"
    "kheap_at (kheap_add_used (- sz) (s\<lparr>ram := m\<rparr>)) (release a bs)" by blast
  then show ?thesis by (simp add: kheap_add_used_def get_used_heap_def get_heap_size_def)
qed

text \<open>The bytes of a new block meet no header.\<close>

lemma payload_apart:
  assumes "ascending bs'" "fit len bs = Some (a, bs')" "room a len" "n \<le> 16 * unat len + 240" "b \<in> set bs'"
  shows "region (a + 16) n \<inter> region (fst b) 16 = {}"
proof -
  obtain pre sz where sh: "bs' = pre @ cut a sz len" using fit_shape [OF assms(2)] by blast
  have r: "unat a + 16 * unat len + 272 \<le> 2 ^ 32" using assms(3) by (simp add: room_def)
  then have u: "unat (a + 16) = unat a + 16" using unat_off [of a "0x100" 16] by simp
  note e = room_end [OF assms(3)]
  have "b \<in> set pre \<or> fst b = a \<or> fst b = a + 16 * len + 256" using assms(5) by (auto simp: sh cut_def)
  moreover have "apart (fst b) a" if "b \<in> set pre" using assms(1) that by (simp add: sh cut_def sorted_wrt_append)
  ultimately consider "unat (fst b) + 16 \<le> unat a + 16" | "fst b = a + 16 * len + 256" by (auto simp: apart_def)
  then show ?thesis
  proof cases
    case 1
    show ?thesis by (rule region_apart2) (use 1 r u assms(4) in simp_all)
  next
    case 2
    show ?thesis unfolding 2 by (rule region_apart) (use r u e assms(4) in simp_all)
  qed
qed

section \<open>Properties\<close>

text \<open>C3: \<open>kmalloc\<close> takes the first free block of sufficient size: the blocks before it stay, the
  block is cut, the payload it returns meets no header of the resulting chain, and every block
  that stood behind the one found is gone from the chain.\<close>
theorem kmalloc_first_fit:
  assumes "kheap_at s (pre @ (a, sz, True) # post)" "get_used_heap s < get_heap_size s"
    "\<forall>(b, sz', f) \<in> set pre. f \<longrightarrow> sz' < len" "len \<le> sz" "room a len"
  shows "\<exists>s'. kmalloc len s = Some (a + 16, s')
    \<and> kheap_at s' (pre @ [(a, len, False), (a + 16 * len + 256, sz - len - 16, True)])
    \<and> get_used_heap s' = get_used_heap s + len + 16
    \<and> (\<forall>b \<in> set (pre @ [(a, len, False), (a + 16 * len + 256, sz - len - 16, True)]).
         region (a + 16) (unat len) \<inter> region (fst b) 16 = {})"
proof -
  let ?bs = "pre @ [(a, len, False), (a + 16 * len + 256, sz - len - 16, True)]"
  have "fit len (pre @ (a, sz, True) # post) = Some (a, ?bs)"
    using assms(3,4) by (induction pre) (auto simp: cut_def)
  then obtain s' where s': "kmalloc len s = Some (a + 16, s')" "kheap_at s' ?bs"
      "get_used_heap s' = get_used_heap s + len + 16"
    using kmalloc_fit [OF assms(1,2) _ assms(5)] by blast
  have a16: "unat (a + 16) = unat a + 16" using unat_off [of a "0x100" 16] assms(5) by (simp add: room_def)
  have "region (a + 16) (unat len) \<inter> region (fst b) 16 = {}" if b: "b \<in> set ?bs" for b
  proof -
    consider "b \<in> set pre" | "fst b = a" | "fst b = a + 16 * len + 256" using b by auto
    then show ?thesis
    proof cases
      case 1
      then have "apart (fst b) a" using s'(2) by (auto simp: kheap_at_def sorted_wrt_append)
      then show ?thesis using assms(5) by (intro region_apart2) (simp_all add: apart_def room_def a16)
    next
      case 2
      then show ?thesis using assms(5) by (intro region_apart2) (simp_all add: room_def a16)
    next
      case 3
      then show ?thesis using assms(5) by (intro region_apart) (simp_all add: room_def a16 room_end)
    qed
  qed
  with s' show ?thesis by blast
qed

text \<open>C22: \<open>kfree\<close> of the payload of a block in use marks the block free, merges the run of free
  blocks behind it into it, and leaves the rest of the chain as it was.\<close>
theorem kfree_releases:
  assumes "kheap_at s (pre @ (a, sz, False) # map (\<lambda>(b, n). (b, n, True)) run @ post)"
    "post = [] \<or> \<not> snd (snd (hd post))"
  shows "\<exists>s'. kfree (a + 16) s = Some s'
    \<and> kheap_at s' (pre @ (a, foldl (\<lambda>n b. n + (snd b + 16)) sz run, True) # post)
    \<and> get_used_heap s' = get_used_heap s - sz"
proof -
  let ?bs = "pre @ (a, sz, False) # map (\<lambda>(b, n). (b, n, True)) run @ post"
  have absorb: "absorb (a, n, True) (map (\<lambda>(b, n). (b, n, True)) run @ post)
      = (a, foldl (\<lambda>n b. n + (snd b + 16)) n run, True) # post" for n
  proof (induction run arbitrary: n)
    case Nil
    then show ?case using assms(2) by (cases post) auto
  qed (auto split: prod.split)
  have "fst b \<noteq> a" if "b \<in> set pre" for b
  proof
    assume "fst b = a"
    then have "apart a a" using assms(1) that by (auto simp: kheap_at_def sorted_wrt_append)
    then show False by (simp add: apart_def)
  qed
  then have "release a ?bs = pre @ (a, foldl (\<lambda>n b. n + (snd b + 16)) sz run, True) # post"
  proof (induction pre)
    case (Cons b pre)
    obtain c n f where b: "b = (c, n, f)" by (cases b)
    have "c \<noteq> a" using Cons.prems [of b] by (simp add: b)
    with Cons show ?case by (simp add: b)
  qed (simp add: absorb)
  moreover obtain s' where "kfree (a + 16) s = Some s'" "kheap_at s' (release a ?bs)"
      "get_used_heap s' = get_used_heap s - sz"
    using kfree_block [OF assms(1), of a sz] by auto
  ultimately show ?thesis by auto
qed

lemma kheap_init_at:
  assumes "0 < unat k" "unat k + 16 \<le> 2 ^ 32"
  shows "kheap_at (kheap_init k s) [(k, HEAP_END - k - 16, True)]"
  using assms by (auto simp: kheap_at_def kheap_init_def Let_def block_at_def h_simps)


section \<open>Witnesses\<close>

definition demo_kheap :: kheap_state where
  "demo_kheap = kheap_init 0x100000 (vmm_state.extend demo_vmm
     \<lparr>kheap = \<lparr>hi_size = 0, hi_start = 0, hi_used = 0, hi_first = 0\<rparr>\<rparr>)"

lemma demo_kheap_at: "kheap_at demo_kheap [(0x100000, 0xFFFF0, True)]"
  using kheap_init_at [of "0x100000"] by (simp add: demo_kheap_def HEAP_END_def)

lemma demo_kheap_size: "get_heap_size demo_kheap = 0x100000" "get_used_heap demo_kheap = 16"
  by (simp_all add: get_heap_size_def get_used_heap_def demo_kheap_def kheap_init_def Let_def HEAP_END_def)

theorem kmalloc_first_fit_witness: "\<exists>s'. kmalloc 64 demo_kheap = Some (0x100010, s')"
  using kmalloc_first_fit [of demo_kheap "[]" "0x100000" "0xFFFF0" "[]" 64] demo_kheap_at
  by (auto simp: demo_kheap_size room_def)

theorem kfree_releases_witness:
  "\<exists>s1 s2. kmalloc 64 demo_kheap = Some (0x100010, s1) \<and> kfree 0x100010 s1 = Some s2
    \<and> kheap_at s2 [(0x100000, 0xFFFF0, True)]"
proof -
  from kmalloc_fit [OF demo_kheap_at, of 64 "0x100000"]
  obtain s1 where s1: "kmalloc 64 demo_kheap = Some (0x100010, s1)"
      "kheap_at s1 [(0x100000, 64, False), (0x100500, 0xFFFA0, True)]"
    by (auto simp: demo_kheap_size room_def cut_def)
  with kfree_releases [of s1 "[]" "0x100000" 64 "[(0x100500, 0xFFFA0)]" "[]"] show ?thesis by auto
qed


end
