(* ===== verification/Cpu.thy ===== *)
theory Cpu
  imports Kheap
begin

text \<open>
  The processor and the chips around it: port I/O and the interrupt flag (\<open>drivers/io.c\<close>), the
  interval timer and the scheduler's switch (\<open>drivers/x86/pit.c\<close>), the interrupt controllers
  (\<open>drivers/x86/pic.c\<close>), descriptor tables and task state (\<open>hal/gdt.c\<close>, \<open>hal/idt.c\<close>,
  \<open>hal/tss.c\<close>) and \<open>hal/hal.c\<close>.  Writes to ports are recorded in order; reads consume a
  script of device answers and have no result when it is exhausted.  The addresses of handlers
  and static tables are the linker's, the parameter \<open>ld\<close>.
\<close>

section \<open>Ports and the interrupt flag\<close>

record cpu_state = kheap_state +
  port_writes :: "(u16 \<times> u8) list"
  port_reads :: "u16 list"
  int_on :: bool

definition inportb :: "u16 \<Rightarrow> 'a cpu_state_scheme \<Rightarrow> (u8 \<times> 'a cpu_state_scheme) option" where
  "inportb port s = (case port_reads s of [] \<Rightarrow> None | w # ws \<Rightarrow> Some (ucast w, s\<lparr>port_reads := ws\<rparr>))"

definition inportw :: "u16 \<Rightarrow> 'a cpu_state_scheme \<Rightarrow> (u16 \<times> 'a cpu_state_scheme) option" where
  "inportw port s = (case port_reads s of [] \<Rightarrow> None | w # ws \<Rightarrow> Some (w, s\<lparr>port_reads := ws\<rparr>))"

definition outportb :: "u16 \<Rightarrow> u8 \<Rightarrow> 'a cpu_state_scheme \<Rightarrow> 'a cpu_state_scheme" where
  "outportb port val s = s\<lparr>port_writes := port_writes s @ [(port, val)]\<rparr>"

definition enable_int :: "'a cpu_state_scheme \<Rightarrow> 'a cpu_state_scheme" where
  "enable_int s = s\<lparr>int_on := True\<rparr>"

definition disable_int :: "'a cpu_state_scheme \<Rightarrow> 'a cpu_state_scheme" where
  "disable_int s = s\<lparr>int_on := False\<rparr>"

lemma outportb_simps [simp]:
  "port_writes (outportb port val s) = port_writes s @ [(port, val)]"
  "port_reads (outportb port val s) = port_reads s" "int_on (outportb port val s) = int_on s"
  by (simp_all add: outportb_def)

section \<open>Descriptor tables\<close>

record gdt_info =
  g_limit_low :: u16
  g_base_low :: u16
  g_base_middle :: u8
  g_flags :: u8
  g_granularity :: u8
  g_base_high :: u8

record idt_info =
  i_base_low :: u16
  i_sel :: u16
  i_reserved :: u8
  i_flags :: u8
  i_base_high :: u16

record table_ptr =
  tp_limit :: u16
  tp_base :: u32

record tss =
  ts_prev_tss :: u32  ts_esp0 :: u32  ts_ss0 :: u32  ts_esp1 :: u32  ts_ss1 :: u32  ts_esp2 :: u32
  ts_ss2 :: u32  ts_cr3 :: u32  ts_eip :: u32  ts_eflags :: u32  ts_eax :: u32  ts_ecx :: u32
  ts_edx :: u32  ts_ebx :: u32  ts_esp :: u32  ts_ebp :: u32  ts_esi :: u32  ts_edi :: u32
  ts_es :: u32  ts_cs :: u32  ts_ss :: u32  ts_ds :: u32  ts_fs :: u32  ts_gs :: u32
  ts_ldtr :: u32  ts_iomap :: u16

record hal_state = cpu_state +
  gdt_tab :: "gdt_info list"
  gdtr :: table_ptr
  idt :: "idt_info list"
  idtr :: table_ptr
  tss_area :: tss
  task_register :: u16
  sched_on :: u8
  pit_ticks :: u8

definition GDT_LEN :: nat where "GDT_LEN = 8"
definition MAX_INTERRUPTS :: nat where "MAX_INTERRUPTS = 256"

definition gdt_entry :: "u32 \<Rightarrow> u32 \<Rightarrow> u8 \<Rightarrow> gdt_info" where
  "gdt_entry base limit access = \<lparr>
     g_limit_low = ucast (limit AND 0xFFFF), g_base_low = ucast (base AND 0xFFFF),
     g_base_middle = ucast (drop_bit 16 base AND 0xFF), g_flags = access,
     g_granularity = ucast ((drop_bit 16 limit AND 0x0F) OR (0xCF AND 0xF0)),
     g_base_high = ucast (drop_bit 24 base AND 0xFF)\<rparr>"

definition gdt_set_entry :: "nat \<Rightarrow> u32 \<Rightarrow> u32 \<Rightarrow> u8 \<Rightarrow> 'a hal_state_scheme \<Rightarrow> 'a hal_state_scheme" where
  "gdt_set_entry index base limit access s =
     s\<lparr>gdt_tab := (gdt_tab s)[index := gdt_entry base limit access]\<rparr>"

definition gdt_init :: "(string \<Rightarrow> u32) \<Rightarrow> 'a hal_state_scheme \<Rightarrow> 'a hal_state_scheme" where
  "gdt_init ld s =
     (let s = gdt_set_entry 0 0 0 0 s;
          s = gdt_set_entry 1 0 0xFFFFFFFF 0x9A s;
          s = gdt_set_entry 2 0 0xFFFFFFFF 0x92 s;
          s = gdt_set_entry 3 0 0xFFFFFFFF 0xFA s;
          s = gdt_set_entry 4 0 0xFFFFFFFF 0xF2 s
      in s\<lparr>gdtr := \<lparr>tp_limit = of_nat (8 * GDT_LEN - 1), tp_base = ld ''gdt_tab''\<rparr>\<rparr>)"

definition gate :: "u16 \<Rightarrow> u16 \<Rightarrow> u32 \<Rightarrow> idt_info" where
  "gate flags sel ir_addr = \<lparr>
     i_base_low = ucast ir_addr AND 0xFFFF, i_sel = sel, i_reserved = 0, i_flags = ucast flags,
     i_base_high = ucast (drop_bit 16 ir_addr) AND 0xFFFF\<rparr>"

definition install_ir :: "nat \<Rightarrow> u16 \<Rightarrow> u16 \<Rightarrow> u32 \<Rightarrow> 'a hal_state_scheme \<Rightarrow> 'a hal_state_scheme" where
  "install_ir i flags sel irq s = s\<lparr>idt := (idt s)[i := gate flags sel irq]\<rparr>"

definition exception_vectors :: "(nat \<times> string) list" where
  "exception_vectors = [
     (0, ''ex_divide_by_zero''), (1, ''ex_single_step''), (2, ''ex_nmi''), (3, ''ex_breakpoint''),
     (4, ''ex_overflow''), (5, ''ex_bounds_check''), (6, ''invop_handle''),
     (7, ''ex_device_not_available''), (8, ''ex_double_fault''), (10, ''ex_invalid_tss''),
     (11, ''ex_segment_not_present''), (12, ''ex_stack_fault''), (13, ''gpf_handle''),
     (14, ''pf_handle''), (16, ''ex_fpu_error''), (17, ''ex_alignment_check''),
     (18, ''ex_machine_check''), (19, ''ex_simd_fpu'')]"

text \<open>The \<open>memset\<close> of the table stops one byte early: the high byte of the last gate's address
  stays until the loop that follows.\<close>

definition idt_clear :: "idt_info list \<Rightarrow> idt_info list" where
  "idt_clear t = (let z = \<lparr>i_base_low = 0, i_sel = 0, i_reserved = 0, i_flags = 0, i_base_high = 0\<rparr>
     in (replicate MAX_INTERRUPTS z)[255 := z\<lparr>i_base_high := i_base_high (t ! 255) AND 0xFF00\<rparr>])"

definition idt_init :: "(string \<Rightarrow> u32) \<Rightarrow> u16 \<Rightarrow> 'a hal_state_scheme \<Rightarrow> 'a hal_state_scheme" where
  "idt_init ld code s =
     (let p = \<lparr>tp_limit = of_nat (8 * MAX_INTERRUPTS - 1), tp_base = ld ''idt''\<rparr>;
          s = s\<lparr>idt := idt_clear (idt s)\<rparr>;
          s = fold (\<lambda>i. install_ir i (0x80 OR 0x0E) code (ld ''default_ir_handler'')) [0..<MAX_INTERRUPTS] s;
          s = fold (\<lambda>(i, h). install_ir i (0x80 OR 0x0E) code (ld h)) exception_vectors s
      in s\<lparr>idtr := p\<rparr>)"

definition flush_tss :: "'a hal_state_scheme \<Rightarrow> 'a hal_state_scheme" where
  "flush_tss s = s\<lparr>task_register := 0x2B\<rparr>"

definition tss_zero :: tss where
  "tss_zero = \<lparr>ts_prev_tss = 0, ts_esp0 = 0, ts_ss0 = 0, ts_esp1 = 0, ts_ss1 = 0, ts_esp2 = 0, ts_ss2 = 0,
     ts_cr3 = 0, ts_eip = 0, ts_eflags = 0, ts_eax = 0, ts_ecx = 0, ts_edx = 0, ts_ebx = 0, ts_esp = 0,
     ts_ebp = 0, ts_esi = 0, ts_edi = 0, ts_es = 0, ts_cs = 0, ts_ss = 0, ts_ds = 0, ts_fs = 0, ts_gs = 0,
     ts_ldtr = 0, ts_iomap = 0\<rparr>"

definition install_tss :: "(string \<Rightarrow> u32) \<Rightarrow> 'a hal_state_scheme \<Rightarrow> 'a hal_state_scheme" where
  "install_tss ld s =
     (let base = ld ''tss'';
          s = gdt_set_entry 5 base (base + 102) 0xE9 s;
          s = s\<lparr>tss_area := tss_zero\<rparr>;
          s = s\<lparr>tss_area := (tss_area s)\<lparr>ts_esp0 := 0, ts_ss0 := 0x10, ts_cs := 0x0B, ts_ss := 0x13,
                ts_es := 0x13, ts_ds := 0x13, ts_fs := 0x13, ts_gs := 0x13\<rparr>\<rparr>
      in flush_tss s)"

definition set_esp0 :: "u32 \<Rightarrow> 'a hal_state_scheme \<Rightarrow> 'a hal_state_scheme" where
  "set_esp0 esp s = s\<lparr>tss_area := (tss_area s)\<lparr>ts_esp0 := esp\<rparr>\<rparr>"

section \<open>The timer\<close>

definition PIT_MODE_MASK :: u8 where "PIT_MODE_MASK = 0xE"
definition PIT_RL_MASK :: u8 where "PIT_RL_MASK = 0x30"
definition PIT_COUNTER_MASK :: u8 where "PIT_COUNTER_MASK = 0xC0"
definition PIT_MODE_SQUAREWAVEGEN :: u8 where "PIT_MODE_SQUAREWAVEGEN = 0x6"
definition PIT_RL_DATA :: u8 where "PIT_RL_DATA = 0x30"
definition PIT_COUNTER_0 :: u8 where "PIT_COUNTER_0 = 0"
definition PIT_COUNTER_1 :: u8 where "PIT_COUNTER_1 = 0x40"
definition PIT_COUNTER_2 :: u8 where "PIT_COUNTER_2 = 0x80"
definition PIT_REG_COUNTER0 :: u16 where "PIT_REG_COUNTER0 = 0x40"
definition PIT_REG_COUNTER1 :: u16 where "PIT_REG_COUNTER1 = 0x41"
definition PIT_REG_COUNTER2 :: u16 where "PIT_REG_COUNTER2 = 0x42"
definition PIT_REG_COMMAND :: u16 where "PIT_REG_COMMAND = 0x43"

definition sched_state :: "u32 \<Rightarrow> 'a hal_state_scheme \<Rightarrow> 'a hal_state_scheme" where
  "sched_state on s = s\<lparr>sched_on := ucast on\<rparr>"

definition get_sched_state :: "'a hal_state_scheme \<Rightarrow> u32" where
  "get_sched_state s = ucast (sched_on s)"

definition pit_send_command :: "u8 \<Rightarrow> 'a hal_state_scheme \<Rightarrow> 'a hal_state_scheme" where
  "pit_send_command cmd = outportb PIT_REG_COMMAND cmd"

definition pit_send_data :: "u16 \<Rightarrow> u8 \<Rightarrow> 'a hal_state_scheme \<Rightarrow> 'a hal_state_scheme" where
  "pit_send_data data counter s =
     (if counter = PIT_COUNTER_0 then outportb PIT_REG_COUNTER0 (ucast data) s
      else if counter = PIT_COUNTER_1 then outportb PIT_REG_COUNTER1 (ucast data) s
      else if counter = PIT_COUNTER_2 then outportb PIT_REG_COUNTER2 (ucast data) s
      else s)"

definition pit_read_data :: "u8 \<Rightarrow> 'a hal_state_scheme \<Rightarrow> (u8 \<times> 'a hal_state_scheme) option" where
  "pit_read_data counter s =
     (if counter = PIT_COUNTER_0 then inportb PIT_REG_COUNTER0 s
      else if counter = PIT_COUNTER_1 then inportb PIT_REG_COUNTER1 s
      else if counter = PIT_COUNTER_2 then inportb PIT_REG_COUNTER2 s
      else Some (0, s))"

definition pit_init :: "(string \<Rightarrow> u32) \<Rightarrow> 'a hal_state_scheme \<Rightarrow> 'a hal_state_scheme" where
  "pit_init ld = install_ir 32 (0x80 OR 0x0E) 0x8 (ld ''pit_int'')"

text \<open>The division of the two 16-bit operands faults when the second one is 0.\<close>

definition pit_start_counter :: "u32 \<Rightarrow> u8 \<Rightarrow> u8 \<Rightarrow> 'a hal_state_scheme \<Rightarrow> 'a hal_state_scheme option" where
  "pit_start_counter frequency counter mode s =
     (if frequency = 0 then Some s
      else if (ucast frequency :: u16) = 0 then None
      else
        let divisor = (1193180 :: u16) div ucast frequency;
            ocw = (0 AND NOT PIT_MODE_MASK) OR mode;
            ocw = (ocw AND NOT PIT_RL_MASK) OR PIT_RL_DATA;
            ocw = (ocw AND NOT PIT_COUNTER_MASK) OR counter;
            s = pit_send_command ocw s;
            s = pit_send_data (divisor AND 0xFF) PIT_COUNTER_0 s;
            s = pit_send_data (drop_bit 8 divisor AND 0xFF) PIT_COUNTER_0 s
        in Some (s\<lparr>pit_ticks := 0\<rparr>))"

definition get_tick_count :: "'a hal_state_scheme \<Rightarrow> u32" where
  "get_tick_count s = ucast (pit_ticks s)"

definition reset_tick_count :: "'a hal_state_scheme \<Rightarrow> 'a hal_state_scheme" where
  "reset_tick_count s = s\<lparr>pit_ticks := 0\<rparr>"

section \<open>The interrupt controllers\<close>

definition PIC1_REG_COMMAND :: u16 where "PIC1_REG_COMMAND = 0x20"
definition PIC1_REG_DATA :: u16 where "PIC1_REG_DATA = 0x21"
definition PIC2_REG_COMMAND :: u16 where "PIC2_REG_COMMAND = 0xA0"
definition PIC2_REG_DATA :: u16 where "PIC2_REG_DATA = 0xA1"
definition PIC_IC4_MASK :: u8 where "PIC_IC4_MASK = 0x1"
definition PIC_INIT_MASK :: u8 where "PIC_INIT_MASK = 0x10"
definition PIC_IC4_EXPECT :: u8 where "PIC_IC4_EXPECT = 0x1"
definition PIC_INIT_YES :: u8 where "PIC_INIT_YES = 0x10"
definition PIC_UPM_MASK :: u8 where "PIC_UPM_MASK = 0x1"
definition PIC_UPM_86MODE :: u8 where "PIC_UPM_86MODE = 0x1"

definition pic_send_command :: "u8 \<Rightarrow> u8 \<Rightarrow> 'a cpu_state_scheme \<Rightarrow> 'a cpu_state_scheme" where
  "pic_send_command cmd pic s = (if pic = 0 then outportb PIC1_REG_COMMAND cmd s
     else if pic = 1 then outportb PIC2_REG_COMMAND cmd s else s)"

definition pic_send_data :: "u8 \<Rightarrow> u8 \<Rightarrow> 'a cpu_state_scheme \<Rightarrow> 'a cpu_state_scheme" where
  "pic_send_data data pic s = (if pic = 0 then outportb PIC1_REG_DATA data s
     else if pic = 1 then outportb PIC2_REG_DATA data s else s)"

definition pic_read_data :: "u8 \<Rightarrow> 'a cpu_state_scheme \<Rightarrow> (u8 \<times> 'a cpu_state_scheme) option" where
  "pic_read_data pic s = (if pic = 0 then inportb PIC1_REG_DATA s
     else if pic = 1 then inportb PIC2_REG_DATA s else Some (0, s))"

definition pic_init :: "u8 \<Rightarrow> u8 \<Rightarrow> 'a cpu_state_scheme \<Rightarrow> 'a cpu_state_scheme" where
  "pic_init base0 base1 s =
     (let s = disable_int s;
          icw = (0 AND NOT PIC_INIT_MASK) OR PIC_INIT_YES;
          icw = (icw AND NOT PIC_IC4_MASK) OR PIC_IC4_EXPECT;
          s = pic_send_command icw 0 s;
          s = pic_send_command icw 1 s;
          s = pic_send_data base0 0 s;
          s = pic_send_data base1 1 s;
          s = pic_send_data 0x04 0 s;
          s = pic_send_data 0x02 1 s;
          icw = (icw AND NOT PIC_UPM_MASK) OR PIC_UPM_86MODE;
          s = pic_send_data icw 0 s
      in pic_send_data icw 1 s)"

section \<open>The hardware layer\<close>

definition hal_init :: "(string \<Rightarrow> u32) \<Rightarrow> 'a hal_state_scheme \<Rightarrow> 'a hal_state_scheme option" where
  "hal_init ld s = do {
     let s = disable_int s;
     let s = gdt_init ld s;
     let s = idt_init ld 0x8 s;
     let s = pic_init 0x20 0x28 s;
     let s = pit_init ld s;
     s \<leftarrow> pit_start_counter 100 PIT_COUNTER_0 PIT_MODE_SQUAREWAVEGEN s;
     Some (enable_int s)
   }"

definition reboot :: "'a cpu_state_scheme \<Rightarrow> 'a cpu_state_scheme" where
  "reboot = outportb 0x64 0xFE"

text \<open>\<open>sleep\<close> polls the tick counter, which only the timer interrupt advances: the values it reads
  are the argument \<open>reads\<close>, and the loop has no result while they do not suffice.\<close>

fun sleep_poll :: "u32 \<Rightarrow> u32 \<Rightarrow> u8 list \<Rightarrow> u8 list option" where
  "sleep_poll ticks passed [] = None"
| "sleep_poll ticks passed (t # ts) = (let passed = passed + ucast t in
     if sint passed < sint ticks then sleep_poll ticks passed ts else Some ts)"

definition sleep :: "u32 \<Rightarrow> u8 list \<Rightarrow> u8 list option" where
  "sleep sec reads = (case reads of [] \<Rightarrow> None | t # ts \<Rightarrow> sleep_poll (ucast t + sec) 0 ts)"

section \<open>What the processor reads back\<close>

definition gdt_base :: "gdt_info \<Rightarrow> u32" where
  "gdt_base g = ucast (g_base_low g) OR push_bit 16 (ucast (g_base_middle g))
     OR push_bit 24 (ucast (g_base_high g))"

definition gdt_limit :: "gdt_info \<Rightarrow> u32" where
  "gdt_limit g = ucast (g_limit_low g) OR push_bit 16 (ucast (g_granularity g) AND 0x0F)"

definition gate_addr :: "idt_info \<Rightarrow> u32" where
  "gate_addr e = ucast (i_base_low e) OR push_bit 16 (ucast (i_base_high e))"

lemma low_mask:
  "(0xFFFF :: u32) = mask 16" "(0xFF :: u32) = mask 8" "(0x0F :: u32) = mask 4" "(0xFFFF :: u16) = mask 16"
  by (simp_all add: mask_eq_exp_minus_1)

lemma gate_addr_gate: "gate_addr (gate flags sel a) = a"
proof (rule bit_word_eqI)
  fix n assume "n < LENGTH(32)"
  then show "bit (gate_addr (gate flags sel a)) n = bit a n"
    unfolding gate_addr_def gate_def low_mask
    by (cases "n < 16") (auto simp: bit_or_iff bit_and_iff bit_ucast_iff bit_push_bit_iff bit_drop_bit_eq bit_mask_iff)
qed

lemma gdt_base_entry: "gdt_base (gdt_entry base limit access) = base"
proof (rule bit_word_eqI)
  fix n assume n: "n < LENGTH(32)"
  consider "n < 16" | "16 \<le> n" "n < 24" | "24 \<le> n" by linarith
  then show "bit (gdt_base (gdt_entry base limit access)) n = bit base n"
    using n unfolding gdt_base_def gdt_entry_def low_mask
    by cases (auto simp: bit_or_iff bit_and_iff bit_ucast_iff bit_push_bit_iff bit_drop_bit_eq bit_mask_iff)
qed

section \<open>The tables after initialisation\<close>

lemma install_ir_idt [simp]:
  "idt (install_ir i flags sel a s) = (idt s)[i := gate flags sel a]"
  "port_writes (install_ir i flags sel a s) = port_writes s"
  by (simp_all add: install_ir_def)

lemma fold_install:
  assumes "distinct (map fst vs)"
  shows "length (idt (fold (\<lambda>(i, h). install_ir i flags sel (g h)) vs s)) = length (idt s)
    \<and> port_writes (fold (\<lambda>(i, h). install_ir i flags sel (g h)) vs s) = port_writes s
    \<and> (\<forall>j<length (idt s). idt (fold (\<lambda>(i, h). install_ir i flags sel (g h)) vs s) ! j
         = (case map_of vs j of Some h \<Rightarrow> gate flags sel (g h) | None \<Rightarrow> idt s ! j))"
  using assms
proof (induction vs arbitrary: s)
  case (Cons v vs)
  obtain i h where v: "v = (i, h)" by (cases v)
  have "map_of vs i = None" using Cons.prems by (simp add: v map_of_eq_None_iff)
  with Cons show ?case by (auto simp: v nth_list_update split: option.splits)
qed simp

definition handler :: "nat \<Rightarrow> string" where
  "handler j = (case map_of exception_vectors j of Some h \<Rightarrow> h | None \<Rightarrow> ''default_ir_handler'')"

lemma idt_init_gates:
  shows "length (idt (idt_init ld code s)) = 256" "port_writes (idt_init ld code s) = port_writes s"
    "j < 256 \<Longrightarrow> idt (idt_init ld code s) ! j = gate 0x8E code (ld (handler j))"
proof -
  let ?s0 = "s\<lparr>idt := idt_clear (idt s)\<rparr>"
  let ?s1 = "fold (\<lambda>i. install_ir i 0x8E code (ld ''default_ir_handler'')) [0..<MAX_INTERRUPTS] ?s0"
  have l0: "length (idt ?s0) = 256" by (simp add: idt_clear_def MAX_INTERRUPTS_def Let_def)
  have "?s1 = fold (\<lambda>(i, h). install_ir i 0x8E code (ld h))
      (map (\<lambda>i. (i, ''default_ir_handler'')) [0..<256]) ?s0"
    by (simp add: fold_map comp_def MAX_INTERRUPTS_def)
  moreover have "map_of (map (\<lambda>i. (i, ''default_ir_handler'')) [0..<256]) j
      = (if j < 256 then Some ''default_ir_handler'' else None)" for j
    by (auto simp: map_of_map_restrict restrict_map_def)
  ultimately have s1: "length (idt ?s1) = 256" "port_writes ?s1 = port_writes s"
      "j < 256 \<Longrightarrow> idt ?s1 ! j = gate 0x8E code (ld ''default_ir_handler'')" for j
    using fold_install [of "map (\<lambda>i. (i, ''default_ir_handler'')) [0..<256]" "0x8E" code ld ?s0] l0
    by (simp_all add: comp_def)
  have d: "distinct (map fst exception_vectors)" by (simp add: exception_vectors_def)
  have "idt (idt_init ld code s) = idt (fold (\<lambda>(i, h). install_ir i 0x8E code (ld h)) exception_vectors ?s1)"
    "port_writes (idt_init ld code s) = port_writes (fold (\<lambda>(i, h). install_ir i 0x8E code (ld h)) exception_vectors ?s1)"
    by (simp_all add: idt_init_def Let_def)
  with fold_install [OF d, of "0x8E" code ld ?s1] s1
  show "length (idt (idt_init ld code s)) = 256" "port_writes (idt_init ld code s) = port_writes s"
    "j < 256 \<Longrightarrow> idt (idt_init ld code s) ! j = gate 0x8E code (ld (handler j))"
    by (auto simp: handler_def split: option.split)
qed

text \<open>C24: after \<open>hal_init\<close> interrupts are enabled, the descriptor of every interrupt vector leads to
  its handler (the timer's, the exception's, or the default one), the first five segment descriptors are
  the empty one and code and data of kernel and programs, all of base 0, and the chips have received
  exactly this sequence of bytes: the timer's divisor is 135, the quotient of \<open>1193180\<close> cut to 16 bits,
  not the one for 100 ticks a second.\<close>
theorem hal_init_programs:
  "\<exists>s'. hal_init ld s = Some s' \<and> int_on s' \<and> length (idt s') = 256
    \<and> (\<forall>j<256. gate_addr (idt s' ! j) = ld (if j = 32 then ''pit_int'' else handler j)
         \<and> i_sel (idt s' ! j) = 0x8 \<and> i_flags (idt s' ! j) = 0x8E)
    \<and> gdt_tab s' = (gdt_tab s)[0 := gdt_entry 0 0 0, 1 := gdt_entry 0 0xFFFFFFFF 0x9A, 2 := gdt_entry 0 0xFFFFFFFF 0x92,
         3 := gdt_entry 0 0xFFFFFFFF 0xFA, 4 := gdt_entry 0 0xFFFFFFFF 0xF2]
    \<and> port_writes s' = port_writes s @ [(0x20, 0x11), (0xA0, 0x11), (0x21, 0x20), (0xA1, 0x28), (0x21, 0x04),
         (0xA1, 0x02), (0x21, 0x11), (0xA1, 0x11), (0x43, 0x36), (0x40, 135), (0x40, 0)]"
proof -
  let ?s1 = "idt_init ld 0x8 (gdt_init ld (disable_int s))"
  let ?s2 = "pit_init ld (pic_init 0x20 0x28 ?s1)"
  let ?tab = "(gdt_tab s)[0 := gdt_entry 0 0 0, 1 := gdt_entry 0 0xFFFFFFFF 0x9A, 2 := gdt_entry 0 0xFFFFFFFF 0x92,
         3 := gdt_entry 0 0xFFFFFFFF 0xFA, 4 := gdt_entry 0 0xFFFFFFFF 0xF2]"
  have w: "port_writes (gdt_init ld (disable_int s)) = port_writes s" "gdt_tab (gdt_init ld (disable_int s)) = ?tab"
    by (simp_all add: gdt_init_def gdt_set_entry_def disable_int_def Let_def)
  have "gdt_tab (install_ir i f c h t) = gdt_tab t" for i f c h and t :: "'a hal_state_scheme"
    by (simp add: install_ir_def)
  note ir = this
  have "gdt_tab (fold (\<lambda>(i, h). install_ir i f c (ld h)) vs t) = gdt_tab t" for f c vs and t :: "'a hal_state_scheme"
    by (induction vs arbitrary: t) (auto simp: ir split: prod.split)
  moreover have "gdt_tab (fold (\<lambda>i. install_ir i f c h) is t) = gdt_tab t" for f c h "is" and t :: "'a hal_state_scheme"
    by (induction "is" arbitrary: t) (simp_all add: ir)
  ultimately have tab1: "gdt_tab ?s1 = ?tab" using w(2) by (simp add: idt_init_def Let_def)
  note g = idt_init_gates [where ld = ld and code = "0x8" and s = "gdt_init ld (disable_int s)"]
  have pic: "idt (pic_init b0 b1 t) = idt t" "gdt_tab (pic_init b0 b1 t) = gdt_tab t" "port_writes (pic_init 0x20 0x28 t) = port_writes t @
      [(0x20, 0x11), (0xA0, 0x11), (0x21, 0x20), (0xA1, 0x28), (0x21, 0x04), (0xA1, 0x02), (0x21, 0x11), (0xA1, 0x11)]"
    for b0 b1 and t :: "'a hal_state_scheme"
    by (simp_all add: pic_init_def pic_send_command_def pic_send_data_def disable_int_def Let_def outportb_def
        PIC1_REG_COMMAND_def PIC1_REG_DATA_def PIC2_REG_COMMAND_def PIC2_REG_DATA_def
        PIC_IC4_MASK_def PIC_INIT_MASK_def PIC_IC4_EXPECT_def PIC_INIT_YES_def PIC_UPM_MASK_def PIC_UPM_86MODE_def)
  have s2: "idt ?s2 = (idt ?s1)[32 := gate 0x8E 0x8 (ld ''pit_int'')]"
    "port_writes ?s2 = port_writes ?s1 @ [(0x20, 0x11), (0xA0, 0x11), (0x21, 0x20), (0xA1, 0x28),
      (0x21, 0x04), (0xA1, 0x02), (0x21, 0x11), (0xA1, 0x11)]" "gdt_tab ?s2 = ?tab"
    by (simp_all add: pit_init_def pic tab1 ir)
  obtain s3 where s3: "pit_start_counter 100 PIT_COUNTER_0 PIT_MODE_SQUAREWAVEGEN ?s2 = Some s3"
      "idt s3 = idt ?s2" "port_writes s3 = port_writes ?s2 @ [(0x43, 0x36), (0x40, 135), (0x40, 0)]"
      "gdt_tab s3 = gdt_tab ?s2"
    by (simp add: pit_start_counter_def Let_def pit_send_command_def pit_send_data_def outportb_def
        PIT_REG_COMMAND_def PIT_REG_COUNTER0_def PIT_COUNTER_0_def PIT_MODE_SQUAREWAVEGEN_def
        PIT_MODE_MASK_def PIT_RL_MASK_def PIT_RL_DATA_def PIT_COUNTER_MASK_def)
  have "hal_init ld s = Some (enable_int s3)" using s3(1) by (simp add: hal_init_def Let_def)
  moreover have "i_sel (gate f c a) = c" "i_flags (gate f c a) = ucast f" for f c a
    by (simp_all add: gate_def)
  ultimately show ?thesis
    using s2 s3(2-4) g w(1)
    by (auto simp: enable_int_def nth_list_update gate_addr_gate)
qed

text \<open>A descriptor built by \<open>gdt_set_entry\<close> gives back the base address it was built from and
  the low 20 bits of the limit, in a table of 8 entries; other entries are unchanged.\<close>
theorem gdt_set_entry_decodes:
  assumes "length (gdt_tab s) = GDT_LEN" "index < GDT_LEN"
  shows "gdt_base (gdt_tab (gdt_set_entry index base limit access s) ! index) = base
    \<and> gdt_limit (gdt_tab (gdt_set_entry index base limit access s) ! index) = take_bit 20 limit
    \<and> (\<forall>j<GDT_LEN. j \<noteq> index \<longrightarrow> gdt_tab (gdt_set_entry index base limit access s) ! j = gdt_tab s ! j)"
proof -
  have "gdt_limit (gdt_entry base limit access) = take_bit 20 limit"
  proof (rule bit_word_eqI)
    fix n assume n: "n < LENGTH(32)"
    have m: "(0xC0 :: u32) = push_bit 6 (mask 2)" by (simp add: mask_eq_exp_minus_1)
    consider "n < 16" | "16 \<le> n" "n < 20" | "20 \<le> n" by linarith
    then show "bit (gdt_limit (gdt_entry base limit access)) n = bit (take_bit 20 limit) n"
      using n unfolding gdt_limit_def gdt_entry_def low_mask
      by cases (auto simp: bit_or_iff bit_and_iff bit_ucast_iff bit_push_bit_iff bit_drop_bit_eq
          bit_mask_iff bit_take_bit_iff m)
  qed
  then show ?thesis using assms by (simp add: gdt_set_entry_def gdt_base_entry)
qed

definition demo_hal :: hal_state where
  "demo_hal = cpu_state.extend (kheap_state.extend demo_kheap
       \<lparr>port_writes = [], port_reads = [], int_on = True\<rparr>)
     \<lparr>gdt_tab = replicate 8 (gdt_entry 0 0 0), gdtr = \<lparr>tp_limit = 0, tp_base = 0\<rparr>,
      idt = replicate 256 (gate 0 0 0), idtr = \<lparr>tp_limit = 0, tp_base = 0\<rparr>, tss_area = tss_zero,
      task_register = 0, sched_on = 0, pit_ticks = 0\<rparr>"

theorem gdt_set_entry_decodes_witness:
  "gdt_base (gdt_tab (gdt_set_entry 5 0x12345678 0x67 0xE9 demo_hal) ! 5) = 0x12345678"
  using gdt_set_entry_decodes [of demo_hal 5 "0x12345678" "0x67" "0xE9"]
  by (simp add: demo_hal_def GDT_LEN_def cpu_state.defs)

theorem hal_init_programs_witness:
  "\<exists>s'. hal_init (\<lambda>n. if n = ''pit_int'' then 0x123456 else 7) demo_hal = Some s'
    \<and> gate_addr (idt s' ! 32) = 0x123456 \<and> gate_addr (idt s' ! 33) = 7"
proof -
  let ?ld = "\<lambda>n. if n = ''pit_int'' then 0x123456 else 7 :: u32"
  obtain s' where s': "hal_init ?ld demo_hal = Some s'"
      "\<forall>j<256. gate_addr (idt s' ! j) = ?ld (if j = 32 then ''pit_int'' else handler j)"
    using hal_init_programs [of ?ld demo_hal] by blast
  from s'(2) have "gate_addr (idt s' ! 32) = 0x123456" by simp
  moreover from s'(2) [rule_format, of 33] have "gate_addr (idt s' ! 33) = 7"
    by (simp add: handler_def exception_vectors_def)
  ultimately show ?thesis using s'(1) by blast
qed

end
