(* ===== verification/Dma.thy ===== *)
theory Dma
  imports Cpu
begin

text \<open>
  The DMA controllers, \<open>drivers/x86/dma.c\<close>: which byte goes to which port for every channel, and
  what the two address bytes, the page byte and the two count bytes of a transfer stand for.
\<close>

definition DMA0_CHANMASK_REG :: u16 where "DMA0_CHANMASK_REG = 0x0A"
definition DMA0_MODE_REG :: u16 where "DMA0_MODE_REG = 0x0B"
definition DMA0_CLEARBYTE_FLIPFLOP_REG :: u16 where "DMA0_CLEARBYTE_FLIPFLOP_REG = 0x0C"
definition DMA0_TEMP_REG :: u16 where "DMA0_TEMP_REG = 0x0D"
definition DMA1_CHANMASK_REG :: u16 where "DMA1_CHANMASK_REG = 0xD4"
definition DMA1_MODE_REG :: u16 where "DMA1_MODE_REG = 0xD6"
definition DMA1_CLEARBYTE_FLIPFLOP_REG :: u16 where "DMA1_CLEARBYTE_FLIPFLOP_REG = 0xD8"
definition DMA1_UNMASK_ALL_REG :: u16 where "DMA1_UNMASK_ALL_REG = 0xDC"
definition DMA_MODE_READ_TRANSFER :: u8 where "DMA_MODE_READ_TRANSFER = 4"
definition DMA_MODE_WRITE_TRANSFER :: u8 where "DMA_MODE_WRITE_TRANSFER = 8"
definition DMA_MODE_TRANSFER_SINGLE :: u8 where "DMA_MODE_TRANSFER_SINGLE = 0x40"

text \<open>The switches over the channel; a channel without a case leaves the port at 0.\<close>

definition dma_addr_port :: "u8 \<Rightarrow> u16" where
  "dma_addr_port channel =
     (if channel = 0 then 0 else if channel = 1 then 2 else if channel = 2 then 4
      else if channel = 3 then 6 else if channel = 4 then 0xC0 else if channel = 5 then 0xC4
      else if channel = 6 then 0xC8 else if channel = 7 then 0xCC else 0)"

definition dma_count_port :: "u8 \<Rightarrow> u16" where
  "dma_count_port channel =
     (if channel = 0 then 1 else if channel = 1 then 3 else if channel = 2 then 5
      else if channel = 3 then 7 else if channel = 4 then 0xC2 else if channel = 5 then 0xC6
      else if channel = 6 then 0xCA else if channel = 7 then 0xCE else 0)"

definition dma_page_port :: "u8 \<Rightarrow> u16" where
  "dma_page_port reg =
     (if reg = 1 then 0x83 else if reg = 2 then 0x81 else if reg = 3 then 0x82
      else if reg = 5 then 0x89 else if reg = 6 then 0x87 else if reg = 7 then 0x88 else 0)"

definition dma_set_address :: "u8 \<Rightarrow> u8 \<Rightarrow> u8 \<Rightarrow> 'a cpu_state_scheme \<Rightarrow> 'a cpu_state_scheme" where
  "dma_set_address channel low high s =
     (if 8 < channel then s
      else outportb (dma_addr_port channel) high (outportb (dma_addr_port channel) low s))"

definition dma_set_count :: "u8 \<Rightarrow> u8 \<Rightarrow> u8 \<Rightarrow> 'a cpu_state_scheme \<Rightarrow> 'a cpu_state_scheme" where
  "dma_set_count channel low high s =
     (if 8 < channel then s
      else outportb (dma_count_port channel) high (outportb (dma_count_port channel) low s))"

definition dma_set_external_page_register :: "u8 \<Rightarrow> u8 \<Rightarrow> 'a cpu_state_scheme \<Rightarrow> 'a cpu_state_scheme" where
  "dma_set_external_page_register reg val s =
     (if 14 < reg then s else if reg = 4 then s else outportb (dma_page_port reg) val s)"

definition dma_mask_channel :: "u8 \<Rightarrow> 'a cpu_state_scheme \<Rightarrow> 'a cpu_state_scheme" where
  "dma_mask_channel channel s =
     (if channel \<le> 4 then outportb DMA0_CHANMASK_REG (ucast (shl1 (ucast channel - 1))) s
      else outportb DMA1_CHANMASK_REG (ucast (shl1 (ucast channel - 5))) s)"

definition dma_unmask_channel :: "u8 \<Rightarrow> 'a cpu_state_scheme \<Rightarrow> 'a cpu_state_scheme" where
  "dma_unmask_channel channel s =
     (if channel \<le> 4 then outportb DMA0_CHANMASK_REG channel s else outportb DMA1_CHANMASK_REG channel s)"

definition dma_unmask_all :: "'a cpu_state_scheme \<Rightarrow> 'a cpu_state_scheme" where
  "dma_unmask_all = outportb DMA1_UNMASK_ALL_REG 0xFF"

definition dma_set_mode :: "u8 \<Rightarrow> u8 \<Rightarrow> 'a cpu_state_scheme \<Rightarrow> 'a cpu_state_scheme" where
  "dma_set_mode channel mode s =
     (let chan = (if channel < 4 then channel else channel - 4);
          s = dma_mask_channel channel s;
          s = outportb (if channel < 4 then DMA0_MODE_REG else DMA1_MODE_REG) (chan OR mode) s
      in dma_unmask_all s)"

definition dma_set_read :: "u8 \<Rightarrow> 'a cpu_state_scheme \<Rightarrow> 'a cpu_state_scheme" where
  "dma_set_read channel = dma_set_mode channel (DMA_MODE_READ_TRANSFER OR DMA_MODE_TRANSFER_SINGLE)"

definition dma_set_write :: "u8 \<Rightarrow> 'a cpu_state_scheme \<Rightarrow> 'a cpu_state_scheme" where
  "dma_set_write channel = dma_set_mode channel (DMA_MODE_WRITE_TRANSFER OR DMA_MODE_TRANSFER_SINGLE)"

definition dma_reset_flipflop :: "u32 \<Rightarrow> 'a cpu_state_scheme \<Rightarrow> 'a cpu_state_scheme" where
  "dma_reset_flipflop dma s =
     (if 1 < sint dma then s
      else outportb (if dma = 0 then DMA0_CLEARBYTE_FLIPFLOP_REG else DMA1_CLEARBYTE_FLIPFLOP_REG) 0xFF s)"

definition dma_reset :: "'a cpu_state_scheme \<Rightarrow> 'a cpu_state_scheme" where
  "dma_reset = outportb DMA0_TEMP_REG 0xFF"

section \<open>What is written, and nothing else\<close>

text \<open>\<open>sends P s s'\<close>: \<open>s'\<close> comes from \<open>s\<close> by writes to ports that satisfy \<open>P\<close>, and by reads.\<close>

definition sends :: "(u16 \<Rightarrow> bool) \<Rightarrow> 'a cpu_state_scheme \<Rightarrow> 'a cpu_state_scheme \<Rightarrow> bool" where
  "sends P s s' \<longleftrightarrow> (\<exists>w. port_writes s' = port_writes s @ w \<and> (\<forall>(p, v) \<in> set w. P p))"

named_theorems sends_intros \<open>the ports an operation writes\<close>

lemma sends_refl [simp, intro]: "sends P s s"
  by (simp add: sends_def)

lemma sends_trans [trans]: "sends P s t \<Longrightarrow> sends P t u \<Longrightarrow> sends P s u"
  unfolding sends_def by (elim exE conjE) (rule exI, auto)

lemma sends_same: "port_writes s' = port_writes s \<Longrightarrow> sends P s s'"
  by (simp add: sends_def)

lemma sends_mono: "sends P s t \<Longrightarrow> (\<And>p. P p \<Longrightarrow> Q p) \<Longrightarrow> sends Q s t"
  unfolding sends_def by fastforce

lemma sends_outportb [sends_intros]: "P p \<Longrightarrow> sends P s (outportb p v s)"
  by (simp add: sends_def)

definition low_port :: "u16 \<Rightarrow> bool" where "low_port p \<longleftrightarrow> p < 0x100"

text \<open>All the DMA registers lie below 0x100.\<close>

lemma dma_low [sends_intros]:
  "sends low_port s (dma_set_address c l h s)" "sends low_port s (dma_set_count c l h s)"
  "sends low_port s (dma_set_external_page_register c v s)" "sends low_port s (dma_mask_channel c s)"
  "sends low_port s (dma_set_mode c m s)" "sends low_port s (dma_reset_flipflop d s)" "sends low_port s (dma_reset s)"
  by (auto simp: sends_def low_port_def dma_set_address_def dma_set_count_def dma_set_external_page_register_def
        dma_mask_channel_def dma_set_mode_def dma_reset_flipflop_def dma_reset_def dma_unmask_all_def Let_def
        dma_addr_port_def dma_count_port_def dma_page_port_def DMA0_CHANMASK_REG_def DMA1_CHANMASK_REG_def
        DMA0_MODE_REG_def DMA1_MODE_REG_def DMA1_UNMASK_ALL_REG_def DMA0_CLEARBYTE_FLIPFLOP_REG_def
        DMA1_CLEARBYTE_FLIPFLOP_REG_def DMA0_TEMP_REG_def)

lemma dma_set_read_low [sends_intros]: "sends low_port s (dma_set_read c s)" "sends low_port s (dma_set_write c s)"
  unfolding dma_set_read_def dma_set_write_def by (rule dma_low)+

text \<open>Every transfer of the driver unmasks the second controller only, whichever channel it is for.\<close>

end
