(* ===== verification/Ring.thy ===== *)
theory Ring
  imports Prelude
begin

text \<open>
  Circular doubly linked lists.  \<open>proc/sched.c\<close> and \<open>proc/thread.c\<close> keep processes and the threads
  of a process in rings of \<open>next\<close> and \<open>prec\<close> pointers and repeat the same insertion and removal
  over them; the interface \<open>ring_store\<close> names the field accesses they use, and its lemmas are
  proved once for both.
\<close>

fun links :: "(u32 \<Rightarrow> u32) \<Rightarrow> (u32 \<Rightarrow> u32) \<Rightarrow> u32 list \<Rightarrow> bool" where
  "links nx pv (a # b # xs) \<longleftrightarrow> nx a = b \<and> pv b = a \<and> links nx pv (b # xs)"
| "links nx pv xs \<longleftrightarrow> True"

text \<open>\<open>ring_of nx pv (p # ps)\<close>: from \<open>p\<close> the \<open>next\<close> pointers run through \<open>ps\<close> and back to \<open>p\<close>, and
  the \<open>prec\<close> pointers run the other way.\<close>

definition ring_of :: "(u32 \<Rightarrow> u32) \<Rightarrow> (u32 \<Rightarrow> u32) \<Rightarrow> u32 list \<Rightarrow> bool" where
  "ring_of nx pv ps \<longleftrightarrow> ps \<noteq> [] \<and> distinct ps \<and> links nx pv (ps @ [hd ps])"

lemma links_cong:
  "(\<And>a. a \<in> set (butlast xs) \<Longrightarrow> nx' a = nx a) \<Longrightarrow> (\<And>a. a \<in> set (tl xs) \<Longrightarrow> pv' a = pv a) \<Longrightarrow>
   links nx' pv' xs \<longleftrightarrow> links nx pv xs"
  by (induction nx pv xs rule: links.induct) (auto split: if_splits)

lemma links_append:
  "links nx pv (xs @ [a]) \<Longrightarrow> links nx pv (a # ys) \<Longrightarrow> links nx pv (xs @ a # ys)"
  by (induction nx pv xs rule: links.induct) auto

lemma links_suffix: "links nx pv (xs @ ys) \<Longrightarrow> links nx pv ys"
proof (induction xs)
  case (Cons x xs)
  then show ?case by (cases "xs @ ys") auto
qed simp

lemma links_prefix: "links nx pv (xs @ ys) \<Longrightarrow> links nx pv xs"
  by (induction nx pv xs rule: links.induct) auto

lemma ring_rotate:
  assumes "ring_of nx pv (p # ps)"
  shows "ring_of nx pv (ps @ [p])"
proof (cases ps)
  case (Cons q qs)
  have l: "links nx pv (p # q # qs @ [p])" using assms by (simp add: ring_of_def Cons)
  then have "links nx pv ((q # qs) @ [p])" "links nx pv [p, q]" by simp_all
  then have "links nx pv ((q # qs) @ [p, q])" by (rule links_append)
  then show ?thesis using assms by (auto simp: ring_of_def Cons)
qed (use assms in simp)

lemma ring_rotate_to:
  "ring_of nx pv (ps @ a # qs) \<Longrightarrow> ring_of nx pv (a # qs @ ps)"
proof (induction ps arbitrary: qs)
  case (Cons p ps)
  then have "ring_of nx pv (ps @ a # qs @ [p])" using ring_rotate [of nx pv p "ps @ a # qs"] by simp
  from Cons.IH [OF this] show ?case by simp
qed simp

lemma ring_next:
  assumes "ring_of nx pv (p # ps)"
  shows "nx p = hd (ps @ [p])" "pv (hd (ps @ [p])) = p"
  using assms by (cases ps; simp add: ring_of_def)+

lemma ring_insert:
  assumes "ring_of nx pv (p # ps)" "x \<notin> set (p # ps)"
  shows "ring_of (nx(x := nx p, p := x)) (pv(x := p, nx p := x)) (p # x # ps)"
proof (cases ps)
  case Nil
  then show ?thesis using assms by (simp add: ring_of_def)
next
  case (Cons q qs)
  have l: "nx p = q" "links nx pv (q # qs @ [p])" using assms by (simp_all add: ring_of_def Cons)
  have "links (nx(x := q, p := x)) (pv(x := p, q := x)) (q # qs @ [p]) \<longleftrightarrow> links nx pv (q # qs @ [p])"
    using assms Cons by (intro links_cong) (auto simp: ring_of_def butlast_append)
  then show ?thesis using assms l by (auto simp: ring_of_def Cons)
qed

lemma ring_delete:
  assumes "ring_of nx pv (a # q # qs)"
  shows "ring_of (nx(pv a := q)) (pv(q := pv a)) (q # qs)"
proof -
  obtain zs z where zz: "q # qs = zs @ [z]" by (metis rev_exhaust list.distinct(1))
  have d: "distinct (a # zs @ [z])" "q \<notin> set qs" and l: "links nx pv (a # (zs @ [z]) @ [a])"
    using assms unfolding ring_of_def zz [symmetric] by simp_all
  have "links nx pv ((a # zs) @ [z, a])" using l by simp
  then have last: "pv a = z" using links_suffix by fastforce
  have "links nx pv (a # zs @ [z])" using l links_prefix [of nx pv "a # zs @ [z]" "[a]"] by simp
  then have keep: "links nx pv (zs @ [z])" using links_suffix [of nx pv "[a]" "zs @ [z]"] by simp
  let ?nx = "nx(z := q)" and ?pv = "pv(q := z)"
  have "links ?nx ?pv (zs @ [z]) \<longleftrightarrow> links nx pv (zs @ [z])"
  proof (rule links_cong)
    fix b assume "b \<in> set (butlast (zs @ [z]))"
    then show "?nx b = nx b" using d by auto
  next
    fix b assume "b \<in> set (tl (zs @ [z]))"
    then have "b \<in> set qs" unfolding zz [symmetric] by simp
    then show "?pv b = pv b" using d(2) by auto
  qed
  with keep have "links ?nx ?pv (zs @ [z])" by blast
  moreover have "links ?nx ?pv [z, q]" by simp
  ultimately have "links ?nx ?pv (zs @ [z, q])" by (rule links_append)
  then have "links ?nx ?pv ((q # qs) @ [q])" unfolding zz by simp
  then show ?thesis using d assms last unfolding ring_of_def by simp
qed

lemma ring_prec_ne:
  assumes "ring_of nx pv (a # q # qs)"
  shows "pv a \<noteq> a"
proof
  assume pa: "pv a = a"
  have "ring_of nx pv ((q # qs) @ [a])" using assms by (rule ring_rotate)
  then have "ring_of nx pv (last (q # qs) # a # butlast (q # qs))"
    using ring_rotate_to [of nx pv "butlast (q # qs)" "last (q # qs)" "[a]"]
    by (metis append.assoc append_Cons append_Nil append_butlast_last_id list.distinct(1))
  from ring_next(2) [OF this] this pa show False by (simp add: ring_of_def)
qed

section \<open>The interface of a store of ring nodes\<close>

locale ring_store =
  fixes nxt prv :: "'s \<Rightarrow> u32 \<Rightarrow> u32"
    and set_nxt set_prv :: "u32 \<Rightarrow> u32 \<Rightarrow> 's \<Rightarrow> 's"
  assumes nxt_set_nxt: "nxt (set_nxt a v s) = (nxt s)(a := v)"
    and prv_set_nxt: "prv (set_nxt a v s) = prv s"
    and prv_set_prv: "prv (set_prv a v s) = (prv s)(a := v)"
    and nxt_set_prv: "nxt (set_prv a v s) = nxt s"
begin

lemmas accesses = nxt_set_nxt prv_set_nxt prv_set_prv nxt_set_prv

lemma insert_after:
  assumes "ring_of (nxt s) (prv s) (p # ps)" "x \<notin> set (p # ps)"
    and "s1 = set_prv x p s" "s2 = set_nxt x (nxt s1 p) s1" "s3 = set_prv (nxt s2 x) x s2"
      "s4 = set_nxt p x s3"
  shows "ring_of (nxt s4) (prv s4) (p # x # ps)"
  using ring_insert [OF assms(1,2)] by (simp add: assms(3-6) accesses)

lemma delete:
  assumes "ring_of (nxt s) (prv s) (a # q # qs)"
    and "s1 = set_nxt (prv s a) (nxt s a) s" "s2 = set_prv (nxt s1 a) (prv s1 a) s1"
  shows "nxt s1 a = q" "ring_of (nxt s2) (prv s2) (q # qs)"
proof -
  have a: "nxt s a = q" using ring_next [OF assms(1)] by simp
  have "prv s a \<noteq> a" using assms(1) by (rule ring_prec_ne)
  then show n: "nxt s1 a = q" by (simp add: assms(2) accesses a)
  then show "ring_of (nxt s2) (prv s2) (q # qs)"
    using ring_delete [OF assms(1)] by (simp add: assms(2,3) accesses a)
qed

lemma delete_prv_first:
  assumes "ring_of (nxt s) (prv s) (a # q # qs)"
    and "s1 = set_prv (nxt s a) (prv s a) s" "s2 = set_nxt (prv s1 a) (nxt s1 a) s1"
  shows "ring_of (nxt s2) (prv s2) (q # qs)" "nxt s2 a = q"
proof -
  have a: "nxt s a = q" "q \<noteq> a" using ring_next [OF assms(1)] assms(1) by (auto simp: ring_of_def)
  have "prv s a \<noteq> a" using assms(1) by (rule ring_prec_ne)
  then show "nxt s2 a = q" by (simp add: assms(2,3) accesses a)
  show "ring_of (nxt s2) (prv s2) (q # qs)"
    using ring_delete [OF assms(1)] a by (simp add: assms(2,3) accesses)
qed

end

end
