(* ===== verification/Sched.thy ===== *)
theory Sched
  imports Ring Cpu
begin

text \<open>
  The scheduler, \<open>proc/sched.c\<close>, and the records of \<open>proc/proc.h\<close> and \<open>proc/thread.h\<close>.
  Processes and threads are typed stores indexed by the addresses \<open>kmalloc\<close> returns; processes
  form a ring through \<open>next\<close> and \<open>prec\<close> whose head is the running process, and the threads of a
  process form a ring whose head is the running thread.
\<close>

definition PROC_STOPPED :: u32 where "PROC_STOPPED = 0"
definition PROC_ACTIVE :: u32 where "PROC_ACTIVE = 1"
definition PROC_NEW :: u32 where "PROC_NEW = 2"

record thread =
  th_pid :: u32
  th_time :: u32
  th_main :: u32
  th_state :: u32
  th_parent :: u32
  th_eip :: u32
  th_esp :: u32
  th_stack_limit :: u32
  th_esp_kernel :: u32
  th_stack_kernel_limit :: u32
  th_heap :: u32
  th_heap_limit :: u32
  th_image_base :: u32
  th_image_size :: u32
  th_next :: u32
  th_prec :: u32

record process =
  pr_name :: "u8 list"
  pr_state :: u32
  pr_pdir :: u32
  pr_threads :: u32
  pr_thread_list :: u32
  pr_next :: u32
  pr_prec :: u32

record proc_state = hal_state +
  threads :: "u32 \<Rightarrow> thread"
  procs :: "u32 \<Rightarrow> process"
  proc_list :: u32
  n_proc :: u32
  next_pid :: u32

definition upd_thread :: "u32 \<Rightarrow> (thread \<Rightarrow> thread) \<Rightarrow> 'a proc_state_scheme \<Rightarrow> 'a proc_state_scheme" where
  "upd_thread t f s = s\<lparr>threads := (threads s)(t := f (threads s t))\<rparr>"

definition upd_proc :: "u32 \<Rightarrow> (process \<Rightarrow> process) \<Rightarrow> 'a proc_state_scheme \<Rightarrow> 'a proc_state_scheme" where
  "upd_proc p f s = s\<lparr>procs := (procs s)(p := f (procs s p))\<rparr>"

section \<open>Operations\<close>

definition get_cur_proc :: "'a proc_state_scheme \<Rightarrow> u32" where "get_cur_proc s = proc_list s"

definition get_nproc :: "'a proc_state_scheme \<Rightarrow> u32" where "get_nproc s = n_proc s"

fun has_thread :: "nat \<Rightarrow> u32 \<Rightarrow> u32 \<Rightarrow> 'a proc_state_scheme \<Rightarrow> bool" where
  "has_thread 0 t tid s = False"
| "has_thread (Suc n) t tid s =
     (if th_pid (threads s t) = tid then True else has_thread n (th_next (threads s t)) tid s)"

fun find_proc :: "nat \<Rightarrow> u32 \<Rightarrow> u32 \<Rightarrow> 'a proc_state_scheme \<Rightarrow> u32" where
  "find_proc 0 app tid s = 0"
| "find_proc (Suc n) app tid s =
     (if has_thread (nat (sint (pr_threads (procs s app)))) (pr_thread_list (procs s app)) tid s then app
      else find_proc n (pr_next (procs s app)) tid s)"

definition get_proc_by_id :: "u32 \<Rightarrow> 'a proc_state_scheme \<Rightarrow> u32" where
  "get_proc_by_id tid s = find_proc (nat (sint (n_proc s))) (proc_list s) tid s"

partial_function (option) next_ready :: "u32 \<Rightarrow> 'a proc_state_scheme \<Rightarrow> u32 option" where
  "next_ready p s = (let p = pr_next (procs s p) in
     if pr_state (procs s p) = PROC_STOPPED then next_ready p s else Some p)"

definition cur_thread :: "'a proc_state_scheme \<Rightarrow> u32" where
  "cur_thread s = pr_thread_list (procs s (proc_list s))"

definition schedule :: "u32 \<Rightarrow> 'a proc_state_scheme \<Rightarrow> (u32 \<times> 'a proc_state_scheme) option" where
  "schedule esp s =
     (if sint (get_tick_count s) \<le> sint (th_time (threads s (cur_thread s))) then Some (esp, s)
      else do {
        let s = reset_tick_count s;
        let s = upd_thread (cur_thread s) (th_esp_kernel_update (\<lambda>_. esp)) s;
        let s = upd_proc (proc_list s) (\<lambda>p. p\<lparr>pr_thread_list := th_next (threads s (pr_thread_list p))\<rparr>) s;
        p \<leftarrow> next_ready (proc_list s) s;
        let s = s\<lparr>proc_list := p\<rparr>;
        let s = set_esp0 (th_stack_kernel_limit (threads s (cur_thread s))) s;
        let s = change_page_directory (pr_pdir (procs s (proc_list s))) s;
        Some (th_esp_kernel (threads s (cur_thread s)), s)
      })"

definition set_pr_next :: "u32 \<Rightarrow> u32 \<Rightarrow> 'a proc_state_scheme \<Rightarrow> 'a proc_state_scheme" where
  "set_pr_next p v = upd_proc p (pr_next_update (\<lambda>_. v))"

definition set_pr_prec :: "u32 \<Rightarrow> u32 \<Rightarrow> 'a proc_state_scheme \<Rightarrow> 'a proc_state_scheme" where
  "set_pr_prec p v = upd_proc p (pr_prec_update (\<lambda>_. v))"

definition sched_add_proc :: "u32 \<Rightarrow> 'a proc_state_scheme \<Rightarrow> 'a proc_state_scheme" where
  "sched_add_proc proc s =
     (let s = sched_state 0 s;
          s = s\<lparr>n_proc := n_proc s + 1\<rparr>;
          s = set_pr_prec proc (proc_list s) s;
          s = set_pr_next proc (pr_next (procs s (proc_list s))) s;
          s = set_pr_prec (pr_next (procs s proc)) proc s;
          s = set_pr_next (proc_list s) proc s
      in sched_state 1 s)"

definition sched_remove_proc :: "u32 \<Rightarrow> 'a proc_state_scheme \<Rightarrow> 'a proc_state_scheme" where
  "sched_remove_proc tid s = (let app = get_proc_by_id tid s in
     if app \<noteq> 0 then
       let s = set_pr_next (pr_prec (procs s app)) (pr_next (procs s app)) s;
           s = set_pr_prec (pr_next (procs s app)) (pr_prec (procs s app)) s;
           s = s\<lparr>n_proc := n_proc s - 1\<rparr>
       in s\<lparr>proc_list := pr_next (procs s app)\<rparr>
     else s)"

text \<open>Pushing a word on a stack that grows down in linear memory.\<close>

definition push32 :: "u32 \<Rightarrow> u32 \<times> mem \<Rightarrow> u32 \<times> mem" where
  "push32 v = (\<lambda>(sp, m). (sp - 4, write32 m (sp - 4) v))"

text \<open>\<open>sched_init\<close> ends by loading the stack pointer it returns here and popping the frame.\<close>

definition sched_init :: "(string \<Rightarrow> u32) \<Rightarrow> 'a proc_state_scheme \<Rightarrow> (u32 \<times> 'a proc_state_scheme) option" where
  "sched_init ld s = do {
     let s = s\<lparr>ram := memcpy (ram s) RETURN_ADDR (ld ''end_process_return'') PAGE_SIZE\<rparr>;
     (proc, s) \<leftarrow> kmalloc 40 s;
     let s = upd_proc proc (pr_name_update (\<lambda>_. lit ''console'')) s;
     (main_thread, s) \<leftarrow> kmalloc 64 s;
     let s = upd_proc proc (\<lambda>p. p\<lparr>pr_thread_list := main_thread, pr_threads := 1\<rparr>) s;
     let s = upd_thread main_thread (\<lambda>t. t\<lparr>th_time := 10, th_next := main_thread, th_prec := main_thread,
               th_pid := 1, th_main := 1, th_state := PROC_ACTIVE, th_parent := proc\<rparr>) s;
     let s = upd_proc proc (\<lambda>p. p\<lparr>pr_pdir := get_kern_directory s\<rparr>) s;
     let s = upd_thread main_thread (\<lambda>t. t\<lparr>th_eip := ld ''main_proc''\<rparr>) s;
     let (_, s) = vmm_map (pr_pdir (procs s proc)) KERNEL_SPACE_END (PAGE_PRESENT OR PAGE_RW) s;
     let s = upd_thread main_thread (\<lambda>t. t\<lparr>th_esp := KERNEL_SPACE_END,
               th_stack_limit := KERNEL_SPACE_END + PAGE_SIZE, th_esp_kernel := KERNEL_SPACE_END + PAGE_SIZE,
               th_stack_kernel_limit := KERNEL_SPACE_END + PAGE_SIZE + PAGE_SIZE\<rparr>) s;
     let t = threads s main_thread;
     let (_, s) = vmm_map (pr_pdir (procs s proc)) (th_esp_kernel t) (PAGE_PRESENT OR PAGE_RW) s;
     let (sp, m) = fold push32 [0x10, th_esp t, 0x202, 0x8, th_eip t, 0, 0, 0, 0, 0, 0, th_stack_limit t,
               0x10, 0x10, 0x10, 0x10] (th_stack_kernel_limit t, ram s);
     let s = upd_thread main_thread (th_esp_kernel_update (\<lambda>_. sp)) (s\<lparr>ram := m\<rparr>);
     let s = upd_proc proc (\<lambda>p. p\<lparr>pr_next := proc, pr_prec := proc, pr_state := PROC_ACTIVE\<rparr>) s;
     let s = s\<lparr>proc_list := proc\<rparr>;
     let s = disable_int s;
     let s = sched_state 1 s;
     let s = change_page_directory (pr_pdir (procs s proc)) s;
     let s = set_esp0 (th_stack_kernel_limit (threads s main_thread)) s;
     Some (th_esp_kernel (threads s main_thread), s)
   }"

section \<open>Rings of processes\<close>

abbreviation proc_next :: "'a proc_state_scheme \<Rightarrow> u32 \<Rightarrow> u32" where
  "proc_next s \<equiv> \<lambda>p. pr_next (procs s p)"
abbreviation proc_prec :: "'a proc_state_scheme \<Rightarrow> u32 \<Rightarrow> u32" where
  "proc_prec s \<equiv> \<lambda>p. pr_prec (procs s p)"

interpretation proc_ring: ring_store proc_next proc_prec set_pr_next set_pr_prec
  by unfold_locales (auto simp: set_pr_next_def set_pr_prec_def upd_proc_def)

definition procs_ring :: "'a proc_state_scheme \<Rightarrow> u32 list \<Rightarrow> bool" where
  "procs_ring s ps \<longleftrightarrow> ring_of (proc_next s) (proc_prec s) ps \<and> hd ps = proc_list s \<and> 0 \<notin> set ps
     \<and> n_proc s = of_nat (length ps) \<and> length ps < 2 ^ 31"

lemma sched_state_simps [simp]:
  "procs (sched_state b s) = procs s" "proc_list (sched_state b s) = proc_list s"
  "n_proc (sched_state b s) = n_proc s" "threads (sched_state b s) = threads s"
  by (simp_all add: sched_state_def)

lemma set_pr_simps [simp]:
  "proc_list (set_pr_next p v s) = proc_list s" "n_proc (set_pr_next p v s) = n_proc s"
  "threads (set_pr_next p v s) = threads s"
  "proc_list (set_pr_prec p v s) = proc_list s" "n_proc (set_pr_prec p v s) = n_proc s"
  "threads (set_pr_prec p v s) = threads s"
  by (simp_all add: set_pr_next_def set_pr_prec_def upd_proc_def)

text \<open>Adding a process inserts it in the ring right behind the running one and counts it.\<close>
theorem sched_add_proc_ring:
  assumes "procs_ring s (p # ps)" "x \<notin> set (p # ps)" "x \<noteq> 0" "length ps < 2 ^ 30"
  shows "procs_ring (sched_add_proc x s) (p # x # ps)"
proof -
  define s0 where "s0 = sched_state 0 s\<lparr>n_proc := n_proc s + 1\<rparr>"
  define s1 where "s1 = set_pr_prec x p s0"
  define s2 where "s2 = set_pr_next x (pr_next (procs s1 p)) s1"
  define s3 where "s3 = set_pr_prec (pr_next (procs s2 x)) x s2"
  define s4 where "s4 = set_pr_next p x s3"
  have "ring_of (proc_next s0) (proc_prec s0) (p # ps)" "proc_list s0 = p"
    using assms(1) by (auto simp: procs_ring_def s0_def)
  then have "ring_of (proc_next s4) (proc_prec s4) (p # x # ps)"
    by (intro proc_ring.insert_after [OF _ assms(2) s1_def s2_def s3_def s4_def])
  moreover have "sched_add_proc x s = sched_state 1 s4"
    using \<open>proc_list s0 = p\<close>
    by (simp add: sched_add_proc_def Let_def s0_def s1_def s2_def s3_def s4_def sched_state_def)
  moreover have "proc_list s4 = p" "n_proc s4 = n_proc s + 1"
    using \<open>proc_list s0 = p\<close> by (simp_all add: s4_def s3_def s2_def s1_def s0_def)
  ultimately show ?thesis using assms by (auto simp: procs_ring_def)
qed

text \<open>Removing the process that owns a thread id unlinks it from the ring, makes the process
  behind it the current one and counts one process less.\<close>
theorem sched_remove_proc_ring:
  assumes "procs_ring s (ps @ a # qs)" "get_proc_by_id tid s = a" "qs @ ps \<noteq> []"
  shows "procs_ring (sched_remove_proc tid s) (qs @ ps)"
proof -
  obtain q rest where q: "qs @ ps = q # rest" using assms(3) by (cases "qs @ ps") auto
  define s1 where "s1 = set_pr_next (pr_prec (procs s a)) (pr_next (procs s a)) s"
  define s2 where "s2 = set_pr_prec (pr_next (procs s1 a)) (pr_prec (procs s1 a)) s1"
  have "ring_of (proc_next s) (proc_prec s) (a # q # rest)"
    using assms(1) ring_rotate_to [of _ _ ps a qs] by (simp add: procs_ring_def q)
  note del = proc_ring.delete [OF this s1_def s2_def]
  have "a \<noteq> 0" using assms(1) by (auto simp: procs_ring_def)
  then have eq: "sched_remove_proc tid s
      = s2\<lparr>n_proc := n_proc s - 1, proc_list := pr_next (procs s2 a)\<rparr>"
    using assms(2) by (simp add: sched_remove_proc_def Let_def s1_def s2_def)
  have "pr_next (procs s2 a) = q" using del(1) by (auto simp: s2_def set_pr_prec_def upd_proc_def)
  moreover have "hd (qs @ ps) = q" "ring_of (proc_next s2) (proc_prec s2) (qs @ ps)"
    using del(2) by (simp_all add: q)
  ultimately show ?thesis using assms(1) unfolding procs_ring_def eq by auto
qed

section \<open>Threads and the choice of the next process\<close>

definition threads_ring :: "'a proc_state_scheme \<Rightarrow> u32 \<Rightarrow> u32 list \<Rightarrow> bool" where
  "threads_ring s p ts \<longleftrightarrow> ring_of (\<lambda>t. th_next (threads s t)) (\<lambda>t. th_prec (threads s t)) ts
     \<and> hd ts = pr_thread_list (procs s p) \<and> pr_threads (procs s p) = of_nat (length ts)
     \<and> length ts < 2 ^ 31"

lemma nat_sint_of_nat: "n < 2 ^ 31 \<Longrightarrow> nat (sint (of_nat n :: u32)) = n"
  using sint_unat [of "of_nat n"] by simp

lemma has_thread_links:
  "links (\<lambda>t. th_next (threads s t)) pv (xs @ [y]) \<Longrightarrow>
   has_thread (length xs) (hd (xs @ [y])) tid s \<longleftrightarrow> (\<exists>t \<in> set xs. th_pid (threads s t) = tid)"
proof (induction xs)
  case (Cons x xs)
  then show ?case by (cases xs) auto
qed simp

lemma find_proc_links:
  "links (proc_next s) pv (ps @ [y]) \<Longrightarrow> find_proc (length ps) (hd (ps @ [y])) tid s
    = (case find (\<lambda>p. has_thread (nat (sint (pr_threads (procs s p)))) (pr_thread_list (procs s p)) tid s) ps of
         Some p \<Rightarrow> p | None \<Rightarrow> 0)"
proof (induction ps)
  case (Cons p ps)
  then show ?case by (cases ps) auto
qed simp

text \<open>\<open>get_proc_by_id\<close> returns the first process of the ring, from the running one on, that has
  a thread of that id, and NULL when no process of the ring has one.\<close>
theorem get_proc_by_id_finds:
  assumes "procs_ring s ps" "\<forall>p \<in> set ps. threads_ring s p (ts p)"
  shows "get_proc_by_id tid s
    = (case find (\<lambda>p. tid \<in> (\<lambda>t. th_pid (threads s t)) ` set (ts p)) ps of Some p \<Rightarrow> p | None \<Rightarrow> 0)"
proof -
  have has: "has_thread (nat (sint (pr_threads (procs s p)))) (pr_thread_list (procs s p)) tid s
      \<longleftrightarrow> tid \<in> (\<lambda>t. th_pid (threads s t)) ` set (ts p)" if "p \<in> set ps" for p
  proof -
    have r: "threads_ring s p (ts p)" using assms(2) that by blast
    then have "hd (ts p) = hd (ts p @ [hd (ts p)])" "links (\<lambda>t. th_next (threads s t)) (\<lambda>t. th_prec (threads s t)) (ts p @ [hd (ts p)])"
      by (auto simp: threads_ring_def ring_of_def)
    with has_thread_links [of s _ "ts p" "hd (ts p)" tid] r show ?thesis
      by (auto simp: threads_ring_def nat_sint_of_nat)
  qed
  have "links (proc_next s) (proc_prec s) (ps @ [hd ps])" "hd (ps @ [hd ps]) = proc_list s"
    "nat (sint (n_proc s)) = length ps"
    using assms(1) by (auto simp: procs_ring_def ring_of_def nat_sint_of_nat)
  with find_proc_links [of s _ ps "hd ps" tid] show ?thesis
    by (simp add: get_proc_by_id_def has cong: find_cong)
qed

lemma next_ready_links:
  "links (proc_next s) pv (p # as @ q # bs) \<Longrightarrow> \<forall>a \<in> set as. pr_state (procs s a) = PROC_STOPPED \<Longrightarrow>
   pr_state (procs s q) \<noteq> PROC_STOPPED \<Longrightarrow> next_ready p s = Some q"
proof (induction as arbitrary: p)
  case (Cons a as)
  then show ?case by (subst next_ready.simps) (simp add: Let_def)
qed (subst next_ready.simps, simp add: Let_def)

lemma change_page_directory_simps [simp]:
  "procs (change_page_directory d s) = procs s" "threads (change_page_directory d s) = threads s"
  "proc_list (change_page_directory d s) = proc_list s" "n_proc (change_page_directory d s) = n_proc s"
  "pit_ticks (change_page_directory d s) = pit_ticks s" "tss_area (change_page_directory d s) = tss_area s"
  "current_dir (change_page_directory d s) = d" "cr3 (change_page_directory d s) = d"
  for s :: "'a proc_state_scheme"
  by (simp_all add: change_page_directory_def load_pdbr_def)

lemma set_esp0_simps [simp]:
  "procs (set_esp0 e s) = procs s" "threads (set_esp0 e s) = threads s" "proc_list (set_esp0 e s) = proc_list s"
  "n_proc (set_esp0 e s) = n_proc s" "pit_ticks (set_esp0 e s) = pit_ticks s"
  "ts_esp0 (tss_area (set_esp0 e s)) = e"
  for s :: "'a proc_state_scheme"
  by (simp_all add: set_esp0_def)

text \<open>A call of \<open>schedule\<close> at the end of a time slice, as a change of the whole state.\<close>

lemma schedule_switch:
  assumes "procs_ring s (p # ps)" "ps @ [p] = as @ q # bs"
    "\<forall>a \<in> set as. pr_state (procs s a) = PROC_STOPPED" "pr_state (procs s q) \<noteq> PROC_STOPPED"
    "cur_thread s = t" "sint (th_time (threads s t)) < sint (get_tick_count s)"
  shows "\<exists>s'. schedule esp s = Some (th_esp_kernel (threads s' (cur_thread s')), s') \<and> procs_ring s' (q # bs @ as)
    \<and> threads s' = (threads s)(t := (threads s t)\<lparr>th_esp_kernel := esp\<rparr>)
    \<and> procs s' = (procs s)(p := (procs s p)\<lparr>pr_thread_list := th_next (threads s t)\<rparr>)
    \<and> cr3 s' = pr_pdir (procs s q) \<and> pit_ticks s' = 0
    \<and> ts_esp0 (tss_area s') = th_stack_kernel_limit (threads s' (cur_thread s'))"
proof -
  have p: "proc_list s = p" "pr_thread_list (procs s p) = t" "cur_thread s = t"
    using assms(1,5) by (auto simp: procs_ring_def cur_thread_def)
  define s1 where "s1 = upd_proc p (pr_thread_list_update (\<lambda>_. th_next (threads s t)))
    (upd_thread t (th_esp_kernel_update (\<lambda>_. esp)) (reset_tick_count s))"
  have s1: "proc_next s1 = proc_next s" "proc_prec s1 = proc_prec s" "proc_list s1 = p" "n_proc s1 = n_proc s"
      "pr_state (procs s1 a) = pr_state (procs s a)" "pr_pdir (procs s1 a) = pr_pdir (procs s a)" "pit_ticks s1 = 0"
      "threads s1 = (threads s)(t := (threads s t)\<lparr>th_esp_kernel := esp\<rparr>)"
      "procs s1 = (procs s)(p := (procs s p)\<lparr>pr_thread_list := th_next (threads s t)\<rparr>)" for a
    by (auto simp: s1_def upd_proc_def upd_thread_def reset_tick_count_def p(1))
  have "links (proc_next s1) (proc_prec s1) (p # as @ q # bs)"
    using assms(1) by (auto simp: procs_ring_def ring_of_def s1(1,2) simp flip: assms(2))
  then have ready: "next_ready p s1 = Some q"
    using assms(3,4) by (intro next_ready_links) (simp_all add: s1(5))
  let ?s = "s1\<lparr>proc_list := q\<rparr>"
  let ?s' = "change_page_directory (pr_pdir (procs ?s (proc_list ?s)))
    (set_esp0 (th_stack_kernel_limit (threads ?s (cur_thread ?s))) ?s)"
  let ?u = "upd_thread t (th_esp_kernel_update (\<lambda>_. esp)) (reset_tick_count s)"
  have u: "upd_proc p (\<lambda>p. p\<lparr>pr_thread_list := th_next (threads ?u (pr_thread_list p))\<rparr>) ?u = s1"
    using p(2) by (simp add: s1_def upd_proc_def upd_thread_def reset_tick_count_def)
  have "proc_list ?u = p" "cur_thread (reset_tick_count s) = t"
    using p by (simp_all add: upd_thread_def reset_tick_count_def cur_thread_def)
  then have "schedule esp s = Some (th_esp_kernel (threads ?s' (cur_thread ?s')), ?s')"
    using assms(6) ready s1(3) by (simp add: schedule_def Let_def p(3) u not_le [symmetric])
  moreover have "procs_ring ?s' (q # bs @ as)"
  proof -
    have "ring_of (proc_next s) (proc_prec s) (ps @ [p])"
      using assms(1) ring_rotate unfolding procs_ring_def by blast
    then have "ring_of (proc_next s) (proc_prec s) (q # bs @ as)"
      using ring_rotate_to unfolding assms(2) by blast
    moreover have "set (q # bs @ as) = set (p # ps)" "length (q # bs @ as) = length (p # ps)"
      using arg_cong [OF assms(2), of set] arg_cong [OF assms(2), of length] by auto
    ultimately show ?thesis
      using assms(1) s1(1,2,4) unfolding procs_ring_def by (simp del: set_append set_simps) auto
  qed
  moreover have "threads ?s' = threads s1" "procs ?s' = procs s1" by simp_all
  ultimately show ?thesis unfolding s1(8,9) [symmetric]
    using s1(6,7) by (intro exI [of _ ?s']) (simp add: cur_thread_def)
qed

text \<open>C2: when the time slice of the running thread is over, \<open>schedule\<close> saves its stack pointer,
  advances its process to the next thread, passes over stopped processes to the first one that
  is not, makes it the head of the same ring, and returns its thread's kernel stack with the
  task state's stack and the page directory set for it; it returns whenever some process of the
  ring is not stopped.\<close>
theorem schedule_round_robin:
  assumes "procs_ring s (p # ps)" "ps @ [p] = as @ q # bs"
    "\<forall>a \<in> set as. pr_state (procs s a) = PROC_STOPPED" "pr_state (procs s q) \<noteq> PROC_STOPPED"
    "threads_ring s p (t # ts)" "sint (th_time (threads s t)) < sint (get_tick_count s)"
  shows "\<exists>s'. schedule esp s = Some (th_esp_kernel (threads s' (cur_thread s')), s')
    \<and> procs_ring s' (q # bs @ as) \<and> threads_ring s' p (ts @ [t]) \<and> th_esp_kernel (threads s' t) = esp
    \<and> cr3 s' = pr_pdir (procs s q) \<and> pit_ticks s' = 0
    \<and> ts_esp0 (tss_area s') = th_stack_kernel_limit (threads s' (cur_thread s'))"
proof -
  have t: "cur_thread s = t" using assms(1,5) by (auto simp: procs_ring_def threads_ring_def cur_thread_def)
  obtain s' where s': "schedule esp s = Some (th_esp_kernel (threads s' (cur_thread s')), s')" "procs_ring s' (q # bs @ as)"
    "threads s' = (threads s)(t := (threads s t)\<lparr>th_esp_kernel := esp\<rparr>)"
    "procs s' = (procs s)(p := (procs s p)\<lparr>pr_thread_list := th_next (threads s t)\<rparr>)"
    "cr3 s' = pr_pdir (procs s q)" "pit_ticks s' = 0" "ts_esp0 (tss_area s') = th_stack_kernel_limit (threads s' (cur_thread s'))"
    using schedule_switch [OF assms(1-4) t assms(6)] by blast
  have n: "(\<lambda>t. th_next (threads s' t)) = (\<lambda>t. th_next (threads s t))" "(\<lambda>t. th_prec (threads s' t)) = (\<lambda>t. th_prec (threads s t))"
    unfolding s'(3) by auto
  have "threads_ring s' p (ts @ [t])"
    using assms(5) ring_rotate [of _ _ t ts] ring_next(1) [of _ _ t ts] unfolding threads_ring_def n s'(4) by auto
  moreover have "th_esp_kernel (threads s' t) = esp" unfolding s'(3) by simp
  ultimately show ?thesis using s'(1,2,5-7) by (intro exI conjI)
qed

section \<open>Fairness\<close>

text \<open>Consecutive calls of \<open>schedule\<close>, each with the tick count that the timer has reached and the stack
  pointer of the thread it interrupts.\<close>

fun slices :: "(u8 \<times> u32) list \<Rightarrow> 'a proc_state_scheme \<Rightarrow> 'a proc_state_scheme option" where
  "slices [] s = Some s"
| "slices ((tick, esp) # xs) s = do { (_, s) \<leftarrow> schedule esp (s\<lparr>pit_ticks := tick\<rparr>); slices xs s }"

lemma procs_ring_ticks [simp]: "procs_ring (s\<lparr>pit_ticks := k\<rparr>) ps \<longleftrightarrow> procs_ring s ps"
  by (simp add: procs_ring_def)

text \<open>The time slices of all threads are over at that tick count.\<close>

definition expired :: "'a proc_state_scheme \<Rightarrow> u8 \<Rightarrow> bool" where
  "expired s tick \<longleftrightarrow> (\<forall>t. sint (th_time (threads s t)) < int (unat tick))"

text \<open>One call stops at the first process behind the running one that is not stopped.\<close>

lemma slice_step:
  assumes "procs_ring s (p # ps)" "ps @ [p] = as @ q # bs" "pr_state (procs s q) \<noteq> PROC_STOPPED" "expired s tick"
  shows "\<exists>x as1 as2 s'. as @ [q] = as1 @ x # as2 \<and> slices [(tick, esp)] s = Some s' \<and> procs_ring s' (x # (as2 @ bs) @ as1)
    \<and> (\<forall>a. pr_state (procs s' a) = pr_state (procs s a)) \<and> (\<forall>t. th_time (threads s' t) = th_time (threads s t))"
proof -
  have "\<exists>x \<in> set (as @ [q]). pr_state (procs s x) \<noteq> PROC_STOPPED" using assms(3) by simp
  from split_list_first_prop [OF this] obtain as1 x as2 where x: "as @ [q] = as1 @ x # as2" "pr_state (procs s x) \<noteq> PROC_STOPPED"
    "\<forall>a \<in> set as1. \<not> pr_state (procs s a) \<noteq> PROC_STOPPED" by blast
  let ?s = "s\<lparr>pit_ticks := tick\<rparr>"
  have r: "procs_ring ?s (p # ps)" using assms(1) by simp
  have "as @ q # bs = (as @ [q]) @ bs" by simp
  then have l: "ps @ [p] = as1 @ x # (as2 @ bs)" unfolding assms(2) x(1) by simp
  have lt: "unat tick < 256" using unsigned_less [of tick, where 'a = nat] by simp
  then have "unat (ucast tick :: u32) = unat tick" by (simp add: unsigned_ucast_eq take_bit_nat_eq_self)
  with lt have "sint (get_tick_count ?s) = int (unat tick)"
    using sint_nonneg [of "ucast tick"] sint_nonneg_iff [of "ucast tick"] by (simp add: get_tick_count_def)
  then have e: "sint (th_time (threads ?s (cur_thread ?s))) < sint (get_tick_count ?s)"
    using assms(4) by (simp add: expired_def)
  have st: "\<forall>a \<in> set as1. pr_state (procs ?s a) = PROC_STOPPED" "pr_state (procs ?s x) \<noteq> PROC_STOPPED" using x(2,3) by simp_all
  from schedule_switch [OF r l st refl e] obtain s' where s': "schedule esp ?s = Some (th_esp_kernel (threads s' (cur_thread s')), s')"
    "procs_ring s' (x # (as2 @ bs) @ as1)" "threads s' = (threads ?s)(cur_thread ?s := (threads ?s (cur_thread ?s))\<lparr>th_esp_kernel := esp\<rparr>)"
    "procs s' = (procs ?s)(p := (procs ?s p)\<lparr>pr_thread_list := th_next (threads ?s (cur_thread ?s))\<rparr>)"
    by blast
  have "slices [(tick, esp)] s = Some s'" using s'(1) by simp
  moreover have "\<forall>a. pr_state (procs s' a) = pr_state (procs s a)" "\<forall>t. th_time (threads s' t) = th_time (threads s t)"
    unfolding s'(3,4) by simp_all
  ultimately show ?thesis using x(1) s'(2) by (intro exI conjI)
qed

lemma slices_Cons: "slices [x] s = Some t \<Longrightarrow> slices (x # xs) s = slices xs t"
  by (cases x) (auto simp: bind_eq_Some_conv)

lemma slices_reach:
  assumes "procs_ring s (p # ps)" "ps @ [p] = as @ q # bs" "pr_state (procs s q) \<noteq> PROC_STOPPED"
    "\<forall>(tick, esp) \<in> set xs. expired s tick" "length as < length xs"
  shows "\<exists>k s'. 0 < k \<and> k \<le> Suc (length as) \<and> slices (take k xs) s = Some s' \<and> proc_list s' = q"
  using assms
proof (induction as arbitrary: p ps bs xs s rule: length_induct)
  case (1 as)
  from 1(6) obtain tick esp xs' where xs: "xs = (tick, esp) # xs'" by (cases xs) auto
  from 1(5) have ex: "expired s tick" unfolding xs by simp
  from slice_step [OF 1(2-4) ex, of esp] obtain x as1 as2 s' where x: "as @ [q] = as1 @ x # as2" "slices [(tick, esp)] s = Some s'"
    "procs_ring s' (x # (as2 @ bs) @ as1)" "\<forall>a. pr_state (procs s' a) = pr_state (procs s a)" "\<forall>t. th_time (threads s' t) = th_time (threads s t)"
    by (elim exE conjE)
  show ?case
  proof (cases as2 rule: rev_cases)
    case Nil
    then have "proc_list s' = q" using x(1,3) by (simp add: procs_ring_def)
    then show ?thesis using x(2) unfolding xs by (intro exI [of _ 1] exI [of _ s']) simp
  next
    case (snoc as2' q')
    have "as @ [q] = (as1 @ x # as2') @ [q']" using x(1) snoc by simp
    then have q': "q' = q" "as = as1 @ x # as2'" unfolding append1_eq_conv by simp_all
    have "((as2 @ bs) @ as1) @ [x] = as2' @ q # (bs @ as1 @ [x])" using snoc q'(1) by simp
    moreover have "\<forall>(tick, esp) \<in> set xs'. expired s' tick" using 1(5) x(5) unfolding xs expired_def by auto
    moreover have "length as2' < length as" "length as2' < length xs'" using 1(6) q'(2) unfolding xs by simp_all
    moreover have "pr_state (procs s' q) \<noteq> PROC_STOPPED" using x(4) 1(4) by simp
    ultimately obtain k u where k: "0 < k" "k \<le> Suc (length as2')" "slices (take k xs') s' = Some u" "proc_list u = q"
      using 1(1) [rule_format, OF _ x(3)] by blast
    have "slices (take (Suc k) xs) s = Some u" using slices_Cons [OF x(2)] k(3) unfolding xs by simp
    then show ?thesis using k(2,4) q'(2) by (intro exI [of _ "Suc k"] exI [of _ u]) simp
  qed
qed

text \<open>C11: no process starves: while every call of \<open>schedule\<close> finds the running thread's time slice over,
  each process of the ring that is not stopped runs again after at most as many calls as the ring has
  processes.\<close>
theorem schedule_fair:
  assumes "procs_ring s ps" "q \<in> set ps" "pr_state (procs s q) \<noteq> PROC_STOPPED"
    "\<forall>(tick, esp) \<in> set xs. expired s tick" "length ps \<le> length xs"
  shows "\<exists>k s'. 0 < k \<and> k \<le> length ps \<and> slices (take k xs) s = Some s' \<and> proc_list s' = q"
proof -
  obtain p ps' where ps: "ps = p # ps'" using assms(2) by (cases ps) auto
  have "q \<in> set (ps' @ [p])" using assms(2) ps by auto
  then obtain as bs where as: "ps' @ [p] = as @ q # bs" by (metis split_list)
  have l: "length as + length bs = length ps'" using arg_cong [OF as, of length] by simp
  then have "length as < length xs" using assms(5) ps by simp
  from slices_reach [OF assms(1) [unfolded ps] as assms(3,4) this] l show ?thesis
    unfolding ps by (metis length_Cons le_add1 le_trans Suc_le_mono)
qed

lemma next_ready_stays:
  assumes "next_ready p s = Some q" "p \<in> S" "\<forall>a \<in> S. pr_next (procs s a) \<in> S"
  shows "q \<in> S \<and> pr_state (procs s q) \<noteq> PROC_STOPPED"
proof -
  have "p \<in> S \<and> (\<forall>a \<in> S. pr_next (procs s a) \<in> S) \<longrightarrow> q \<in> S \<and> pr_state (procs s q) \<noteq> PROC_STOPPED"
    by (rule next_ready.raw_induct [where P = "\<lambda>p s q. p \<in> S \<and> (\<forall>a \<in> S. pr_next (procs s a) \<in> S) \<longrightarrow> q \<in> S \<and> pr_state (procs s q) \<noteq> PROC_STOPPED", OF _ assms(1)])
      (auto simp: Let_def split: if_splits)
  then show ?thesis using assms(2,3) by blast
qed

lemma ring_closed: "ring_of nx pv ps \<Longrightarrow> a \<in> set ps \<Longrightarrow> nx a \<in> set ps"
proof -
  assume r: "ring_of nx pv ps" "a \<in> set ps"
  then obtain xs ys where ps: "ps = xs @ a # ys" by (metis split_list)
  then have "ring_of nx pv (a # ys @ xs)" using r(1) ring_rotate_to by blast
  then have "nx a = hd ((ys @ xs) @ [a])" by (rule ring_next)
  moreover have "hd ((ys @ xs) @ [a]) \<in> set ((ys @ xs) @ [a])" by (rule hd_in_set) simp
  ultimately show ?thesis unfolding ps by auto
qed

text \<open>C15: at the end of a time slice \<open>schedule\<close> returns exactly if some process of the ring is not stopped;
  with all of them stopped its search runs round the ring for ever.\<close>
theorem schedule_returns:
  assumes "procs_ring s ps" "sint (th_time (threads s (cur_thread s))) < sint (get_tick_count s)"
  shows "schedule esp s \<noteq> None \<longleftrightarrow> (\<exists>q \<in> set ps. pr_state (procs s q) \<noteq> PROC_STOPPED)"
proof
  assume "schedule esp s \<noteq> None"
  define u where "u = upd_thread (cur_thread (reset_tick_count s)) (th_esp_kernel_update (\<lambda>_. esp)) (reset_tick_count s)"
  define s1 where "s1 = upd_proc (proc_list u) (\<lambda>p. p\<lparr>pr_thread_list := th_next (threads u (pr_thread_list p))\<rparr>) u"
  have "next_ready (proc_list s1) s1 \<noteq> None"
  proof
    assume "next_ready (proc_list s1) s1 = None"
    then have "schedule esp s = None"
      using assms(2) unfolding schedule_def Let_def u_def [symmetric] s1_def [symmetric] by (simp add: not_le [symmetric])
    then show False using \<open>schedule esp s \<noteq> None\<close> by contradiction
  qed
  moreover have "proc_list s1 = proc_list s" by (simp add: s1_def u_def upd_proc_def upd_thread_def reset_tick_count_def)
  ultimately obtain q where q1: "next_ready (proc_list s) s1 = Some q" by auto
  have "proc_next s1 = proc_next s" "\<forall>a. pr_state (procs s1 a) = pr_state (procs s a)"
    by (auto simp: s1_def u_def upd_proc_def upd_thread_def reset_tick_count_def)
  note q = q1 this
  have "proc_list s \<in> set ps" using assms(1) by (auto simp: procs_ring_def ring_of_def dest: hd_in_set)
  moreover have "\<forall>a \<in> set ps. pr_next (procs s1 a) \<in> set ps"
  proof
    fix a assume "a \<in> set ps"
    then have "proc_next s a \<in> set ps" using assms(1) ring_closed unfolding procs_ring_def by blast
    then show "pr_next (procs s1 a) \<in> set ps" using fun_cong [OF q(2), of a] by simp
  qed
  ultimately show "\<exists>q \<in> set ps. pr_state (procs s q) \<noteq> PROC_STOPPED"
    using next_ready_stays [OF q(1)] q(3) by metis
next
  assume "\<exists>q \<in> set ps. pr_state (procs s q) \<noteq> PROC_STOPPED"
  moreover obtain p ps' where ps: "ps = p # ps'" using assms(1) by (cases ps) (auto simp: procs_ring_def ring_of_def)
  ultimately have "\<exists>q \<in> set (ps' @ [p]). pr_state (procs s q) \<noteq> PROC_STOPPED" by auto
  from split_list_first_prop [OF this] obtain as q bs where "ps' @ [p] = as @ q # bs" "pr_state (procs s q) \<noteq> PROC_STOPPED"
    "\<forall>a \<in> set as. \<not> pr_state (procs s a) \<noteq> PROC_STOPPED" by blast
  then show "schedule esp s \<noteq> None"
    using schedule_switch [of s p ps' as q bs "cur_thread s" esp] assms unfolding ps by auto
qed

section \<open>Witnesses\<close>

definition demo_thread :: "u32 \<Rightarrow> u32 \<Rightarrow> thread" where
  "demo_thread tid self = \<lparr>th_pid = tid, th_time = 10, th_main = 1, th_state = PROC_ACTIVE, th_parent = 0,
     th_eip = 0, th_esp = 0, th_stack_limit = 0, th_esp_kernel = 0x5000 + tid, th_stack_kernel_limit = 0,
     th_heap = 0, th_heap_limit = 0, th_image_base = 0, th_image_size = 0, th_next = self, th_prec = self\<rparr>"

definition demo_proc :: "u32 \<Rightarrow> u32 \<Rightarrow> process" where
  "demo_proc thr other = \<lparr>pr_name = [], pr_state = PROC_ACTIVE, pr_pdir = 0x10000, pr_threads = 1,
     pr_thread_list = thr, pr_next = other, pr_prec = other\<rparr>"

definition demo_sched :: proc_state where
  "demo_sched = hal_state.extend (demo_hal\<lparr>pit_ticks := 20\<rparr>)
     \<lparr>threads = (\<lambda>_. demo_thread 1 0x100)(0x200 := demo_thread 2 0x200),
      procs = (\<lambda>_. demo_proc 0x100 0x20)(0x20 := demo_proc 0x200 0x10),
      proc_list = 0x10, n_proc = 2, next_pid = 3\<rparr>"

lemma demo_sched_simps:
  "threads demo_sched = (\<lambda>_. demo_thread 1 0x100)(0x200 := demo_thread 2 0x200)"
  "procs demo_sched = (\<lambda>_. demo_proc 0x100 0x20)(0x20 := demo_proc 0x200 0x10)"
  "proc_list demo_sched = 0x10" "n_proc demo_sched = 2" "get_tick_count demo_sched = 20"
  by (simp_all add: demo_sched_def hal_state.defs get_tick_count_def)

lemma demo_sched_rings:
  "procs_ring demo_sched [0x10, 0x20]" "threads_ring demo_sched 0x10 [0x100]" "threads_ring demo_sched 0x20 [0x200]"
  by (simp_all add: procs_ring_def threads_ring_def ring_of_def demo_sched_simps demo_thread_def demo_proc_def)

theorem sched_add_proc_ring_witness: "procs_ring (sched_add_proc 0x30 demo_sched) [0x10, 0x30, 0x20]"
  using sched_add_proc_ring [OF demo_sched_rings(1), of "0x30"] by simp

theorem get_proc_by_id_finds_witness: "get_proc_by_id 2 demo_sched = 0x20"
  using get_proc_by_id_finds [OF demo_sched_rings(1), of "\<lambda>p. if p = 0x10 then [0x100] else [0x200]" 2]
    demo_sched_rings(2,3) by (simp add: demo_sched_simps demo_thread_def)

lemma demo_sched_find: "get_proc_by_id 2 demo_sched = 0x20"
proof -
  have "nat (sint (2 :: u32)) = Suc (Suc 0)" "nat (sint (1 :: u32)) = Suc 0" by simp_all
  then show ?thesis
    by (simp only: get_proc_by_id_def demo_sched_simps) (simp add: demo_sched_simps demo_thread_def demo_proc_def)
qed

theorem sched_remove_proc_ring_witness: "procs_ring (sched_remove_proc 2 demo_sched) [0x10]"
  using sched_remove_proc_ring [of demo_sched "[0x10]" "0x20" "[]" 2] demo_sched_rings(1) demo_sched_find by simp

theorem schedule_round_robin_witness:
  "\<exists>s'. schedule 0x7000 demo_sched = Some (0x5002, s') \<and> proc_list s' = 0x20"
proof -
  have "sint (th_time (threads demo_sched 0x100)) < sint (get_tick_count demo_sched)"
    by (simp add: demo_sched_simps demo_thread_def)
  then obtain s' where s': "schedule 0x7000 demo_sched = Some (th_esp_kernel (threads s' (cur_thread s')), s')"
      "procs_ring s' [0x20, 0x10]"
    using schedule_round_robin [of demo_sched "0x10" "[0x20]" "[]" "0x20" "[0x10]" "0x100" "[]" "0x7000"]
      demo_sched_rings by (auto simp: demo_sched_simps demo_proc_def PROC_STOPPED_def PROC_ACTIVE_def)
  moreover have "map_option fst (schedule 0x7000 demo_sched) = Some 0x5002"
    by (simp add: schedule_def demo_sched_simps Let_def cur_thread_def reset_tick_count_def upd_thread_def
        upd_proc_def next_ready.simps demo_proc_def demo_thread_def PROC_STOPPED_def PROC_ACTIVE_def)
  ultimately show ?thesis by (auto simp: procs_ring_def)
qed

theorem schedule_fair_witness:
  "\<exists>k s'. 0 < k \<and> k \<le> 2 \<and> slices (take k [(20, 0x100), (20, 0x200)]) demo_sched = Some s' \<and> proc_list s' = 0x20"
proof -
  have "\<forall>(tick, esp) \<in> set [(20 :: u8, 0x100 :: u32), (20, 0x200)]. expired demo_sched tick"
    by (simp add: expired_def demo_sched_simps demo_thread_def)
  from schedule_fair [OF demo_sched_rings(1) _ _ this, of "0x20"] show ?thesis
    by (simp add: demo_sched_simps demo_proc_def PROC_ACTIVE_def PROC_STOPPED_def numeral_2_eq_2)
qed

theorem schedule_returns_witness: "schedule 0x300 demo_sched \<noteq> None"
proof -
  have "cur_thread demo_sched = 0x100" by (simp add: cur_thread_def demo_sched_simps demo_proc_def)
  then have "sint (th_time (threads demo_sched (cur_thread demo_sched))) < sint (get_tick_count demo_sched)"
    by (simp add: demo_sched_simps demo_thread_def)
  from schedule_returns [OF demo_sched_rings(1) this] show ?thesis
    by (simp add: demo_sched_simps demo_proc_def PROC_ACTIVE_def PROC_STOPPED_def)
qed

end
