(* ===== verification/Uheap.thy ===== *)
theory Uheap
  imports Sched
begin

text \<open>
  The heap of a user thread, \<open>mm/heap.c\<close>: a \<open>heap_info_t\<close> at the start of the thread's heap pages
  and the block chain of theory Heap behind it, both in linear memory; and the system calls that
  work on the heap of the running thread.
\<close>

section \<open>The heap descriptor in memory\<close>

definition uh_size :: "mem \<Rightarrow> u32 \<Rightarrow> u32" where "uh_size m h = read32 m h"
definition uh_start :: "mem \<Rightarrow> u32 \<Rightarrow> u32" where "uh_start m h = read32 m (h + 4)"
definition uh_used :: "mem \<Rightarrow> u32 \<Rightarrow> u32" where "uh_used m h = read32 m (h + 8)"
definition uh_first :: "mem \<Rightarrow> u32 \<Rightarrow> u32" where "uh_first m h = read32 m (h + 12)"

section \<open>Operations\<close>

definition heap_init :: "u32 \<Rightarrow> mem \<Rightarrow> mem" where
  "heap_init addr m =
     (let m = write32 m (addr + 4) (addr + 4 * 16);
          m = write32 m addr (PAGE_SIZE * 4 - 16);
          m = write32 m (addr + 8) 16;
          m = write32 m (addr + 12) (uh_start m addr);
          h = uh_first m addr;
          m = set_h_magic h HEAP_MAGIC m;
          m = set_h_size h (uh_size m addr - uh_used m addr) m;
          m = set_h_free h 1 m
      in set_h_next h 0 m)"

definition umalloc :: "u32 \<Rightarrow> u32 \<Rightarrow> 'a pmm_state_scheme \<Rightarrow> (u32 \<times> 'a pmm_state_scheme) option" where
  "umalloc len heap s = (let head = uh_first (ram s) heap; oom = NL @ ''Out of memory'' @ NL in
     if uh_used (ram s) heap \<ge> uh_size (ram s) heap then Some (0, kprint oom [] s)
     else do {
       r \<leftarrow> heap_find (\<lambda>h. h < heap + 4 * (PAGE_SIZE * 4)) len (ram s) head;
       (case r of
          None \<Rightarrow> Some (0, kprint oom [] s)
        | Some head \<Rightarrow>
            let m = heap_split head len (ram s);
                m = write32 m (heap + 8) (uh_used m heap + (len + 16))
            in Some (head + 16, s\<lparr>ram := m\<rparr>))
     })"

definition ufree :: "u32 \<Rightarrow> u32 \<Rightarrow> 'a pmm_state_scheme \<Rightarrow> 'a pmm_state_scheme option" where
  "ufree ptr heap s = (let head = ptr - 16; m = ram s in
     if h_free m head = 0 \<and> h_magic m head = HEAP_MAGIC then do {
       let m = set_h_free head 1 m;
       let m = write32 m (heap + 8) (uh_used m heap - h_size m head);
       m \<leftarrow> heap_merge head (h_next m head) m;
       Some (s\<lparr>ram := m\<rparr>)
     }
     else Some s)"

definition umalloc_sys :: "u32 \<Rightarrow> 'a proc_state_scheme \<Rightarrow> (u32 \<times> 'a proc_state_scheme) option" where
  "umalloc_sys len s = (let cur = get_cur_proc s in
     if cur \<noteq> 0 \<and> pr_thread_list (procs s cur) \<noteq> 0
     then umalloc len (th_heap (threads s (pr_thread_list (procs s cur)))) s else Some (0, s))"

definition ufree_sys :: "u32 \<Rightarrow> 'a proc_state_scheme \<Rightarrow> 'a proc_state_scheme option" where
  "ufree_sys ptr s = (let cur = get_cur_proc s in
     if cur \<noteq> 0 \<and> pr_thread_list (procs s cur) \<noteq> 0
     then ufree ptr (th_heap (threads s (pr_thread_list (procs s cur)))) s else Some s)"

section \<open>The blocks of a user heap\<close>

text \<open>A user heap at \<open>h\<close> with its blocks: the descriptor lies before the first header.\<close>

definition uheap_at :: "mem \<Rightarrow> u32 \<Rightarrow> block list \<Rightarrow> bool" where
  "uheap_at m h bs \<longleftrightarrow> blocks m (uh_first m h) bs \<and> ascending bs \<and> (\<forall>b \<in> set bs. apart h (fst b))"

lemma descriptor_region:
  "region (h + 8) 4 \<subseteq> region h 16" "region h 4 \<subseteq> region h 16" "region (h + 12) 4 \<subseteq> region h 16"
  using region_off [of 8 4 16 h] region_off [of 0 4 16 h] region_off [of 12 4 16 h] by simp_all

lemma uh_used_other:
  "uh_first (write32 m (h + 8) v) h = uh_first m h" "uh_size (write32 m (h + 8) v) h = uh_size m h"
  "uh_used (write32 m (h + 8) v) h = v"
  using field_other [where h = h and d = 8 and e = 12] field_other [where h = h and d = 8 and e = 0] by (simp_all add: uh_first_def uh_size_def uh_used_def)

lemma uh_cong:
  assumes "\<forall>x \<in> region h 16. m' x = m x"
  shows "uh_first m' h = uh_first m h" "uh_size m' h = uh_size m h" "uh_used m' h = uh_used m h"
  using h_cong [OF assms] by (simp_all add: uh_first_def uh_size_def uh_used_def h_defs)

lemma heap_init_info:
  assumes "0 < unat h" "unat h + 0x4000 \<le> 2 ^ 32"
  shows "uheap_at (heap_init h m) h [(h + 64, 0x4000 - 32, True)] \<and> unat (h + 64) = unat h + 64
    \<and> uh_size (heap_init h m) h = 0x3FF0 \<and> uh_used (heap_init h m) h = 16"
proof -
  have u: "unat (h + 64) = unat h + 64" using assms unat_off [of h "0x4000" 64] by simp
  have "al 4 64" by (simp add: al_def)
  then have ap: "apart h (h + 64)" using assms(2) by (simp add: apart_def u)
  have out: "x \<in> region h 16 \<Longrightarrow> x \<notin> region (h + 64) 16" for x using apart_disjoint(1) [OF ap] by blast
  define m1 where "m1 = write32 (write32 (write32 (write32 m (h + 4) (h + 64)) h 0x3FF0) (h + 8) 16) (h + 12) (h + 64)"
  have f: "read32 (write32 n (h + d) v) (h + e) = read32 n (h + e)"
    if "d \<in> {0, 4, 8, 12}" "e \<in> {0, 4, 8, 12}" "d \<noteq> e" for n d e v
    using that by (rule field_other)
  have start: "uh_start (write32 (write32 (write32 m (h + 4) (h + 64)) h 0x3FF0) (h + 8) 16) h = h + 64"
    using f [where d = 8 and e = 4] f [where d = 0 and e = 4] by (simp add: uh_start_def)
  have m1: "uh_first m1 h = h + 64" "uh_size m1 h = 0x3FF0" "uh_used m1 h = 16"
    using f [where d = 12 and e = 0] f [where d = 8 and e = 0] f [where d = 12 and e = 8] by (simp_all add: m1_def uh_first_def uh_size_def uh_used_def)
  let ?m2 = "set_h_magic (h + 64) HEAP_MAGIC m1"
  have m2: "uh_size ?m2 h = 0x3FF0" "uh_used ?m2 h = 16"
  proof -
    have "\<forall>x \<in> region h 16. ?m2 x = m1 x" by (simp add: set_h_outside out)
    from uh_cong [OF this] m1 show "uh_size ?m2 h = 0x3FF0" "uh_used ?m2 h = 16" by simp_all
  qed
  let ?m5 = "set_h_next (h + 64) 0 (set_h_free (h + 64) 1 (set_h_size (h + 64) 0x3FE0 ?m2))"
  have eq: "heap_init h m = ?m5"
    using start m1(1) m2 by (simp add: heap_init_def Let_def PAGE_SIZE_def m1_def)
  have same: "\<forall>x \<in> region h 16. ?m5 x = m1 x" by (simp add: set_h_outside out)
  then have "uh_first ?m5 h = h + 64" by (simp only: uh_cong(1) [OF same] m1(1))
  moreover have "unat (h + 64) \<noteq> 0" using u by simp
  then have "h + 64 \<noteq> 0" by (metis unat_0)
  ultimately have "uheap_at ?m5 h [(h + 64, 0x4000 - 32, True)]"
    using ap by (simp add: uheap_at_def block_at_def h_simps)
  then show ?thesis unfolding eq using u uh_cong(2,3) [OF same] m1(2,3) by simp
qed

text \<open>The heap that \<open>heap_init\<close> builds is one free block; its header starts 64 bytes behind the
  descriptor and its size reaches 48 bytes past the four pages of the heap.\<close>
theorem heap_init_block:
  assumes "0 < unat h" "unat h + 0x4000 \<le> 2 ^ 32"
  shows "uheap_at (heap_init h m) h [(h + 64, 0x4000 - 32, True)]
    \<and> unat (h + 64) + 16 + (0x4000 - 32) = unat h + 0x4000 + 48"
  using heap_init_info [OF assms] by simp

lemma write32_at: "write32 m a v x = (if x \<in> region a 4 then write32 (\<lambda>_. 0) a v x else m x)"
  by (simp add: write32_def region_4)

lemma write32_commute:
  assumes "region a 4 \<inter> region b 4 = {}"
  shows "write32 (write32 m a v) b w = write32 (write32 m b w) a v"
proof
  fix x
  show "write32 (write32 m a v) b w x = write32 (write32 m b w) a v x"
    using assms write32_at [of "write32 m a v" b w x] write32_at [of "write32 m b w" a v x] write32_at [of m a v x]
      write32_at [of m b w x] by (auto simp: disjoint_iff)
qed

text \<open>What a call changes: the descriptor, the header of the block and that of the block cut off.\<close>

lemma umalloc_step:
  assumes "uheap_at (ram s) h bs" "uh_used (ram s) h < uh_size (ram s) h" "fit len bs = Some (a, bs')"
    "apart a (a + 16 * len + 256)" "\<forall>b \<in> set bs. fst b < h + 0x10000"
  shows "\<exists>m. umalloc len h s = Some (a + 16, s\<lparr>ram := m\<rparr>) \<and> uheap_at m h bs'
    \<and> uh_used m h = uh_used (ram s) h + (len + 16)
    \<and> (\<forall>x. x \<notin> region h 16 \<union> region a 16 \<union> region (a + 16 * len + 256) 16 \<longrightarrow> m x = ram s x)"
proof -
  let ?m = "heap_split a len (ram s)" and ?b = "a + 16 * len + 256"
  have inv: "blocks (ram s) (uh_first (ram s) h) bs" "ascending bs" "\<forall>b \<in> set bs. apart h (fst b)"
    using assms(1) by (simp_all add: uheap_at_def)
  have find: "heap_find (\<lambda>b. b < h + 0x10000) len (ram s) (uh_first (ram s) h) = Some (Some a)"
    using heap_find_fit [OF inv(1) assms(5)] assms(3) by simp
  note addrs = fit_addrs [OF assms(3)]
  have ha: "apart h a" using inv(3) addrs by auto
  have hb: "apart h ?b" by (rule apart_trans [OF ha assms(4)])
  have keep: "\<forall>x \<in> region h 16. ?m x = ram s x"
    using apart_disjoint(1) [OF ha] apart_disjoint(1) [OF hb] by (auto intro: heap_split_outside)
  let ?m' = "write32 ?m (h + 8) (uh_used ?m h + (len + 16))"
  have bs': "apart h (fst b)" if "b \<in> set bs'" for b
  proof -
    have "fst b \<in> fst ` set bs \<or> fst b = a \<or> fst b = ?b" using addrs that by blast
    then show ?thesis using inv(3) ha hb by auto
  qed
  have "blocks ?m (uh_first (ram s) h) bs' \<and> ascending bs'"
    by (rule heap_split_fit [OF inv(1,2) assms(3,4)])
  moreover have "blocks ?m' p bs' = blocks ?m p bs'" for p
  proof (rule blocks_cong)
    fix b assume "b \<in> set bs'"
    then show "\<forall>x \<in> region (fst b) 16. ?m' x = ?m x"
      using apart_disjoint(1) [OF bs'] descriptor_region(1) [of h] by (blast intro: write32_outside)
  qed
  ultimately have "uheap_at ?m' h bs'"
    using uh_cong(1) [OF keep] bs' by (simp add: uheap_at_def uh_used_other)
  moreover have "umalloc len h s = Some (a + 16, s\<lparr>ram := ?m'\<rparr>)"
    using find assms(2) by (simp add: umalloc_def Let_def PAGE_SIZE_def not_le [symmetric])
  moreover have "?m' x = ram s x" if "x \<notin> region h 16 \<union> region a 16 \<union> region ?b 16" for x
  proof -
    have "x \<notin> region (h + 8) 4" using that descriptor_region(1) [of h] by blast
    with that show ?thesis by (simp add: write32_outside heap_split_outside)
  qed
  ultimately show ?thesis
    using uh_cong(3) [OF keep] by (intro exI [of _ ?m']) (simp add: uh_used_other)
qed

lemma ufree_step:
  assumes "uheap_at (ram s) h bs" "(a, sz, False) \<in> set bs"
  shows "\<exists>m. ufree (a + 16) h s = Some (s\<lparr>ram := m\<rparr>) \<and> uheap_at m h (release a bs)
    \<and> uh_used m h = uh_used (ram s) h - sz \<and> (\<forall>x. x \<notin> region h 16 \<union> region a 16 \<longrightarrow> m x = ram s x)"
proof -
  have inv: "blocks (ram s) (uh_first (ram s) h) bs" "ascending bs" "\<forall>b \<in> set bs. apart h (fst b)"
    using assms(1) by (simp_all add: uheap_at_def)
  have ha: "apart h a" using inv(3) assms(2) by auto
  note dis = apart_disjoint(1) [OF ha]
  have at: "h_magic (ram s) a = HEAP_MAGIC" "h_size (ram s) a = sz" "h_free (ram s) a = 0"
    using blocks_at [OF inv(1) assms(2)] by (simp_all add: block_at_def)
  let ?w = "write32 (ram s) (h + 8) (uh_used (ram s) h - sz)"
  have sub: "region (h + 8) 4 \<subseteq> region h 16" "region (a + 8) 4 \<subseteq> region a 16"
    using descriptor_region(1) [of h] field_region(3) [of a] by simp_all
  have keep: "\<forall>x \<in> region a 16. ?w x = ram s x" using sub(1) dis by (blast intro: write32_outside)
  have same: "\<forall>x \<in> region h 16. set_h_free a 1 (ram s) x = ram s x" using dis by (auto intro: set_h_outside)
  have eq: "write32 (set_h_free a 1 (ram s)) (h + 8) v = set_h_free a 1 (write32 (ram s) (h + 8) v)" for v
    unfolding set_h_free_def by (rule write32_commute) (use sub dis in blast)
  have "blocks ?w p bs = blocks (ram s) p bs" for p
  proof (rule blocks_cong)
    fix b assume "b \<in> set bs"
    then show "\<forall>x \<in> region (fst b) 16. ?w x = ram s x"
      using apart_disjoint(1) inv(3) sub(1) by (blast intro: write32_outside)
  qed
  then have "blocks ?w (uh_first (ram s) h) bs" using inv(1) by blast
  from heap_release [OF this inv(2) assms(2)] obtain m where m: "heap_merge a (h_next ?w a) (set_h_free a 1 ?w) = Some m" "blocks m (uh_first (ram s) h) (release a bs)"
      "ascending (release a bs)" "\<forall>x. x \<notin> region a 16 \<longrightarrow> m x = ?w x"
    by blast
  have "ufree (a + 16) h s = Some (s\<lparr>ram := m\<rparr>)"
    using m(1) at h_cong [OF keep] uh_cong [OF same] by (simp add: ufree_def Let_def h_simps eq)
  moreover have mh: "\<forall>x \<in> region h 16. m x = ?w x" using m(4) dis by blast
  have "apart h (fst b)" if "b \<in> set (release a bs)" for b
  proof -
    have "fst b \<in> fst ` set bs" using release_addrs that by blast
    then show ?thesis using inv(3) by auto
  qed
  then have "uheap_at m h (release a bs)"
    using m(2,3) uh_cong(1) [OF mh] by (simp add: uheap_at_def uh_used_other)
  moreover have "uh_used m h = uh_used (ram s) h - sz" using uh_cong(3) [OF mh] by (simp add: uh_used_other)
  moreover have "m x = ram s x" if "x \<notin> region h 16 \<union> region a 16" for x
  proof -
    have "x \<notin> region (h + 8) 4" using that sub(1) by blast
    with that m(4) show ?thesis by (simp add: write32_outside)
  qed
  ultimately show ?thesis by blast
qed

text \<open>\<open>umalloc\<close> takes the first free block of sufficient size of the thread's heap and leaves
  the descriptor's chain at its blocks cut there.\<close>
theorem umalloc_first_fit:
  assumes "uheap_at (ram s) h bs" "uh_used (ram s) h < uh_size (ram s) h" "fit len bs = Some (a, bs')"
    "apart a (a + 16 * len + 256)" "\<forall>b \<in> set bs. fst b < h + 0x10000"
  shows "\<exists>s'. umalloc len h s = Some (a + 16, s') \<and> uheap_at (ram s') h bs'
    \<and> uh_used (ram s') h = uh_used (ram s) h + (len + 16)"
proof -
  from umalloc_step [OF assms] obtain m where "umalloc len h s = Some (a + 16, s\<lparr>ram := m\<rparr>)" "uheap_at m h bs'"
    "uh_used m h = uh_used (ram s) h + (len + 16)" by blast
  then show ?thesis by simp
qed

text \<open>Witnesses: a heap at \<open>0x900000\<close>.\<close>

theorem heap_init_block_witness: "uheap_at (heap_init 0x900000 (\<lambda>_. 0)) 0x900000 [(0x900040, 0x3FE0, True)]"
  using heap_init_block [of "0x900000" "\<lambda>_. 0"] by simp

definition demo_uheap :: pmm_state where
  "demo_uheap = demo_free\<lparr>ram := heap_init 0x900000 (\<lambda>_. 0)\<rparr>"

lemma demo_uheap_info:
  "uheap_at (ram demo_uheap) 0x900000 [(0x900040, 0x3FE0, True)]" "uh_used (ram demo_uheap) 0x900000 = 16"
  "uh_size (ram demo_uheap) 0x900000 = 0x3FF0"
  using heap_init_info [of "0x900000" "\<lambda>_. 0"] by (simp_all add: demo_uheap_def)

theorem umalloc_first_fit_witness: "\<exists>s'. umalloc 100 0x900000 demo_uheap = Some (0x900050, s')"
proof -
  have "fit 100 [(0x900040, 0x3FE0, True)] = Some (0x900040, cut 0x900040 0x3FE0 100)" by simp
  moreover have "apart 0x900040 (0x900040 + 16 * 100 + 256)" by (simp add: apart_def al_def)
  ultimately show ?thesis
    using umalloc_first_fit [OF demo_uheap_info(1), of 100] by (auto simp: demo_uheap_info)
qed

end
