(* ===== verification/Device.thy ===== *)
theory Device
  imports Uheap
begin

text \<open>
  The device registry, \<open>hal/device.c\<close>, and the records of \<open>hal/device.h\<close>, \<open>fs/vfs.h\<close> and
  \<open>fs/fat_mount.h\<close>.  A device carries its drivers' sector functions as values: \<open>dv_read\<close> returns
  the address of a buffer that holds the sector, \<open>dv_write\<close> stores the DMA buffer to the sector;
  both work on linear memory and on the media.  A file system table is either empty or the one
  that \<open>fat_init\<close> fills.
\<close>

type_synonym char_array = "nat \<Rightarrow> u8"

record fs_file =
  f_name :: char_array
  f_flags :: u32
  f_len :: u32
  f_eof :: u32
  f_dev :: u32
  f_current_cluster :: u32
  f_type :: u32

definition FS_FILE :: u32 where "FS_FILE = 0"
definition FS_DIR :: u32 where "FS_DIR = 1"
definition FS_NULL :: u32 where "FS_NULL = 2"
definition MAX_DEVICES :: nat where "MAX_DEVICES = 26"

record fat_mount_info =
  m_type :: u32
  m_n_sectors :: u32
  m_fat_offset :: u32
  m_n_root_entries :: u32
  m_root_offset :: u32
  m_root_size :: u32
  m_fat_size :: u32
  m_fat_entry_size :: u32
  m_first_data_sector :: u32
  m_data_sectors :: u32

type_synonym media = "u32 \<Rightarrow> u32 \<Rightarrow> u8 list"
type_synonym sector_io = "mem \<times> media"

datatype filesystem = Fs_none | Fs_fat

record device =
  dv_id :: u32
  dv_type :: u32
  dv_mount :: "u8 list"
  dv_read :: "u32 \<Rightarrow> sector_io \<Rightarrow> (u32 \<times> sector_io) option"
  dv_write :: "u32 \<Rightarrow> sector_io \<Rightarrow> sector_io option"
  dv_fs :: filesystem
  dv_minfo :: fat_mount_info

record fs_state = proc_state +
  devices :: "u32 list"
  dev_store :: "u32 \<Rightarrow> device"
  mounted :: "u32 list"
  media :: media
  dma_buffer :: u32
  FAT_buf :: u32
  dir_sector :: u32
  files :: "u32 \<Rightarrow> fs_file"

section \<open>Lookups\<close>

text \<open>A name is compared by its first three characters, behind a leading slash.\<close>

definition dev_key :: "mem \<Rightarrow> u32 \<Rightarrow> u8 list" where
  "dev_key m name = load_bytes m (if m name = of_char CHR ''/'' then name + 1 else name) 3"

definition mount_key :: "u8 list \<Rightarrow> u8 list" where
  "mount_key mnt = take 3 (if take 1 mnt = [of_char CHR ''/''] then tl mnt else mnt)"

definition find_dev :: "(device \<Rightarrow> bool) \<Rightarrow> 'a fs_state_scheme \<Rightarrow> u32" where
  "find_dev P s = (case find (\<lambda>d. P (dev_store s d)) (devices s) of Some d \<Rightarrow> d | None \<Rightarrow> 0)"

definition get_dev_by_key :: "u8 list \<Rightarrow> 'a fs_state_scheme \<Rightarrow> u32" where
  "get_dev_by_key key = find_dev (\<lambda>dv. take 3 (dv_mount dv) = key)"

definition get_dev_by_name :: "u32 \<Rightarrow> 'a fs_state_scheme \<Rightarrow> u32" where
  "get_dev_by_name name s = get_dev_by_key (dev_key (ram s) name) s"

definition get_dev_by_id :: "u32 \<Rightarrow> 'a fs_state_scheme \<Rightarrow> u32" where
  "get_dev_by_id n = find_dev (\<lambda>dv. dv_id dv = n)"

definition get_dev_id_by_name :: "u32 \<Rightarrow> 'a fs_state_scheme \<Rightarrow> u32" where
  "get_dev_id_by_name name s =
     (case find (\<lambda>d. take 3 (dv_mount (dev_store s d)) = dev_key (ram s) name) (devices s) of
        Some d \<Rightarrow> dv_id (dev_store s d) | None \<Rightarrow> - 1)"

section \<open>Sector access\<close>

definition dev_read :: "u32 \<Rightarrow> u32 \<Rightarrow> 'a fs_state_scheme \<Rightarrow> (u32 \<times> 'a fs_state_scheme) option" where
  "dev_read dev lba s = do {
     (p, m, w) \<leftarrow> dv_read (dev_store s dev) lba (ram s, media s);
     Some (p, s\<lparr>ram := m, media := w\<rparr>)
   }"

definition dev_write :: "u32 \<Rightarrow> u32 \<Rightarrow> 'a fs_state_scheme \<Rightarrow> 'a fs_state_scheme option" where
  "dev_write dev lba s = do {
     (m, w) \<leftarrow> dv_write (dev_store s dev) lba (ram s, media s);
     Some (s\<lparr>ram := m, media := w\<rparr>)
   }"

text \<open>What the drivers promise, with the DMA buffer at \<open>b\<close>: a read leaves the sector's 512 bytes
  in the buffer and returns its address, a write makes the buffer the sector's contents, and
  nothing else changes.\<close>

definition sector_device :: "u32 \<Rightarrow> device \<Rightarrow> bool" where
  "sector_device b dv \<longleftrightarrow>
     (\<forall>lba m w. length (w (dv_id dv) lba) = 512 \<longrightarrow>
        dv_read dv lba (m, w) = Some (b, store_bytes m b (w (dv_id dv) lba), w)) \<and>
     (\<forall>lba m w. dv_write dv lba (m, w)
        = Some (m, w(dv_id dv := (w (dv_id dv))(lba := load_bytes m b 512))))"

definition ideal_device :: "u32 \<Rightarrow> u32 \<Rightarrow> u8 list \<Rightarrow> fat_mount_info \<Rightarrow> device" where
  "ideal_device b n mnt mi = \<lparr>dv_id = n, dv_type = 0, dv_mount = mnt,
     dv_read = (\<lambda>lba (m, w). Some (b, store_bytes m b (w n lba), w)),
     dv_write = (\<lambda>lba (m, w). Some (m, w(n := (w n)(lba := load_bytes m b 512)))),
     dv_fs = Fs_fat, dv_minfo = mi\<rparr>"

lemma ideal_sector_device: "sector_device b (ideal_device b n mnt mi)"
  by (simp add: sector_device_def ideal_device_def)

lemma dev_read_sector:
  assumes "sector_device b (dev_store s dev)" "length (media s (dv_id (dev_store s dev)) lba) = 512"
  shows "dev_read dev lba s
    = Some (b, s\<lparr>ram := store_bytes (ram s) b (media s (dv_id (dev_store s dev)) lba)\<rparr>)"
  using assms by (simp add: sector_device_def dev_read_def)

section \<open>Registered devices\<close>

definition registry :: "'a fs_state_scheme \<Rightarrow> bool" where
  "registry s \<longleftrightarrow> length (devices s) = 8 \<and> distinct (filter (\<lambda>d. d \<noteq> 0) (devices s))
     \<and> (\<forall>i<8. devices s ! i \<noteq> 0 \<longrightarrow> dv_id (dev_store s (devices s ! i)) = of_nat i)
     \<and> dv_id (dev_store s 0) \<notin> of_nat ` {..<8}"

lemma find_first:
  assumes "i < length xs" "P (xs ! i)" "\<And>j. j < i \<Longrightarrow> \<not> P (xs ! j)"
  shows "find P xs = Some (xs ! i)"
  using assms by (auto simp: find_Some_iff)

lemma get_dev_by_id_slot:
  assumes "registry s" "i < 8"
  shows "get_dev_by_id (of_nat i) s = devices s ! i"
proof -
  have len: "length (devices s) = 8" and ids: "\<And>j. j < 8 \<Longrightarrow> devices s ! j \<noteq> 0 \<Longrightarrow>
      dv_id (dev_store s (devices s ! j)) = of_nat j"
    and z: "dv_id (dev_store s 0) \<noteq> of_nat i"
    using assms by (auto simp: registry_def)
  have other: "dv_id (dev_store s (devices s ! j)) \<noteq> of_nat i" if "j < 8" "j \<noteq> i \<or> devices s ! j = 0" for j
  proof (cases "devices s ! j = 0")
    case True
    then show ?thesis using z by simp
  next
    case False
    have "(of_nat j :: u32) \<noteq> of_nat i"
      using of_nat_neq [of i j] of_nat_neq [of j i] that False assms(2) by (cases "i < j") auto
    then show ?thesis using ids [OF that(1) False] by simp
  qed
  show ?thesis
  proof (cases "devices s ! i = 0")
    case True
    then have "find (\<lambda>d. dv_id (dev_store s d) = of_nat i) (devices s) = None"
      using other len by (auto simp: find_None_iff in_set_conv_nth)
    then show ?thesis using True by (simp add: get_dev_by_id_def find_dev_def)
  next
    case False
    then have "find (\<lambda>d. dv_id (dev_store s d) = of_nat i) (devices s) = Some (devices s ! i)"
      using other len ids assms(2) by (intro find_first) auto
    then show ?thesis by (simp add: get_dev_by_id_def find_dev_def)
  qed
qed

text \<open>With the registry's invariant a device is found by the id it was registered under, and an
  id without a device gives NULL, provided the bytes at address 0 are not taken for a device
  with that id.\<close>
theorem get_dev_by_id_registered:
  assumes "registry s" "i < 8"
  shows "get_dev_by_id (of_nat i) s = devices s ! i"
  using assms by (rule get_dev_by_id_slot)

end
