(* ===== verification/Fat.thy ===== *)
theory Fat
  imports Device
begin

text \<open>
  The FAT file system, \<open>fs/fat.c\<close>: mounting from the boot sector, 8.3 names, directory scans,
  reading a file cluster by cluster through the allocation table, writing, creating, deleting
  and path search.  Sectors are read into the DMA buffer in linear memory, directory entries are
  addresses in it.  Local character arrays are functions from index to byte; the arguments \<open>f0\<close>
  and \<open>junk\<close> are the contents of uninitialised locals, and a write past the end of a local array
  has no result.
\<close>

definition SECTOR_SIZE :: u32 where "SECTOR_SIZE = 512"
definition NAME_LEN :: u32 where "NAME_LEN = 11"
definition FAT12 :: u32 where "FAT12 = 0"
definition FAT16 :: u32 where "FAT16 = 1"
definition FAT32 :: u32 where "FAT32 = 2"
definition EXFAT :: u32 where "EXFAT = 3"

section \<open>Mounting\<close>

definition fat_type :: "u32 \<Rightarrow> u32" where
  "fat_type total_clusters = (if total_clusters < 4085 then FAT12
     else if total_clusters < 65525 then FAT16
     else if total_clusters < 268435445 then FAT32 else EXFAT)"

text \<open>The fields of the parameter block in the boot sector at \<open>bs\<close>.\<close>

definition bpb_sector_bytes :: "mem \<Rightarrow> u32 \<Rightarrow> u16" where "bpb_sector_bytes m bs = read16 m (bs + 11)"
definition bpb_cluster_sectors :: "mem \<Rightarrow> u32 \<Rightarrow> u8" where "bpb_cluster_sectors m bs = m (bs + 13)"
definition bpb_reserved_sectors :: "mem \<Rightarrow> u32 \<Rightarrow> u16" where "bpb_reserved_sectors m bs = read16 m (bs + 14)"
definition bpb_n_fats :: "mem \<Rightarrow> u32 \<Rightarrow> u8" where "bpb_n_fats m bs = m (bs + 16)"
definition bpb_n_dir_entries :: "mem \<Rightarrow> u32 \<Rightarrow> u16" where "bpb_n_dir_entries m bs = read16 m (bs + 17)"
definition bpb_n_sectors :: "mem \<Rightarrow> u32 \<Rightarrow> u16" where "bpb_n_sectors m bs = read16 m (bs + 19)"
definition bpb_fat_sectors :: "mem \<Rightarrow> u32 \<Rightarrow> u16" where "bpb_fat_sectors m bs = read16 m (bs + 22)"
definition bpb_long_sectors :: "mem \<Rightarrow> u32 \<Rightarrow> u32" where "bpb_long_sectors m bs = read32 m (bs + 32)"
definition bpb_ext_fat_sectors :: "mem \<Rightarrow> u32 \<Rightarrow> u32" where "bpb_ext_fat_sectors m bs = read32 m (bs + 36)"

lemmas bpb_defs = bpb_sector_bytes_def bpb_cluster_sectors_def bpb_reserved_sectors_def bpb_n_fats_def bpb_n_dir_entries_def
  bpb_n_sectors_def bpb_fat_sectors_def bpb_long_sectors_def bpb_ext_fat_sectors_def

text \<open>The two divisions fault on a zero field.\<close>

definition fat_geometry :: "mem \<Rightarrow> u32 \<Rightarrow> fat_mount_info \<Rightarrow> fat_mount_info option" where
  "fat_geometry m bs mi =
     (let sector_bytes = ucast (bpb_sector_bytes m bs) :: u32; cluster_sectors = ucast (bpb_cluster_sectors m bs) :: u32;
          reserved_sectors = ucast (bpb_reserved_sectors m bs) :: u32; n_fats = ucast (bpb_n_fats m bs) :: u32;
          n_dir_entries = ucast (bpb_n_dir_entries m bs) :: u32; n_sectors = ucast (bpb_n_sectors m bs) :: u32;
          fat_sectors = ucast (bpb_fat_sectors m bs) :: u32; long_sectors = bpb_long_sectors m bs;
          ext_fat_sectors = bpb_ext_fat_sectors m bs
      in if sector_bytes = 0 \<or> cluster_sectors = 0 then None else
        let fat_size = (if fat_sectors = 0 then ext_fat_sectors else fat_sectors);
            root_size = (n_dir_entries * 32 + (sector_bytes - 1)) div sector_bytes;
            data_sectors = n_sectors - (reserved_sectors + n_fats * fat_size + root_size)
        in Some (mi\<lparr>m_n_sectors := (if n_sectors = 0 then long_sectors else n_sectors),
             m_fat_offset := reserved_sectors, m_fat_size := fat_size, m_fat_entry_size := 8,
             m_n_root_entries := n_dir_entries, m_root_offset := n_fats * fat_size + 1,
             m_root_size := root_size, m_first_data_sector := reserved_sectors + n_fats * fat_size + root_size,
             m_data_sectors := data_sectors, m_type := fat_type (data_sectors div cluster_sectors)\<rparr>))"

definition upd_dev :: "u32 \<Rightarrow> (device \<Rightarrow> device) \<Rightarrow> 'a fs_state_scheme \<Rightarrow> 'a fs_state_scheme" where
  "upd_dev d f s = s\<lparr>dev_store := (dev_store s)(d := f (dev_store s d))\<rparr>"

text \<open>The scan of the partition table between the two steps changes nothing: each of its turns
  ends in \<open>continue\<close> or \<open>break\<close>.\<close>

definition fat_mount :: "u32 \<Rightarrow> 'a fs_state_scheme \<Rightarrow> 'a fs_state_scheme option" where
  "fat_mount dev s = do {
     (bs, s) \<leftarrow> dev_read dev 0 s;
     if ram s bs \<noteq> 0xEB \<or> ram s (bs + 2) \<noteq> 0x90 then Some s
     else do {
       mi \<leftarrow> fat_geometry (ram s) bs (dv_minfo (dev_store s dev));
       Some (upd_dev dev (\<lambda>d. d\<lparr>dv_minfo := mi\<rparr>) s)
     }
   }"

section \<open>Names\<close>

partial_function (option) arr_len :: "char_array \<Rightarrow> nat \<Rightarrow> nat option" where
  "arr_len a i = (if a i = 0 then Some i else arr_len a (i + 1))"

definition arr_strcpy :: "nat \<Rightarrow> char_array \<Rightarrow> char_array \<Rightarrow> char_array option" where
  "arr_strcpy sz old src = do {
     n \<leftarrow> arr_len src 0;
     if n < sz then Some (\<lambda>i. if i \<le> n then src i else old i) else None
   }"

fun dos_base :: "nat \<Rightarrow> char_array \<Rightarrow> nat \<Rightarrow> u32 \<Rightarrow> nat \<Rightarrow> mem \<Rightarrow> nat \<times> mem" where
  "dos_base 0 name len str i m = (i, m)"
| "dos_base (Suc n) name len str i m =
     (if i < len then
        if name i = of_char CHR ''.'' \<or> i = 8 then (i, m)
        else dos_base n name len str (i + 1) (m(str + of_nat i := toupper (name i)))
      else (i, m))"

definition dos_ext :: "char_array \<Rightarrow> nat \<Rightarrow> u32 \<Rightarrow> mem \<Rightarrow> mem" where
  "dos_ext name i str m = fold (\<lambda>j m. let c = name (i + 1 + j) in
     if c \<noteq> 0 then m(str + 8 + of_nat j := toupper c) else m) [0..<3] m"

definition to_dos_file_name :: "char_array \<Rightarrow> u32 \<Rightarrow> mem \<Rightarrow> mem option" where
  "to_dos_file_name name str m =
     (if str = 0 then Some m
      else do {
        let m = memset m str (of_char CHR '' '') NAME_LEN;
        len \<leftarrow> arr_len name 0;
        let (i, m) = dos_base (unat NAME_LEN) name len str 0 m;
        let m = (if name i = of_char CHR ''.'' then dos_ext name i str m else m);
        Some (m(str + NAME_LEN := 0))
      })"

fun normal_loop :: "nat \<Rightarrow> u32 \<Rightarrow> u32 \<Rightarrow> nat \<Rightarrow> nat \<Rightarrow> bool \<Rightarrow> mem \<Rightarrow> (nat \<times> mem) option" where
  "normal_loop 0 name str i j flag m = Some (j, m)"
| "normal_loop (Suc n) name str i j flag m = do {
     len \<leftarrow> strlen m name;
     if i < len then
       if m (name + of_nat i) \<noteq> of_char CHR '' '' then
         normal_loop n name str (i + 1) (j + 1) flag (m(str + of_nat j := tolower (m (name + of_nat i))))
       else if flag \<and> m (name + 9) \<noteq> of_char CHR '' '' then
         normal_loop n name str (i + 1) (j + 1) False (m(str + of_nat j := of_char CHR ''.''))
       else normal_loop n name str (i + 1) j flag m
     else Some (j, m)
   }"

definition to_normal_file_name :: "u32 \<Rightarrow> u32 \<Rightarrow> mem \<Rightarrow> mem option" where
  "to_normal_file_name name str m =
     (if name = 0 \<or> str = 0 then Some m
      else do {
        let m = memset m str (of_char CHR '' '') NAME_LEN;
        (j, m) \<leftarrow> normal_loop (unat NAME_LEN) name str 0 0 True m;
        Some (m(str + of_nat j := 0))
      })"

section \<open>Directory entries\<close>

definition dir_attrs :: "mem \<Rightarrow> u32 \<Rightarrow> u8" where "dir_attrs m dir = m (dir + 11)"
definition dir_first_cluster :: "mem \<Rightarrow> u32 \<Rightarrow> u16" where "dir_first_cluster m dir = read16 m (dir + 26)"
definition dir_file_size :: "mem \<Rightarrow> u32 \<Rightarrow> u32" where "dir_file_size m dir = read32 m (dir + 28)"

definition print_dir :: "u32 \<Rightarrow> 'a pmm_state_scheme \<Rightarrow> 'a pmm_state_scheme" where
  "print_dir dir s = kprint (''%s %s %d %d %d'' @ NL)
     [dir, dir + 8, ucast (dir_attrs (ram s) dir), ucast (dir_first_cluster (ram s) dir), dir_file_size (ram s) dir] s"

definition find_entry :: "mem \<Rightarrow> u32 \<Rightarrow> u32 \<Rightarrow> nat option" where
  "find_entry m nm dir = find (\<lambda>j. strncmp m nm (dir + 32 * of_nat j) NAME_LEN = 0) [0..<16]"

definition get_phys_sector :: "fs_file \<Rightarrow> u32" where
  "get_phys_sector f = 32 + f_current_cluster f - 1"

definition root_sector :: "u32 \<Rightarrow> nat \<Rightarrow> 'a fs_state_scheme \<Rightarrow> u32" where
  "root_sector dev i s = m_root_offset (dv_minfo (dev_store s dev)) + of_nat i"

fun get_dir_loop :: "nat list \<Rightarrow> u32 \<Rightarrow> u32 \<Rightarrow> 'a fs_state_scheme \<Rightarrow> (u32 \<times> 'a fs_state_scheme) option" where
  "get_dir_loop [] dev nm s = do { s \<leftarrow> kfree nm s; Some (0, s) }"
| "get_dir_loop (i # is) dev nm s = do {
     (dir, s) \<leftarrow> dev_read dev (root_sector dev i s) s;
     (case find_entry (ram s) nm dir of
        Some j \<Rightarrow> do {
          let s = s\<lparr>dir_sector := of_nat i\<rparr>;
          s \<leftarrow> kfree nm s;
          Some (dir + 32 * of_nat j, s)
        }
      | None \<Rightarrow> get_dir_loop is dev nm s)
   }"

definition dos_name :: "char_array \<Rightarrow> 'a fs_state_scheme \<Rightarrow> (u32 \<times> 'a fs_state_scheme) option" where
  "dos_name name s = do {
     (nm, s) \<leftarrow> kmalloc NAME_LEN s;
     m \<leftarrow> to_dos_file_name name nm (ram s);
     Some (nm, s\<lparr>ram := m\<rparr>)
   }"

definition fat_get_dir :: "fs_file \<Rightarrow> 'a fs_state_scheme \<Rightarrow> (u32 \<times> 'a fs_state_scheme) option" where
  "fat_get_dir f s = do {
     (nm, s) \<leftarrow> dos_name (f_name f) s;
     get_dir_loop [0..<14] (get_dev_by_id (f_dev f) s) nm s
   }"

definition file_type :: "mem \<Rightarrow> u32 \<Rightarrow> u32" where
  "file_type m dir = (if dir_attrs m dir AND 0x10 \<noteq> 0 then FS_DIR else FS_FILE)"

definition fat_directory ::
  "fs_file \<Rightarrow> char_array \<Rightarrow> u32 \<Rightarrow> 'a fs_state_scheme \<Rightarrow> (fs_file \<times> 'a fs_state_scheme) option" where
  "fat_directory f0 dir_name devid s = do {
     name \<leftarrow> arr_strcpy 32 (f_name f0) dir_name;
     let f = f0\<lparr>f_name := name, f_dev := devid, f_eof := 0\<rparr>;
     (dir, s) \<leftarrow> fat_get_dir f s;
     Some (if dir \<noteq> 0 then f\<lparr>f_current_cluster := ucast (dir_first_cluster (ram s) dir),
               f_len := dir_file_size (ram s) dir, f_type := file_type (ram s) dir\<rparr>
           else f\<lparr>f_type := FS_NULL\<rparr>, s)
   }"

section \<open>Reading\<close>

text \<open>The byte offset of a cluster's table entry, indeterminate for other types; and the entry
  read from the two sectors of the table at \<open>t\<close>: its value, or \<open>None\<close> at the end of the chain.\<close>

definition fat_entry_offset :: "u32 \<Rightarrow> u32 \<Rightarrow> u32 option" where
  "fat_entry_offset typ cluster = (if typ = FAT12 then Some (cluster + cluster div 2)
     else if typ = FAT16 then Some (cluster * 2)
     else if typ = FAT32 then Some (cluster * 4) else None)"

definition fat_next :: "u32 \<Rightarrow> mem \<Rightarrow> u32 \<Rightarrow> u32 \<Rightarrow> u32 option" where
  "fat_next typ m entry cluster =
     (if typ = FAT12 then
        let nxt = read16 m entry;
            nxt = (if cluster AND 1 \<noteq> 0 then drop_bit 4 nxt else nxt AND 0x0FFF)
        in if nxt \<ge> 0xFF8 \<or> nxt = 0 then None else Some (ucast nxt)
      else if typ = FAT16 then
        let nxt = read16 m entry in if nxt \<ge> 0xFFF8 \<or> nxt = 0 then None else Some (ucast nxt)
      else
        let nxt = read32 m entry AND 0x0FFFFFFF in if nxt \<ge> 0x0FFFFFF8 \<or> nxt = 0 then None else Some nxt)"

definition fat_read :: "fs_file \<Rightarrow> u32 \<Rightarrow> 'a fs_state_scheme \<Rightarrow> (fs_file \<times> 'a fs_state_scheme) option" where
  "fat_read f buf s = do {
     let dev = get_dev_by_id (f_dev f) s;
     (sector, s) \<leftarrow> dev_read dev (get_phys_sector f) s;
     let s = s\<lparr>ram := memcpy (ram s) buf sector SECTOR_SIZE\<rparr>;
     let mi = dv_minfo (dev_store s dev);
     fat_offset \<leftarrow> fat_entry_offset (m_type mi) (f_current_cluster f);
     let fat_sector = m_fat_offset mi + fat_offset div SECTOR_SIZE;
     let entry_offset = fat_offset mod SECTOR_SIZE;
     (sector, s) \<leftarrow> dev_read dev fat_sector s;
     let s = s\<lparr>ram := memcpy (ram s) (FAT_buf s) sector SECTOR_SIZE\<rparr>;
     (sector, s) \<leftarrow> dev_read dev (fat_sector + 1) s;
     let s = s\<lparr>ram := memcpy (ram s) (FAT_buf s + SECTOR_SIZE) sector SECTOR_SIZE\<rparr>;
     Some (case fat_next (m_type mi) (ram s) (FAT_buf s + entry_offset) (f_current_cluster f) of
         None \<Rightarrow> f\<lparr>f_eof := 1\<rparr>
       | Some nxt \<Rightarrow> f\<lparr>f_current_cluster := nxt\<rparr>, s)
   }"

section \<open>Path search\<close>

partial_function (option) subdir_loop ::
  "fs_file \<Rightarrow> fs_file \<Rightarrow> u32 \<Rightarrow> u32 \<Rightarrow> 'a fs_state_scheme \<Rightarrow> (fs_file \<times> 'a fs_state_scheme) option" where
  "subdir_loop f directory nm buf s =
     (if f_eof directory = 0 then do {
        (directory, s) \<leftarrow> fat_read directory buf s;
        (case find_entry (ram s) nm buf of
           Some j \<Rightarrow> do {
             let dir = buf + 32 * of_nat j;
             let f = f\<lparr>f_current_cluster := ucast (dir_first_cluster (ram s) dir),
                       f_len := dir_file_size (ram s) dir, f_eof := 0, f_dev := f_dev directory,
                       f_type := file_type (ram s) dir\<rparr>;
             s \<leftarrow> kfree buf s;
             s \<leftarrow> kfree nm s;
             Some (f, s)
           }
         | None \<Rightarrow> subdir_loop f directory nm buf s)
      }
      else do {
        s \<leftarrow> kfree buf s;
        s \<leftarrow> kfree nm s;
        Some (f\<lparr>f_type := FS_NULL\<rparr>, s)
      })"

definition fat_open_subdir ::
  "fs_file \<Rightarrow> fs_file \<Rightarrow> char_array \<Rightarrow> 'a fs_state_scheme \<Rightarrow> (fs_file \<times> 'a fs_state_scheme) option" where
  "fat_open_subdir f0 directory name s = do {
     fname \<leftarrow> arr_strcpy 32 (f_name f0) name;
     (nm, s) \<leftarrow> dos_name name s;
     (buf, s) \<leftarrow> kmalloc SECTOR_SIZE s;
     subdir_loop (f0\<lparr>f_name := fname\<rparr>) directory nm buf s
   }"

text \<open>One component of a path: the characters before the next slash or the end.  With 16 of them
  the terminator is written past the end of the array.\<close>

definition path_component :: "char_array \<Rightarrow> mem \<Rightarrow> u32 \<Rightarrow> char_array option" where
  "path_component junk m name =
     (case find (\<lambda>i. m (name + of_nat i) = of_char CHR ''/'' \<or> m (name + of_nat i) = 0) [0..<16] of
        Some i \<Rightarrow> Some (\<lambda>k. if k < i then m (name + of_nat k) else if k = i then 0 else junk k)
      | None \<Rightarrow> None)"

partial_function (option) search_loop ::
  "fs_file \<Rightarrow> char_array \<Rightarrow> bool \<Rightarrow> fs_file \<Rightarrow> u32 \<Rightarrow> 'a fs_state_scheme \<Rightarrow> (fs_file \<times> 'a fs_state_scheme) option"
where
  "search_loop f0 junk root cur_dir name s =
     (if name \<noteq> 0 then do {
        let name = name + 1;
        pathname \<leftarrow> path_component junk (ram s) name;
        (cur_dir, s) \<leftarrow> (if root then fat_directory f0 pathname (f_dev cur_dir) s
                        else fat_open_subdir f0 cur_dir pathname s);
        name \<leftarrow> strchr (ram s) name (of_char CHR ''/'');
        search_loop f0 junk False cur_dir name s
      }
      else Some (cur_dir, s))"

definition fat_search ::
  "fs_file \<Rightarrow> char_array \<Rightarrow> u32 \<Rightarrow> 'a fs_state_scheme \<Rightarrow> (fs_file \<times> 'a fs_state_scheme) option" where
  "fat_search f0 junk name s =
     search_loop f0 junk True (f0\<lparr>f_dev := get_dev_id_by_name name s\<rparr>) (name + 3) s"

definition fat_open ::
  "fs_file \<Rightarrow> char_array \<Rightarrow> u32 \<Rightarrow> 'a fs_state_scheme \<Rightarrow> (fs_file \<times> 'a fs_state_scheme) option" where
  "fat_open = fat_search"

definition fat_cd ::
  "fs_file \<Rightarrow> char_array \<Rightarrow> u32 \<Rightarrow> 'a fs_state_scheme \<Rightarrow> (fs_file \<times> 'a fs_state_scheme) option" where
  "fat_cd = fat_search"

section \<open>Changes to a directory\<close>

fun touch_loop :: "nat list \<Rightarrow> u32 \<Rightarrow> u32 \<Rightarrow> 'a fs_state_scheme \<Rightarrow> (u32 \<times> 'a fs_state_scheme) option" where
  "touch_loop [] dev nm s = do { s \<leftarrow> kfree nm s; Some (0, s) }"
| "touch_loop (i # is) dev nm s = do {
     (dir, s) \<leftarrow> dev_read dev (root_sector dev i s) s;
     (case find (\<lambda>j. ram s (dir + 32 * of_nat j) = 0) [0..<16] of
        Some j \<Rightarrow> do {
          let dir = dir + 32 * of_nat j;
          m \<leftarrow> strcpy (ram s) dir nm;
          let m = write32 m (dir + 28) 0;
          let m = write16 m (dir + 26) 0;
          s \<leftarrow> dev_write dev (root_sector dev i s) (s\<lparr>ram := m\<rparr>);
          s \<leftarrow> kfree nm s;
          Some (1, s)
        }
      | None \<Rightarrow> touch_loop is dev nm s)
   }"

definition fat_touch ::
  "fs_file \<Rightarrow> char_array \<Rightarrow> u32 \<Rightarrow> 'a fs_state_scheme \<Rightarrow> (u32 \<times> 'a fs_state_scheme) option" where
  "fat_touch f0 junk name s = do {
     (f, s) \<leftarrow> fat_search f0 junk name s;
     if f_type f \<noteq> FS_NULL then Some (0, s)
     else do {
       (nm, s) \<leftarrow> dos_name (f_name f) s;
       touch_loop [0..<14] (get_dev_by_id (f_dev f) s) nm s
     }
   }"

definition fat_write :: "fs_file \<Rightarrow> u32 \<Rightarrow> 'a fs_state_scheme \<Rightarrow> (fs_file \<times> 'a fs_state_scheme) option" where
  "fat_write f str s = do {
     (nm, s) \<leftarrow> dos_name (f_name f) s;
     let dev = get_dev_by_id (f_dev f) s;
     let m = memset (ram s) (dma_buffer s) 0 SECTOR_SIZE;
     n \<leftarrow> strlen m str;
     let m = memcpy m (dma_buffer s) str (of_nat n);
     s \<leftarrow> dev_write dev (get_phys_sector f) (s\<lparr>ram := m\<rparr>);
     let f = f\<lparr>f_len := f_len f + 1\<rparr>;
     (dir, s) \<leftarrow> fat_get_dir f s;
     if dir \<noteq> 0 then do {
       s \<leftarrow> dev_write dev (m_root_offset (dv_minfo (dev_store s dev)) + dir_sector s)
              (s\<lparr>ram := write32 (ram s) (dir + 28) (f_len f)\<rparr>);
       Some (f, s)
     }
     else Some (f, s)
   }"

definition fat_delete ::
  "fs_file \<Rightarrow> char_array \<Rightarrow> u32 \<Rightarrow> 'a fs_state_scheme \<Rightarrow> (u32 \<times> 'a fs_state_scheme) option" where
  "fat_delete f0 junk name s = do {
     (f, s) \<leftarrow> fat_search f0 junk name s;
     if f_type f = FS_NULL then Some (0, s)
     else do {
       let dev = get_dev_by_id (f_dev f) s;
       (dir, s) \<leftarrow> fat_get_dir f s;
       if dir \<noteq> 0 then do {
         s \<leftarrow> dev_write dev (m_root_offset (dv_minfo (dev_store s dev)) + dir_sector s)
                (s\<lparr>ram := memset (ram s) dir 0 32\<rparr>);
         Some (1, s)
       }
       else Some (0, s)
     }
   }"

definition fat_close :: "fs_file \<Rightarrow> fs_file" where
  "fat_close f = f\<lparr>f_type := FS_NULL\<rparr>"

text \<open>A call of \<open>console_print\<close> with the string at an address is recorded with its text.\<close>

definition print_text :: "u32 \<Rightarrow> string \<Rightarrow> 'a fs_state_scheme \<Rightarrow> 'a fs_state_scheme option" where
  "print_text p tail s = do {
     n \<leftarrow> strlen (ram s) p;
     Some (kprint (map (\<lambda>c. char_of (unat c)) (load_bytes (ram s) p n) @ tail) [] s)
   }"

fun ls_entries :: "nat list \<Rightarrow> u32 \<Rightarrow> u32 \<Rightarrow> 'a fs_state_scheme \<Rightarrow> 'a fs_state_scheme option" where
  "ls_entries [] dir nm s = Some s"
| "ls_entries (j # js) dir nm s =
     (if ram s (dir + 32 * of_nat j) = 0 then ls_entries js dir nm s
      else do {
        m \<leftarrow> to_normal_file_name (dir + 32 * of_nat j) nm (ram s);
        s \<leftarrow> print_text nm ''  '' (s\<lparr>ram := m\<rparr>);
        ls_entries js dir nm s
      })"

fun ls_loop :: "nat list \<Rightarrow> u32 \<Rightarrow> u32 \<Rightarrow> 'a fs_state_scheme \<Rightarrow> 'a fs_state_scheme option" where
  "ls_loop [] dev nm s = Some s"
| "ls_loop (i # is) dev nm s = do {
     (dir, s) \<leftarrow> dev_read dev (root_sector dev i s) s;
     s \<leftarrow> ls_entries [0..<16] dir nm s;
     ls_loop is dev nm s
   }"

definition fat_ls :: "u32 \<Rightarrow> 'a fs_state_scheme \<Rightarrow> 'a fs_state_scheme option" where
  "fat_ls dir s = do {
     (nm, s) \<leftarrow> kmalloc NAME_LEN s;
     s \<leftarrow> ls_loop [0..<14] (get_dev_by_name dir s) nm s;
     kfree nm (kprint NL [] s)
   }"

definition fat_init :: "u32 \<Rightarrow> 'a fs_state_scheme \<Rightarrow> 'a fs_state_scheme" where
  "fat_init dev = upd_dev dev (\<lambda>d. d\<lparr>dv_fs := Fs_fat\<rparr>)"

section \<open>8.3 names\<close>

text \<open>The stored form of a name with base \<open>b\<close> and extension \<open>e\<close>.\<close>

definition dos_bytes :: "u8 list \<Rightarrow> u8 list \<Rightarrow> u8 list" where
  "dos_bytes b e = map toupper b @ replicate (8 - length b) (of_char CHR '' '') @ map toupper e"

lemma arr_len_eq: "(\<And>k. k < n \<Longrightarrow> a (i + k) \<noteq> 0) \<Longrightarrow> a (i + n) = 0 \<Longrightarrow> arr_len a i = Some (i + n)"
proof (induction n arbitrary: i)
  case (Suc n)
  have "arr_len a (i + 1) = Some (i + 1 + n)"
  proof (rule Suc.IH)
    show "a (i + 1 + k) \<noteq> 0" if "k < n" for k using Suc.prems(1) [of "Suc k"] that by simp
    show "a (i + 1 + n) = 0" using Suc.prems(2) by simp
  qed
  moreover have "a i \<noteq> 0" using Suc.prems(1) [of 0] by simp
  ultimately show ?case by (subst arr_len.simps) simp
qed (subst arr_len.simps, simp)

lemma dos_base_eq:
  assumes "\<forall>k<length b. name k = b ! k" "of_char CHR ''.'' \<notin> set b" "length b \<le> 8"
    "length b < len \<Longrightarrow> name (length b) = of_char CHR ''.''" "length b \<le> len" "i \<le> length b" and that: "length pad = 11"
  shows "dos_base (11 - i) name len str i (store_bytes m str (map toupper (take i b) @ drop i pad))
    = (length b, store_bytes m str (map toupper b @ drop (length b) pad))"
  using assms(6)
proof (induction "length b - i" arbitrary: i)
  case 0
  then have i: "i = length b" by simp
  have "11 - i = Suc (10 - i)" using assms(3) i by simp
  then show ?case using assms(4,5) i by simp
next
  case (Suc d)
  then have i: "i < length b" by simp
  have n: "11 - i = Suc (11 - Suc i)" "i \<noteq> 8" using i assms(3) by simp_all
  have c: "name i = b ! i" "b ! i \<noteq> of_char CHR ''.''" using i assms(1,2) by (simp, metis nth_mem)
  have "(store_bytes m str (map toupper (take i b) @ drop i pad))(str + of_nat i := toupper (b ! i))
      = store_bytes m str ((map toupper (take i b) @ drop i pad)[i := toupper (b ! i)])"
    using i that assms(3) by (intro store_bytes_upd) simp_all
  also have "(map toupper (take i b) @ drop i pad)[i := toupper (b ! i)]
      = map toupper (take (Suc i) b) @ drop (Suc i) pad"
    using i that assms(3) by (simp add: list_update_append take_Suc_conv_app_nth Cons_nth_drop_Suc [symmetric])
  finally have upd: "(store_bytes m str (map toupper (take i b) @ drop i pad))(str + of_nat i := toupper (b ! i))
      = store_bytes m str (map toupper (take (Suc i) b) @ drop (Suc i) pad)" .
  have "dos_base (11 - i) name len str i (store_bytes m str (map toupper (take i b) @ drop i pad))
      = dos_base (11 - Suc i) name len str (Suc i)
          ((store_bytes m str (map toupper (take i b) @ drop i pad))(str + of_nat i := toupper (b ! i)))"
    unfolding n(1) using i n(2) c assms(5) by simp
  also note upd
  also have "dos_base (11 - Suc i) name len str (Suc i)
      (store_bytes m str (map toupper (take (Suc i) b) @ drop (Suc i) pad))
      = (length b, store_bytes m str (map toupper b @ drop (length b) pad))"
    using Suc.hyps i by (intro Suc.hyps(1)) simp_all
  finally show ?case .
qed

text \<open>The array \<open>name\<close> spells the name with base \<open>b\<close> and extension \<open>e\<close>, with the dot only where there is
  an extension.  The code reads three characters after the dot, the end mark included, so the characters
  behind a short extension are fixed to zero.\<close>

definition name_83 :: "u8 list \<Rightarrow> u8 list \<Rightarrow> char_array \<Rightarrow> bool" where
  "name_83 b e name \<longleftrightarrow> length b \<le> 8 \<and> length e \<le> 3 \<and> 0 \<notin> set (b @ e) \<and> of_char CHR ''.'' \<notin> set b
     \<and> (\<forall>k<length b. name k = b ! k)
     \<and> (if e = [] then name (length b) = 0
        else name (length b) = of_char CHR ''.'' \<and> name (length b + 1 + length e) = 0
          \<and> (\<forall>k<3. name (length b + 1 + k) = (if k < length e then e ! k else 0)))"

text \<open>The length of such a name.\<close>

definition len_83 :: "u8 list \<Rightarrow> u8 list \<Rightarrow> nat" where
  "len_83 b e = (if e = [] then length b else length b + 1 + length e)"

lemma name_83_len:
  assumes "name_83 b e name"
  shows "arr_len name 0 = Some (len_83 b e)"
proof -
  have "name k \<noteq> 0" if "k < len_83 b e" for k
  proof (cases "k < length b")
    case True
    then have "name k = b ! k" "b ! k \<noteq> 0" using assms by (auto simp: name_83_def dest: nth_mem)
    then show ?thesis by simp
  next
    case False
    then have e: "e \<noteq> []" "k < length b + 1 + length e" using that by (auto simp: len_83_def split: if_splits)
    show ?thesis
    proof (cases "k = length b")
      case True
      then show ?thesis using assms e by (simp add: name_83_def)
    next
      case n: False
      define j where "j = k - length b - 1"
      have j: "k = length b + 1 + j" "j < length e" using False n e(2) by (simp_all add: j_def)
      then have "j < 3" "e ! j \<noteq> 0" using assms by (auto simp: name_83_def dest: nth_mem)
      then show ?thesis using assms e(1) j by (simp add: name_83_def)
    qed
  qed
  moreover have "name (len_83 b e) = 0" using assms by (simp add: name_83_def len_83_def split: if_splits)
  ultimately show ?thesis using arr_len_eq [of "len_83 b e" name 0] by simp
qed

lemma blanks_upd3:
  assumes "length q = 8" "length e \<le> 3" "c = (\<lambda>k. if k < length e then e ! k else 0)" "0 \<notin> set e"
  shows "fold (\<lambda>j xs. if c j \<noteq> 0 then xs[8 + j := toupper (c j)] else xs) [0..<3] (q @ replicate 3 (of_char CHR '' ''))
    = q @ map toupper e @ replicate (3 - length e) (of_char CHR '' '')"
proof -
  consider "e = []" | x where "e = [x]" | x y where "e = [x, y]" | x y z where "e = [x, y, z]"
    using assms(2) by (cases e; cases "tl e"; cases "tl (tl e)"; cases "tl (tl (tl e))") auto
  then show ?thesis using assms(1,4)
    by cases (simp_all add: assms(3) numeral_3_eq_3 list_update_append numeral_2_eq_2)
qed

text \<open>The stored form of any such name: the base and the extension in upper case, each padded with
  blanks.\<close>

lemma to_dos_file_name_83:
  assumes "name_83 b e name" "str \<noteq> 0"
  shows "to_dos_file_name name str m
    = Some (store_bytes m str (dos_bytes b e @ replicate (3 - length e) (of_char CHR '' '') @ [0]))"
proof -
  let ?pad = "replicate 11 (of_char CHR '' '') :: u8 list"
  note n = assms(1) [unfolded name_83_def]
  have le: "length b \<le> 8" "length e \<le> 3" "0 \<notin> set e" using n by simp_all
  have ms: "memset m str (of_char CHR '' '') NAME_LEN = store_bytes m str ?pad"
    by (rule ext) (simp add: memset_def store_bytes_def NAME_LEN_def)
  have base: "dos_base 11 name (len_83 b e) str 0 (store_bytes m str ?pad)
      = (length b, store_bytes m str (map toupper b @ drop (length b) ?pad))"
    using dos_base_eq [where pad = ?pad and b = b and name = name and len = "len_83 b e" and i = 0 and str = str and m = m]
      n by (simp add: len_83_def split: if_splits)
  define q where "q = map toupper b @ replicate (8 - length b) (of_char CHR '' '')"
  have q: "length q = 8" using le by (simp add: q_def)
  have p: "map toupper b @ drop (length b) ?pad = q @ replicate 3 (of_char CHR '' '')"
    using le by (simp add: q_def replicate_add [symmetric])
  define c where "c = (\<lambda>k. if k < length e then e ! k else (0 :: u8))"
  have upd: "fold (\<lambda>j m. let c = c j in if c \<noteq> 0 then m(str + 8 + of_nat j := toupper c) else m) js (store_bytes m str xs)
      = store_bytes m str (fold (\<lambda>j xs. if c j \<noteq> 0 then xs[8 + j := toupper (c j)] else xs) js xs)"
    if "length xs = 11" "set js \<subseteq> {..<3}" for xs js
    using that
  proof (induction js arbitrary: xs)
    case (Cons j js)
    have "(store_bytes m str xs)(str + 8 + of_nat j := v) = store_bytes m str (xs[8 + j := v])" for v
      using store_bytes_upd [of "8 + j" xs m str v] Cons.prems by (simp add: add.assoc)
    then show ?case using Cons by (simp add: Let_def)
  qed simp
  have ext: "(if name (length b) = of_char CHR ''.'' then dos_ext name (length b) str (store_bytes m str (q @ replicate 3 (of_char CHR '' '')))
        else store_bytes m str (q @ replicate 3 (of_char CHR '' '')))
      = store_bytes m str (dos_bytes b e @ replicate (3 - length e) (of_char CHR '' ''))" (is "?l = ?r")
  proof -
    have r: "?r = store_bytes m str (q @ map toupper e @ replicate (3 - length e) (of_char CHR '' ''))"
      by (simp add: dos_bytes_def q_def)
    show ?thesis
    proof (cases "e = []")
      case True
      then show ?thesis unfolding r using n by simp
    next
      case False
      have "name (length b + 1 + j) = c j" if "j \<in> set [0..<3]" for j
        using n False that by (simp add: c_def)
      then have "dos_ext name (length b) str (store_bytes m str (q @ replicate 3 (of_char CHR '' '')))
          = fold (\<lambda>j m. let c = c j in if c \<noteq> 0 then m(str + 8 + of_nat j := toupper c) else m) [0..<3]
              (store_bytes m str (q @ replicate 3 (of_char CHR '' '')))"
        unfolding dos_ext_def by (intro fold_cong refl) simp
      also have "\<dots> = ?r" unfolding r
        using upd [of "q @ replicate 3 (of_char CHR '' '')" "[0..<3]"] blanks_upd3 [OF q le(2) c_def le(3)] q
        by (auto simp: subset_iff)
      finally show ?thesis using n False by simp
    qed
  qed
  have nul: "(store_bytes m str (dos_bytes b e @ replicate (3 - length e) (of_char CHR '' '')))(str + NAME_LEN := 0)
      = store_bytes m str (dos_bytes b e @ replicate (3 - length e) (of_char CHR '' '') @ [0])"
    using store_bytes_snoc [of "dos_bytes b e @ replicate (3 - length e) (of_char CHR '' '')" m str 0] le
    by (simp add: dos_bytes_def NAME_LEN_def)
  have "unat NAME_LEN = 11" by (simp add: NAME_LEN_def)
  then show ?thesis
    using assms(2) unfolding to_dos_file_name_def Let_def ms
    by (simp only: if_False name_83_len [OF assms(1)] bind.bind_lunit base prod.case p ext nul)
qed

lemma to_dos_file_name_eq:
  assumes "\<forall>k<length b. name k = b ! k" "name (length b) = of_char CHR ''.''"
    "\<forall>k<3. name (length b + 1 + k) = e ! k" "name (length b + 4) = 0"
    "length b \<le> 8" "length e = 3" "0 \<notin> set b" "0 \<notin> set e" "of_char CHR ''.'' \<notin> set b" "str \<noteq> 0"
  shows "to_dos_file_name name str m = Some (store_bytes m str (dos_bytes b e @ [0]))"
proof -
  have "e \<noteq> []" using assms(6) by auto
  then have "name_83 b e name" using assms by (simp add: name_83_def add.commute [of 4])
  from to_dos_file_name_83 [OF this assms(10)] show ?thesis using assms(6) by simp
qed

section \<open>The allocation table\<close>

text \<open>The table as one array of bytes, and the link of a cluster in it: an entry of 12, 16 or 28
  bits in little-endian order; zero and the end marks end the chain.\<close>

definition fat_byte :: "(u32 \<Rightarrow> u8 list) \<Rightarrow> fat_mount_info \<Rightarrow> nat \<Rightarrow> nat" where
  "fat_byte w mi i = unat (w (m_fat_offset mi + of_nat (i div 512)) ! (i mod 512))"

definition fat_link :: "u32 \<Rightarrow> (nat \<Rightarrow> nat) \<Rightarrow> nat \<Rightarrow> nat option" where
  "fat_link typ b c =
     (let half = (\<lambda>o'. b o' + 256 * b (o' + 1));
          chain = (\<lambda>v lim. if v = 0 \<or> lim \<le> v then None else Some v) in
      if typ = FAT12 then
        let v = half (c + c div 2) in chain (if odd c then v div 16 else v mod 4096) 0xFF8
      else if typ = FAT16 then chain (half (2 * c)) 0xFFF8
      else chain ((half (4 * c) + 65536 * half (4 * c + 2)) mod 2 ^ 28) 0x0FFFFFF8)"

lemma small_less [simp]: "unat (v :: u8) < 256" "unat (w :: u16) < 65536"
  by (rule order_less_le_trans [OF unsigned_less], simp)+

lemma unat_read16: "unat (read16 m a) = unat (m a) + 256 * unat (m (a + 1))"
proof -
  have "read16 m a = ucast (m a) + push_bit 8 (ucast (m (a + 1)))"
    unfolding read16_def by (rule disjunctive_add_eq_or [symmetric], rule bit_eqI) (auto simp: bit_simps dest: bit_imp_le_length)
  also have "\<dots> = of_nat (unat (m a) + 256 * unat (m (a + 1)))"
    by (simp add: push_bit_eq_mult)
  also have "unat (of_nat (unat (m a) + 256 * unat (m (a + 1))) :: u16) = unat (m a) + 256 * unat (m (a + 1))"
    using small_less(1) [of "m a"] small_less(1) [of "m (a + 1)"] by (subst unat_of_nat) (simp del: of_nat_add small_less)
  finally show ?thesis .
qed

lemma read32_halves: "read32 m a = ucast (read16 m a) OR push_bit 16 (ucast (read16 m (a + 2)))"
  by (rule bit_eqI) (auto simp: bit_simps read32_def read16_def add.assoc dest: bit_imp_le_length)

lemma unat_read32: "unat (read32 m a) = unat (read16 m a) + 65536 * unat (read16 m (a + 2))"
proof -
  have "read32 m a = ucast (read16 m a) + push_bit 16 (ucast (read16 m (a + 2)))"
    unfolding read32_halves by (rule disjunctive_add_eq_or [symmetric], rule bit_eqI) (auto simp: bit_simps dest: bit_imp_le_length)
  also have "\<dots> = of_nat (unat (read16 m a) + 65536 * unat (read16 m (a + 2)))"
    by (simp add: push_bit_eq_mult)
  also have "unat (of_nat (unat (read16 m a) + 65536 * unat (read16 m (a + 2))) :: u32)
      = unat (read16 m a) + 65536 * unat (read16 m (a + 2))"
    using small_less(2) [of "read16 m a"] small_less(2) [of "read16 m (a + 2)"] by (subst unat_of_nat) (simp del: of_nat_add small_less)
  finally show ?thesis .
qed

lemma odd_u32: "(c AND 1 \<noteq> 0) = odd (unat (c :: u32))"
  by (simp only: unat_eq_0 [symmetric] and_one_eq unat_mod_distrib) (simp add: even_iff_mod_2_eq_zero)

lemma fat_next_link:
  assumes "\<forall>k<4. unat (m (a + of_nat k)) = b (o' + k)" "unat c < 2 ^ 28"
    "fat_entry_offset typ c = Some off" "o' = unat off" "typ \<in> {FAT12, FAT16, FAT32}"
  shows "map_option unat (fat_next typ m a c) = fat_link typ b (unat c)"
proof -
  have h: "unat (read16 m a) = b o' + 256 * b (o' + 1)" "unat (read16 m (a + 2)) = b (o' + 2) + 256 * b (o' + 2 + 1)"
    using assms(1)[rule_format, of 0] assms(1)[rule_format, of 1] assms(1)[rule_format, of 2] assms(1)[rule_format, of 3]
    by (simp_all add: unat_read16 add.assoc numeral_3_eq_3)
  have ch: "map_option unat (if n \<le> x \<or> x = 0 then None else Some (ucast x :: u32))
      = (if unat x = 0 \<or> unat n \<le> unat x then None else Some (unat x))"
    "map_option unat (if k \<le> y \<or> y = 0 then None else Some y)
      = (if unat y = 0 \<or> unat k \<le> unat y then None else Some (unat y))" for x n :: u16 and y k :: u32
    using small_less(2) [of x] by (auto simp: word_le_nat_alt unat_eq_0 unsigned_ucast_eq take_bit_eq_mod simp del: small_less)
  have c: "unat (drop_bit 4 (x :: u16)) = unat x div 16" "unat (x AND 0x0FFF) = unat x mod 4096"
    "unat (y AND 0x0FFFFFFF) = unat (y :: u32) mod 2 ^ 28" for x y
  proof -
    show "unat (drop_bit 4 x) = unat x div 16" by (simp add: unat_div drop_bit_eq_div)
    have "unat (take_bit 12 x) = unat x mod 4096"
      by (subst unsigned_take_bit_eq) (simp add: take_bit_eq_mod)
    then show "unat (x AND 0x0FFF) = unat x mod 4096" by (simp add: take_bit_eq_mask mask_eq_exp_minus_1)
    have "unat (take_bit 28 y) = unat y mod 2 ^ 28"
      by (subst unsigned_take_bit_eq) (simp add: take_bit_eq_mod)
    then show "unat (y AND 0x0FFFFFFF) = unat y mod 2 ^ 28" by (simp add: take_bit_eq_mask mask_eq_exp_minus_1)
  qed
  have off: "typ = FAT12 \<Longrightarrow> o' = unat c + unat c div 2" "typ = FAT16 \<Longrightarrow> o' = 2 * unat c" "typ = FAT32 \<Longrightarrow> o' = 4 * unat c"
    using assms(2-4) by (auto simp: fat_entry_offset_def FAT12_def FAT16_def FAT32_def unat_word_ariths unat_div split: if_splits)
  from assms(5) consider "typ = FAT12" | "typ = FAT16" | "typ = FAT32" by blast
  then show ?thesis
  proof cases
    case 1
    have "map_option unat (fat_next typ m a c)
        = (let v = if odd (unat c) then drop_bit 4 (read16 m a) else read16 m a AND 0x0FFF
           in if unat v = 0 \<or> unat (0xFF8 :: u16) \<le> unat v then None else Some (unat v))"
      unfolding fat_next_def Let_def 1 odd_u32 by (simp only: ch if_True refl)
    also have "\<dots> = fat_link typ b (unat c)"
      unfolding fat_link_def Let_def 1 off(1) [OF 1, symmetric] by (simp add: c h(1))
    finally show ?thesis .
  next
    case 2
    have "map_option unat (fat_next typ m a c)
        = (if unat (read16 m a) = 0 \<or> unat (0xFFF8 :: u16) \<le> unat (read16 m a) then None else Some (unat (read16 m a)))"
      unfolding fat_next_def Let_def 2 by (simp add: FAT16_def FAT12_def ch)
    also have "\<dots> = fat_link typ b (unat c)"
      unfolding fat_link_def Let_def off(2) [OF 2, symmetric] by (simp add: 2 FAT16_def FAT12_def h(1))
    finally show ?thesis .
  next
    case 3
    have "map_option unat (fat_next typ m a c)
        = (let v = read32 m a AND 0x0FFFFFFF in
           if unat v = 0 \<or> unat (0x0FFFFFF8 :: u32) \<le> unat v then None else Some (unat v))"
      unfolding fat_next_def Let_def 3 by (simp add: FAT32_def FAT16_def FAT12_def ch)
    also have "\<dots> = fat_link typ b (unat c)"
      unfolding fat_link_def Let_def off(3) [OF 3, symmetric]
      by (simp add: 3 FAT32_def FAT16_def FAT12_def c h unat_read32)
    finally show ?thesis .
  qed
qed


section \<open>Reading a file\<close>

text \<open>The parts of memory that a read touches lie apart, and every sector has 512 bytes.\<close>

definition read_ready :: "fs_file \<Rightarrow> u32 \<Rightarrow> u32 \<Rightarrow> 'a fs_state_scheme \<Rightarrow> bool" where
  "read_ready f buf b s \<longleftrightarrow>
     (let dv = dev_store s (get_dev_by_id (f_dev f) s) in
      sector_device b dv \<and> (\<forall>lba. length (media s (dv_id dv) lba) = 512)
      \<and> region b 512 \<inter> region buf 512 = {} \<and> region b 512 \<inter> region (FAT_buf s) 1024 = {}
      \<and> region buf 512 \<inter> region (FAT_buf s) 1024 = {}
      \<and> m_type (dv_minfo dv) \<in> {FAT12, FAT16, FAT32} \<and> unat (f_current_cluster f) < 2 ^ 28)"

lemma fat_byte_sector: "k < 512 \<Longrightarrow> fat_byte w mi (512 * a + k) = unat (w (m_fat_offset mi + of_nat a) ! k)"
  by (simp add: fat_byte_def)

text \<open>Two neighbouring sectors of the table, in memory at \<open>F\<close>.\<close>

lemma fat_window:
  assumes "\<And>lba. length (w lba) = 512" "region b 512 \<inter> region F 512 = {}"
    "k < 1024" "sec = m_fat_offset mi + of_nat a"
  shows "unat (store_bytes (store_bytes (store_bytes m F (w sec)) b (w (sec + 1))) (F + 512) (w (sec + 1)) (F + of_nat k))
    = fat_byte w mi (512 * a + k)"
proof (cases "k < 512")
  case True
  have "F + of_nat k \<in> region F 512" using True by (simp add: in_region_off)
  moreover have "region F 512 \<inter> region (F + 512) 512 = {}" using region_next [of 512 512 F] by simp
  ultimately have "F + of_nat k \<notin> region (F + 512) 512 \<and> F + of_nat k \<notin> region b 512" using assms(2) by blast
  then have "store_bytes (store_bytes (store_bytes m F (w sec)) b (w (sec + 1))) (F + 512) (w (sec + 1)) (F + of_nat k)
      = w sec ! k"
    using True assms(1) by (simp add: store_bytes_outside store_bytes_nth)
  then show ?thesis by (simp only: fat_byte_sector [OF True] assms(4))
next
  case False
  define j where "j = k - 512"
  have j: "k = 512 + j" "j < 512" using False assms(3) by (simp_all add: j_def)
  have "F + of_nat k = F + 512 + of_nat j" unfolding j(1) by simp
  then have "store_bytes m' (F + 512) (w (sec + 1)) (F + of_nat k) = w (sec + 1) ! j" for m'
    using assms(1) j(2) store_bytes_nth [of j "w (sec + 1)" m' "F + 512"] by (simp only:) simp
  moreover have "512 * a + k = 512 * (a + 1) + j" using j(1) by simp
  moreover have "sec + 1 = m_fat_offset mi + of_nat (a + 1)" by (simp add: assms(4))
  ultimately show ?thesis by (simp only: fat_byte_sector [OF j(2)])
qed

lemma load_512_sector: "length xs = 512 \<Longrightarrow> load_bytes (store_bytes m b xs) b 512 = xs"
  by (rule load_store_same) simp_all

text \<open>Reading a sector and copying it.\<close>

lemma dev_read_copy:
  assumes "sector_device b (dev_store s dev)" "length (media s (dv_id (dev_store s dev)) lba) = 512"
    "region b 512 \<inter> region dst 512 = {}"
  shows "dev_read dev lba s = Some (b, s\<lparr>ram := store_bytes (ram s) b (media s (dv_id (dev_store s dev)) lba)\<rparr>)"
    "memcpy (store_bytes (ram s) b (media s (dv_id (dev_store s dev)) lba)) dst b SECTOR_SIZE
      = store_bytes (store_bytes (ram s) b (media s (dv_id (dev_store s dev)) lba)) dst (media s (dv_id (dev_store s dev)) lba)"
  using dev_read_sector [OF assms(1,2)] assms(2,3)
  by (simp_all add: memcpy_eq SECTOR_SIZE_def load_512_sector)

lemma fat_entry_offset_defined: "typ \<in> {FAT12, FAT16, FAT32} \<Longrightarrow> \<exists>off. fat_entry_offset typ c = Some off"
  by (auto simp: fat_entry_offset_def)

lemma fat_read_step:
  assumes "read_ready f buf b s"
  defines "dev \<equiv> get_dev_by_id (f_dev f) s"
  defines "dv \<equiv> dev_store s dev"
  shows "\<exists>m. fat_read f buf s = Some
       (case fat_link (m_type (dv_minfo dv)) (fat_byte (media s (dv_id dv)) (dv_minfo dv)) (unat (f_current_cluster f)) of
          None \<Rightarrow> f\<lparr>f_eof := 1\<rparr> | Some c \<Rightarrow> f\<lparr>f_current_cluster := of_nat c\<rparr>, s\<lparr>ram := m\<rparr>)
    \<and> load_bytes m buf 512 = media s (dv_id dv) (get_phys_sector f)
    \<and> (\<forall>x. x \<notin> region b 512 \<union> region buf 512 \<union> region (FAT_buf s) 1024 \<longrightarrow> m x = ram s x)"
proof -
  let ?w = "media s (dv_id dv)" and ?mi = "dv_minfo dv"
  have r: "sector_device b (dev_store s dev)" "\<And>lba. length (?w lba) = 512"
    "region b 512 \<inter> region buf 512 = {}" "region b 512 \<inter> region (FAT_buf s) 1024 = {}"
    "region buf 512 \<inter> region (FAT_buf s) 1024 = {}"
    "m_type ?mi \<in> {FAT12, FAT16, FAT32}" "unat (f_current_cluster f) < 2 ^ 28"
    using assms(1) by (simp_all add: read_ready_def Let_def dv_def dev_def)
  obtain off where off: "fat_entry_offset (m_type ?mi) (f_current_cluster f) = Some off"
    using fat_entry_offset_defined [OF r(6)] by blast
  define sec where "sec = m_fat_offset ?mi + off div SECTOR_SIZE"
  define F where "F = FAT_buf s"
  have sub: "region F 512 \<subseteq> region F 1024" "region (F + 512) 512 \<subseteq> region F 1024"
    using region_off [of 0 512 1024 F] region_off [of 512 512 1024 F] by simp_all
  define m1 where "m1 = store_bytes (store_bytes (ram s) b (?w (get_phys_sector f))) buf (?w (get_phys_sector f))"
  define m2 where "m2 = store_bytes (store_bytes m1 b (?w sec)) F (?w sec)"
  define m3 where "m3 = store_bytes (store_bytes m2 b (?w (sec + 1))) (F + 512) (?w (sec + 1))"
  have d: "region b 512 \<inter> region F 512 = {}" "region b 512 \<inter> region (F + 512) 512 = {}"
    using r(4) sub by (auto simp: F_def)
  have read: "fat_read f buf s = Some (case fat_next (m_type ?mi) m3 (F + off mod SECTOR_SIZE) (f_current_cluster f) of
      None \<Rightarrow> f\<lparr>f_eof := 1\<rparr> | Some nxt \<Rightarrow> f\<lparr>f_current_cluster := nxt\<rparr>, s\<lparr>ram := m3\<rparr>)"
    using dev_read_copy [of b s dev "get_phys_sector f" buf] dev_read_copy [of b "s\<lparr>ram := m1\<rparr>" dev sec F]
      dev_read_copy [of b "s\<lparr>ram := m2\<rparr>" dev "sec + 1" "F + 512"] r(1-3) d off
    by (simp add: fat_read_def Let_def dev_def [symmetric] dv_def [symmetric] sec_def [unfolded SECTOR_SIZE_def, symmetric] F_def [symmetric]
      m1_def [symmetric] m2_def [symmetric] m3_def [symmetric] SECTOR_SIZE_def)
  have off': "unat (off mod SECTOR_SIZE) < 512" "512 * unat (off div SECTOR_SIZE) + unat (off mod SECTOR_SIZE) = unat off"
    by (simp_all add: SECTOR_SIZE_def unat_mod unat_div)
  have "unat (m3 (F + off mod SECTOR_SIZE + of_nat k)) = fat_byte ?w ?mi (unat off + k)" if "k < 4" for k
  proof -
    have "unat (m3 (F + of_nat (unat (off mod SECTOR_SIZE) + k)))
        = fat_byte ?w ?mi (512 * unat (off div SECTOR_SIZE) + (unat (off mod SECTOR_SIZE) + k))"
      unfolding m3_def m2_def using off'(1) that r(2) d(1)
      by (intro fat_window) (simp_all add: sec_def)
    then show ?thesis by (simp only: of_nat_add of_nat_unat_u32 add.assoc [symmetric] off'(2))
  qed
  then have "\<forall>k<4. unat (m3 (F + off mod SECTOR_SIZE + of_nat k)) = fat_byte ?w ?mi (unat off + k)" by blast
  from fat_next_link [OF this r(7) off refl r(6)]
  have link: "map_option unat (fat_next (m_type ?mi) m3 (F + off mod SECTOR_SIZE) (f_current_cluster f))
    = fat_link (m_type ?mi) (fat_byte ?w ?mi) (unat (f_current_cluster f))" .
  have out: "m3 x = ram s x" if "x \<notin> region b 512 \<union> region buf 512 \<union> region F 1024" for x
  proof -
    have "x \<notin> region b 512" "x \<notin> region buf 512" "x \<notin> region F 512" "x \<notin> region (F + 512) 512"
      using that sub by blast+
    then show ?thesis by (simp only: m3_def m2_def m1_def store_bytes_outside r(2) not_False_eq_True)
  qed
  have "load_bytes m3 buf 512 = load_bytes m1 buf 512"
  proof (rule load_bytes_cong)
    fix x assume "x \<in> region buf 512"
    then have "x \<notin> region b 512" "x \<notin> region F 512" "x \<notin> region (F + 512) 512"
      using r(3,5) sub by (auto simp: F_def [symmetric])
    then show "m3 x = m1 x" by (simp only: m3_def m2_def store_bytes_outside r(2) not_False_eq_True)
  qed simp
  also have "\<dots> = ?w (get_phys_sector f)" unfolding m1_def by (rule load_512_sector) (rule r(2))
  finally have buf: "load_bytes m3 buf 512 = ?w (get_phys_sector f)" .
  have res: "(case fat_next (m_type ?mi) m3 (F + off mod SECTOR_SIZE) (f_current_cluster f) of
      None \<Rightarrow> f\<lparr>f_eof := 1\<rparr> | Some nxt \<Rightarrow> f\<lparr>f_current_cluster := nxt\<rparr>)
    = (case fat_link (m_type ?mi) (fat_byte ?w ?mi) (unat (f_current_cluster f)) of
      None \<Rightarrow> f\<lparr>f_eof := 1\<rparr> | Some c \<Rightarrow> f\<lparr>f_current_cluster := of_nat c\<rparr>)"
    unfolding link [symmetric] by (simp split: option.split)
  show ?thesis unfolding read res using out buf
    by (intro exI [of _ m3]) (simp add: F_def)
qed

text \<open>A read copies the file's current sector to the buffer, and advances the file along the
  chain that the allocation table holds for its cluster: to the next cluster, or to the end of
  file.  The table is read as an array of bytes, so entries that lie across two sectors are
  included; nothing but the buffers changes.\<close>
theorem fat_read_chain:
  assumes "read_ready f buf b s"
  defines "dev \<equiv> get_dev_by_id (f_dev f) s"
  defines "dv \<equiv> dev_store s dev"
  shows "\<exists>s'. fat_read f buf s = Some
       (case fat_link (m_type (dv_minfo dv)) (fat_byte (media s (dv_id dv)) (dv_minfo dv)) (unat (f_current_cluster f)) of
          None \<Rightarrow> f\<lparr>f_eof := 1\<rparr> | Some c \<Rightarrow> f\<lparr>f_current_cluster := of_nat c\<rparr>, s')
    \<and> load_bytes (ram s') buf 512 = media s (dv_id dv) (get_phys_sector f) \<and> media s' = media s
    \<and> (\<forall>x. x \<notin> region b 512 \<union> region buf 512 \<union> region (FAT_buf s) 1024 \<longrightarrow> ram s' x = ram s x)"
proof -
  from fat_read_step [OF assms(1)] obtain m where "fat_read f buf s = Some
       (case fat_link (m_type (dv_minfo dv)) (fat_byte (media s (dv_id dv)) (dv_minfo dv)) (unat (f_current_cluster f)) of
          None \<Rightarrow> f\<lparr>f_eof := 1\<rparr> | Some c \<Rightarrow> f\<lparr>f_current_cluster := of_nat c\<rparr>, s\<lparr>ram := m\<rparr>)"
    "load_bytes m buf 512 = media s (dv_id dv) (get_phys_sector f)"
    "\<forall>x. x \<notin> region b 512 \<union> region buf 512 \<union> region (FAT_buf s) 1024 \<longrightarrow> m x = ram s x"
    unfolding dv_def dev_def by blast
  then show ?thesis by (intro exI [of _ "s\<lparr>ram := m\<rparr>"]) simp
qed

section \<open>Names back from the disk\<close>

fun normal_bytes :: "bool \<Rightarrow> u8 list \<Rightarrow> u8 list" where
  "normal_bytes flag [] = []"
| "normal_bytes flag (c # cs) = (if c \<noteq> of_char CHR '' '' then tolower c # normal_bytes flag cs
     else if flag then of_char CHR ''.'' # normal_bytes False cs
     else normal_bytes flag cs)"

lemma normal_bytes_word: "of_char CHR '' '' \<notin> set xs \<Longrightarrow> normal_bytes flag (xs @ ys) = map tolower xs @ normal_bytes flag ys"
  by (induction xs) auto

lemma normal_bytes_blanks: "normal_bytes False (replicate n (of_char CHR '' '') @ ys) = normal_bytes False ys"
  by (induction n) auto

lemma normal_bytes_length: "length (normal_bytes flag cs) \<le> length cs"
  by (induction flag cs rule: normal_bytes.induct) (auto intro: le_SucI)

text \<open>The loop writes \<open>normal_bytes\<close> of the stored name; the flag counts only where the second character
  of the extension is not a blank.\<close>

lemma normal_loop_eq:
  assumes "cstr m name d" "length d = 11" "region name 12 \<inter> region str 12 = {}"
    "i \<le> 11" "j \<le> i"
  defines "q \<equiv> \<lambda>fl. fl \<and> d ! 9 \<noteq> of_char CHR '' ''"
  shows "normal_loop (11 - i) name str i j flag m
    = Some (j + length (normal_bytes (q flag) (drop i d)), store_bytes m (str + of_nat j) (normal_bytes (q flag) (drop i d)))"
  using assms(1,4,5)
proof (induction "11 - i" arbitrary: i j flag m)
  case 0
  then show ?case using assms(2) by simp
next
  case (Suc n)
  have i: "i < 11" "11 - i = Suc (11 - Suc i)" using Suc.hyps(2) by simp_all
  have len: "strlen m name = Some 11" using strlen_cstr [OF Suc.prems(1)] assms(2) by simp
  have at: "m (name + of_nat i) = d ! i" "m (name + 9) = d ! 9"
    using cstr_nth [OF Suc.prems(1), of i] cstr_nth [OF Suc.prems(1), of 9] i assms(2) by simp_all
  have dr: "drop i d = d ! i # drop (Suc i) d" using i assms(2) by (simp add: Cons_nth_drop_Suc)
  have keep: "cstr (m(str + of_nat j := x)) name d" for x
  proof -
    have "str + of_nat j \<in> region str 12" using Suc.prems(3) i by (simp add: in_region_off)
    then have "str + of_nat j \<notin> region name 12" using assms(3) by blast
    then have "(m(str + of_nat j := x)) a = m a" if "a \<in> region name 12" for a using that by auto
    with cstr_cong [of d name "m(str + of_nat j := x)" m] assms(2) Suc.prems(1) show ?thesis by simp
  qed
  have step: "normal_loop (11 - Suc i) name str (Suc i) (Suc j) fl (m(str + of_nat j := x))
      = Some (j + length (x # normal_bytes (q fl) (drop (Suc i) d)), store_bytes m (str + of_nat j) (x # normal_bytes (q fl) (drop (Suc i) d)))" for fl x
  proof -
    have "length (normal_bytes (q fl) (drop (Suc i) d)) < 2 ^ 32 - 1"
      using normal_bytes_length [of "q fl" "drop (Suc i) d"] assms(2) by simp
    from store_bytes_Cons [OF this, of m "str + of_nat j" x]
    have "store_bytes (m(str + of_nat j := x)) (str + of_nat (Suc j)) (normal_bytes (q fl) (drop (Suc i) d))
        = store_bytes m (str + of_nat j) (x # normal_bytes (q fl) (drop (Suc i) d))"
      by (simp only: of_nat_Suc ac_simps)
    then show ?thesis using Suc.hyps(1) [of "Suc i" "m(str + of_nat j := x)" "Suc j" fl] keep Suc.hyps(2) Suc.prems(3) i by simp
  qed
  have skip: "normal_loop (11 - Suc i) name str (Suc i) j fl m
      = Some (j + length (normal_bytes (q fl) (drop (Suc i) d)), store_bytes m (str + of_nat j) (normal_bytes (q fl) (drop (Suc i) d)))" for fl
    using Suc.hyps(1) [of "Suc i" m j fl] Suc.prems Suc.hyps(2) i by simp
  have qf: "q False = False" "q flag \<longleftrightarrow> flag \<and> d ! 9 \<noteq> of_char CHR '' ''" by (simp_all add: q_def)
  show ?case unfolding i(2) dr using len at i step [of flag] step [of False] skip [of flag] qf by simp
qed

lemma tolower_toupper [simp]: "tolower (toupper c) = c"
  by (simp add: tolower_def toupper_def)

lemma map_tolower_toupper: "map tolower (map toupper xs) = xs"
  by (induction xs) simp_all

text \<open>The stored form of a name without characters that \<open>toupper\<close> turns into a zero or a blank.\<close>

definition upper_safe :: "u8 list \<Rightarrow> bool" where
  "upper_safe xs \<longleftrightarrow> set xs \<inter> {0, of_char CHR '' '', of_char CHR ''@''} = {}"

lemma toupper_safe:
  assumes "upper_safe xs"
  shows "0 \<notin> set (map toupper xs)" "of_char CHR '' '' \<notin> set (map toupper xs)"
proof -
  have "toupper c \<noteq> 0 \<and> toupper c \<noteq> of_char CHR '' ''" if "c \<in> set xs" for c
  proof -
    have "c \<noteq> 32" "c \<noteq> 64" using that assms by (auto simp: upper_safe_def)
    then show ?thesis unfolding toupper_def by (auto simp: diff_eq_eq)
  qed
  then show "0 \<notin> set (map toupper xs)" "of_char CHR '' '' \<notin> set (map toupper xs)" by fastforce+
qed

text \<open>What the stored form of a name is turned back into: the dot is written at the first blank, and only
  where the extension has two characters.\<close>

definition shown_83 :: "u8 list \<Rightarrow> u8 list \<Rightarrow> u8 list" where
  "shown_83 b e = (if length e < 2 then b @ e
     else if length b < 8 then b @ of_char CHR ''.'' # e
     else if length e = 2 then b @ e @ [of_char CHR ''.'']
     else b @ e)"

lemma normal_bytes_dos:
  assumes "length b \<le> 8" "length e \<le> 3" "upper_safe (b @ e)"
  defines "d \<equiv> dos_bytes b e @ replicate (3 - length e) (of_char CHR '' '')"
  shows "normal_bytes (d ! 9 \<noteq> of_char CHR '' '') d = shown_83 b e"
proof -
  have safe: "upper_safe b" "upper_safe e" using assms(3) by (auto simp: upper_safe_def)
  have nb: "normal_bytes fl (map toupper xs @ ys) = xs @ normal_bytes fl ys" if "upper_safe xs" for fl xs ys
    using normal_bytes_word [OF toupper_safe(2) [OF that]] by (simp add: map_tolower_toupper del: map_map)
  have bl: "normal_bytes False (replicate n (of_char CHR '' '')) = []" for n
    using normal_bytes_blanks [of n "[]"] by simp
  define t where "t = map toupper e @ replicate (3 - length e) (of_char CHR '' '')"
  have t: "length t = 3" using assms(2) by (simp add: t_def)
  have d: "d = map toupper b @ replicate (8 - length b) (of_char CHR '' '') @ t"
    by (simp add: d_def dos_bytes_def t_def)
  have "d ! 9 = t ! 1"
    using assms(1) t nth_append [of "map toupper b @ replicate (8 - length b) (of_char CHR '' '')" t 9] by (simp add: d)
  also have "(t ! 1 = of_char CHR '' '') \<longleftrightarrow> length e < 2"
  proof (cases "length e < 2")
    case True
    then show ?thesis by (cases e) (auto simp: t_def nth_append)
  next
    case False
    then have "toupper (e ! 1) \<in> set (map toupper e)" "t ! 1 = toupper (e ! 1)" by (simp_all add: t_def nth_append)
    then show ?thesis using toupper_safe(2) [OF safe(2)] False by metis
  qed
  finally have flag: "(d ! 9 \<noteq> of_char CHR '' '') \<longleftrightarrow> 2 \<le> length e" by auto
  have f: "normal_bytes False d = b @ e"
    unfolding d t_def using nb [OF safe(1)] nb [OF safe(2)] normal_bytes_blanks bl by simp
  show ?thesis
  proof (cases "length e < 2")
    case True
    then show ?thesis using f flag by (simp add: shown_83_def)
  next
    case e: False
    show ?thesis
    proof (cases "length b < 8")
      case True
      then obtain n where n: "8 - length b = Suc n" by (cases "8 - length b") auto
      have "normal_bytes True d = b @ of_char CHR ''.'' # e"
        unfolding d t_def n using nb [OF safe(1)] nb [OF safe(2)] normal_bytes_blanks bl by simp
      then show ?thesis using True e flag by (simp add: shown_83_def)
    next
      case False
      then have "8 - length b = 0" by simp
      then have "normal_bytes True d = b @ e @ normal_bytes True (replicate (3 - length e) (of_char CHR '' ''))"
        unfolding d t_def using nb [OF safe(1)] nb [OF safe(2)] by simp
      moreover have "3 - length e = (if length e = 2 then 1 else 0)" using e assms(2) by auto
      ultimately show ?thesis using False e flag by (auto simp: shown_83_def)
    qed
  qed
qed

lemma shown_83_length: "length b \<le> 8 \<Longrightarrow> length e \<le> 3 \<Longrightarrow> length (shown_83 b e) \<le> 11"
  by (simp add: shown_83_def)

text \<open>C28: what happens to an 8.3 name on the way to the disk and back, for every base of up to eight and
  every extension of up to three characters (but blanks and at signs, which \<open>toupper\<close> maps to an end mark
  and a blank).  The stored form holds base and extension, each mapped by \<open>toupper\<close> and padded with
  blanks.  The name that \<open>to_normal_file_name\<close> makes of it is the original one without an extension, or
  with a base of at most seven and an extension of at least two characters.  An extension of one
  character and one of three behind a base of eight lose their dot, and behind a base of eight an
  extension of two gets it at its end.\<close>
theorem dos_name_roundtrip:
  assumes "name_83 b e name" "set (b @ e) \<inter> {of_char CHR '' '', of_char CHR ''@''} = {}"
    "dos \<noteq> 0" "str \<noteq> 0" "region dos 12 \<inter> region str 12 = {}"
  shows "\<exists>m1 m2. to_dos_file_name name dos m = Some m1
    \<and> load_bytes m1 dos 11 = map toupper b @ replicate (8 - length b) (of_char CHR '' '')
        @ map toupper e @ replicate (3 - length e) (of_char CHR '' '')
    \<and> to_normal_file_name dos str m1 = Some m2
    \<and> cstr m2 str (if length e < 2 then b @ e
        else if length b < 8 then b @ of_char CHR ''.'' # e
        else if length e = 2 then b @ e @ [of_char CHR ''.'']
        else b @ e)"
proof -
  have le: "length b \<le> 8" "length e \<le> 3" and safe: "upper_safe (b @ e)"
    using assms(1,2) by (auto simp: name_83_def upper_safe_def)
  define d where "d = dos_bytes b e @ replicate (3 - length e) (of_char CHR '' '')"
  have d: "length d = 11" "0 \<notin> set d" using le toupper_safe(1) [OF safe] by (auto simp: d_def dos_bytes_def)
  let ?m1 = "store_bytes m dos (d @ [0])"
  have dosn: "to_dos_file_name name dos m = Some ?m1"
    using to_dos_file_name_83 [OF assms(1,3), of m] by (simp add: d_def)
  have ld: "load_bytes ?m1 dos 11 = d"
    by (rule nth_equalityI) (simp_all add: d load_bytes_nth store_bytes_nth nth_append)
  let ?m = "memset ?m1 str (of_char CHR '' '') NAME_LEN"
  have ms: "?m = store_bytes ?m1 str (replicate 11 (of_char CHR '' ''))"
    by (rule ext) (simp add: memset_def store_bytes_def NAME_LEN_def)
  have c: "cstr ?m dos d" unfolding ms
    by (rule cstr_store_bytes_le [OF cstr_store_bytes_self]) (use d assms(5) in auto)
  define out where "out = shown_83 b e"
  have nb: "normal_bytes (d ! 9 \<noteq> of_char CHR '' '') d = out"
    unfolding d_def out_def by (rule normal_bytes_dos [OF le safe])
  have out: "length out \<le> 11" "0 \<notin> set out"
    using shown_83_length [OF le] safe by (auto simp: out_def shown_83_def upper_safe_def split: if_splits)
  have "normal_loop 11 dos str 0 0 True ?m = Some (length out, store_bytes ?m str out)"
    using normal_loop_eq [OF c d(1) assms(5), of 0 0 True] nb by simp
  then have "to_normal_file_name dos str ?m1 = Some ((store_bytes ?m str out)(str + of_nat (length out) := 0))"
    using assms(3,4) by (simp add: to_normal_file_name_def Let_def NAME_LEN_def)
  moreover have "(store_bytes ?m str out)(str + of_nat (length out) := 0) = store_bytes ?m str (out @ [0])"
    using out by (intro store_bytes_snoc) simp
  moreover have "cstr (store_bytes ?m str (out @ [0])) str out"
    using out by (intro cstr_store_bytes_self) auto
  ultimately have "to_dos_file_name name dos m = Some ?m1 \<and> load_bytes ?m1 dos 11 = d
      \<and> to_normal_file_name dos str ?m1 = Some (store_bytes ?m str (out @ [0])) \<and> cstr (store_bytes ?m str (out @ [0])) str out"
    using dosn ld by simp
  then have "\<exists>m1 m2. to_dos_file_name name dos m = Some m1 \<and> load_bytes m1 dos 11 = d
      \<and> to_normal_file_name dos str m1 = Some m2 \<and> cstr m2 str out" by blast
  then show ?thesis by (simp only: d_def dos_bytes_def out_def shown_83_def append_assoc)
qed


section \<open>Witnesses\<close>

text \<open>A FAT12 volume on device 2, whose table chains cluster 3 to cluster 4.\<close>

definition demo_table :: "u8 list" where
  "demo_table = replicate 4 0 @ [0x40, 0, 0xFF] @ replicate 505 0"

definition demo_fs :: fs_state where
  "demo_fs = proc_state.extend demo_sched
     \<lparr>devices = [0, 0, 0x7000, 0, 0, 0, 0, 0],
      dev_store = (\<lambda>d. ideal_device 0x1000 (if d = 0x7000 then 2 else 99) (lit ''hdd'')
         \<lparr>m_type = FAT12, m_n_sectors = 2880, m_fat_offset = 1, m_n_root_entries = 224, m_root_offset = 19,
          m_root_size = 14, m_fat_size = 9, m_fat_entry_size = 8, m_first_data_sector = 33, m_data_sectors = 2847\<rparr>),
      mounted = replicate 26 0, media = (\<lambda>n lba. if lba = 1 then demo_table else replicate 512 7),
      dma_buffer = 0x1000, FAT_buf = 0x3000, dir_sector = 0, files = (\<lambda>_. undefined)\<rparr>"

lemma demo_fs_simps:
  "devices demo_fs = [0, 0, 0x7000, 0, 0, 0, 0, 0]" "media demo_fs n lba = (if lba = 1 then demo_table else replicate 512 7)"
  "dv_id (dev_store demo_fs d) = (if d = 0x7000 then 2 else 99)" "sector_device 0x1000 (dev_store demo_fs d)"
  "m_type (dv_minfo (dev_store demo_fs d)) = FAT12" "m_fat_offset (dv_minfo (dev_store demo_fs d)) = 1"
  "FAT_buf demo_fs = 0x3000"
  by (simp_all add: demo_fs_def proc_state.defs ideal_sector_device) (simp_all add: ideal_device_def)

lemma demo_registry: "registry demo_fs"
proof -
  have lt: "{..<8} = {0, 1, 2, 3, 4, 5, 6, 7 :: nat}" by auto
  have "dv_id (dev_store demo_fs (devices demo_fs ! i)) = of_nat i" if "i < 8" "devices demo_fs ! i \<noteq> 0" for i
  proof -
    from that(1) have "i \<in> {0, 1, 2, 3, 4, 5, 6, 7}" unfolding lt [symmetric] by simp
    then show ?thesis using that(2) by (auto simp: demo_fs_simps)
  qed
  then show ?thesis by (simp add: registry_def lt) (simp add: demo_fs_simps)
qed

theorem get_dev_by_id_registered_witness: "get_dev_by_id 2 demo_fs = 0x7000 \<and> get_dev_by_id 5 demo_fs = 0"
  using get_dev_by_id_registered [OF demo_registry, of 2] get_dev_by_id_registered [OF demo_registry, of 5]
  by (simp add: demo_fs_simps)

definition demo_file :: fs_file where
  "demo_file = \<lparr>f_name = (\<lambda>_. 0), f_flags = 0, f_len = 600, f_eof = 0, f_dev = 2, f_current_cluster = 3, f_type = FS_FILE\<rparr>"

lemma demo_dev2: "get_dev_by_id 2 demo_fs = 0x7000"
  by (simp add: get_dev_by_id_def find_dev_def demo_fs_simps)

theorem fat_read_chain_witness:
  "\<exists>s'. fat_read demo_file 0x2000 demo_fs = Some (demo_file\<lparr>f_current_cluster := 4\<rparr>, s')"
proof -
  have ready: "read_ready demo_file 0x2000 0x1000 demo_fs"
    by (simp add: read_ready_def Let_def demo_fs_simps demo_file_def demo_dev2 demo_table_def region_apart)
  have link: "fat_link FAT12 (fat_byte (media demo_fs 2) (dv_minfo (dev_store demo_fs 0x7000))) 3 = Some 4"
    by (simp add: fat_link_def fat_byte_def demo_fs_simps demo_table_def nth_append)
  show ?thesis using fat_read_chain [OF ready] link by (auto simp: demo_file_def demo_dev2 demo_fs_simps)
qed

text \<open>One name that comes back, and one whose dot is lost.\<close>

theorem dos_name_roundtrip_witness:
  "(\<exists>m1 m2. to_dos_file_name (nth (lit ''a.txt'' @ [0])) 0x1000 (\<lambda>_. 0) = Some m1
    \<and> to_normal_file_name 0x1000 0x2000 m1 = Some m2 \<and> cstr m2 0x2000 (lit ''a.txt''))
  \<and> (\<exists>m1 m2. to_dos_file_name (nth (lit ''main.c'' @ [0, 0, 0])) 0x1000 (\<lambda>_. 0) = Some m1
    \<and> to_normal_file_name 0x1000 0x2000 m1 = Some m2 \<and> cstr m2 0x2000 (lit ''mainc''))"
proof -
  have "name_83 (lit ''a'') (lit ''txt'') (nth (lit ''a.txt'' @ [0]))" "name_83 (lit ''main'') (lit ''c'') (nth (lit ''main.c'' @ [0, 0, 0]))"
    by (simp_all add: name_83_def lit_def All_less_Suc numeral_3_eq_3)
  then show ?thesis
    using dos_name_roundtrip [of "lit ''a''" "lit ''txt''" "nth (lit ''a.txt'' @ [0])" "0x1000" "0x2000" "\<lambda>_. 0"]
      dos_name_roundtrip [of "lit ''main''" "lit ''c''" "nth (lit ''main.c'' @ [0, 0, 0])" "0x1000" "0x2000" "\<lambda>_. 0"]
    by (auto simp: lit_def region_apart)
qed

end
