(* ===== verification/Vfs.thy ===== *)
theory Vfs
  imports Fat
begin

text \<open>
  The virtual file system, \<open>fs/vfs.c\<close>, and the registration of a device, \<open>device_register\<close> of
  \<open>hal/device.c\<close>.  The table \<open>devs\<close> holds pointers to the operation table inside a device, at
  offset 20 of the structure; a call through a table that no file system has filled has no
  result.  Names are pointers into linear memory, \<open>ld\<close> gives the address of a string literal, and
  \<open>f0\<close> and \<open>junk\<close> are the contents of uninitialised locals, as in theory Fat.
\<close>

definition FS_OFFSET :: u32 where "FS_OFFSET = 20"

text \<open>The entry of a device in \<open>devs\<close>; an index outside the array has no result.\<close>

definition devs_at :: "u32 \<Rightarrow> 'a fs_state_scheme \<Rightarrow> u32 option" where
  "devs_at d s = (if unat d < MAX_DEVICES \<and> unat d < length (mounted s) then Some (mounted s ! unat d) else None)"

definition set_devs :: "u32 \<Rightarrow> u32 \<Rightarrow> 'a fs_state_scheme \<Rightarrow> 'a fs_state_scheme option" where
  "set_devs d p s = (if unat d < MAX_DEVICES \<and> unat d < length (mounted s)
     then Some (s\<lparr>mounted := (mounted s)[unat d := p]\<rparr>) else None)"

definition fs_table :: "u32 \<Rightarrow> 'a fs_state_scheme \<Rightarrow> filesystem" where
  "fs_table p s = dv_fs (dev_store s (p - FS_OFFSET))"

definition fs_call :: "u32 \<Rightarrow> 'a fs_state_scheme \<Rightarrow> 'b option \<Rightarrow> 'b option" where
  "fs_call p s fat = (case fs_table p s of Fs_fat \<Rightarrow> fat | Fs_none \<Rightarrow> None)"

section \<open>Mounting\<close>

definition vfs_init :: "'a fs_state_scheme \<Rightarrow> 'a fs_state_scheme" where
  "vfs_init s = s\<lparr>mounted := replicate MAX_DEVICES 0\<rparr>"

text \<open>The test \<open>&dev->fs\<close> is true even for a NULL device, because of the offset of the field.\<close>

definition vfs_mount_dev :: "u32 \<Rightarrow> 'a fs_state_scheme \<Rightarrow> 'a fs_state_scheme option" where
  "vfs_mount_dev dev s = (if dev + FS_OFFSET \<noteq> 0 then do {
       s \<leftarrow> set_devs (dv_id (dev_store s dev)) (dev + FS_OFFSET) s;
       fat_mount dev s
     } else Some s)"

definition vfs_mount :: "u32 \<Rightarrow> 'a fs_state_scheme \<Rightarrow> 'a fs_state_scheme option" where
  "vfs_mount name s = vfs_mount_dev (get_dev_by_name name s) s"

definition vfs_unmount :: "u32 \<Rightarrow> 'a fs_state_scheme \<Rightarrow> 'a fs_state_scheme option" where
  "vfs_unmount name s = (let dev = get_dev_by_name name s in
     if dev + FS_OFFSET \<noteq> 0 then set_devs (dv_id (dev_store s dev)) 0 s else Some s)"

text \<open>\<open>device_register\<close> mounts under the device's own name; a negative id writes before the array.\<close>

definition device_register :: "u32 \<Rightarrow> 'a fs_state_scheme \<Rightarrow> 'a fs_state_scheme option" where
  "device_register dev s = (let n = dv_id (dev_store s dev) in
     if sint n < 8 then
       if sint n < 0 \<or> length (devices s) \<le> unat n then None
       else
         let s = s\<lparr>devices := (devices s)[unat n := dev]\<rparr>
         in vfs_mount_dev (get_dev_by_key (mount_key (dv_mount (dev_store s dev))) s) s
     else Some s)"

section \<open>Directories\<close>

definition print_mount :: "u32 \<Rightarrow> 'a fs_state_scheme \<Rightarrow> 'a fs_state_scheme" where
  "print_mount d s = kprint (map (\<lambda>c. char_of (unat c)) (dv_mount (dev_store s d)) @ NL) [] s"

definition vfs_ls :: "'a fs_state_scheme \<Rightarrow> 'a fs_state_scheme option" where
  "vfs_ls s = fold (\<lambda>i r. do {
     s \<leftarrow> r;
     p \<leftarrow> devs_at (of_nat i) s;
     let dev = get_dev_by_id (of_nat i) s;
     Some (if p \<noteq> 0 \<and> dev \<noteq> 0 then print_mount dev s else s)
   }) [0..<MAX_DEVICES] (Some s)"

text \<open>The device that a path names, and its entry in \<open>devs\<close>; \<open>Some 0\<close> when there is none.\<close>

definition path_fs :: "u32 \<Rightarrow> 'a fs_state_scheme \<Rightarrow> u32 option" where
  "path_fs name s = (let d = get_dev_id_by_name name s in if 0 \<le> sint d then devs_at d s else Some 0)"

definition vfs_ls_dir :: "u32 \<Rightarrow> 'a fs_state_scheme \<Rightarrow> 'a fs_state_scheme option" where
  "vfs_ls_dir dir s = do {
     p \<leftarrow> path_fs dir s;
     if p \<noteq> 0 then fs_call p s (fat_ls (dir + 1) s) else Some s
   }"

definition vfs_cd ::
  "fs_file \<Rightarrow> char_array \<Rightarrow> u32 \<Rightarrow> 'a fs_state_scheme \<Rightarrow> (u32 \<times> 'a fs_state_scheme) option" where
  "vfs_cd f0 junk name s = do {
     p \<leftarrow> path_fs name s;
     if p \<noteq> 0 then do {
       sub \<leftarrow> strchr (ram s) (name + 1) (of_char CHR ''/'');
       if sub \<noteq> 0 then do {
         (f, s) \<leftarrow> fs_call p s (fat_cd f0 junk (name + 1) s);
         Some (if f_type f = FS_DIR then 1 else 0, s)
       }
       else Some (1, s)
     }
     else Some (0, s)
   }"

definition vfs_touch ::
  "fs_file \<Rightarrow> char_array \<Rightarrow> u32 \<Rightarrow> 'a fs_state_scheme \<Rightarrow> (u32 \<times> 'a fs_state_scheme) option" where
  "vfs_touch f0 junk name s = do {
     p \<leftarrow> path_fs name s;
     if p \<noteq> 0 then fs_call p s (fat_touch f0 junk (name + 1) s) else Some (0, s)
   }"

definition vfs_delete ::
  "fs_file \<Rightarrow> char_array \<Rightarrow> u32 \<Rightarrow> 'a fs_state_scheme \<Rightarrow> (u32 \<times> 'a fs_state_scheme) option" where
  "vfs_delete f0 junk name s = do {
     p \<leftarrow> path_fs name s;
     if p \<noteq> 0 then fs_call p s (fat_delete f0 junk (name + 1) s) else Some (0, s)
   }"

section \<open>Files\<close>

definition upd_file :: "u32 \<Rightarrow> (fs_file \<Rightarrow> fs_file) \<Rightarrow> 'a fs_state_scheme \<Rightarrow> 'a fs_state_scheme" where
  "upd_file p f s = s\<lparr>files := (files s)(p := f (files s p))\<rparr>"

text \<open>Mode \<open>w\<close> sets the length of an existing file to 0.\<close>

definition open_mode :: "(string \<Rightarrow> u32) \<Rightarrow> u32 \<Rightarrow> u32 \<Rightarrow> 'a fs_state_scheme \<Rightarrow> 'a fs_state_scheme option" where
  "open_mode ld mode f s = do {
     r \<leftarrow> strcmp (ram s) mode (ld ''w'');
     Some (if r = 0 then upd_file f (\<lambda>x. x\<lparr>f_len := 0\<rparr>) s else s)
   }"

definition vfs_file_open ::
  "(string \<Rightarrow> u32) \<Rightarrow> fs_file \<Rightarrow> char_array \<Rightarrow> u32 \<Rightarrow> u32 \<Rightarrow> 'a fs_state_scheme \<Rightarrow> (u32 \<times> 'a fs_state_scheme) option"
where
  "vfs_file_open ld f0 junk name mode s = do {
     let d = get_dev_id_by_name name s;
     (f, s) \<leftarrow> kmalloc 56 s;
     p \<leftarrow> (if 0 \<le> sint d then devs_at d s else Some 0);
     if p \<noteq> 0 then do {
       (x, s) \<leftarrow> fs_call p s (fat_open f0 junk (name + 1) s);
       let s = upd_file f (\<lambda>_. x) s;
       if f_type x = FS_FILE then do { s \<leftarrow> open_mode ld mode f s; Some (f, s) }
       else Some (f, upd_file f (\<lambda>x. x\<lparr>f_type := FS_NULL\<rparr>) s)
     }
     else Some (f, upd_file f (\<lambda>x. x\<lparr>f_type := FS_NULL\<rparr>) s)
   }"

definition vfs_file_open_user ::
  "(string \<Rightarrow> u32) \<Rightarrow> fs_file \<Rightarrow> char_array \<Rightarrow> u32 \<Rightarrow> u32 \<Rightarrow> 'a fs_state_scheme \<Rightarrow> (u32 \<times> 'a fs_state_scheme) option"
where
  "vfs_file_open_user ld f0 junk name mode s = (let cur = get_cur_proc s in
     if cur \<noteq> 0 \<and> pr_thread_list (procs s cur) \<noteq> 0 then do {
       (f, s) \<leftarrow> umalloc 56 (th_heap (threads s (pr_thread_list (procs s cur)))) s;
       p \<leftarrow> path_fs name s;
       if p \<noteq> 0 then do {
         (x, s) \<leftarrow> fs_call p s (fat_open f0 junk (name + 1) s);
         let s = upd_file f (\<lambda>_. x) s;
         if f_type x = FS_FILE then do { s \<leftarrow> open_mode ld mode f s; Some (f, s) }
         else Some (0, s)
       }
       else Some (0, s)
     }
     else Some (0, s))"

definition vfs_file_read :: "u32 \<Rightarrow> u32 \<Rightarrow> 'a fs_state_scheme \<Rightarrow> 'a fs_state_scheme option" where
  "vfs_file_read f str s = (if f \<noteq> 0 then do {
       p \<leftarrow> devs_at (f_dev (files s f)) s;
       if p \<noteq> 0 then do {
         (x, s) \<leftarrow> fs_call p s (fat_read (files s f) str s);
         Some (upd_file f (\<lambda>_. x) s)
       }
       else Some s
     } else Some s)"

definition vfs_file_write :: "u32 \<Rightarrow> u32 \<Rightarrow> 'a fs_state_scheme \<Rightarrow> 'a fs_state_scheme option" where
  "vfs_file_write f str s = (if f \<noteq> 0 then do {
       p \<leftarrow> devs_at (f_dev (files s f)) s;
       if p \<noteq> 0 then do {
         (x, s) \<leftarrow> fs_call p s (fat_write (files s f) str s);
         Some (upd_file f (\<lambda>_. x) s)
       }
       else Some s
     } else Some s)"

definition vfs_file_close :: "u32 \<Rightarrow> 'a fs_state_scheme \<Rightarrow> 'a fs_state_scheme option" where
  "vfs_file_close f s = (if f \<noteq> 0 then do {
       p \<leftarrow> devs_at (f_dev (files s f)) s;
       if p \<noteq> 0 then do {
         s \<leftarrow> fs_call p s (Some (upd_file f fat_close s));
         kfree f s
       }
       else Some s
     } else Some s)"

definition vfs_file_close_user :: "u32 \<Rightarrow> 'a fs_state_scheme \<Rightarrow> 'a fs_state_scheme option" where
  "vfs_file_close_user f s = (if f \<noteq> 0 then do {
       p \<leftarrow> devs_at (f_dev (files s f)) s;
       if p \<noteq> 0 then do {
         s \<leftarrow> fs_call p s (Some (upd_file f fat_close s));
         let cur = get_cur_proc s;
         if cur \<noteq> 0 \<and> pr_thread_list (procs s cur) \<noteq> 0
         then ufree f (th_heap (threads s (pr_thread_list (procs s cur)))) s else Some s
       }
       else Some s
     } else Some s)"

definition vfs_get_dev :: "(string \<Rightarrow> u32) \<Rightarrow> u32 \<Rightarrow> mem \<Rightarrow> u32" where
  "vfs_get_dev ld name m =
     (if m (name + 3) = 0x5C then
        if strncmp m name (ld ''hd'') 2 = 0 then 1 else if strncmp m name (ld ''fd'') 2 = 0 then 0 else - 1
      else - 1)"

section \<open>Registration\<close>

text \<open>The boot sector \<open>w\<close> does not make the two divisions of \<open>fat_mount\<close> fault.\<close>

definition boot_ok :: "u8 list \<Rightarrow> bool" where
  "boot_ok w \<longleftrightarrow> length w = 512 \<and> (w ! 11 \<noteq> 0 \<or> w ! 12 \<noteq> 0) \<and> w ! 13 \<noteq> 0"

lemma read16_nonzero: "m a \<noteq> 0 \<or> m (a + 1) \<noteq> 0 \<Longrightarrow> (ucast (read16 m a) :: u32) \<noteq> 0"
proof -
  assume a: "m a \<noteq> 0 \<or> m (a + 1) \<noteq> 0"
  then have "unat (m a) \<noteq> 0 \<or> unat (m (a + 1)) \<noteq> 0" by (simp add: unat_eq_0)
  then have "unat (read16 m a) \<noteq> 0" by (auto simp: unat_read16)
  then have "unat (ucast (read16 m a) :: u32) \<noteq> 0"
    using small_less(2) [of "read16 m a"] by (simp add: unsigned_ucast_eq take_bit_eq_mod del: small_less)
  then show ?thesis by (simp add: unat_eq_0)
qed

text \<open>The fields of a boot sector \<open>w\<close>, read in little-endian order, and the volume they describe: the
  allocation tables begin behind the reserved sectors, the root directory behind the tables, the data
  behind the root directory, and the type follows from the number of clusters.  The sector number of
  the root directory takes one reserved sector for granted, as the code does.\<close>

definition le16 :: "u8 list \<Rightarrow> nat \<Rightarrow> u32" where
  "le16 w i = ucast (w ! i) + 0x100 * ucast (w ! (i + 1))"

definition le32 :: "u8 list \<Rightarrow> nat \<Rightarrow> u32" where
  "le32 w i = le16 w i + 0x10000 * le16 w (i + 2)"

definition boot_volume :: "u8 list \<Rightarrow> fat_mount_info \<Rightarrow> bool" where
  "boot_volume w mi \<longleftrightarrow>
     m_fat_offset mi = le16 w 14
   \<and> m_fat_size mi = (if le16 w 22 = 0 then le32 w 36 else le16 w 22)
   \<and> m_fat_entry_size mi = 8
   \<and> m_n_root_entries mi = le16 w 17
   \<and> m_root_offset mi = ucast (w ! 16) * m_fat_size mi + 1
   \<and> m_root_size mi = (le16 w 17 * 32 + (le16 w 11 - 1)) div le16 w 11
   \<and> m_first_data_sector mi = m_fat_offset mi + ucast (w ! 16) * m_fat_size mi + m_root_size mi
   \<and> m_n_sectors mi = (if le16 w 19 = 0 then le32 w 32 else le16 w 19)
   \<and> m_data_sectors mi = le16 w 19 - m_first_data_sector mi
   \<and> m_type mi = (let clusters = m_data_sectors mi div ucast (w ! 13) in
        if clusters < 4085 then 0 else if clusters < 65525 then 1 else if clusters < 268435445 then 2 else 3)"

text \<open>The bytes that mark a boot sector with a parameter block.\<close>

definition boot_mark :: "u8 list \<Rightarrow> bool" where
  "boot_mark w \<longleftrightarrow> w ! 0 = 0xEB \<and> w ! 2 = 0x90"

lemma ucast_read16: "(ucast (read16 m a) :: u32) = ucast (m a) + 0x100 * ucast (m (a + 1))"
proof -
  have b: "unat (m a) < 256" "unat (m (a + 1)) < 256" using unsigned_less [of "m a"] unsigned_less [of "m (a + 1)"] by simp_all
  then have l: "unat (m a) + 256 * unat (m (a + 1)) < 4294967296" by linarith
  have "unat (ucast (read16 m a) :: u32) = unat (m a) + 256 * unat (m (a + 1))"
    using l by (simp add: unsigned_ucast_eq take_bit_eq_mod unat_read16)
  also have "\<dots> = unat (ucast (m a) + 0x100 * ucast (m (a + 1)) :: u32)"
    using l by (simp add: unat_word_ariths unsigned_ucast_eq take_bit_eq_mod)
  finally show ?thesis by (simp add: word_unat_eq_iff)
qed

lemma read32_read16: "read32 m a = ucast (read16 m a) + 0x10000 * ucast (read16 m (a + 2))"
proof -
  have "read32 m a = push_bit 16 (ucast (read16 m (a + 2))) OR ucast (read16 m a)"
    by (rule bit_word_eqI) (auto simp: read32_def read16_def bit_simps add.assoc dest: bit_imp_le_length)
  then show ?thesis using push_or_add [where 'a = 32] by (simp add: add.commute)
qed

lemma fat_mount_some:
  assumes "sector_device b (dev_store s dev)" "boot_ok (media s (dv_id (dev_store s dev)) 0)"
  obtains m mi where "fat_mount dev s = Some (upd_dev dev (\<lambda>d. d\<lparr>dv_minfo := mi\<rparr>) (s\<lparr>ram := m\<rparr>))"
    "if boot_mark (media s (dv_id (dev_store s dev)) 0) then boot_volume (media s (dv_id (dev_store s dev)) 0) mi
     else mi = dv_minfo (dev_store s dev)"
    "\<forall>x. x \<notin> region b 512 \<longrightarrow> m x = ram s x"
proof -
  define w where "w = media s (dv_id (dev_store s dev)) 0"
  define m where "m = store_bytes (ram s) b w"
  have len: "length w = 512" using assms(2) by (simp add: boot_ok_def w_def)
  have read: "dev_read dev 0 s = Some (b, s\<lparr>ram := m\<rparr>)"
    unfolding m_def w_def by (rule dev_read_sector [OF assms(1) len [unfolded w_def]])
  have out: "\<forall>x. x \<notin> region b 512 \<longrightarrow> m x = ram s x" using len by (simp add: m_def store_bytes_outside)
  have at: "m (b + of_nat i) = w ! i" if "i < 512" for i
    unfolding m_def using that len by (intro store_bytes_nth) simp_all
  have b0: "m b = w ! 0" "m (b + 2) = w ! 2" "m (b + 13) = w ! 13" "m (b + 16) = w ! 16"
    using at [of 0] at [of 2] at [of 13] at [of 16] by simp_all
  have w16: "(ucast (read16 m (b + of_nat i)) :: u32) = le16 w i" if "i < 511" for i
    using at [of i] at [of "i + 1"] that by (simp add: ucast_read16 le16_def add.assoc add.commute [of 1])
  have w32: "read32 m (b + of_nat i) = le32 w i" if "i < 509" for i
    using w16 [of i] w16 [of "i + 2"] that by (simp add: read32_read16 le32_def add.assoc add.commute [of 2])
  have f16: "(ucast (read16 m (b + 11)) :: u32) = le16 w 11" "(ucast (read16 m (b + 14)) :: u32) = le16 w 14"
    "(ucast (read16 m (b + 17)) :: u32) = le16 w 17" "(ucast (read16 m (b + 19)) :: u32) = le16 w 19"
    "(ucast (read16 m (b + 22)) :: u32) = le16 w 22" "read32 m (b + 32) = le32 w 32" "read32 m (b + 36) = le32 w 36"
    using w16 [of 11] w16 [of 14] w16 [of 17] w16 [of 19] w16 [of 22] w32 [of 32] w32 [of 36] by simp_all
  have "m (b + 11) \<noteq> 0 \<or> m (b + 11 + 1) \<noteq> 0"
    using at [of 11] at [of 12] assms(2) by (simp add: boot_ok_def add.assoc w_def [symmetric])
  then have 1: "le16 w 11 \<noteq> 0" using read16_nonzero f16(1) by metis
  have 2: "(ucast (w ! 13) :: u32) \<noteq> 0"
    using assms(2) ucast_u8_inj [of _ 0] by (simp add: boot_ok_def w_def [symmetric])
  have "\<exists>mi. fat_geometry m b (dv_minfo (dev_store s dev)) = Some mi \<and> boot_volume w mi"
    unfolding fat_geometry_def bpb_defs Let_def f16 b0(3,4) using 1 2
    by (simp add: boot_volume_def Let_def fat_type_def FAT12_def FAT16_def FAT32_def EXFAT_def)
  then obtain mi where mi: "fat_geometry m b (dv_minfo (dev_store s dev)) = Some mi" "boot_volume w mi" by blast
  have same: "upd_dev dev (\<lambda>d. d\<lparr>dv_minfo := dv_minfo (dev_store s dev)\<rparr>) (s\<lparr>ram := m\<rparr>) = s\<lparr>ram := m\<rparr>"
    by (simp add: upd_dev_def)
  show ?thesis
  proof (cases "boot_mark w")
    case False
    then have "fat_mount dev s = Some (s\<lparr>ram := m\<rparr>)" by (auto simp: fat_mount_def read boot_mark_def b0)
    then show ?thesis using that [of "dv_minfo (dev_store s dev)" m] out False unfolding same w_def [symmetric] by simp
  next
    case True
    then have "fat_mount dev s = Some (upd_dev dev (\<lambda>d. d\<lparr>dv_minfo := mi\<rparr>) (s\<lparr>ram := m\<rparr>))"
      using mi(1) by (simp add: fat_mount_def read boot_mark_def b0)
    then show ?thesis using that [of mi m] out True mi(2) unfolding w_def [symmetric] by simp
  qed
qed

lemma find_unique:
  assumes "i < length xs" "P (xs ! i)" "\<And>j. j < length xs \<Longrightarrow> j \<noteq> i \<Longrightarrow> \<not> P (xs ! j)"
  shows "find P xs = Some (xs ! i)"
  using assms by (intro find_first) auto

lemma distinct_filter_update:
  assumes "distinct (filter P xs)" "i < length xs" "\<not> P (xs ! i)" "x \<notin> set xs" "P x"
  shows "distinct (filter P (xs[i := x]))"
proof -
  have "distinct (filter P (take i xs @ xs ! i # drop (Suc i) xs))"
    using assms(1) id_take_nth_drop [OF assms(2)] by simp
  moreover have "x \<notin> set (take i xs)" "x \<notin> set (drop (Suc i) xs)"
    using assms(4) by (auto dest: in_set_takeD in_set_dropD)
  ultimately show ?thesis using assms(2,3,5) by (auto simp: upd_conv_take_nth_drop)
qed

text \<open>C33: registering a device whose id is free and whose name no other device (and no byte pattern at
  address 0) has: it is found by its id, its operation table is mounted under the id, the other
  entries of both tables are unchanged, and the registry's invariant is kept.  The volume is entered
  from the device's first sector where that has the marks of a boot sector, and is the one its
  parameter block describes; without the marks it stays as it was.\<close>
theorem device_register_mounts:
  assumes "registry s" "dev \<noteq> 0" "dev + FS_OFFSET \<noteq> 0" "i < 8" "devices s ! i = 0" "dev \<notin> set (devices s)"
    "dv_id (dev_store s dev) = of_nat i" "length (mounted s) = MAX_DEVICES"
    "take 3 (dv_mount (dev_store s dev)) = mount_key (dv_mount (dev_store s dev))"
    "\<forall>d \<in> set (devices s). take 3 (dv_mount (dev_store s d)) \<noteq> mount_key (dv_mount (dev_store s dev))"
    "sector_device b (dev_store s dev)" "boot_ok (media s (of_nat i) 0)"
  shows "\<exists>s'. device_register dev s = Some s' \<and> registry s' \<and> get_dev_by_id (of_nat i) s' = dev
    \<and> devices s' = (devices s)[i := dev] \<and> mounted s' = (mounted s)[i := dev + FS_OFFSET]
    \<and> dv_fs (dev_store s' dev) = dv_fs (dev_store s dev) \<and> media s' = media s
    \<and> (if boot_mark (media s (of_nat i) 0) then boot_volume (media s (of_nat i) 0) (dv_minfo (dev_store s' dev))
       else dv_minfo (dev_store s' dev) = dv_minfo (dev_store s dev))
    \<and> (\<forall>d. d \<noteq> dev \<longrightarrow> dev_store s' d = dev_store s d) \<and> (\<forall>x. x \<notin> region b 512 \<longrightarrow> ram s' x = ram s x)"
proof -
  let ?s1 = "s\<lparr>devices := (devices s)[i := dev]\<rparr>"
  have len: "length (devices s) = 8" using assms(1) by (simp add: registry_def)
  have n: "unat (of_nat i :: u32) = i" "sint (of_nat i :: u32) = int i"
    using assms(4) by (simp_all add: sint_unat)
  have "find (\<lambda>d. take 3 (dv_mount (dev_store s d)) = mount_key (dv_mount (dev_store s dev))) ((devices s)[i := dev])
      = Some ((devices s)[i := dev] ! i)"
    using assms(4,9,10) len by (intro find_unique) (simp_all add: nth_list_update)
  then have key: "get_dev_by_key (mount_key (dv_mount (dev_store s dev))) ?s1 = dev"
    using assms(4) len by (simp add: get_dev_by_key_def find_dev_def)
  let ?s2 = "?s1\<lparr>mounted := (mounted s)[i := dev + FS_OFFSET]\<rparr>"
  have set: "set_devs (of_nat i) (dev + FS_OFFSET) ?s1 = Some ?s2"
    using assms(4,8) n by (simp add: set_devs_def MAX_DEVICES_def)
  have "sector_device b (dev_store ?s2 dev)" "boot_ok (media ?s2 (dv_id (dev_store ?s2 dev)) 0)"
    using assms(7,11,12) by simp_all
  moreover have eqs: "media ?s2 = media s" "dev_store ?s2 = dev_store s" "ram ?s2 = ram s" by simp_all
  ultimately have "sector_device b (dev_store s dev)" "boot_ok (media s (of_nat i) 0)"
    using assms(7) by simp_all
  note fat_mount_some [of b ?s2 dev, unfolded eqs assms(7), OF this]
  then
  obtain m mi where m: "fat_mount dev ?s2 = Some (upd_dev dev (\<lambda>d. d\<lparr>dv_minfo := mi\<rparr>) (?s2\<lparr>ram := m\<rparr>))"
      "if boot_mark (media s (of_nat i) 0) then boot_volume (media s (of_nat i) 0) mi else mi = dv_minfo (dev_store s dev)"
      "\<forall>x. x \<notin> region b 512 \<longrightarrow> m x = ram s x"
    by blast
  let ?s' = "upd_dev dev (\<lambda>d. d\<lparr>dv_minfo := mi\<rparr>) (?s2\<lparr>ram := m\<rparr>)"
  have reg: "device_register dev s = Some ?s'"
    using assms(3,4,7) n len key set m(1) by (simp add: device_register_def vfs_mount_dev_def Let_def)
  have ids: "dv_id (dev_store ?s' d) = dv_id (dev_store s d)" for d by (simp add: upd_dev_def)
  have "distinct (filter (\<lambda>d. d \<noteq> 0) ((devices s)[i := dev]))"
    using assms(1,2,4,5,6) len by (intro distinct_filter_update) (simp_all add: registry_def)
  then have R: "registry ?s'"
    using assms(1,4,7) len unfolding registry_def ids by (simp add: upd_dev_def nth_list_update)
  have "get_dev_by_id (of_nat i) ?s' = devices ?s' ! i" by (rule get_dev_by_id_slot [OF R assms(4)])
  then show ?thesis using reg R assms(4) len m(2,3) by (simp add: upd_dev_def)
qed


text \<open>A 1.44 MB disk: one reserved sector, two tables of nine sectors, 224 root entries, 2880 sectors.\<close>

definition demo_boot :: "u8 list" where
  "demo_boot = [0xEB, 0x3C, 0x90] @ replicate 8 0x20 @ [0, 2, 1, 1, 0, 2, 224, 0, 0x40, 0x0B, 0xF0, 9, 0] @ replicate 488 0"

definition demo_reg :: fs_state where
  "demo_reg = demo_fs\<lparr>dev_store := (dev_store demo_fs)(0x8000 := ideal_device 0x1000 5 (lit ''fdd'') (dv_minfo (dev_store demo_fs 0))),
     media := (\<lambda>n lba. if n = 5 then demo_boot else [])\<rparr>"

lemma demo_reg_registry: "registry demo_reg"
proof -
  have "devices demo_fs ! i \<noteq> 0x8000" if "i < 8" for i
    using that nth_mem [of i "devices demo_fs"] by (auto simp: demo_fs_simps)
  then show ?thesis using demo_registry by (simp add: registry_def demo_reg_def)
qed

lemma demo_boot_nth:
  "demo_boot ! 0 = 0xEB" "demo_boot ! 2 = 0x90" "demo_boot ! 11 = 0" "demo_boot ! 12 = 2" "demo_boot ! 13 = 1" "demo_boot ! 14 = 1"
  "demo_boot ! 15 = 0" "demo_boot ! 16 = 2" "demo_boot ! 17 = 224" "demo_boot ! 18 = 0" "demo_boot ! 19 = 0x40" "demo_boot ! 20 = 0x0B"
  "demo_boot ! 22 = 9" "demo_boot ! 23 = 0" "length demo_boot = 512"
  by (simp_all add: demo_boot_def nth_append)

theorem device_register_mounts_witness:
  "\<exists>s'. device_register 0x8000 demo_reg = Some s' \<and> get_dev_by_id 5 s' = 0x8000
    \<and> (case dv_minfo (dev_store s' 0x8000) of mi \<Rightarrow> m_fat_offset mi = 1 \<and> m_root_offset mi = 19 \<and> m_first_data_sector mi = 33 \<and> m_type mi = 0)"
proof -
  have demo: "mounted demo_fs = replicate 26 0" "dv_mount (dev_store demo_fs d) = lit ''hdd''" for d
    by (simp_all add: demo_fs_def proc_state.defs ideal_device_def)
  have dev: "sector_device 0x1000 (dev_store demo_reg 0x8000)" by (simp add: demo_reg_def ideal_sector_device)
  have md: "media demo_reg (of_nat 5) 0 = demo_boot" by (simp add: demo_reg_def)
  have mark: "boot_ok (media demo_reg (of_nat 5) 0)" "boot_mark demo_boot"
    unfolding md by (simp_all add: boot_ok_def boot_mark_def demo_boot_nth)
  have "\<exists>s'. device_register 0x8000 demo_reg = Some s' \<and> get_dev_by_id (of_nat 5) s' = 0x8000 \<and> boot_volume demo_boot (dv_minfo (dev_store s' 0x8000))"
    using device_register_mounts [OF demo_reg_registry _ _ _ _ _ _ _ _ _ dev mark(1)] mark(2) unfolding md
    by (simp add: demo_reg_def demo demo_fs_simps FS_OFFSET_def MAX_DEVICES_def ideal_device_def lit_def mount_key_def) blast
  then obtain s' where s': "device_register 0x8000 demo_reg = Some s'" "get_dev_by_id 5 s' = 0x8000"
      "boot_volume demo_boot (dv_minfo (dev_store s' 0x8000))"
    by auto
  from s'(3) have "m_fat_offset (dv_minfo (dev_store s' 0x8000)) = 1" "m_root_offset (dv_minfo (dev_store s' 0x8000)) = 19"
    "m_first_data_sector (dv_minfo (dev_store s' 0x8000)) = 33" "m_type (dv_minfo (dev_store s' 0x8000)) = 0"
    by (simp_all add: boot_volume_def le16_def demo_boot_nth Let_def)
  with s'(1,2) show ?thesis by auto
qed

end
