(* ===== verification/Floppy.thy ===== *)
theory Floppy
  imports Dma Vfs
begin

text \<open>
  The floppy driver, \<open>drivers/floppy/floppy.c\<close>.  The controller's answers come from the script of
  port reads; \<open>floppy_irqs\<close> counts the interrupts it will still raise.  A wait for an interrupt
  has no result when none comes or interrupts are off, which is the loop that does not end.
\<close>

record floppy_state = fs_state +
  floppy_irq_done :: u8
  cur_drive :: u32
  floppy_irqs :: nat

definition FLOPPY_DMA_LEN :: u32 where "FLOPPY_DMA_LEN = 0x4800"
definition FLOPPY_DMA_CHANNEL :: u8 where "FLOPPY_DMA_CHANNEL = 2"
definition FLOPPY_DOR :: u16 where "FLOPPY_DOR = 0x3F2"
definition FLOPPY_MSR :: u16 where "FLOPPY_MSR = 0x3F4"
definition FLOPPY_FIFO :: u16 where "FLOPPY_FIFO = 0x3F5"
definition FLOPPY_CTRL :: u16 where "FLOPPY_CTRL = 0x3F7"
definition FLOPPY_CMD_SPECIFY :: u8 where "FLOPPY_CMD_SPECIFY = 3"
definition FLOPPY_CMD_WRITE_SECT :: u8 where "FLOPPY_CMD_WRITE_SECT = 5"
definition FLOPPY_CMD_READ_SECT :: u8 where "FLOPPY_CMD_READ_SECT = 6"
definition FLOPPY_CMD_CALIBRATE :: u8 where "FLOPPY_CMD_CALIBRATE = 7"
definition FLOPPY_CMD_CHECK_INT :: u8 where "FLOPPY_CMD_CHECK_INT = 8"
definition FLOPPY_CMD_READ_DEL_S :: u8 where "FLOPPY_CMD_READ_DEL_S = 0xC"
definition FLOPPY_CMD_SEEK :: u8 where "FLOPPY_CMD_SEEK = 0xF"
definition FLOPPY_CMD_EXT_SKIP :: u8 where "FLOPPY_CMD_EXT_SKIP = 0x20"
definition FLOPPY_CMD_EXT_DENSITY :: u8 where "FLOPPY_CMD_EXT_DENSITY = 0x40"
definition FLOPPY_CMD_EXT_MULTITRACK :: u8 where "FLOPPY_CMD_EXT_MULTITRACK = 0x80"
definition FLOPPY_GAP3_LENGTH_3_5 :: u8 where "FLOPPY_GAP3_LENGTH_3_5 = 27"
definition FLOPPY_SECTOR_DTL_512 :: u8 where "FLOPPY_SECTOR_DTL_512 = 2"
definition FLOPPY_SECTORS_PER_TRACK :: u32 where "FLOPPY_SECTORS_PER_TRACK = 18"
definition FLOPPY_DOR_MASK_RESET :: u8 where "FLOPPY_DOR_MASK_RESET = 4"
definition FLOPPY_DOR_MASK_DMA :: u8 where "FLOPPY_DOR_MASK_DMA = 8"
definition FLOPPY_DOR_MASK_DRIVE0_MOTOR :: u32 where "FLOPPY_DOR_MASK_DRIVE0_MOTOR = 16"
definition FLOPPY_DOR_MASK_DRIVE1_MOTOR :: u32 where "FLOPPY_DOR_MASK_DRIVE1_MOTOR = 32"
definition FLOPPY_DOR_MASK_DRIVE2_MOTOR :: u32 where "FLOPPY_DOR_MASK_DRIVE2_MOTOR = 64"
definition FLOPPY_DOR_MASK_DRIVE3_MOTOR :: u32 where "FLOPPY_DOR_MASK_DRIVE3_MOTOR = 128"
definition FLOPPY_MSR_MASK_DATAREG :: u8 where "FLOPPY_MSR_MASK_DATAREG = 128"

definition drive_types :: "string list" where
  "drive_types = [''none'', ''360kB 5.25'', ''1.2MB 5.25'', ''720kB 3.5'', ''1.44MB 3.5'', ''2.88MB 3.5'',
     ''unknown type'', ''unknown type'']"

text \<open>The pointer 0 of the first entry is printed as no text.\<close>

definition floppy_status :: "string list" where
  "floppy_status = ['''', ''error'', ''invalid'', ''drive'']"

section \<open>Interrupts and the controller's registers\<close>

text \<open>The handler of \<open>flp.asm\<close> and the wait for it.\<close>

definition floppy_int :: "'a floppy_state_scheme \<Rightarrow> 'a floppy_state_scheme" where
  "floppy_int s = outportb 0x20 0x20 (s\<lparr>floppy_irq_done := floppy_irq_done s + 1\<rparr>)"

definition floppy_wait_irq :: "'a floppy_state_scheme \<Rightarrow> 'a floppy_state_scheme option" where
  "floppy_wait_irq s =
     (if floppy_irq_done s \<noteq> 0 then Some (s\<lparr>floppy_irq_done := 0\<rparr>)
      else case floppy_irqs s of
        0 \<Rightarrow> None
      | Suc n \<Rightarrow> if int_on s then Some ((floppy_int (s\<lparr>floppy_irqs := n\<rparr>))\<lparr>floppy_irq_done := 0\<rparr>) else None)"

text \<open>The static transfer buffer is the one \<open>dma_buffer\<close> points to.\<close>

definition floppy_dma_init :: "'a floppy_state_scheme \<Rightarrow> 'a floppy_state_scheme" where
  "floppy_dma_init s =
     (let a = dma_buffer s; c = FLOPPY_DMA_LEN - 1 in
      if drop_bit 24 a \<noteq> 0 \<or> drop_bit 16 c \<noteq> 0 \<or> drop_bit 16 ((a AND 0xFFFF) + c) \<noteq> 0 then s
      else
        let s = dma_reset s;
            s = dma_mask_channel FLOPPY_DMA_CHANNEL s;
            s = dma_reset_flipflop 0 s;
            s = dma_set_address FLOPPY_DMA_CHANNEL (ucast a) (ucast (drop_bit 8 a)) s;
            s = dma_set_external_page_register FLOPPY_DMA_CHANNEL (ucast (drop_bit 16 a)) s;
            s = dma_reset_flipflop 0 s;
            s = dma_set_count FLOPPY_DMA_CHANNEL (ucast c) (ucast (drop_bit 8 c)) s;
            s = dma_set_read FLOPPY_DMA_CHANNEL s
        in dma_unmask_all s)"

definition floppy_write_dor :: "u8 \<Rightarrow> 'a cpu_state_scheme \<Rightarrow> 'a cpu_state_scheme" where
  "floppy_write_dor val = outportb FLOPPY_DOR val"

definition floppy_read_status :: "'a cpu_state_scheme \<Rightarrow> (u8 \<times> 'a cpu_state_scheme) option" where
  "floppy_read_status = inportb FLOPPY_MSR"

text \<open>At most 500 looks at the status; a command that never finds the controller ready is not sent.\<close>

fun send_try :: "nat \<Rightarrow> u8 \<Rightarrow> 'a cpu_state_scheme \<Rightarrow> 'a cpu_state_scheme option" where
  "send_try 0 cmd s = Some s"
| "send_try (Suc n) cmd s = do {
     (st, s) \<leftarrow> floppy_read_status s;
     if st AND FLOPPY_MSR_MASK_DATAREG \<noteq> 0 then Some (outportb FLOPPY_FIFO cmd s) else send_try n cmd s
   }"

definition floppy_send_cmd :: "u8 \<Rightarrow> 'a cpu_state_scheme \<Rightarrow> 'a cpu_state_scheme option" where
  "floppy_send_cmd = send_try 500"

fun read_try :: "nat \<Rightarrow> 'a cpu_state_scheme \<Rightarrow> (u8 \<times> 'a cpu_state_scheme) option" where
  "read_try 0 s = Some (0, s)"
| "read_try (Suc n) s = do {
     (st, s) \<leftarrow> floppy_read_status s;
     if st AND FLOPPY_MSR_MASK_DATAREG \<noteq> 0 then inportb FLOPPY_FIFO s else read_try n s
   }"

definition floppy_read_data :: "'a cpu_state_scheme \<Rightarrow> (u8 \<times> 'a cpu_state_scheme) option" where
  "floppy_read_data = read_try 500"

definition floppy_write_ccr :: "u8 \<Rightarrow> 'a cpu_state_scheme \<Rightarrow> 'a cpu_state_scheme" where
  "floppy_write_ccr val = outportb FLOPPY_CTRL val"

text \<open>A sequence of commands, and answers that are read and dropped.\<close>

fun send_all :: "u8 list \<Rightarrow> 'a cpu_state_scheme \<Rightarrow> 'a cpu_state_scheme option" where
  "send_all [] s = Some s"
| "send_all (c # cs) s = do { s \<leftarrow> floppy_send_cmd c s; send_all cs s }"

fun drop_data :: "nat \<Rightarrow> 'a cpu_state_scheme \<Rightarrow> 'a cpu_state_scheme option" where
  "drop_data 0 s = Some s"
| "drop_data (Suc n) s = do { (_, s) \<leftarrow> floppy_read_data s; drop_data n s }"

definition floppy_check_int :: "'a cpu_state_scheme \<Rightarrow> ((u32 \<times> u32) \<times> 'a cpu_state_scheme) option" where
  "floppy_check_int s = do {
     s \<leftarrow> floppy_send_cmd FLOPPY_CMD_CHECK_INT s;
     (st0, s) \<leftarrow> floppy_read_data s;
     (cyl, s) \<leftarrow> floppy_read_data s;
     Some ((ucast st0, ucast cyl), s)
   }"

section \<open>Motor, reset and seek\<close>

definition floppy_disable :: "'a cpu_state_scheme \<Rightarrow> 'a cpu_state_scheme" where
  "floppy_disable = floppy_write_dor 0"

definition floppy_enable :: "'a cpu_state_scheme \<Rightarrow> 'a cpu_state_scheme" where
  "floppy_enable = floppy_write_dor (FLOPPY_DOR_MASK_RESET OR FLOPPY_DOR_MASK_DMA)"

definition motor_bit :: "u32 \<Rightarrow> u32" where
  "motor_bit d = (if d = 0 then FLOPPY_DOR_MASK_DRIVE0_MOTOR else if d = 1 then FLOPPY_DOR_MASK_DRIVE1_MOTOR
     else if d = 2 then FLOPPY_DOR_MASK_DRIVE2_MOTOR else if d = 3 then FLOPPY_DOR_MASK_DRIVE3_MOTOR else 0)"

definition floppy_control_motor :: "u32 \<Rightarrow> 'a floppy_state_scheme \<Rightarrow> 'a floppy_state_scheme" where
  "floppy_control_motor on s =
     (if 3 < sint (cur_drive s) then s
      else if on \<noteq> 0 then
        floppy_write_dor (ucast (cur_drive s OR motor_bit (cur_drive s)) OR FLOPPY_DOR_MASK_RESET OR FLOPPY_DOR_MASK_DMA) s
      else floppy_write_dor FLOPPY_CMD_READ_DEL_S s)"

definition floppy_drive_data :: "u32 \<Rightarrow> u32 \<Rightarrow> u32 \<Rightarrow> u32 \<Rightarrow> 'a floppy_state_scheme \<Rightarrow> 'a floppy_state_scheme option" where
  "floppy_drive_data stepr loadt unloadt dma s =
     (if 3 < sint (cur_drive s) then Some s
      else send_all [FLOPPY_CMD_SPECIFY, ucast (push_bit 4 (stepr AND 0xF) OR (unloadt AND 0xF)),
                     ucast (push_bit 1 loadt OR (if dma = 1 then 1 else 0))] s)"

definition bad_status :: "string \<Rightarrow> u32 \<Rightarrow> 'a pmm_state_scheme \<Rightarrow> 'a pmm_state_scheme" where
  "bad_status who st0 s = kprint (who @ '': status = '' @ floppy_status ! unat (drop_bit 6 st0) @ NL) [] s"

fun calibrate_loop :: "nat \<Rightarrow> u32 \<Rightarrow> 'a floppy_state_scheme \<Rightarrow> (u32 \<times> 'a floppy_state_scheme) option" where
  "calibrate_loop 0 drive s = Some (- 1, kprint (''Error calibrating floppy'' @ NL) [] (floppy_control_motor 0 s))"
| "calibrate_loop (Suc n) drive s = do {
     s \<leftarrow> send_all [FLOPPY_CMD_CALIBRATE, ucast drive] s;
     s \<leftarrow> floppy_wait_irq s;
     ((st0, cyl), s) \<leftarrow> floppy_check_int s;
     if st0 AND 0xC0 \<noteq> 0 then calibrate_loop n drive (bad_status ''floppy_calibrate'' st0 s)
     else if cyl = 0 then Some (0, floppy_control_motor 0 s)
     else calibrate_loop n drive s
   }"

definition floppy_calibrate :: "u32 \<Rightarrow> 'a floppy_state_scheme \<Rightarrow> (u32 \<times> 'a floppy_state_scheme) option" where
  "floppy_calibrate drive s =
     (if 3 < drive then Some (- 1, s) else calibrate_loop 10 drive (floppy_control_motor 1 s))"

fun check_ints :: "nat \<Rightarrow> 'a cpu_state_scheme \<Rightarrow> 'a cpu_state_scheme option" where
  "check_ints 0 s = Some s"
| "check_ints (Suc n) s = do { (_, s) \<leftarrow> floppy_check_int s; check_ints n s }"

definition floppy_reset :: "'a floppy_state_scheme \<Rightarrow> 'a floppy_state_scheme option" where
  "floppy_reset s =
     (if 3 < sint (cur_drive s) then Some s
      else do {
        s \<leftarrow> floppy_wait_irq (floppy_enable (floppy_disable s));
        s \<leftarrow> check_ints 4 s;
        s \<leftarrow> floppy_drive_data 3 16 240 1 (floppy_write_ccr 0 s);
        (_, s) \<leftarrow> floppy_calibrate (cur_drive s) s;
        Some s
      })"

fun seek_loop :: "nat \<Rightarrow> u32 \<Rightarrow> u32 \<Rightarrow> 'a floppy_state_scheme \<Rightarrow> (u32 \<times> 'a floppy_state_scheme) option" where
  "seek_loop 0 cyl head s = Some (- 1, kprint (''Floppy seek failed'' @ NL) [] (floppy_control_motor 0 s))"
| "seek_loop (Suc n) cyl head s = do {
     s \<leftarrow> send_all [FLOPPY_CMD_SEEK, ucast (push_bit 2 head OR cur_drive s), ucast cyl] s;
     s \<leftarrow> floppy_wait_irq s;
     ((st0, cyl0), s) \<leftarrow> floppy_check_int s;
     if st0 AND 0xC0 \<noteq> 0 then seek_loop n cyl head (bad_status ''floppy_seek'' st0 s)
     else if cyl0 = cyl then Some (0, floppy_control_motor 0 s)
     else seek_loop n cyl head s
   }"

definition floppy_seek :: "u32 \<Rightarrow> u32 \<Rightarrow> 'a floppy_state_scheme \<Rightarrow> (u32 \<times> 'a floppy_state_scheme) option" where
  "floppy_seek cyl head s =
     (if 3 < sint (cur_drive s) then Some (- 1, s) else seek_loop 10 cyl head (floppy_control_motor 1 s))"

section \<open>Sectors\<close>

definition floppy_lba_to_chs :: "u32 \<Rightarrow> u32 \<times> u32 \<times> u32" where
  "floppy_lba_to_chs lba =
     (c_div (c_mod lba (FLOPPY_SECTORS_PER_TRACK * 2)) FLOPPY_SECTORS_PER_TRACK,
      c_div lba (FLOPPY_SECTORS_PER_TRACK * 2),
      c_mod lba FLOPPY_SECTORS_PER_TRACK + 1)"

definition transfer_cmds :: "u8 \<Rightarrow> u8 \<Rightarrow> u8 \<Rightarrow> u8 \<Rightarrow> u32 \<Rightarrow> u8 list" where
  "transfer_cmds cmd head track sector drive =
     [cmd OR FLOPPY_CMD_EXT_MULTITRACK OR FLOPPY_CMD_EXT_SKIP OR FLOPPY_CMD_EXT_DENSITY,
      ucast (push_bit 2 (ucast head) OR drive), track, head, sector, FLOPPY_SECTOR_DTL_512,
      ucast (if FLOPPY_SECTORS_PER_TRACK \<le> ucast sector + 1 then FLOPPY_SECTORS_PER_TRACK else ucast sector + 1),
      FLOPPY_GAP3_LENGTH_3_5, 0xFF]"

text \<open>A transfer, up to the status the controller reports; \<open>setup\<close> is the DMA direction.\<close>

definition transfer :: "('a floppy_state_scheme \<Rightarrow> 'a floppy_state_scheme) \<Rightarrow> u8 \<Rightarrow> u8 \<Rightarrow> u8 \<Rightarrow> u8
    \<Rightarrow> 'a floppy_state_scheme \<Rightarrow> (u32 \<times> 'a floppy_state_scheme) option" where
  "transfer setup cmd head track sector s = do {
     let s = setup (floppy_dma_init s);
     s \<leftarrow> send_all (transfer_cmds cmd head track sector (cur_drive s)) s;
     s \<leftarrow> floppy_wait_irq s;
     s \<leftarrow> drop_data 7 s;
     ((st0, cyl), s) \<leftarrow> floppy_check_int s;
     Some (st0, s)
   }"

definition floppy_read_sector_imp :: "u8 \<Rightarrow> u8 \<Rightarrow> u8 \<Rightarrow> 'a floppy_state_scheme \<Rightarrow> 'a floppy_state_scheme option" where
  "floppy_read_sector_imp head track sector s = do {
     (st0, s) \<leftarrow> transfer (dma_set_read FLOPPY_DMA_CHANNEL) FLOPPY_CMD_READ_SECT head track sector s;
     Some (if st0 AND 0x08 \<noteq> 0 then kprint (''floppy_read_sector: drive not ready'' @ NL) [] s else s)
   }"

definition floppy_read_sector :: "u32 \<Rightarrow> 'a floppy_state_scheme \<Rightarrow> (u32 \<times> 'a floppy_state_scheme) option" where
  "floppy_read_sector lba s =
     (if 3 < sint (cur_drive s) then Some (- 1, s)
      else case floppy_lba_to_chs lba of (head, track, sector) \<Rightarrow> do {
        let s = floppy_control_motor 1 s;
        (r, s) \<leftarrow> floppy_seek (ucast (ucast track :: u8)) (ucast (ucast head :: u8)) s;
        if r \<noteq> 0 then Some (0, floppy_control_motor 0 s)
        else do {
          s \<leftarrow> floppy_read_sector_imp (ucast head) (ucast track) (ucast sector) s;
          Some (dma_buffer s, floppy_control_motor 0 s)
        }
      })"

definition floppy_write_sector_imp :: "u8 \<Rightarrow> u8 \<Rightarrow> u8 \<Rightarrow> 'a floppy_state_scheme \<Rightarrow> (u32 \<times> 'a floppy_state_scheme) option" where
  "floppy_write_sector_imp head track sector s = do {
     (st0, s) \<leftarrow> transfer (dma_set_write FLOPPY_DMA_CHANNEL) FLOPPY_CMD_WRITE_SECT head track sector s;
     if st0 AND 0xC0 \<noteq> 0 then Some (0, bad_status ''floppy_write_sector'' st0 s)
     else if st0 AND 0x08 \<noteq> 0 then Some (0, kprint (''floppy_write_sector: drive not ready'' @ NL) [] s)
     else Some (1, s)
   }"

definition floppy_write_sector :: "u32 \<Rightarrow> 'a floppy_state_scheme \<Rightarrow> (u32 \<times> 'a floppy_state_scheme) option" where
  "floppy_write_sector lba s =
     (if 3 < sint (cur_drive s) then Some (- 1, s)
      else case floppy_lba_to_chs lba of (head, track, sector) \<Rightarrow> do {
        let s = floppy_control_motor 1 s;
        (r, s) \<leftarrow> floppy_seek (ucast (ucast track :: u8)) (ucast (ucast head :: u8)) s;
        if r \<noteq> 0 then Some (- 1, floppy_control_motor 0 s)
        else do {
          (ok, s) \<leftarrow> floppy_write_sector_imp (ucast head) (ucast track) (ucast sector) s;
          Some (if ok = 0 then - 1 else 1, floppy_control_motor 0 s)
        }
      })"

section \<open>Detection\<close>

text \<open>The registry calls the sector functions through the device: \<open>rd\<close> and \<open>wr\<close> are
  \<open>floppy_read_sector\<close> and \<open>floppy_write_sector\<close> as they act on memory and media.  \<open>ticks\<close> are the
  values the pause reads from the timer.\<close>

definition dev_info_at :: "(string \<Rightarrow> u32) \<Rightarrow> string \<Rightarrow> nat \<Rightarrow> u32" where
  "dev_info_at ld tab i = ld tab + 96 * of_nat i"

definition is_144 :: "u8 \<Rightarrow> bool option" where
  "is_144 n = (if unat n < 8 then Some (drive_types ! unat n = ''1.44MB 3.5'') else None)"

definition floppy_add :: "(string \<Rightarrow> u32) \<Rightarrow> (u32 \<Rightarrow> sector_io \<Rightarrow> (u32 \<times> sector_io) option) \<Rightarrow> (u32 \<Rightarrow> sector_io \<Rightarrow> sector_io option)
    \<Rightarrow> nat \<Rightarrow> u32 \<Rightarrow> char \<Rightarrow> 'a floppy_state_scheme \<Rightarrow> 'a floppy_state_scheme option" where
  "floppy_add ld rd wr i n letter s = do {
     let d = dev_info_at ld ''floppy_dev_info'' i;
     let s = upd_dev d (\<lambda>dv. dv\<lparr>dv_id := n, dv_type := 0, dv_mount := lit ''fd'' @ [of_char letter, 0],
               dv_read := rd, dv_write := wr\<rparr>) s;
     s \<leftarrow> device_register d (fat_init d s);
     Some (s\<lparr>cur_drive := of_nat i\<rparr>)
   }"

definition floppy_detect_drives ::
  "(string \<Rightarrow> u32) \<Rightarrow> (u32 \<Rightarrow> sector_io \<Rightarrow> (u32 \<times> sector_io) option) \<Rightarrow> (u32 \<Rightarrow> sector_io \<Rightarrow> sector_io option)
    \<Rightarrow> u8 list \<Rightarrow> 'a floppy_state_scheme \<Rightarrow> (u32 \<times> 'a floppy_state_scheme) option" where
  "floppy_detect_drives ld rd wr ticks s = do {
     let s = outportb 0x70 0x10 s;
     _ \<leftarrow> sleep 100 ticks;
     (drives, s) \<leftarrow> inportb 0x71 s;
     a \<leftarrow> is_144 (drop_bit 4 drives);
     s \<leftarrow> (if a then floppy_add ld rd wr 0 4 CHR ''a'' s else Some s);
     b \<leftarrow> is_144 (drives AND 0xF);
     s \<leftarrow> (if b then floppy_add ld rd wr 1 5 CHR ''b'' s else Some s);
     Some (of_bool a + of_bool b, s)
   }"

definition floppy_set_cur_drive :: "u32 \<Rightarrow> 'a floppy_state_scheme \<Rightarrow> 'a floppy_state_scheme" where
  "floppy_set_cur_drive drive s = (if sint drive < 0 \<or> 3 < sint drive then s else s\<lparr>cur_drive := drive\<rparr>)"

definition floppy_init ::
  "(string \<Rightarrow> u32) \<Rightarrow> (u32 \<Rightarrow> sector_io \<Rightarrow> (u32 \<times> sector_io) option) \<Rightarrow> (u32 \<Rightarrow> sector_io \<Rightarrow> sector_io option)
    \<Rightarrow> u8 list \<Rightarrow> 'a floppy_state_scheme \<Rightarrow> 'a floppy_state_scheme option" where
  "floppy_init ld rd wr ticks s = do {
     let s = install_ir 38 (0x80 OR 0x0E) 0x8 (ld ''floppy_int'') s;
     (n, s) \<leftarrow> floppy_detect_drives ld rd wr ticks s;
     if 0 < sint n then do {
       s \<leftarrow> floppy_reset s;
       floppy_drive_data 13 1 0xF 1 s
     } else Some s
   }"

section \<open>Sector addresses\<close>

text \<open>For every sector number that is not negative, the head is 0 or 1, the sector lies in 1 to 18,
  and the three coordinates determine the sector number; for the 2880 sectors of a disk the track
  fits the byte it is cut to.\<close>
theorem floppy_chs_roundtrip:
  assumes "0 \<le> sint lba" "floppy_lba_to_chs lba = (head, track, sector)"
  shows "head \<le> 1 \<and> 1 \<le> sector \<and> sector \<le> 18
    \<and> unat lba = (unat track * 2 + unat head) * 18 + (unat sector - 1)
    \<and> (unat lba < 2880 \<longrightarrow> ucast (ucast track :: u8) = track)"
proof -
  let ?n = "unat lba"
  have n: "?n < 2147483648" using assms(1) by (simp add: sint_nonneg_iff)
  have c: "0 \<le> sint (FLOPPY_SECTORS_PER_TRACK * 2)" "0 \<le> sint FLOPPY_SECTORS_PER_TRACK"
      "unat (FLOPPY_SECTORS_PER_TRACK * 2) = 36" "unat FLOPPY_SECTORS_PER_TRACK = 18"
    by (simp_all add: FLOPPY_SECTORS_PER_TRACK_def)
  have u: "unat (of_nat k :: u32) = k" if "k < 4294967296" for k
    using that by simp
  have m: "unat (c_mod lba (FLOPPY_SECTORS_PER_TRACK * 2)) = ?n mod 36"
    unfolding c_mod_nonneg [OF assms(1) c(1)] c(3) by (rule u) (rule less_trans [OF mod_less_divisor], simp_all)
  have m0: "0 \<le> sint (c_mod lba (FLOPPY_SECTORS_PER_TRACK * 2))"
    unfolding sint_nonneg_iff m by simp
  have "head = of_nat (?n mod 36 div 18)" "track = of_nat (?n div 36)" "sector = of_nat (?n mod 18 + 1)"
    using assms(2) unfolding floppy_lba_to_chs_def c_div_nonneg [OF m0 c(2)] m c(3,4)
      c_div_nonneg [OF assms(1) c(1)] c_mod_nonneg [OF assms(1) c(2)] by (simp_all add: add.commute)
  moreover have "?n mod 36 div 18 < 2" by (simp add: less_mult_imp_div_less)
  moreover have "?n mod 18 + 1 < 19" "?n div 36 \<le> ?n" by simp_all
  ultimately have h: "unat head = ?n mod 36 div 18" "unat track = ?n div 36" "unat sector = ?n mod 18 + 1"
    using n by (simp_all del: of_nat_add of_nat_Suc)
  have e: "(?n div 36 * 2 + ?n mod 36 div 18) * 18 + ?n mod 18 = ?n"
  proof -
    have "?n mod 36 mod 18 = ?n mod 18" by (rule mod_mod_cancel) simp
    moreover have "(a * 2 + c) * 18 + d = ?n" if "a * 36 + b = ?n" "c * 18 + d = b" for a b c d :: nat
      using that by simp
    ultimately show ?thesis using div_mult_mod_eq [of ?n 36] div_mult_mod_eq [of "?n mod 36" 18] by metis
  qed
  have "head \<le> 1" "1 \<le> sector" "sector \<le> 18"
    unfolding word_le_nat_alt h using \<open>?n mod 36 div 18 < 2\<close> \<open>?n mod 18 + 1 < 19\<close> by simp_all
  moreover have "ucast (ucast track :: u8) = track" if "?n < 2880"
  proof -
    have "unat track < 256" using that unfolding h by linarith
    then show ?thesis by (simp add: word_unat_eq_iff unsigned_ucast_eq unsigned_take_bit_eq take_bit_eq_mod [where 'a = nat])
  qed
  ultimately show ?thesis using e unfolding h by (intro conjI impI) simp_all
qed

theorem floppy_chs_roundtrip_witness:
  "floppy_lba_to_chs 2879 = (1, 79, 18) \<and> ucast (ucast (79 :: u32) :: u8) = (79 :: u32)
    \<and> unat (2879 :: u32) = (unat (79 :: u32) * 2 + unat (1 :: u32)) * 18 + (unat (18 :: u32) - 1)"
proof -
  have e: "floppy_lba_to_chs 2879 = (1, 79, 18)"
    by (simp add: floppy_lba_to_chs_def c_div_def c_mod_def FLOPPY_SECTORS_PER_TRACK_def)
  show ?thesis using floppy_chs_roundtrip [OF _ e] e by simp
qed

section \<open>The ports of an operation\<close>

definition fd_step :: "'a floppy_state_scheme \<Rightarrow> 'a floppy_state_scheme \<Rightarrow> bool" where
  "fd_step s s' \<longleftrightarrow> sends (\<lambda>p. p \<noteq> FLOPPY_DOR) s s' \<and> cur_drive s' = cur_drive s \<and> dma_buffer s' = dma_buffer s"

lemma fd_step_refl [simp]: "fd_step s s" by (simp add: fd_step_def)

lemma fd_step_trans [trans]: "fd_step s t \<Longrightarrow> fd_step t u \<Longrightarrow> fd_step s u"
  unfolding fd_step_def using sends_trans by metis

lemma outportb_fields [simp]:
  "cur_drive (outportb p v s) = cur_drive s" "dma_buffer (outportb p v s) = dma_buffer s"
  by (simp_all add: outportb_def)

lemma fd_step_outportb: "p \<noteq> FLOPPY_DOR \<Longrightarrow> fd_step s (outportb p v s)"
  by (simp add: fd_step_def sends_def)

lemma fd_step_inportb: "inportb p s = Some (v, s') \<Longrightarrow> fd_step s s'"
  by (auto simp: inportb_def fd_step_def sends_def split: list.splits)

lemma fd_step_kprint: "fd_step s (kprint f a s)"
  by (simp add: kprint_def fd_step_def sends_def)

lemma fd_step_bad: "fd_step s (bad_status w st s)"
  unfolding bad_status_def by (rule fd_step_kprint)

lemma fifo_ne: "FLOPPY_FIFO \<noteq> FLOPPY_DOR" by (simp add: FLOPPY_FIFO_def FLOPPY_DOR_def)

lemma fd_step_send_try: "send_try n c s = Some s' \<Longrightarrow> fd_step s s'"
proof (induction n arbitrary: s)
  case (Suc n)
  from Suc.prems obtain st t where t: "inportb FLOPPY_MSR s = Some (st, t)"
    and r: "(if st AND FLOPPY_MSR_MASK_DATAREG \<noteq> 0 then Some (outportb FLOPPY_FIFO c t) else send_try n c t) = Some s'"
    by (auto simp: floppy_read_status_def bind_eq_Some_conv)
  have "fd_step t s'" using r Suc.IH fd_step_outportb [OF fifo_ne] by (auto split: if_splits)
  then show ?case using fd_step_inportb [OF t] fd_step_trans by blast
qed auto

lemma fd_step_send_all: "send_all cs s = Some s' \<Longrightarrow> fd_step s s'"
  by (induction cs arbitrary: s)
    (auto simp: bind_eq_Some_conv floppy_send_cmd_def intro: fd_step_trans fd_step_send_try)

lemma fd_step_read_try: "read_try n s = Some (v, s') \<Longrightarrow> fd_step s s'"
proof (induction n arbitrary: s)
  case (Suc n)
  from Suc.prems obtain st t where t: "inportb FLOPPY_MSR s = Some (st, t)"
    and r: "(if st AND FLOPPY_MSR_MASK_DATAREG \<noteq> 0 then inportb FLOPPY_FIFO t else read_try n t) = Some (v, s')"
    by (auto simp: floppy_read_status_def bind_eq_Some_conv)
  have "fd_step t s'" using r Suc.IH fd_step_inportb by (auto split: if_splits)
  then show ?case using fd_step_inportb [OF t] fd_step_trans by blast
qed auto

lemma fd_step_drop_data: "drop_data n s = Some s' \<Longrightarrow> fd_step s s'"
  by (induction n arbitrary: s)
    (auto simp: bind_eq_Some_conv floppy_read_data_def intro: fd_step_trans fd_step_read_try)

lemma fd_step_check_int:
  assumes "floppy_check_int s = Some (r, s')"
  shows "fd_step s s'"
proof -
  from assms obtain t u a b where "send_try 500 FLOPPY_CMD_CHECK_INT s = Some t" "read_try 500 t = Some (a, u)"
      "read_try 500 u = Some (b, s')"
    by (auto simp: floppy_check_int_def floppy_send_cmd_def floppy_read_data_def bind_eq_Some_conv)
  then show ?thesis
    using fd_step_trans [OF fd_step_send_try fd_step_trans [OF fd_step_read_try fd_step_read_try]] by blast
qed

lemma fd_step_wait: "floppy_wait_irq s = Some s' \<Longrightarrow> fd_step s s'"
  by (auto simp: floppy_wait_irq_def floppy_int_def fd_step_def sends_def FLOPPY_DOR_def outportb_def split: if_splits nat.splits)

lemma sends_low_dor: "sends low_port s s' \<Longrightarrow> sends (\<lambda>p. p \<noteq> FLOPPY_DOR) s s'"
  by (erule sends_mono) (auto simp: low_port_def FLOPPY_DOR_def)

lemma dma_fields [simp]:
  "cur_drive (floppy_dma_init s) = cur_drive s" "dma_buffer (floppy_dma_init s) = dma_buffer s"
  "cur_drive (dma_set_mode c m s) = cur_drive s" "dma_buffer (dma_set_mode c m s) = dma_buffer s"
  by (simp_all add: floppy_dma_init_def Let_def dma_reset_def dma_mask_channel_def dma_reset_flipflop_def dma_set_address_def
        dma_set_external_page_register_def dma_set_count_def dma_set_read_def dma_set_mode_def dma_unmask_all_def)

lemma fd_step_dma: "fd_step s (dma_set_read c s)" "fd_step s (dma_set_write c s)"
  using sends_low_dor [OF dma_set_read_low(1)] sends_low_dor [OF dma_set_read_low(2)]
  by (simp_all add: fd_step_def) (simp_all add: dma_set_read_def dma_set_write_def)

lemma fd_step_dma_init: "fd_step s (floppy_dma_init s)"
proof -
  have "sends low_port s (floppy_dma_init s)"
    unfolding floppy_dma_init_def Let_def dma_unmask_all_def
    by (auto intro!: sends_trans [OF _ sends_outportb] sends_trans [OF _ dma_set_read_low(1)]
          sends_trans [OF _ dma_low(1)] sends_trans [OF _ dma_low(2)] sends_trans [OF _ dma_low(3)]
          sends_trans [OF _ dma_low(4)] sends_trans [OF _ dma_low(6)] sends_trans [OF _ dma_low(7)]
          simp: low_port_def DMA1_UNMASK_ALL_REG_def)
  then show ?thesis using sends_low_dor by (simp add: fd_step_def)
qed

section \<open>The motor\<close>

text \<open>The motor bits of the last value the driver has written to the digital output register.\<close>

definition motor_on :: "(u16 \<times> u8) list \<Rightarrow> bool" where
  "motor_on ws = (let xs = filter (\<lambda>(p, v). p = FLOPPY_DOR) ws in xs \<noteq> [] \<and> snd (last xs) AND 0xF0 \<noteq> 0)"

lemma motor_on_append: "\<forall>(p, v) \<in> set w. p \<noteq> FLOPPY_DOR \<Longrightarrow> motor_on (ws @ w) = motor_on ws"
  unfolding motor_on_def by (subst filter_append, subst (2) filter_False) auto

lemma motor_off:
  "sint (cur_drive s) \<le> 3 \<Longrightarrow> \<not> motor_on (port_writes (floppy_control_motor 0 s))"
  by (simp add: motor_on_def floppy_control_motor_def floppy_write_dor_def FLOPPY_CMD_READ_DEL_S_def)

text \<open>How a seek ends: on the cylinder, as the controller's answer says, or after the last try.\<close>

definition seek_end :: "u32 \<Rightarrow> u32 \<Rightarrow> 'a floppy_state_scheme \<Rightarrow> 'a floppy_state_scheme \<Rightarrow> bool" where
  "seek_end cyl r t s' \<longleftrightarrow>
     r = 0 \<and> s' = floppy_control_motor 0 t \<and> (\<exists>u st0. floppy_check_int u = Some ((st0, cyl), t) \<and> st0 AND 0xC0 = 0)
     \<or> r = - 1 \<and> s' = kprint (''Floppy seek failed'' @ NL) [] (floppy_control_motor 0 t)"

lemma seek_loop_step:
  "seek_loop n cyl head s = Some (r, s') \<Longrightarrow> \<exists>t. fd_step s t \<and> seek_end cyl r t s'"
proof (induction n arbitrary: s)
  case 0
  then show ?case unfolding seek_end_def seek_loop.simps by (intro exI [of _ s]) simp
next
  case (Suc n)
  from Suc.prems obtain t u st0 c v where t: "send_all [FLOPPY_CMD_SEEK, ucast (push_bit 2 head OR cur_drive s), ucast cyl] s = Some t"
    and u: "floppy_wait_irq t = Some u" and v: "floppy_check_int u = Some ((st0, c), v)"
    and r: "(if st0 AND 0xC0 \<noteq> 0 then seek_loop n cyl head (bad_status ''floppy_seek'' st0 v)
       else if c = cyl then Some (0, floppy_control_motor 0 v) else seek_loop n cyl head v) = Some (r, s')"
    by (auto simp: bind_eq_Some_conv simp del: send_all.simps)
  have sv: "fd_step s v"
    by (rule fd_step_trans [OF fd_step_send_all [OF t] fd_step_trans [OF fd_step_wait [OF u] fd_step_check_int [OF v]]])
  show ?case
  proof (cases "st0 AND 0xC0 \<noteq> 0")
    case True
    with r have "seek_loop n cyl head (bad_status ''floppy_seek'' st0 v) = Some (r, s')" by simp
    from Suc.IH [OF this] obtain w where w: "fd_step (bad_status ''floppy_seek'' st0 v) w" "seek_end cyl r w s'" by (elim exE conjE)
    have "fd_step s w" by (rule fd_step_trans [OF sv fd_step_trans [OF fd_step_bad w(1)]])
    then show ?thesis using w(2) by (intro exI conjI)
  next
    case st: False
    show ?thesis
    proof (cases "c = cyl")
      case True
      with r st have "r = 0" "s' = floppy_control_motor 0 v" by simp_all
      moreover have "floppy_check_int u = Some ((st0, cyl), v)" using v True by simp
      ultimately have "seek_end cyl r v s'" using st unfolding seek_end_def by simp (intro exI conjI)
      then show ?thesis using sv by (intro exI conjI)
    next
      case False
      with r st have "seek_loop n cyl head v = Some (r, s')" by simp
      from Suc.IH [OF this] obtain w where w: "fd_step v w" "seek_end cyl r w s'" by (elim exE conjE)
      then show ?thesis using fd_step_trans [OF sv w(1)] by (intro exI conjI)
    qed
  qed
qed

lemma transfer_step:
  assumes "transfer setup cmd h t c s = Some (st0, s')" "\<And>x. fd_step x (setup x)"
  shows "fd_step s s'"
proof -
  from assms(1) obtain u v w cyl where "send_all (transfer_cmds cmd h t c (cur_drive (setup (floppy_dma_init s)))) (setup (floppy_dma_init s)) = Some u"
      "floppy_wait_irq u = Some v" "drop_data 7 v = Some w" "floppy_check_int w = Some ((st0, cyl), s')"
    by (auto simp: transfer_def Let_def bind_eq_Some_conv)
  then show ?thesis
    using fd_step_trans [OF fd_step_dma_init fd_step_trans [OF assms(2) fd_step_trans [OF fd_step_send_all
      fd_step_trans [OF fd_step_wait fd_step_trans [OF fd_step_drop_data fd_step_check_int]]]]] by blast
qed

lemma read_imp_step: "floppy_read_sector_imp h t c s = Some s' \<Longrightarrow> fd_step s s'"
  unfolding floppy_read_sector_imp_def
  by (auto simp: bind_eq_Some_conv dest!: transfer_step intro: fd_step_dma fd_step_trans [OF _ fd_step_kprint] split: if_splits)

lemma control_motor_step: "cur_drive (floppy_control_motor b s) = cur_drive s"
  by (simp add: floppy_control_motor_def floppy_write_dor_def)

lemma kprint_writes [simp]: "port_writes (kprint f a s) = port_writes s"
  by (simp add: kprint_def)

lemma floppy_seek_step:
  assumes "floppy_seek cyl head s = Some (r, s')" "sint (cur_drive s) \<le> 3"
  shows "\<exists>t. seek_end cyl r t s' \<and> cur_drive t = cur_drive s \<and> \<not> motor_on (port_writes s')"
proof -
  from assms have "seek_loop 10 cyl head (floppy_control_motor 1 s) = Some (r, s')" by (simp add: floppy_seek_def)
  from seek_loop_step [OF this] obtain t where t: "fd_step (floppy_control_motor 1 s) t" "seek_end cyl r t s'" by (elim exE conjE)
  have c: "cur_drive t = cur_drive s" using t(1) by (simp add: fd_step_def control_motor_step)
  with assms(2) have "sint (cur_drive t) \<le> 3" by simp
  from motor_off [OF this] t(2) have "\<not> motor_on (port_writes s')" unfolding seek_end_def by auto
  then show ?thesis using t(2) c by (intro exI conjI)
qed

text \<open>A seek ends with 0 or -1 and always with the motor off; it returns 0 only when the controller
  answered the sense command with the cylinder asked for and a status without error bits.\<close>
theorem floppy_seek_arrives:
  assumes "floppy_seek cyl head s = Some (r, s')" "sint (cur_drive s) \<le> 3"
  shows "(r = 0 \<or> r = - 1) \<and> \<not> motor_on (port_writes s')
    \<and> (r = 0 \<longrightarrow> (\<exists>u t st0. floppy_check_int u = Some ((st0, cyl), t) \<and> st0 AND 0xC0 = 0 \<and> s' = floppy_control_motor 0 t))"
  using floppy_seek_step [OF assms] unfolding seek_end_def by (elim exE conjE disjE) auto

text \<open>C36: \<open>floppy_read_sector\<close> turns the motor on, but the seek inside it turns it off again: when it
  returns the buffer, the whole transfer ran with no motor bit set in the output register.\<close>
theorem floppy_read_motor_off:
  assumes "floppy_read_sector lba s = Some (p, s')" "sint (cur_drive s) \<le> 3" "p \<noteq> 0"
  shows "\<exists>cyl head u v h t c. floppy_seek cyl head (floppy_control_motor 1 s) = Some (0, u) \<and> floppy_read_sector_imp h t c u = Some v
    \<and> s' = floppy_control_motor 0 v \<and> p = dma_buffer v \<and> \<not> motor_on (port_writes u)
    \<and> (\<exists>w. port_writes v = port_writes u @ w \<and> (\<forall>(port, val) \<in> set w. port \<noteq> FLOPPY_DOR))"
proof -
  obtain head track sector where l: "floppy_lba_to_chs lba = (head, track, sector)" by (cases "floppy_lba_to_chs lba") auto
  from assms(1) obtain r u where u: "floppy_seek (ucast (ucast track :: u8)) (ucast (ucast head :: u8)) (floppy_control_motor 1 s) = Some (r, u)"
    and r: "(if r \<noteq> 0 then Some (0, floppy_control_motor 0 u) else do {
          v \<leftarrow> floppy_read_sector_imp (ucast head) (ucast track) (ucast sector) u;
          Some (dma_buffer v, floppy_control_motor 0 v) }) = Some (p, s')"
    using assms(2) unfolding floppy_read_sector_def l by (auto simp: bind_eq_Some_conv simp del: fun_upd_apply)
  from r assms(3) have r0: "r = 0" by (auto split: if_splits)
  with r obtain v where v: "floppy_read_sector_imp (ucast head) (ucast track) (ucast sector) u = Some v"
      "p = dma_buffer v" "s' = floppy_control_motor 0 v"
    by (auto simp: bind_eq_Some_conv)
  have "sint (cur_drive (floppy_control_motor 1 s)) \<le> 3" using assms(2) by (simp add: control_motor_step)
  from floppy_seek_step [OF u this] have "\<not> motor_on (port_writes u)" by (elim exE conjE)
  moreover have "sends (\<lambda>p. p \<noteq> FLOPPY_DOR) u v" using read_imp_step [OF v(1)] by (simp add: fd_step_def)
  then obtain w where "port_writes v = port_writes u @ w" "\<forall>(port, val) \<in> set w. port \<noteq> FLOPPY_DOR"
    unfolding sends_def by (elim exE conjE)
  ultimately show ?thesis using u v unfolding r0 by (intro exI conjI)
qed

lemma unat_byte: "unat (ucast w :: u8) = unat (w :: u32) mod 256"
  by (simp add: unsigned_ucast_eq take_bit_eq_mod [where 'a = nat])

lemma unat_byte2: "unat (ucast (drop_bit 8 (w :: u32)) :: u8) = unat w div 256 mod 256"
    "unat (ucast (drop_bit 16 w) :: u8) = unat w div 65536 mod 256"
  unfolding unat_byte unat_drop_bit_eq drop_bit_eq_div [where 'a = nat] by simp_all

lemma bytes3: "n mod 256 + 256 * (n div 256 mod 256) + 65536 * (n div 65536 mod 256) = n" if "n < 16777216" for n :: nat
proof -
  have "n div 65536 = n div 256 div 256" by (simp add: div_mult2_eq [symmetric])
  moreover have "n div 65536 < 256" using that by (simp add: less_mult_imp_div_less)
  moreover have "a + 256 * b + 65536 * c = n" if "d * 256 + a = n" "c * 256 + b = d" for a b c d :: nat
    using that by simp
  ultimately show ?thesis using div_mult_mod_eq [of n 256] div_mult_mod_eq [of "n div 256" 256] by (metis mod_less)
qed

text \<open>Before a transfer the driver programs the first controller with the buffer's address and the
  length of the buffer less one, low byte first, unless the buffer lies above 16 MB or crosses a 64 KB
  boundary, when nothing is sent.\<close>
theorem floppy_dma_programs:
  "if unat (dma_buffer s) < 0x1000000 \<and> unat (dma_buffer s) mod 0x10000 + 0x47FF < 0x10000
   then \<exists>a0 a1 a2 c0 c1. unat a0 + 256 * unat a1 + 65536 * unat a2 = unat (dma_buffer s) \<and> unat c0 + 256 * unat c1 = 0x47FF
        \<and> port_writes (floppy_dma_init s) = port_writes s @ [(0x0D, 0xFF), (0x0A, 2), (0x0C, 0xFF), (4, a0), (4, a1), (0x81, a2),
            (0x0C, 0xFF), (5, c0), (5, c1), (0x0A, 2), (0x0B, 0x46), (0xDC, 0xFF), (0xDC, 0xFF)]
   else floppy_dma_init s = s"
proof -
  let ?a = "dma_buffer s"
  have c: "FLOPPY_DMA_LEN - 1 = 0x47FF" by (simp add: FLOPPY_DMA_LEN_def)
  have m: "unat (?a AND 0xFFFF) = unat ?a mod 0x10000"
    unfolding low_mask take_bit_eq_mask [symmetric] unsigned_take_bit_eq by (simp add: take_bit_eq_mod [where 'a = nat])
  have a24: "drop_bit 24 ?a \<noteq> 0 \<longleftrightarrow> \<not> unat ?a < 0x1000000"
    by (simp add: word_unat_eq_iff unat_drop_bit_eq drop_bit_eq_div [where 'a = nat] div_eq_0_iff)
  have s16: "unat ((?a AND 0xFFFF) + 0x47FF) = unat ?a mod 0x10000 + 0x47FF"
    by (subst unat_add_lem [THEN iffD1]) (simp_all add: m)
  have a16: "drop_bit 16 ((?a AND 0xFFFF) + 0x47FF) \<noteq> 0 \<longleftrightarrow> \<not> unat ?a mod 0x10000 + 0x47FF < 0x10000"
    by (simp add: word_unat_eq_iff unat_drop_bit_eq drop_bit_eq_div [where 'a = nat] div_eq_0_iff s16)
  have g: "(drop_bit 24 ?a \<noteq> 0 \<or> drop_bit 16 (0x47FF :: u32) \<noteq> 0 \<or> drop_bit 16 ((?a AND 0xFFFF) + 0x47FF) \<noteq> 0) \<longleftrightarrow>
      \<not> (unat ?a < 0x1000000 \<and> unat ?a mod 0x10000 + 0x47FF < 0x10000)"
    unfolding a24 a16 by simp
  show ?thesis
  proof (cases "unat ?a < 0x1000000 \<and> unat ?a mod 0x10000 + 0x47FF < 0x10000")
    case True
    let ?x = "ucast ?a :: u8" and ?y = "ucast (drop_bit 8 ?a) :: u8" and ?z = "ucast (drop_bit 16 ?a) :: u8"
    have "unat ?x = unat ?a mod 256" "unat ?y = unat ?a div 256 mod 256" "unat ?z = unat ?a div 65536 mod 256"
      by (rule unat_byte unat_byte2)+
    then have "unat ?x + 256 * unat ?y + 65536 * unat ?z = unat ?a" using bytes3 [of "unat ?a"] True by (simp only:)
    moreover have "port_writes (floppy_dma_init s) = port_writes s @ [(0x0D, 0xFF), (0x0A, 2), (0x0C, 0xFF), (4, ?x), (4, ?y), (0x81, ?z),
            (0x0C, 0xFF), (5, 0xFF), (5, 0x47), (0x0A, 2), (0x0B, 0x46), (0xDC, 0xFF), (0xDC, 0xFF)]"
      unfolding floppy_dma_init_def Let_def c g using True
      by (simp add: dma_reset_def dma_mask_channel_def dma_reset_flipflop_def dma_set_address_def dma_set_external_page_register_def
        dma_set_count_def dma_set_read_def dma_set_mode_def dma_unmask_all_def FLOPPY_DMA_CHANNEL_def dma_addr_port_def dma_count_port_def
        dma_page_port_def DMA0_TEMP_REG_def DMA0_CHANMASK_REG_def DMA0_CLEARBYTE_FLIPFLOP_REG_def DMA0_MODE_REG_def DMA1_UNMASK_ALL_REG_def
        DMA_MODE_READ_TRANSFER_def DMA_MODE_TRANSFER_SINGLE_def shl1_def)
    moreover have "unat (0xFF :: u8) + 256 * unat (0x47 :: u8) = 0x47FF" by simp
    ultimately show ?thesis unfolding if_P [OF True] by (intro exI conjI)
  next
    case False
    show ?thesis unfolding if_not_P [OF False] unfolding floppy_dma_init_def Let_def c g if_P [OF False] ..
  qed
qed

section \<open>A drive that answers\<close>

text \<open>The driver on a controller that is ready at once.\<close>

lemma send_ready:
  "port_reads s = w # ws \<Longrightarrow> (ucast w :: u8) AND 128 \<noteq> 0 \<Longrightarrow>
     floppy_send_cmd c s = Some (outportb FLOPPY_FIFO c (s\<lparr>port_reads := ws\<rparr>))"
  unfolding floppy_send_cmd_def
  by (subst send_try.simps(2) [of 499, simplified]) (simp add: floppy_read_status_def inportb_def FLOPPY_MSR_MASK_DATAREG_def)

lemma data_ready:
  "port_reads s = w # d # ws \<Longrightarrow> (ucast w :: u8) AND 128 \<noteq> 0 \<Longrightarrow>
     floppy_read_data s = Some (ucast d, s\<lparr>port_reads := ws\<rparr>)"
  unfolding floppy_read_data_def
  by (subst read_try.simps(2) [of 499, simplified]) (simp add: floppy_read_status_def inportb_def FLOPPY_MSR_MASK_DATAREG_def)

definition demo_floppy :: "nat \<Rightarrow> u16 list \<Rightarrow> floppy_state" where
  "demo_floppy n rs = fs_state.extend (demo_fs\<lparr>port_reads := rs, dma_buffer := 0x10000, int_on := True\<rparr>)
     \<lparr>floppy_irq_done = 0, cur_drive = 0, floppy_irqs = n\<rparr>"

text \<open>The answers to a seek that arrives on \<open>cyl\<close>, and to a transfer.\<close>

definition seek_answers :: "u16 \<Rightarrow> u16 list" where
  "seek_answers cyl = [128, 128, 128, 128, 128, 0, 128, cyl]"

definition transfer_answers :: "u16 list" where
  "transfer_answers = [128, 128, 128, 128, 128, 128, 128, 128, 128,
     128, 0, 128, 0, 128, 0, 128, 0, 128, 0, 128, 0, 128, 0, 128, 128, 0, 128, 0]"

lemma demo_floppy_simps:
  "port_reads (demo_floppy n rs) = rs" "cur_drive (demo_floppy n rs) = 0" "floppy_irqs (demo_floppy n rs) = n"
  "dma_buffer (demo_floppy n rs) = 0x10000" "int_on (demo_floppy n rs)" "floppy_irq_done (demo_floppy n rs) = 0"
  by (simp_all add: demo_floppy_def fs_state.defs)

lemma wait_ready:
  "floppy_irq_done s = 0 \<Longrightarrow> floppy_irqs s = Suc n \<Longrightarrow> int_on s \<Longrightarrow>
     floppy_wait_irq s = Some ((outportb 0x20 0x20 s)\<lparr>floppy_irqs := n, floppy_irq_done := 0\<rparr>)"
  by (simp add: floppy_wait_irq_def floppy_int_def outportb_def)

lemma outportb_more [simp]:
  "floppy_irq_done (outportb p v s) = floppy_irq_done s" "floppy_irqs (outportb p v s) = floppy_irqs s"
  by (simp_all add: outportb_def)

lemma control_motor_fields [simp]:
  "port_reads (floppy_control_motor b s) = port_reads s" "floppy_irqs (floppy_control_motor b s) = floppy_irqs s"
  "floppy_irq_done (floppy_control_motor b s) = floppy_irq_done s" "int_on (floppy_control_motor b s) = int_on s"
  "cur_drive (floppy_control_motor b s) = cur_drive s" "dma_buffer (floppy_control_motor b s) = dma_buffer s"
  by (simp_all add: floppy_control_motor_def floppy_write_dor_def)

lemma demo_seek:
  assumes "port_reads s = seek_answers 0 @ rs" "floppy_irqs s = Suc n" "floppy_irq_done s = 0" "int_on s" "cur_drive s = 0"
  shows "\<exists>s'. floppy_seek 0 0 s = Some (0, s') \<and> port_reads s' = rs
    \<and> cur_drive s' = 0 \<and> floppy_irqs s' = n \<and> floppy_irq_done s' = 0 \<and> int_on s' \<and> dma_buffer s' = dma_buffer s"
  unfolding floppy_seek_def using assms
  by (subst seek_loop.simps(2) [of 9, simplified])
    (simp add: seek_answers_def send_ready data_ready wait_ready floppy_check_int_def)

theorem floppy_seek_arrives_witness:
  "\<exists>s'. floppy_seek 0 0 (demo_floppy 1 (seek_answers 0)) = Some (0, s') \<and> \<not> motor_on (port_writes s')"
proof -
  obtain s' where "floppy_seek 0 0 (demo_floppy 1 (seek_answers 0)) = Some (0, s')"
    using demo_seek [of "demo_floppy 1 (seek_answers 0)" "[]" 0] by (auto simp: demo_floppy_simps)
  then show ?thesis using floppy_seek_arrives [of 0 0 "demo_floppy 1 (seek_answers 0)" 0 s'] by (simp add: demo_floppy_simps)
qed

lemma dma_fields2 [simp]:
  "port_reads (floppy_dma_init s) = port_reads s" "floppy_irq_done (floppy_dma_init s) = floppy_irq_done s"
  "floppy_irqs (floppy_dma_init s) = floppy_irqs s" "int_on (floppy_dma_init s) = int_on s"
  "port_reads (dma_set_mode c m s) = port_reads s" "floppy_irq_done (dma_set_mode c m s) = floppy_irq_done s"
  "floppy_irqs (dma_set_mode c m s) = floppy_irqs s" "int_on (dma_set_mode c m s) = int_on s"
  by (simp_all add: floppy_dma_init_def Let_def dma_reset_def dma_mask_channel_def dma_reset_flipflop_def dma_set_address_def
        dma_set_external_page_register_def dma_set_count_def dma_set_read_def dma_set_mode_def dma_unmask_all_def)

lemma demo_read_imp:
  assumes "port_reads s = transfer_answers" "floppy_irqs s = Suc n" "floppy_irq_done s = 0" "int_on s" "cur_drive s = 0"
  shows "\<exists>s'. floppy_read_sector_imp h t c s = Some s' \<and> dma_buffer s' = dma_buffer s"
proof -
  have seven: "7 = Suc (Suc (Suc (Suc (Suc (Suc (Suc 0))))))" by simp
  show ?thesis
    using assms by (simp add: floppy_read_sector_imp_def transfer_def transfer_cmds_def transfer_answers_def dma_set_read_def
      send_ready data_ready wait_ready floppy_check_int_def seven)
qed

theorem floppy_read_motor_off_witness:
  "\<exists>s' (u :: floppy_state) v h t c. floppy_read_sector 0 (demo_floppy 2 (seek_answers 0 @ transfer_answers)) = Some (0x10000, s')
    \<and> floppy_read_sector_imp h t c u = Some v \<and> \<not> motor_on (port_writes u)"
proof -
  let ?s = "demo_floppy 2 (seek_answers 0 @ transfer_answers)"
  have l: "floppy_lba_to_chs 0 = (0, 0, 1)" by (simp add: floppy_lba_to_chs_def c_div_def c_mod_def)
  obtain u where u: "floppy_seek 0 0 (floppy_control_motor 1 ?s) = Some (0, u)" "port_reads u = transfer_answers" "cur_drive u = 0"
      "floppy_irqs u = Suc 0" "floppy_irq_done u = 0" "int_on u" "dma_buffer u = 0x10000"
    using demo_seek [of "floppy_control_motor 1 ?s" transfer_answers 1] by (auto simp: demo_floppy_simps)
  obtain v where "floppy_read_sector_imp 0 0 1 u = Some v" "dma_buffer v = 0x10000"
    using demo_read_imp [OF u(2,4-6,3), of 0 0 1] u(7) by auto
  then have r: "floppy_read_sector 0 ?s = Some (0x10000, floppy_control_motor 0 v)"
    using u(1) by (simp add: floppy_read_sector_def l demo_floppy_simps)
  have "sint (cur_drive ?s) \<le> 3" "(0x10000 :: u32) \<noteq> 0" by (simp_all add: demo_floppy_simps)
  from floppy_read_motor_off [OF r this] obtain h t c and u' v' :: floppy_state where
    "floppy_read_sector_imp h t c u' = Some v'" "\<not> motor_on (port_writes u')" by (elim exE conjE) (rule that, assumption+)
  with r show ?thesis by (intro exI conjI)
qed

end
