(* ===== verification/Cells.thy ===== *)
theory Cells
  imports Prelude
begin

text \<open>
  Arrays of 16-bit cells in linear memory: a sector that is read word by word, and the screen.
  \<open>cells m p n\<close> is the list of the \<open>n\<close> cells at \<open>p\<close>.
\<close>

definition cells :: "mem \<Rightarrow> u32 \<Rightarrow> nat \<Rightarrow> u16 list" where
  "cells m p n = map (\<lambda>i. read16 m (p + 2 * of_nat i)) [0..<n]"

lemma length_cells [simp]: "length (cells m p n) = n"
  by (simp add: cells_def)

lemma nth_cells [simp]: "i < n \<Longrightarrow> cells m p n ! i = read16 m (p + 2 * of_nat i)"
  by (simp add: cells_def)

lemma cell_addr:
  fixes p :: u32
  assumes "2 * n \<le> 2 ^ 32" "i < n" "j < n"
  shows "p + 2 * of_nat i = p + 2 * of_nat j \<longleftrightarrow> i = j" "p + 2 * of_nat i \<noteq> p + 2 * of_nat j + 1"
    "p + 2 * of_nat i + 1 = p + 2 * of_nat j + 1 \<longleftrightarrow> i = j"
proof -
  have inj: "(of_nat a :: u32) = of_nat b \<longleftrightarrow> a = b" if "a < 4294967296" "b < 4294967296" for a b
    using that by (metis unat_of_nat_u32)
  have "(of_nat (2 * i) :: u32) = of_nat (2 * j) \<longleftrightarrow> i = j"
    using assms by (subst inj) auto
  then show "p + 2 * of_nat i = p + 2 * of_nat j \<longleftrightarrow> i = j" by simp
  then show "p + 2 * of_nat i + 1 = p + 2 * of_nat j + 1 \<longleftrightarrow> i = j" by simp
  have "(of_nat (2 * i) :: u32) \<noteq> of_nat (2 * j + 1)"
  proof -
    have "2 * i < 4294967296" "2 * j + 1 < 4294967296" using assms by simp_all
    moreover have "2 * i \<noteq> 2 * j + 1" by presburger
    ultimately show ?thesis using inj by blast
  qed
  then show "p + 2 * of_nat i \<noteq> p + 2 * of_nat j + 1" by (simp add: ac_simps)
qed

lemma read16_other:
  assumes "2 * n \<le> 2 ^ 32" "i < n" "j < n"
  shows "read16 (write16 m (p + 2 * of_nat i) v) (p + 2 * of_nat j) = (if i = j then v else read16 m (p + 2 * of_nat j))"
proof (cases "i = j")
  case False
  have "p + 2 * of_nat j \<noteq> p + 2 * of_nat i" "p + 2 * of_nat j \<noteq> p + 2 * of_nat i + 1"
      "p + 2 * of_nat j + 1 \<noteq> p + 2 * of_nat i" "p + 2 * of_nat j + 1 \<noteq> p + 2 * of_nat i + 1"
    using cell_addr [OF assms(1,3,2), of p] cell_addr(2) [OF assms, of p] False by metis+
  then show ?thesis using False by (simp add: read16_def write16_def)
qed simp

lemma cells_write16:
  assumes "i < n" "2 * n \<le> 2 ^ 32"
  shows "cells (write16 m (p + 2 * of_nat i) v) p n = (cells m p n)[i := v]"
  using assms by (auto intro!: nth_equalityI simp: read16_other nth_list_update)

lemma cell_in_region:
  assumes "i < n" "2 * n < 2 ^ 32"
  shows "p + 2 * of_nat i \<in> region p (2 * n)" "p + 2 * of_nat i + 1 \<in> region p (2 * n)"
proof -
  have "p + of_nat (2 * i) \<in> region p (2 * n)" "p + of_nat (2 * i + 1) \<in> region p (2 * n)"
    using assms by (auto simp: region_def simp del: of_nat_mult of_nat_add of_nat_Suc)
  then show "p + 2 * of_nat i \<in> region p (2 * n)" "p + 2 * of_nat i + 1 \<in> region p (2 * n)"
    by (simp_all add: ac_simps)
qed

lemma write16_outside:
  assumes "i < n" "2 * n < 2 ^ 32" "a \<notin> region p (2 * n)"
  shows "write16 m (p + 2 * of_nat i) v a = m a"
  using cell_in_region [OF assms(1,2), of p] assms(3) unfolding write16_def by (metis fun_upd_other)

lemma cells_cong:
  assumes "\<And>a. a \<in> region p (2 * n) \<Longrightarrow> m a = m' a" "2 * n < 2 ^ 32"
  shows "cells m p n = cells m' p n"
proof (rule nth_equalityI)
  fix i assume "i < length (cells m p n)"
  then show "cells m p n ! i = cells m' p n ! i"
    using assms cell_in_region [of i n p] by (simp add: read16_def)
qed simp

end
