(* ===== verification/Ata.thy ===== *)
theory Ata
  imports Floppy Cells
begin

text \<open>
  The ATA driver, \<open>drivers/ata/ata.c\<close>: identification of the four drives and reading a sector by
  polling.  The drives' answers come from the script of port reads; a poll that exhausts it is a
  loop that does not end.
\<close>

record ata_drive =
  a_present :: u32
  a_type :: u32
  a_data_reg :: u32
  a_err_reg :: u32
  a_sectors_reg :: u32
  a_lba_low_reg :: u32
  a_lba_mid_reg :: u32
  a_lba_high_reg :: u32
  a_sel_reg :: u32
  a_status_reg :: u32
  a_irq_num :: u32
  a_lba_mode :: u32
  a_total_sectors_28 :: u32
  a_total_sectors_48 :: "64 word"

text \<open>The four drives in the order of the structure, and the copy \<open>cur_hdd\<close>.\<close>

record ata_state = floppy_state +
  cur_hdd :: ata_drive
  ata_drives :: "ata_drive list"
  ata_irq_done :: u8

definition ATA_IDENTIFY :: u8 where "ATA_IDENTIFY = 0xEC"

section \<open>Identification\<close>

text \<open>\<open>while(cond(inportb(port)));\<close>\<close>

partial_function (option) poll :: "(u8 \<Rightarrow> bool) \<Rightarrow> u16 \<Rightarrow> 'a cpu_state_scheme \<Rightarrow> 'a cpu_state_scheme option" where
  "poll busy port s = do {
     (v, s) \<leftarrow> inportb port s;
     if busy v then poll busy port s else Some s
   }"

text \<open>The second wait reads the status again when the first test holds; the mask of that test is 0.\<close>

partial_function (option) poll_drq :: "u16 \<Rightarrow> 'a cpu_state_scheme \<Rightarrow> 'a cpu_state_scheme option" where
  "poll_drq port s = do {
     (v, s) \<leftarrow> inportb port s;
     if v AND 8 \<noteq> 8 then do {
       (w, s) \<leftarrow> inportb port s;
       if w AND 0 = 0 then poll_drq port s else Some s
     }
     else Some s
   }"

text \<open>One of the 256 words of the answer.\<close>

definition identify_word :: "nat \<Rightarrow> u16 \<Rightarrow> ata_drive \<Rightarrow> ata_drive" where
  "identify_word i w d =
     (if i = 83 then d\<lparr>a_lba_mode := (if w AND 0x400 \<noteq> 0 then 1 else 0)\<rparr>
      else if i = 60 then d\<lparr>a_total_sectors_28 := push_bit 16 (ucast w)\<rparr>
      else if i = 61 then d\<lparr>a_total_sectors_28 := a_total_sectors_28 d OR ucast w\<rparr>
      else if i = 100 then d\<lparr>a_total_sectors_48 := push_bit 16 (ucast w)\<rparr>
      else if i = 101 \<or> i = 102 then d\<lparr>a_total_sectors_48 := push_bit 16 (a_total_sectors_48 d OR ucast w)\<rparr>
      else if i = 103 then d\<lparr>a_total_sectors_48 := a_total_sectors_48 d OR ucast w\<rparr>
      else d)"

fun identify_words :: "nat list \<Rightarrow> ata_drive \<Rightarrow> 'a cpu_state_scheme \<Rightarrow> (ata_drive \<times> 'a cpu_state_scheme) option" where
  "identify_words [] d s = Some (d, s)"
| "identify_words (i # is) d s = do {
     (w, s) \<leftarrow> inportw (ucast (a_data_reg d)) s;
     identify_words is (identify_word i w d) s
   }"

definition identify :: "ata_drive \<Rightarrow> 'a cpu_state_scheme \<Rightarrow> (ata_drive \<times> 'a cpu_state_scheme) option" where
  "identify d s = do {
     let status_port = ucast (a_status_reg d);
     let s = outportb (ucast (a_sel_reg d)) (if a_type d = 1 then 0xA0 else 0xB0) s;
     let s = outportb (ucast (a_lba_low_reg d)) 0 s;
     let s = outportb (ucast (a_lba_mid_reg d)) 0 s;
     let s = outportb (ucast (a_lba_high_reg d)) 0 s;
     let s = outportb status_port ATA_IDENTIFY s;
     (st, s) \<leftarrow> inportb status_port s;
     if st = 0 then Some (d\<lparr>a_present := 0\<rparr>, s)
     else do {
       (mid, s) \<leftarrow> inportb (ucast (a_lba_mid_reg d)) s;
       (high, s) \<leftarrow> (if mid \<noteq> 0 then Some (0, s) else inportb (ucast (a_lba_high_reg d)) s);
       if mid \<noteq> 0 \<or> high \<noteq> 0 then Some (d\<lparr>a_present := 0\<rparr>, s)
       else do {
         s \<leftarrow> poll (\<lambda>v. v AND 0x80 \<noteq> 0) status_port s;
         s \<leftarrow> poll_drq status_port s;
         (v, s) \<leftarrow> inportb status_port s;
         if v AND 0 = 1 then Some (d\<lparr>a_present := 0\<rparr>, s)
         else identify_words [0..<256] (d\<lparr>a_present := 1\<rparr>) s
       }
     }
   }"

definition ata_info_fill :: "ata_drive \<Rightarrow> u32 \<Rightarrow> u32 \<Rightarrow> u32 \<Rightarrow> u32 \<Rightarrow> u32 \<Rightarrow> u32 \<Rightarrow> u32 \<Rightarrow> u32 \<Rightarrow> u32 \<Rightarrow> u32
    \<Rightarrow> 'a cpu_state_scheme \<Rightarrow> (ata_drive \<times> 'a cpu_state_scheme) option" where
  "ata_info_fill d type data err sect lba_low lba_mid lba_high sel status irq =
     identify (d\<lparr>a_type := type, a_data_reg := data, a_err_reg := err, a_sectors_reg := sect, a_lba_low_reg := lba_low,
       a_lba_mid_reg := lba_mid, a_lba_high_reg := lba_high, a_sel_reg := sel, a_status_reg := status, a_irq_num := irq\<rparr>)"

text \<open>The registers of the two channels: data, error, sector count, the three address bytes, drive
  select, status, and the interrupt.\<close>

definition ata_primary :: "u32 list" where
  "ata_primary = [0x1F0, 0x1F1, 0x1F2, 0x1F3, 0x1F4, 0x1F5, 0x1F6, 0x1F7, 14]"

definition ata_secondary :: "u32 list" where
  "ata_secondary = [0x170, 0x171, 0x172, 0x173, 0x174, 0x175, 0x176, 0x177, 15]"

definition ata_fill_at :: "nat \<Rightarrow> u32 \<Rightarrow> u32 list \<Rightarrow> 'a ata_state_scheme \<Rightarrow> 'a ata_state_scheme option" where
  "ata_fill_at i type r s = do {
     (d, s) \<leftarrow> ata_info_fill (ata_drives s ! i) type (r ! 0) (r ! 1) (r ! 2) (r ! 3) (r ! 4) (r ! 5) (r ! 6) (r ! 7) (r ! 8) s;
     Some (s\<lparr>ata_drives := (ata_drives s)[i := d]\<rparr>)
   }"

text \<open>Every drive gets the same sector function \<open>rd\<close>, which is \<open>ata_read_sector\<close> as it acts on memory
  and media, and no function to write.\<close>

definition ata_register :: "(string \<Rightarrow> u32) \<Rightarrow> (u32 \<Rightarrow> sector_io \<Rightarrow> (u32 \<times> sector_io) option) \<Rightarrow> nat
    \<Rightarrow> 'a ata_state_scheme \<Rightarrow> 'a ata_state_scheme option" where
  "ata_register ld rd i s =
     (if a_present (ata_drives s ! i) = 1 then
        let d = dev_info_at ld ''ata_dev_info'' i;
            s = upd_dev d (\<lambda>dv. dv\<lparr>dv_id := of_nat i, dv_type := 1,
                  dv_mount := lit ''hd'' @ [of_nat i + of_char CHR ''a'', 0], dv_read := rd\<rparr>) s
        in device_register d (fat_init d s)
      else Some s)"

definition ata_init :: "(string \<Rightarrow> u32) \<Rightarrow> (u32 \<Rightarrow> sector_io \<Rightarrow> (u32 \<times> sector_io) option)
    \<Rightarrow> 'a ata_state_scheme \<Rightarrow> 'a ata_state_scheme option" where
  "ata_init ld rd s = do {
     let s = install_ir 46 (0x80 OR 0x0E) 0x8 (ld ''ata_int'') s;
     let s = install_ir 47 (0x80 OR 0x0E) 0x8 (ld ''ata_int'') s;
     s \<leftarrow> ata_fill_at 0 1 ata_primary s;
     s \<leftarrow> ata_fill_at 1 0 ata_primary s;
     s \<leftarrow> ata_fill_at 2 1 ata_secondary s;
     s \<leftarrow> ata_fill_at 3 0 ata_secondary s;
     let s = s\<lparr>cur_hdd := ata_drives s ! 0\<rparr>;
     s \<leftarrow> ata_register ld rd 0 s;
     s \<leftarrow> ata_register ld rd 1 s;
     s \<leftarrow> ata_register ld rd 2 s;
     ata_register ld rd 3 s
   }"

section \<open>Reading a sector\<close>

definition ata_int :: "'a ata_state_scheme \<Rightarrow> 'a ata_state_scheme" where
  "ata_int s = outportb 0x20 0x20 (outportb 0xA0 0x20 (s\<lparr>ata_irq_done := ata_irq_done s + 1\<rparr>))"

text \<open>The loop ends when an interrupt of the drive changes the flag; \<open>n\<close> of them are to come.  Nothing calls this
  function.\<close>

fun ata_wait_for_irq :: "nat \<Rightarrow> 'a ata_state_scheme \<Rightarrow> 'a ata_state_scheme option" where
  "ata_wait_for_irq n s =
     (if ata_irq_done s = 0 then (case n of 0 \<Rightarrow> None | Suc n \<Rightarrow> ata_wait_for_irq n (ata_int s))
      else Some (s\<lparr>ata_irq_done := 0\<rparr>))"

declare ata_wait_for_irq.simps [simp del]

fun read_ports :: "nat \<Rightarrow> u16 \<Rightarrow> 'a cpu_state_scheme \<Rightarrow> 'a cpu_state_scheme option" where
  "read_ports 0 port s = Some s"
| "read_ports (Suc n) port s = do { (_, s) \<leftarrow> inportb port s; read_ports n port s }"

definition delay_400ns :: "'a ata_state_scheme \<Rightarrow> 'a ata_state_scheme option" where
  "delay_400ns s = read_ports 4 (ucast (a_status_reg (cur_hdd s))) s"

fun read_words :: "nat list \<Rightarrow> u16 \<Rightarrow> u32 \<Rightarrow> 'a cpu_state_scheme \<Rightarrow> 'a cpu_state_scheme option" where
  "read_words [] port buf s = Some s"
| "read_words (i # is) port buf s = do {
     (tmp, s) \<leftarrow> inportw port s;
     read_words is port buf (s\<lparr>ram := write16 (ram s) (buf + of_nat i * 2) tmp\<rparr>)
   }"

definition ata_command :: "u32 \<Rightarrow> 'a ata_state_scheme \<Rightarrow> 'a ata_state_scheme" where
  "ata_command lba s =
     (let h = cur_hdd s;
          s = outportb (ucast (a_sel_reg h)) (ucast (0xE0 OR (drop_bit 24 lba AND 0x0F))) s;
          s = outportb (ucast (a_err_reg h)) 0 s;
          s = outportb (ucast (a_sectors_reg h)) 1 s;
          s = outportb (ucast (a_lba_low_reg h)) (ucast lba) s;
          s = outportb (ucast (a_lba_mid_reg h)) (ucast (drop_bit 8 lba)) s;
          s = outportb (ucast (a_lba_high_reg h)) (ucast (drop_bit 16 lba)) s
      in outportb (ucast (a_status_reg h)) 0x20 s)"

definition ata_read_sector :: "u32 \<Rightarrow> 'a ata_state_scheme \<Rightarrow> (u32 \<times> 'a ata_state_scheme) option" where
  "ata_read_sector lba s = do {
     (buf, s) \<leftarrow> kmalloc 512 s;
     s \<leftarrow> delay_400ns (ata_command lba s);
     s \<leftarrow> poll (\<lambda>v. v AND 0x08 = 0) (ucast (a_data_reg (cur_hdd s))) s;
     s \<leftarrow> read_words [0..<256] (ucast (a_data_reg (cur_hdd s))) buf s;
     s \<leftarrow> delay_400ns s;
     Some (buf, s)
   }"

section \<open>What the driver reads\<close>

lemma inport_cons:
  "port_reads s = w # ws \<Longrightarrow> inportb p s = Some (ucast w, s\<lparr>port_reads := ws\<rparr>)"
  "port_reads s = w # ws \<Longrightarrow> inportw p s = Some (w, s\<lparr>port_reads := ws\<rparr>)"
  by (simp_all add: inportb_def inportw_def)

lemma read_ports_eq:
  "port_reads s = ws @ rest \<Longrightarrow> length ws = n \<Longrightarrow> read_ports n p s = Some (s\<lparr>port_reads := rest\<rparr>)"
proof (induction n arbitrary: s ws)
  case (Suc n)
  then obtain w ws' where "ws = w # ws'" by (cases ws) auto
  with Suc show ?case by (simp add: inport_cons)
qed simp

lemma poll_eq:
  assumes "port_reads s = ws @ v # rest" "\<forall>w \<in> set ws. busy (ucast w)" "\<not> busy (ucast v)"
  shows "poll busy p s = Some (s\<lparr>port_reads := rest\<rparr>)"
  using assms
proof (induction ws arbitrary: s)
  case (Cons w ws)
  then show ?case by (subst poll.simps) (simp add: inport_cons)
qed (subst poll.simps, simp add: inport_cons)

lemma identify_words_eq:
  "port_reads s = ws @ rest \<Longrightarrow> length ws = length is \<Longrightarrow>
     identify_words is d s = Some (fold (\<lambda>(i, w). identify_word i w) (zip is ws) d, s\<lparr>port_reads := rest\<rparr>)"
proof (induction "is" arbitrary: s ws d)
  case (Cons i "is")
  then obtain w ws' where "ws = w # ws'" by (cases ws) auto
  with Cons show ?case by (simp add: inport_cons)
qed simp

lemma identify_skip:
  "\<forall>i \<in> set is. i \<notin> {60, 61, 83, 100, 101, 102, 103} \<Longrightarrow> fold (\<lambda>(i, w). identify_word i w) (zip is ws) d = d"
proof (induction "is" arbitrary: ws)
  case (Cons i "is")
  then show ?case by (cases ws) (auto simp: identify_word_def)
qed simp

lemma fold_upt_split:
  "a \<le> b \<Longrightarrow> b < n \<Longrightarrow> n \<le> length ws \<Longrightarrow> fold (\<lambda>(i, w). f i w) (zip [a..<n] (drop a ws)) d
     = fold (\<lambda>(i, w). f i w) (zip [Suc b..<n] (drop (Suc b) ws)) (f b (ws ! b) (fold (\<lambda>(i, w). f i w) (zip [a..<b] (drop a ws)) d))"
proof -
  assume a: "a \<le> b" "b < n" "n \<le> length ws"
  have "[a..<n] = [a..<b] @ [b..<n]" using a upt_add_eq_append [of a b "n - b"] by simp
  then have u: "[a..<n] = [a..<b] @ b # [Suc b..<n]" using a by (simp add: upt_conv_Cons)
  have "drop (b - a) (drop a ws) = ws ! b # drop (Suc b) ws" using a by (simp add: Cons_nth_drop_Suc)
  then have d: "drop a ws = take (b - a) (drop a ws) @ ws ! b # drop (Suc b) ws"
    using append_take_drop_id [of "b - a" "drop a ws"] by simp
  have z: "zip [a..<n] (drop a ws) = zip [a..<b] (take (b - a) (drop a ws)) @ (b, ws ! b) # zip [Suc b..<n] (drop (Suc b) ws)"
    using a zip_append [of "[a..<b]" "take (b - a) (drop a ws)" "b # [Suc b..<n]" "ws ! b # drop (Suc b) ws"]
    unfolding u d [symmetric] by simp
  have t: "zip [a..<b] (take (b - a) (drop a ws)) = zip [a..<b] (drop a ws)"
    using take_zip [of "b - a" "[a..<b]" "drop a ws"] by simp
  show ?thesis unfolding z t by simp
qed

text \<open>What the 256 words of an answer leave in the drive's record.\<close>

lemma fold_identify:
  assumes "length ws = 256"
  shows "fold (\<lambda>(i, w). identify_word i w) (zip [0..<256] ws) d = d\<lparr>
      a_lba_mode := (if ws ! 83 AND 0x400 \<noteq> 0 then 1 else 0),
      a_total_sectors_28 := push_bit 16 (ucast (ws ! 60)) OR ucast (ws ! 61),
      a_total_sectors_48 := push_bit 16 (push_bit 16 (push_bit 16 (ucast (ws ! 100)) OR ucast (ws ! 101)) OR ucast (ws ! 102))
        OR ucast (ws ! 103)\<rparr>"
proof -
  note split = fold_upt_split [of _ _ _ ws identify_word]
  have skip: "fold (\<lambda>(i, w). identify_word i w) (zip [a..<b] (drop a ws)) d = d"
    if "\<forall>i. a \<le> i \<and> i < b \<longrightarrow> i \<notin> {60, 61, 83, 100, 101, 102, 103}" for a b d
    using that by (intro identify_skip) auto
  have s1: "fold (\<lambda>(i, w). identify_word i w) (zip [0..<256] (drop 0 ws)) d
      = fold (\<lambda>(i, w). identify_word i w) (zip [61..<256] (drop 61 ws)) (identify_word 60 (ws ! 60) d)" for d
    using split [of 0 60 256 d] skip [of 0 60 d] assms by simp
  have s2: "fold (\<lambda>(i, w). identify_word i w) (zip [61..<256] (drop 61 ws)) d
      = fold (\<lambda>(i, w). identify_word i w) (zip [62..<256] (drop 62 ws)) (identify_word 61 (ws ! 61) d)" for d
    using split [of 61 61 256 d] assms by simp
  have s3: "fold (\<lambda>(i, w). identify_word i w) (zip [62..<256] (drop 62 ws)) d
      = fold (\<lambda>(i, w). identify_word i w) (zip [84..<256] (drop 84 ws)) (identify_word 83 (ws ! 83) d)" for d
    using split [of 62 83 256 d] skip [of 62 83 d] assms by simp
  have s4: "fold (\<lambda>(i, w). identify_word i w) (zip [84..<256] (drop 84 ws)) d
      = fold (\<lambda>(i, w). identify_word i w) (zip [101..<256] (drop 101 ws)) (identify_word 100 (ws ! 100) d)" for d
    using split [of 84 100 256 d] skip [of 84 100 d] assms by simp
  have s5: "fold (\<lambda>(i, w). identify_word i w) (zip [101..<256] (drop 101 ws)) d
      = fold (\<lambda>(i, w). identify_word i w) (zip [102..<256] (drop 102 ws)) (identify_word 101 (ws ! 101) d)" for d
    using split [of 101 101 256 d] assms by simp
  have s6: "fold (\<lambda>(i, w). identify_word i w) (zip [102..<256] (drop 102 ws)) d
      = fold (\<lambda>(i, w). identify_word i w) (zip [103..<256] (drop 103 ws)) (identify_word 102 (ws ! 102) d)" for d
    using split [of 102 102 256 d] assms by simp
  have s7: "fold (\<lambda>(i, w). identify_word i w) (zip [103..<256] (drop 103 ws)) d
      = fold (\<lambda>(i, w). identify_word i w) (zip [104..<256] (drop 104 ws)) (identify_word 103 (ws ! 103) d)" for d
    using split [of 103 103 256 d] assms by simp
  have "fold (\<lambda>(i, w). identify_word i w) (zip [0..<256] (drop 0 ws)) d
     = identify_word 103 (ws ! 103) (identify_word 102 (ws ! 102) (identify_word 101 (ws ! 101) (identify_word 100 (ws ! 100)
         (identify_word 83 (ws ! 83) (identify_word 61 (ws ! 61) (identify_word 60 (ws ! 60) d))))))"
    unfolding s1 s2 s3 s4 s5 s6 s7 by (rule skip) auto
  then show ?thesis by (simp add: identify_word_def)
qed

lemma poll_drq_ready:
  "port_reads s = v # rest \<Longrightarrow> ucast v AND (8 :: u8) = 8 \<Longrightarrow> poll_drq p s = Some (s\<lparr>port_reads := rest\<rparr>)"
  by (subst poll_drq.simps) (simp add: inport_cons)

text \<open>The four words of the 48-bit count, each in its own 16 bits of the 64-bit field.\<close>

lemma count_48:
  "push_bit 16 (push_bit 16 (push_bit 16 (ucast a) OR ucast b) OR ucast c) OR ucast d
    = 0x1000000000000 * ucast a + 0x100000000 * ucast b + 0x10000 * ucast c + (ucast d :: 64 word)" for a b c d :: u16
  by (simp add: push_or_add distrib_left)

text \<open>C35: a drive that answers the identification is entered as present, whatever error bits the status
  \<open>x\<close> shows before the words are read, with the mode and both sector counts that its words carry; no
  other field of its record changes.  Both counts have their words in the wrong order: the device sends
  the low word first (word 60 of the 28-bit count, word 100 of the 48-bit count), and the code makes it
  the highest.\<close>
theorem identify_decodes:
  assumes "port_reads s = [st, 0, 0] @ busy @ [idle, drq, x] @ ws @ rest" "ucast st \<noteq> (0 :: u8)" "length ws = 256"
    "\<forall>w \<in> set busy. ucast w AND (0x80 :: u8) \<noteq> 0" "ucast idle AND (0x80 :: u8) = 0" "ucast drq AND (8 :: u8) = 8"
  shows "\<exists>d' s'. identify d s = Some (d', s') \<and> port_reads s' = rest \<and> a_present d' = 1
    \<and> a_lba_mode d' = (if ws ! 83 AND 0x400 \<noteq> 0 then 1 else 0)
    \<and> a_total_sectors_28 d' = 0x10000 * ucast (ws ! 60) + ucast (ws ! 61)
    \<and> a_total_sectors_48 d' = 0x1000000000000 * ucast (ws ! 100) + 0x100000000 * ucast (ws ! 101)
        + 0x10000 * ucast (ws ! 102) + ucast (ws ! 103)
    \<and> d' = d\<lparr>a_present := 1, a_lba_mode := a_lba_mode d', a_total_sectors_28 := a_total_sectors_28 d',
        a_total_sectors_48 := a_total_sectors_48 d'\<rparr>
    \<and> port_writes s' = port_writes s @ [(ucast (a_sel_reg d), if a_type d = 1 then 0xA0 else 0xB0), (ucast (a_lba_low_reg d), 0),
        (ucast (a_lba_mid_reg d), 0), (ucast (a_lba_high_reg d), 0), (ucast (a_status_reg d), 0xEC)]"
proof -
  have p: "poll (\<lambda>v. v AND 0x80 \<noteq> 0) p t = Some (t\<lparr>port_reads := drq # x # ws @ rest\<rparr>)"
    if "port_reads t = busy @ idle # drq # x # ws @ rest" for p and t :: "'a cpu_state_scheme"
    using poll_eq [OF that] assms(4,5) by simp
  have w: "identify_words [0..<256] e t = Some (fold (\<lambda>(i, w). identify_word i w) (zip [0..<256] ws) e, t\<lparr>port_reads := rest\<rparr>)"
    if "port_reads t = ws @ rest" for e and t :: "'a cpu_state_scheme"
    using identify_words_eq [OF that, of "[0..<256]" e] assms(3) by simp
  have o: "push_bit 16 (ucast a) OR ucast b = 0x10000 * ucast a + (ucast b :: u32)" for a b :: u16
    by (rule push_or_add)
  show ?thesis
    using assms(1,2,6) unfolding identify_def
    by (simp add: Let_def inport_cons p poll_drq_ready w fold_identify [OF assms(3)] o count_48 [simplified] ATA_IDENTIFY_def)
qed

lemma read_words_cells:
  assumes "port_reads s = ws @ rest" "k + length ws \<le> n" "2 * n < 2 ^ 32"
  shows "\<exists>m. read_words [k..<k + length ws] p buf s = Some (s\<lparr>ram := m, port_reads := rest\<rparr>)
    \<and> cells m buf n = take k (cells (ram s) buf n) @ ws @ drop (k + length ws) (cells (ram s) buf n)
    \<and> (\<forall>a. a \<notin> region buf (2 * n) \<longrightarrow> m a = ram s a)"
  using assms(1,2)
proof (induction ws arbitrary: s k)
  case (Cons w ws)
  let ?m = "write16 (ram s) (buf + 2 * of_nat k) w"
  let ?s = "s\<lparr>port_reads := ws @ rest, ram := ?m\<rparr>"
  have k: "k < n" using Cons.prems(2) by simp
  have u: "[k..<k + length (w # ws)] = k # [Suc k..<Suc k + length ws]" by (subst upt_conv_Cons) simp_all
  obtain m where m: "read_words [Suc k..<Suc k + length ws] p buf ?s = Some (?s\<lparr>ram := m, port_reads := rest\<rparr>)"
    "cells m buf n = take (Suc k) (cells ?m buf n) @ ws @ drop (Suc k + length ws) (cells ?m buf n)"
    "\<forall>a. a \<notin> region buf (2 * n) \<longrightarrow> m a = ?m a"
    using Cons.IH [of ?s "Suc k"] Cons.prems by auto
  have "read_words [k..<k + length (w # ws)] p buf s = Some (s\<lparr>ram := m, port_reads := rest\<rparr>)"
    using Cons.prems(1) m(1) unfolding u by (simp add: inport_cons mult.commute)
  moreover have "cells m buf n = take k (cells (ram s) buf n) @ (w # ws) @ drop (k + length (w # ws)) (cells (ram s) buf n)"
    using k assms(3) unfolding m(2) by (simp add: cells_write16 take_Suc_conv_app_nth)
  moreover have "\<forall>a. a \<notin> region buf (2 * n) \<longrightarrow> m a = ram s a"
    using m(3) by (simp add: write16_outside [OF k assms(3)])
  ultimately show ?case by (intro exI conjI)
next
  case Nil
  then have "port_reads s = rest" by simp
  then show ?case by (intro exI [of _ "ram s"]) (simp flip: \<open>port_reads s = rest\<close>)
qed

lemma kmalloc_only:
  assumes "kmalloc len s = Some (p, s')"
  shows "\<exists>m h. s' = s\<lparr>ram := m, kheap := h\<rparr>"
proof -
  have "s = s\<lparr>ram := ram s, kheap := kheap s\<rparr>" by simp
  then show ?thesis using assms unfolding kmalloc_def first_free_def kheap_add_used_def
    by (auto simp: bind_eq_Some_conv split: if_splits option.splits) (intro exI [of _ "ram s'"] exI [of _ "kheap s'"], simp)+
qed

text \<open>The sector number that the four address registers of a command hold.\<close>

definition lba_of :: "u8 list \<Rightarrow> nat" where
  "lba_of r = unat (r ! 0) + 256 * unat (r ! 1) + 65536 * unat (r ! 2) + 16777216 * (unat (r ! 3) mod 16)"

lemma mod_28: "n mod 256 + 256 * (n div 256 mod 256) + 65536 * (n div 65536 mod 256) + 16777216 * (n div 16777216 mod 16) = n mod 2 ^ 28" for n :: nat
  using mod_mult2_eq [of n 256 256] mod_mult2_eq [of n 65536 256] mod_mult2_eq [of n 16777216 16] by simp

lemma lba_of_command:
  "lba_of [ucast lba, ucast (drop_bit 8 lba), ucast (drop_bit 16 lba), ucast (0xE0 OR (drop_bit 24 (lba :: u32) AND 0x0F))] = unat lba mod 2 ^ 28"
proof -
  let ?d = "drop_bit 24 lba"
  have "take_bit 4 (ucast (0xE0 OR (?d AND 0x0F)) :: u8) = ucast (take_bit 4 ?d)"
    unfolding low_mask by (rule bit_word_eqI) (auto simp: bit_simps bit_mask_iff numeral_eq_Suc less_Suc_eq)
  then have "unat (take_bit 4 (ucast (0xE0 OR (?d AND 0x0F)) :: u8)) = unat (ucast (take_bit 4 ?d) :: u8)" by simp
  then have "unat (ucast (0xE0 OR (?d AND 0x0F)) :: u8) mod 16 = unat ?d mod 16"
    by (simp add: unsigned_take_bit_eq unsigned_ucast_eq take_bit_eq_mod [where 'a = nat] mod_mod_cancel)
  then have "unat (ucast (0xE0 OR (?d AND 0x0F)) :: u8) mod 16 = unat lba div 16777216 mod 16"
    by (simp add: unat_drop_bit_eq drop_bit_eq_div [where 'a = nat])
  then show ?thesis unfolding lba_of_def using mod_28 [of "unat lba"] by (simp add: unat_byte unat_drop_bit_eq drop_bit_eq_div [where 'a = nat])
qed

lemma select_nibble: "ucast (0xE0 OR (x AND 0x0F) :: u32) AND (0xF0 :: u8) = 0xE0"
proof -
  have "ucast (0xE0 OR (x AND 0x0F) :: u32) AND (0xF0 :: u8) = ucast ((0xE0 OR (x AND 0x0F)) AND 0xF0)"
    by (rule bit_word_eqI) (auto simp: bit_simps)
  then show ?thesis by (simp add: bit.conj_disj_distrib2 and.assoc)
qed

text \<open>C34: \<open>ata_read_sector\<close> allocates a buffer, addresses the sector by the low 28 bits of its number on
  the drive \<open>cur_hdd\<close> (the upper half of the selection byte is the one of the first drive of a channel in
  LBA mode), waits while the byte at the data port lacks bit 3, and returns the buffer filled
  with exactly the 256 words that follow; nothing outside the buffer changes.\<close>
theorem ata_read_sector_fills:
  assumes "kmalloc 512 s = Some (buf, t)" "port_reads s = d1 @ busy @ ready # ws @ d2 @ rest"
    "length d1 = 4" "length d2 = 4" "length ws = 256" "\<forall>w \<in> set busy. ucast w AND (8 :: u8) = 0" "ucast ready AND (8 :: u8) \<noteq> 0"
  shows "\<exists>s' r. ata_read_sector lba s = Some (buf, s') \<and> cells (ram s') buf 256 = ws
    \<and> (\<forall>a. a \<notin> region buf 512 \<longrightarrow> ram s' a = ram t a) \<and> port_reads s' = rest
    \<and> lba_of r = unat lba mod 2 ^ 28 \<and> length r = 4 \<and> r ! 3 AND 0xF0 = 0xE0
    \<and> port_writes s' = port_writes s @ (case cur_hdd s of h \<Rightarrow>
        [(ucast (a_sel_reg h), r ! 3), (ucast (a_err_reg h), 0), (ucast (a_sectors_reg h), 1), (ucast (a_lba_low_reg h), r ! 0),
         (ucast (a_lba_mid_reg h), r ! 1), (ucast (a_lba_high_reg h), r ! 2), (ucast (a_status_reg h), 0x20)])"
proof -
  let ?c = "ata_command lba t"
  let ?r = "[ucast lba, ucast (drop_bit 8 lba), ucast (drop_bit 16 lba), ucast (0xE0 OR (drop_bit 24 lba AND 0x0F))] :: u8 list"
  have t: "port_reads t = port_reads s" "port_writes t = port_writes s" "cur_hdd t = cur_hdd s"
    using kmalloc_only [OF assms(1)] by auto
  have c: "port_reads ?c = port_reads t" "cur_hdd ?c = cur_hdd t" "ram ?c = ram t"
    by (simp_all add: ata_command_def Let_def outportb_def)
  have cw: "port_writes ?c = port_writes t @ (case cur_hdd t of h \<Rightarrow>
        [(ucast (a_sel_reg h), ?r ! 3), (ucast (a_err_reg h), 0), (ucast (a_sectors_reg h), 1), (ucast (a_lba_low_reg h), ?r ! 0),
         (ucast (a_lba_mid_reg h), ?r ! 1), (ucast (a_lba_high_reg h), ?r ! 2), (ucast (a_status_reg h), 0x20)])"
    by (simp add: ata_command_def Let_def numeral_eq_Suc)
  have 1: "delay_400ns ?c = Some (?c\<lparr>port_reads := busy @ ready # ws @ d2 @ rest\<rparr>)"
    unfolding delay_400ns_def using assms(2,3) c t by (intro read_ports_eq) simp_all
  have 2: "poll (\<lambda>v. v AND 0x08 = 0) p (?c\<lparr>port_reads := busy @ ready # ws @ d2 @ rest\<rparr>)
      = Some (?c\<lparr>port_reads := ws @ d2 @ rest\<rparr>)" for p
    using poll_eq [of "?c\<lparr>port_reads := busy @ ready # ws @ d2 @ rest\<rparr>" busy ready "ws @ d2 @ rest" "\<lambda>v. v AND 8 = 0" p] assms(6,7) by simp
  obtain m where m: "read_words [0..<256] (ucast (a_data_reg (cur_hdd t))) buf (?c\<lparr>port_reads := ws @ d2 @ rest\<rparr>)
      = Some (?c\<lparr>ram := m, port_reads := d2 @ rest\<rparr>)"
      "cells m buf 256 = ws" "\<forall>a. a \<notin> region buf 512 \<longrightarrow> m a = ram t a"
    using read_words_cells [of "?c\<lparr>port_reads := ws @ d2 @ rest\<rparr>" ws "d2 @ rest" 0 256 "ucast (a_data_reg (cur_hdd t))" buf] assms(5) c by auto
  have 3: "delay_400ns (?c\<lparr>ram := m, port_reads := d2 @ rest\<rparr>) = Some (?c\<lparr>ram := m, port_reads := rest\<rparr>)"
    unfolding delay_400ns_def using assms(4) read_ports_eq [of "?c\<lparr>ram := m, port_reads := d2 @ rest\<rparr>" d2 rest 4] by simp
  have "ata_read_sector lba s = Some (buf, ?c\<lparr>ram := m, port_reads := rest\<rparr>)"
    unfolding ata_read_sector_def by (simp add: assms(1) 1 2 c m(1) 3)
  moreover have "lba_of ?r = unat lba mod 2 ^ 28" by (rule lba_of_command)
  moreover have "length ?r = 4" "?r ! 3 AND 0xF0 = 0xE0"
    using select_nibble [of "drop_bit 24 lba"] by (simp_all add: numeral_eq_Suc)
  ultimately show ?thesis using m(2,3) cw t by (intro exI [of _ "?c\<lparr>ram := m, port_reads := rest\<rparr>"] exI [of _ ?r]) simp
qed

section \<open>Witnesses\<close>

definition demo_drive :: ata_drive where
  "demo_drive = \<lparr>a_present = 0, a_type = 1, a_data_reg = 0x1F0, a_err_reg = 0x1F1, a_sectors_reg = 0x1F2, a_lba_low_reg = 0x1F3,
     a_lba_mid_reg = 0x1F4, a_lba_high_reg = 0x1F5, a_sel_reg = 0x1F6, a_status_reg = 0x1F7, a_irq_num = 14, a_lba_mode = 0,
     a_total_sectors_28 = 0, a_total_sectors_48 = 0\<rparr>"

definition demo_ata :: "u16 list \<Rightarrow> ata_state" where
  "demo_ata rs = floppy_state.extend (demo_floppy 0 rs) \<lparr>cur_hdd = demo_drive, ata_drives = replicate 4 demo_drive, ata_irq_done = 0\<rparr>"

lemma demo_ata_reads: "port_reads (demo_ata rs) = rs"
  by (simp add: demo_ata_def floppy_state.defs demo_floppy_simps)

text \<open>The words 100 to 103 hold 1, 2, 3 and 4.\<close>

theorem identify_decodes_witness:
  "\<exists>d' s'. identify demo_drive (demo_ata ([0x50, 0, 0] @ [0x80] @ [0x50, 0x58, 0x59]
        @ (replicate 100 7 @ [1, 2, 3, 4] @ replicate 152 7) @ [])) = Some (d', s')
    \<and> a_present d' = 1 \<and> a_total_sectors_28 d' = 0x70007 \<and> a_total_sectors_48 d' = 0x1000200030004"
  using identify_decodes [OF demo_ata_reads, of "0x50" "replicate 100 7 @ [1, 2, 3, 4] @ replicate 152 7" "[0x80]" "0x50" "0x58" demo_drive "0x59" "[]"]
  by (auto simp: demo_drive_def nth_append)

lemma demo_ata_heap: "kheap_at (demo_ata rs) [(0x100000, 0xFFFF0, True)]" "get_used_heap (demo_ata rs) < get_heap_size (demo_ata rs)"
proof -
  have "ram (demo_ata rs) = ram demo_kheap" "kheap (demo_ata rs) = kheap demo_kheap"
    by (simp_all add: demo_ata_def floppy_state.defs demo_floppy_def fs_state.defs demo_fs_def proc_state.defs demo_sched_def
        hal_state.defs demo_hal_def cpu_state.defs kheap_state.defs)
  then show "kheap_at (demo_ata rs) [(0x100000, 0xFFFF0, True)]" "get_used_heap (demo_ata rs) < get_heap_size (demo_ata rs)"
    using demo_kheap_at demo_kheap_size unfolding kheap_at_def get_used_heap_def get_heap_size_def by (simp_all only:) simp
qed

theorem ata_read_sector_fills_witness:
  "\<exists>s'. ata_read_sector 5 (demo_ata ([0, 0, 0, 0] @ [0x80] @ 8 # replicate 256 7 @ [0, 0, 0, 0] @ [])) = Some (0x100010, s')
    \<and> cells (ram s') 0x100010 256 = replicate 256 7"
proof -
  let ?s = "demo_ata ([0, 0, 0, 0] @ [0x80] @ 8 # replicate 256 7 @ [0, 0, 0, 0] @ [])"
  obtain t where "kmalloc 512 ?s = Some (0x100010, t)"
    using kmalloc_fit [OF demo_ata_heap, of 512 "0x100000"] by (auto simp: room_def cut_def)
  from ata_read_sector_fills [OF this, of "[0, 0, 0, 0]" "[0x80]" 8 "replicate 256 7" "[0, 0, 0, 0]" "[]" 5]
  show ?thesis by (auto simp: demo_ata_reads)
qed

end
