(* ===== verification/Input.thy ===== *)
theory Input
  imports Ata
begin

text \<open>
  The keyboard and the mouse, \<open>drivers/keyboard/keyboard.c\<close> and \<open>drivers/mouse/mouse.c\<close>.  Both chips
  answer from the script of port reads; \<open>kbd_irqs\<close> counts the keyboard interrupts still to come.
  They are taken in the loops that wait for a key, which have no result when none is left.
\<close>

record mouse_info =
  mo_x :: u32
  mo_y :: u32
  mo_button :: u32

record input_state = ata_state +
  lastkey :: u8
  kbd_irqs :: nat
  mouse_cycle :: u8
  mouse_byte :: "u8 list"
  mouse :: mouse_info

section \<open>Keyboard\<close>

definition KBD_CHECK :: u16 where "KBD_CHECK = 0x64"
definition KBD_IN :: u16 where "KBD_IN = 0x60"

definition keyboard_init :: "(string \<Rightarrow> u32) \<Rightarrow> 'a hal_state_scheme \<Rightarrow> 'a hal_state_scheme" where
  "keyboard_init ld s = outportb KBD_CHECK 0xAE (install_ir 33 (0x80 OR 0x0E) 0x8 (ld ''keyboard_int'') s)"

text \<open>A row of keys is a literal with its end mark; an index behind it has no result.\<close>

definition key_row :: "string \<Rightarrow> u8 \<Rightarrow> u8 option" where
  "key_row row i = (let r = lit row @ [0] in if unat i < length r then Some (r ! unat i) else None)"

definition keyboard_to_ascii :: "u8 \<Rightarrow> u8 option" where
  "keyboard_to_ascii key =
     (if key = 0x1C then Some 10
      else if key = 0x39 then Some (of_char CHR '' '')
      else if key = 0xE then Some 8
      else if key = 0xB4 then Some (of_char CHR ''.'')
      else if key = 0xB5 then Some (of_char CHR ''/'')
      else if key = 0x29 then Some (of_char CHR ''0'')
      else if key = 0x1 then Some 92
      else if 0x2 \<le> key \<and> key \<le> 0xA then key_row ''123456789'' (key - 0x2)
      else if 0x10 \<le> key \<and> key \<le> 0x1C then key_row ''qwertzuiop'' (key - 0x10)
      else if 0x1E \<le> key \<and> key \<le> 0x26 then key_row ''asdfghjkl'' (key - 0x1E)
      else if 0x2C \<le> key \<and> key \<le> 0x32 then key_row ''yxcvbnm'' (key - 0x2C)
      else Some 0)"

text \<open>The letters of the enumeration of key codes, with the codes of pressing and releasing them.\<close>

definition letter_keys :: "(char \<times> u8 \<times> u8) list" where
  "letter_keys = [
     (CHR ''q'', 0x10, 0x90), (CHR ''w'', 0x11, 0x91), (CHR ''e'', 0x12, 0x92), (CHR ''r'', 0x13, 0x93),
     (CHR ''t'', 0x14, 0x94), (CHR ''z'', 0x15, 0x95), (CHR ''u'', 0x16, 0x96), (CHR ''i'', 0x17, 0x97),
     (CHR ''o'', 0x18, 0x98), (CHR ''p'', 0x19, 0x99), (CHR ''a'', 0x1E, 0x9E), (CHR ''s'', 0x1F, 0x9F),
     (CHR ''d'', 0x20, 0xA0), (CHR ''f'', 0x21, 0xA1), (CHR ''g'', 0x22, 0xA2), (CHR ''h'', 0x23, 0xA3),
     (CHR ''j'', 0x24, 0xA4), (CHR ''k'', 0x25, 0xA5), (CHR ''l'', 0x26, 0xA6), (CHR ''y'', 0x2C, 0xAC),
     (CHR ''x'', 0x2D, 0xAD), (CHR ''c'', 0x2E, 0xAE), (CHR ''v'', 0x2F, 0xAF), (CHR ''b'', 0x30, 0xB0),
     (CHR ''n'', 0x31, 0xB1), (CHR ''m'', 0x32, 0xB2)]"

definition keyboard_read_key :: "'a input_state_scheme \<Rightarrow> 'a input_state_scheme option" where
  "keyboard_read_key s = do {
     let s = s\<lparr>lastkey := 0\<rparr>;
     (st, s) \<leftarrow> inportb KBD_CHECK s;
     if st AND 1 \<noteq> 0 then do {
       (key, s) \<leftarrow> inportb KBD_IN s;
       c \<leftarrow> keyboard_to_ascii key;
       Some (s\<lparr>lastkey := c\<rparr>)
     }
     else Some s
   }"

definition keyboard_get_lastkey :: "'a input_state_scheme \<Rightarrow> u8" where "keyboard_get_lastkey = lastkey"

definition keyboard_invalidate_lastkey :: "'a input_state_scheme \<Rightarrow> 'a input_state_scheme" where
  "keyboard_invalidate_lastkey s = s\<lparr>lastkey := 0\<rparr>"

definition keyboard_set_leds :: "u32 \<Rightarrow> u32 \<Rightarrow> u32 \<Rightarrow> 'a cpu_state_scheme \<Rightarrow> 'a cpu_state_scheme" where
  "keyboard_set_leds num capslock scroll s =
     (let cmd = 0 :: u8;
          cmd = (if scroll \<noteq> 0 then cmd OR 1 else cmd AND 1);
          cmd = (if num \<noteq> 0 then cmd OR 2 else cmd AND 2);
          cmd = (if capslock \<noteq> 0 then cmd OR 4 else cmd AND 4)
      in outportb KBD_IN cmd (outportb KBD_IN 0xED s))"

text \<open>The interrupt entry of \<open>keyboard.asm\<close>.\<close>

definition keyboard_int :: "'a input_state_scheme \<Rightarrow> 'a input_state_scheme option" where
  "keyboard_int s = do { s \<leftarrow> keyboard_read_key s; Some (outportb 0x20 0x20 s) }"

text \<open>Waiting for a key and taking it.\<close>

partial_function (option) getchar_loop :: "'a input_state_scheme \<Rightarrow> (u8 \<times> 'a input_state_scheme) option" where
  "getchar_loop s =
     (let c = keyboard_get_lastkey s in
      if c = 0 then
        (if kbd_irqs s = 0 then None
         else do { s \<leftarrow> keyboard_int (s\<lparr>kbd_irqs := kbd_irqs s - 1\<rparr>); getchar_loop s })
      else Some (c, keyboard_invalidate_lastkey s))"

definition getchar :: "'a input_state_scheme \<Rightarrow> (u8 \<times> 'a input_state_scheme) option" where
  "getchar s = getchar_loop (enable_int s)"

partial_function (option) gets_loop :: "u32 \<Rightarrow> u32 \<Rightarrow> 'a input_state_scheme \<Rightarrow> 'a input_state_scheme option" where
  "gets_loop str count s = do {
     (c, s) \<leftarrow> getchar_loop s;
     let (count, s) =
       (if 32 \<le> sint c \<and> sint c \<le> 122 then (count + 1, s\<lparr>ram := (ram s)(str + count := c)\<rparr>)
        else if c = 8 then (if 0 < sint count then (count - 1, s) else (count, s))
        else (count, s));
     let s = kprint ''%c'' [scast c] s;
     if c = 10 then Some (s\<lparr>ram := (ram s)(str + count := 0)\<rparr>)
     else gets_loop str count s
   }"

definition gets :: "u32 \<Rightarrow> 'a input_state_scheme \<Rightarrow> 'a input_state_scheme option" where
  "gets str s = do {
     s \<leftarrow> gets_loop str 0 (sched_state 0 (enable_int s));
     Some (sched_state 1 s)
   }"

section \<open>Mouse\<close>

definition MOUSE_PORT :: u16 where "MOUSE_PORT = 0x60"
definition MOUSE_STATUS :: u16 where "MOUSE_STATUS = 0x64"
definition MOUSE_BBIT :: u8 where "MOUSE_BBIT = 0x01"
definition MOUSE_WRITE :: u8 where "MOUSE_WRITE = 0xD4"
definition MOUSE_F_BIT :: u8 where "MOUSE_F_BIT = 0x20"
definition MOUSE_V_BIT :: u8 where "MOUSE_V_BIT = 0x08"
definition LEFT_CLICK :: u8 where "LEFT_CLICK = 0x1"
definition RIGHT_CLICK :: u8 where "RIGHT_CLICK = 0x2"
definition MIDDLE_CLICK :: u8 where "MIDDLE_CLICK = 0x4"

text \<open>At most 100000 looks at the status.\<close>

fun wait_try :: "nat \<Rightarrow> u8 \<Rightarrow> 'a cpu_state_scheme \<Rightarrow> 'a cpu_state_scheme option" where
  "wait_try 0 type s = Some s"
| "wait_try (Suc n) type s = do {
     (v, s) \<leftarrow> inportb MOUSE_STATUS s;
     if ucast (v AND type) = (if type = 1 then 1 else 0 :: u32) then Some s else wait_try n type s
   }"

definition mouse_wait :: "u8 \<Rightarrow> 'a cpu_state_scheme \<Rightarrow> 'a cpu_state_scheme option" where
  "mouse_wait = wait_try 100000"

definition mouse_write :: "u8 \<Rightarrow> 'a cpu_state_scheme \<Rightarrow> 'a cpu_state_scheme option" where
  "mouse_write w s = do {
     s \<leftarrow> mouse_wait 1 s;
     s \<leftarrow> mouse_wait 1 (outportb MOUSE_STATUS MOUSE_WRITE s);
     Some (outportb MOUSE_PORT w s)
   }"

definition mouse_read :: "'a cpu_state_scheme \<Rightarrow> (u8 \<times> 'a cpu_state_scheme) option" where
  "mouse_read s = do { s \<leftarrow> mouse_wait 2 s; inportb MOUSE_PORT s }"

definition get_mouse_info :: "'a input_state_scheme \<Rightarrow> mouse_info" where "get_mouse_info = mouse"

definition bound :: "u32 \<Rightarrow> u32 \<Rightarrow> u32" where
  "bound v hi = (if sint hi < sint v then hi else if sint v < 0 then 0 else v)"

definition mouse_check_bounds :: "'a input_state_scheme \<Rightarrow> 'a input_state_scheme" where
  "mouse_check_bounds s = s\<lparr>mouse := (mouse s)\<lparr>mo_x := bound (mo_x (mouse s)) 1024, mo_y := bound (mo_y (mouse s)) 768\<rparr>\<rparr>"

text \<open>One byte of a packet: the switch over \<open>mouse_cycle\<close>, where \<open>goto read_next\<close> leaves the cycle as
  it is.\<close>

definition mouse_take :: "u8 \<Rightarrow> 'a input_state_scheme \<Rightarrow> 'a input_state_scheme" where
  "mouse_take b s =
     (if mouse_cycle s = 0 then
        let s = s\<lparr>mouse_byte := (mouse_byte s)[0 := b]\<rparr> in
        if b AND MOUSE_V_BIT = 0 then s else s\<lparr>mouse_cycle := mouse_cycle s + 1\<rparr>
      else if mouse_cycle s = 1 then
        s\<lparr>mouse_byte := (mouse_byte s)[1 := b], mouse_cycle := mouse_cycle s + 1\<rparr>
      else if mouse_cycle s = 2 then
        let s = s\<lparr>mouse_byte := (mouse_byte s)[2 := b]\<rparr>; p = mouse_byte s in
        if p ! 0 AND 0x80 \<noteq> 0 \<or> p ! 0 AND 0x40 \<noteq> 0 then s
        else
          let s = s\<lparr>mouse := (mouse s)\<lparr>mo_x := mo_x (mouse s) + scast (p ! 1), mo_y := mo_y (mouse s) - scast (p ! 2)\<rparr>\<rparr>;
              s = mouse_check_bounds s;
              s = (if p ! 0 AND LEFT_CLICK \<noteq> 0 then s\<lparr>mouse := (mouse s)\<lparr>mo_button := ucast LEFT_CLICK\<rparr>\<rparr>
                   else if p ! 0 AND RIGHT_CLICK \<noteq> 0 then s\<lparr>mouse := (mouse s)\<lparr>mo_button := ucast RIGHT_CLICK\<rparr>\<rparr>
                   else if p ! 0 AND MIDDLE_CLICK \<noteq> 0 then s\<lparr>mouse := (mouse s)\<lparr>mo_button := ucast MIDDLE_CLICK\<rparr>\<rparr>
                   else s)
          in s\<lparr>mouse_cycle := 0\<rparr>
      else s)"

partial_function (option) mouse_loop :: "u8 \<Rightarrow> 'a input_state_scheme \<Rightarrow> 'a input_state_scheme option" where
  "mouse_loop status s =
     (if status AND MOUSE_BBIT = 0 then Some s
      else do {
        (b, s) \<leftarrow> inportb MOUSE_PORT s;
        let s = (if status AND MOUSE_F_BIT \<noteq> 0 then mouse_take b s else s);
        (status, s) \<leftarrow> inportb MOUSE_STATUS s;
        mouse_loop status s
      })"

definition mouse_handler :: "'a input_state_scheme \<Rightarrow> 'a input_state_scheme option" where
  "mouse_handler s = do { (status, s) \<leftarrow> inportb MOUSE_STATUS s; mouse_loop status s }"

definition mouse_int :: "'a input_state_scheme \<Rightarrow> 'a input_state_scheme option" where
  "mouse_int s = do { s \<leftarrow> mouse_handler s; Some (outportb 0x20 0x20 (outportb 0xA0 0x20 s)) }"

definition mouse_init :: "(string \<Rightarrow> u32) \<Rightarrow> 'a input_state_scheme \<Rightarrow> 'a input_state_scheme option" where
  "mouse_init ld s = do {
     let s = disable_int (s\<lparr>mouse := (mouse s)\<lparr>mo_x := 0, mo_y := 0\<rparr>\<rparr>);
     s \<leftarrow> mouse_wait 1 s;
     s \<leftarrow> mouse_wait 1 (outportb MOUSE_STATUS 0xA8 s);
     s \<leftarrow> mouse_wait 2 (outportb MOUSE_STATUS 0x20 s);
     (status, s) \<leftarrow> inportb 0x60 s;
     s \<leftarrow> mouse_wait 1 s;
     s \<leftarrow> mouse_wait 1 (outportb MOUSE_STATUS 0x60 s);
     s \<leftarrow> mouse_write 0xF6 (outportb MOUSE_PORT (status OR 2) s);
     (_, s) \<leftarrow> mouse_read s;
     s \<leftarrow> mouse_write 0xF4 s;
     (_, s) \<leftarrow> mouse_read s;
     Some (enable_int (install_ir 44 (0x80 OR 0x0E) 0x8 (ld ''mouse_int'') s))
   }"

section \<open>Characters of keys\<close>

lemma u8_all: "(\<forall>v :: u8. P v) \<longleftrightarrow> list_all (\<lambda>n. P (of_nat n)) [0..<256]"
proof
  assume "list_all (\<lambda>n. P (of_nat n :: u8)) [0..<256]"
  then have "P (of_nat (unat v))" for v :: u8 using small_less(1) [of v] by (auto simp: list_all_iff dest!: bspec [where x = "unat v"])
  then show "\<forall>v. P v" by simp
qed (simp add: list_all_iff)

text \<open>C38: every key code has a character except 0x1B, whose index runs past the row of keys and its end
  mark; the character is 0, newline, backspace or printable.  Pressing the key that the enumeration of
  codes names after a letter gives that letter, releasing it gives none.\<close>
theorem keyboard_to_ascii_chars:
  "(case keyboard_to_ascii key of None \<Rightarrow> key = 0x1B
     | Some c \<Rightarrow> key \<noteq> 0x1B \<and> c \<in> {0, 8, 10} \<union> {32..122})
   \<and> list_all (\<lambda>(c, p, r). keyboard_to_ascii p = Some (of_char c) \<and> keyboard_to_ascii r = Some 0) letter_keys"
proof -
  have "list_all (\<lambda>n. case keyboard_to_ascii (of_nat n) of None \<Rightarrow> (of_nat n :: u8) = 0x1B
     | Some c \<Rightarrow> (of_nat n :: u8) \<noteq> 0x1B \<and> (c = 0 \<or> c = 8 \<or> c = 10 \<or> 32 \<le> c \<and> c \<le> 122)) [0..<256]"
    by code_simp
  then have "\<forall>k. case keyboard_to_ascii k of None \<Rightarrow> k = 0x1B
     | Some c \<Rightarrow> k \<noteq> 0x1B \<and> (c = 0 \<or> c = 8 \<or> c = 10 \<or> 32 \<le> c \<and> c \<le> 122)"
    by (rule u8_all [THEN iffD2])
  moreover have "list_all (\<lambda>(c, p, r). keyboard_to_ascii p = Some (of_char c) \<and> keyboard_to_ascii r = Some 0) letter_keys"
    by code_simp
  ultimately show ?thesis by (auto dest!: spec [where x = key] split: option.splits)
qed

section \<open>Lines\<close>

text \<open>The line that a sequence of characters leaves, with the backspaces applied.\<close>

fun edit :: "u8 list \<Rightarrow> u8 list \<Rightarrow> u8 list" where
  "edit acc [] = acc"
| "edit acc (c # cs) = (if 32 \<le> c \<and> c \<le> 122 then edit (acc @ [c]) cs else if c = 8 then edit (butlast acc) cs else edit acc cs)"

lemma sint_u8: "32 \<le> sint c \<and> sint c \<le> 122 \<longleftrightarrow> 32 \<le> c \<and> c \<le> (122 :: u8)"
proof -
  have "\<forall>c :: u8. (32 \<le> sint c \<and> sint c \<le> 122) = (32 \<le> c \<and> c \<le> 122)"
    unfolding u8_all by code_simp
  then show ?thesis by blast
qed

definition key_reads :: "u8 list \<Rightarrow> u16 list" where
  "key_reads codes = concat (map (\<lambda>c. [1, ucast c]) codes)"

text \<open>The state when one key interrupt has been taken.\<close>

definition after_key :: "u16 list \<Rightarrow> nat \<Rightarrow> 'a input_state_scheme \<Rightarrow> 'a input_state_scheme" where
  "after_key rest n s = outportb 0x20 0x20 (s\<lparr>kbd_irqs := n, port_reads := rest, lastkey := 0\<rparr>)"

lemma after_key_simps [simp]:
  "lastkey (after_key rest n s) = 0" "kbd_irqs (after_key rest n s) = n" "port_reads (after_key rest n s) = rest"
  "ram (after_key rest n s) = ram s"
  by (simp_all add: after_key_def outportb_def)

lemma ucast_ucast_u8 [simp]: "ucast (ucast (c :: u8) :: u16) = c"
  by (rule bit_word_eqI) (simp add: bit_simps)

lemma key_step:
  assumes "lastkey s = 0" "kbd_irqs s = Suc n" "port_reads s = 1 # ucast code # rest" "keyboard_to_ascii code = Some c"
  shows "getchar_loop s = (if c = 0 then getchar_loop (after_key rest n s) else Some (c, after_key rest n s))"
proof -
  have k: "keyboard_int (s\<lparr>kbd_irqs := n\<rparr>) = Some ((after_key rest n s)\<lparr>lastkey := c\<rparr>)"
    using assms by (simp add: keyboard_int_def keyboard_read_key_def inport_cons after_key_def outportb_def)
  have e: "getchar_loop s = getchar_loop ((after_key rest n s)\<lparr>lastkey := c\<rparr>)"
    by (subst getchar_loop.simps) (simp add: keyboard_get_lastkey_def assms(1,2) k)
  have z: "(after_key rest n s)\<lparr>lastkey := 0\<rparr> = after_key rest n s" by (simp add: after_key_def outportb_def)
  show ?thesis
  proof (cases "c = 0")
    case True
    then show ?thesis using e z by metis
  next
    case False
    have "getchar_loop ((after_key rest n s)\<lparr>lastkey := c\<rparr>) = Some (c, ((after_key rest n s)\<lparr>lastkey := c\<rparr>)\<lparr>lastkey := 0\<rparr>)"
      using False by (subst getchar_loop.simps) (simp add: keyboard_get_lastkey_def keyboard_invalidate_lastkey_def)
    also have "((after_key rest n s)\<lparr>lastkey := c\<rparr>)\<lparr>lastkey := 0\<rparr> = after_key rest n s" using z by simp
    finally show ?thesis using e False by simp
  qed
qed

text \<open>The characters typed so far at the start of the buffer.\<close>

definition typed :: "mem \<Rightarrow> u32 \<Rightarrow> u8 list \<Rightarrow> bool" where
  "typed m p acc \<longleftrightarrow> (\<forall>i<length acc. m (p + of_nat i) = acc ! i)"

lemma typed_snoc: "typed m p acc \<Longrightarrow> length acc < 2 ^ 31 \<Longrightarrow> typed (m(p + of_nat (length acc) := c)) p (acc @ [c])"
proof -
  assume t: "typed m p acc" "length acc < 2 ^ 31"
  have "p + of_nat i \<noteq> p + of_nat (length acc)" if "i < length acc" for i
  proof -
    have "unat (of_nat i :: u32) = i" "unat (of_nat (length acc) :: u32) = length acc" using that t(2) by simp_all
    then show ?thesis using that by (metis add_left_cancel less_irrefl)
  qed
  then show ?thesis using t(1) by (auto simp: typed_def nth_append less_Suc_eq)
qed

lemma typed_butlast: "typed m p acc \<Longrightarrow> typed m p (butlast acc)"
  by (auto simp: typed_def nth_butlast)

lemma edit_nonzero: "0 \<notin> set acc \<Longrightarrow> 0 \<notin> set (edit acc cs)"
proof (induction cs arbitrary: acc)
  case (Cons c cs)
  have "0 \<notin> set (butlast acc)" using Cons.prems in_set_butlastD by metis
  moreover have "c \<noteq> 0" if "32 \<le> c" using that by (cases "c = 0") simp_all
  ultimately show ?case using Cons.prems Cons.IH [of "acc @ [c]"] Cons.IH [of "butlast acc"] Cons.IH [of acc]
    unfolding edit.simps by (cases "32 \<le> c \<and> c \<le> 122"; cases "c = 8") (simp_all only: if_True if_False set_append, auto)
qed simp

lemma gets_step:
  assumes "lastkey s = 0" "kbd_irqs s = Suc n" "port_reads s = 1 # ucast code # rest" "keyboard_to_ascii code = Some c" "c \<noteq> 10"
    "count = of_nat (length acc)" "typed (ram s) str acc" "length acc < 2 ^ 30"
  shows "\<exists>s'. gets_loop str count s = gets_loop str (of_nat (length (edit acc [c]))) s' \<and> typed (ram s') str (edit acc [c])
    \<and> lastkey s' = 0 \<and> kbd_irqs s' = n \<and> port_reads s' = rest \<and> (\<forall>a. a \<noteq> str + of_nat (length acc) \<longrightarrow> ram s' a = ram s a)"
proof (cases "c = 0")
  case True
  have "gets_loop str count s = gets_loop str count (after_key rest n s)"
    using key_step [OF assms(1-4)] True gets_loop.simps [of str count s] gets_loop.simps [of str count "after_key rest n s"] by simp
  moreover have "edit acc [c] = acc" using True by simp
  ultimately show ?thesis using assms(6,7) by (intro exI [of _ "after_key rest n s"]) simp
next
  case False
  let ?t = "after_key rest n s"
  let ?u = "if 32 \<le> c \<and> c \<le> 122 then ?t\<lparr>ram := (ram ?t)(str + count := c)\<rparr> else ?t"
  have g: "getchar_loop s = Some (c, ?t)" using key_step [OF assms(1-4)] False by simp
  have pos: "0 < sint count \<longleftrightarrow> acc \<noteq> []"
  proof -
    have "unat count = length acc" using assms(6,8) by simp
    moreover from this have "unat count < 2147483648" using assms(8) by simp
    ultimately have "sint count = int (length acc)" using sint_nonneg [of count] unfolding sint_nonneg_iff by simp
    then show ?thesis by (metis length_greater_0_conv of_nat_0_less_iff)
  qed
  have e8: "of_nat (length (edit acc [c])) = (if 32 \<le> c \<and> c \<le> 122 then count + 1 else if c = 8 \<and> acc \<noteq> [] then count - 1 else count)"
    unfolding assms(6) by (cases "32 \<le> c \<and> c \<le> 122"; cases "c = 8"; cases acc rule: rev_cases) simp_all
  have ne: "(8 :: u8) \<noteq> 10" by simp
  have "gets_loop str count s = gets_loop str (of_nat (length (edit acc [c]))) (kprint ''%c'' [scast c] ?u)"
    unfolding e8
    by (subst gets_loop.simps, unfold g bind.bind_lunit prod.case Let_def sint_u8 pos)
      (cases "32 \<le> c \<and> c \<le> 122"; cases "c = 8"; cases "acc = []"; simp only: ne assms(5) if_True if_False simp_thms prod.case)
  moreover have "typed (ram (kprint ''%c'' [scast c] ?u)) str (edit acc [c])"
    using assms(6-8) typed_snoc [OF assms(7)] typed_butlast [OF assms(7)] by (simp add: kprint_def)
  moreover have "\<forall>a. a \<noteq> str + of_nat (length acc) \<longrightarrow> ram (kprint ''%c'' [scast c] ?u) a = ram s a"
    using assms(6) by (simp add: kprint_def)
  moreover have "lastkey (kprint ''%c'' [scast c] ?u) = 0" "kbd_irqs (kprint ''%c'' [scast c] ?u) = n" "port_reads (kprint ''%c'' [scast c] ?u) = rest"
    by (simp_all add: kprint_def)
  ultimately show ?thesis by blast
qed

lemma edit_append: "edit acc (xs @ ys) = edit (edit acc xs) ys"
  by (induction xs arbitrary: acc) simp_all

lemma edit_length: "length (edit acc cs) \<le> length acc + length cs"
proof (induction cs arbitrary: acc)
  case (Cons c cs)
  show ?case using Cons [of "acc @ [c]"] Cons [of "butlast acc"] Cons [of acc] by (cases acc rule: rev_cases) auto
qed simp

lemma offset_less: "i < n \<Longrightarrow> n < 2 ^ 30 \<Longrightarrow> str + of_nat i \<noteq> str + (of_nat n :: u32)"
proof -
  assume "i < n" "n < 2 ^ 30"
  moreover from this have "unat (of_nat i :: u32) = i" "unat (of_nat n :: u32) = n" by simp_all
  ultimately show ?thesis by (metis add_left_cancel less_irrefl)
qed

lemma gets_return:
  assumes "lastkey s = 0" "kbd_irqs s = Suc 0" "port_reads s = [1, 0x1C] @ rest" "typed (ram s) str acc" "length acc < 2 ^ 30"
  shows "\<exists>s'. gets_loop str (of_nat (length acc)) s = Some s' \<and> typed (ram s') str acc
    \<and> ram s' (str + of_nat (length acc)) = 0 \<and> port_reads s' = rest
    \<and> (\<forall>a. a \<notin> region str (Suc (length acc)) \<longrightarrow> ram s' a = ram s a)"
proof -
  let ?t = "after_key rest 0 s"
  have c: "keyboard_to_ascii 0x1C = Some 10" by (simp add: keyboard_to_ascii_def)
  have g: "getchar_loop s = Some (10, ?t)"
    using key_step [of s 0 "0x1C" rest, OF _ _ _ c] assms(1-3) by simp
  have nb: "\<not> (32 \<le> (10 :: u8) \<and> (10 :: u8) \<le> 122)" "(10 :: u8) \<noteq> 8" by simp_all
  let ?m = "(ram s)(str + of_nat (length acc) := 0)"
  let ?s' = "(kprint ''%c'' [scast (10 :: u8)] ?t)\<lparr>ram := ?m\<rparr>"
  have k: "ram (kprint ''%c'' [scast (10 :: u8)] ?t) = ram s" "port_reads ?s' = rest" by (simp_all add: kprint_def)
  have r: "gets_loop str (of_nat (length acc)) s = Some ?s'"
    by (subst gets_loop.simps, unfold g bind.bind_lunit prod.case Let_def sint_u8) (simp only: nb k(1) if_False prod.case if_True refl)
  have "typed ?m str acc" using assms(4) offset_less [OF _ assms(5), of _ str] by (simp add: typed_def)
  moreover have "str + of_nat (length acc) \<in> region str (Suc (length acc))" using assms(5) by (simp add: region_def)
  then have "\<forall>a. a \<notin> region str (Suc (length acc)) \<longrightarrow> ?m a = ram s a" by (metis fun_upd_other)
  moreover have "?m (str + of_nat (length acc)) = 0" "ram ?s' = ?m" by simp_all
  ultimately show ?thesis using r k(2) by metis
qed

text \<open>A loop that takes one key at a time into a buffer, whatever else it does with it.  The console has
  another.\<close>

locale line_loop =
  fixes loop :: "u32 \<Rightarrow> 'a input_state_scheme \<Rightarrow> 'b" and str :: u32
  assumes step: "lastkey s = 0 \<Longrightarrow> kbd_irqs s = Suc n \<Longrightarrow> port_reads s = 1 # ucast code # rest \<Longrightarrow> keyboard_to_ascii code = Some c
    \<Longrightarrow> c \<noteq> 10 \<Longrightarrow> typed (ram s) str acc \<Longrightarrow> length acc < 2 ^ 30 \<Longrightarrow>
    \<exists>s'. loop (of_nat (length acc)) s = loop (of_nat (length (edit acc [c]))) s' \<and> typed (ram s') str (edit acc [c])
      \<and> lastkey s' = 0 \<and> kbd_irqs s' = n \<and> port_reads s' = rest \<and> (\<forall>a. a \<noteq> str + of_nat (length acc) \<longrightarrow> ram s' a = ram s a)"
begin

lemma typing:
  assumes "lastkey s = 0" "kbd_irqs s = length codes + n" "port_reads s = key_reads codes @ rest"
    "list_all2 (\<lambda>k c. keyboard_to_ascii k = Some c) codes cs" "10 \<notin> set cs" "typed (ram s) str acc" "length acc + length codes < 2 ^ 30"
  shows "\<exists>s'. loop (of_nat (length acc)) s = loop (of_nat (length (edit acc cs))) s' \<and> typed (ram s') str (edit acc cs)
    \<and> lastkey s' = 0 \<and> kbd_irqs s' = n \<and> port_reads s' = rest
    \<and> (\<forall>a. a \<notin> region str (length acc + length codes) \<longrightarrow> ram s' a = ram s a)"
  using assms
proof (induction codes arbitrary: s acc cs)
  case Nil
  then show ?case by (intro exI [of _ s]) (simp add: key_reads_def)
next
  case (Cons k codes)
  from Cons.prems(4) obtain c cs' where cs: "cs = c # cs'" "keyboard_to_ascii k = Some c"
      "list_all2 (\<lambda>k c. keyboard_to_ascii k = Some c) codes cs'"
    unfolding list_all2_Cons1 by blast
  let ?e = "edit acc [c]"
  have le: "length ?e \<le> Suc (length acc)" by (rule order_trans [OF edit_length]) simp
  have p: "kbd_irqs s = Suc (length codes + n)" "port_reads s = 1 # ucast k # (key_reads codes @ rest)"
    using Cons.prems(2,3) by (simp_all add: key_reads_def)
  have q: "c \<noteq> 10" "10 \<notin> set cs'" using Cons.prems(5) unfolding cs(1) by auto
  have n: "length acc < 2 ^ 30" "length ?e + length codes < 2 ^ 30"
    using Cons.prems(7) le unfolding list.size by linarith+
  from step [OF Cons.prems(1) p cs(2) q(1) Cons.prems(6) n(1)]
  obtain t where t: "loop (of_nat (length acc)) s = loop (of_nat (length ?e)) t" "typed (ram t) str ?e"
      "lastkey t = 0" "kbd_irqs t = length codes + n" "port_reads t = key_reads codes @ rest"
      "\<forall>a. a \<noteq> str + of_nat (length acc) \<longrightarrow> ram t a = ram s a"
    by (elim exE conjE) (rule that)
  from Cons.IH [OF t(3-5) cs(3) q(2) t(2) n(2)] obtain s' where s': "loop (of_nat (length ?e)) t = loop (of_nat (length (edit ?e cs'))) s'"
      "typed (ram s') str (edit ?e cs')" "lastkey s' = 0" "kbd_irqs s' = n" "port_reads s' = rest"
      "\<forall>a. a \<notin> region str (length ?e + length codes) \<longrightarrow> ram s' a = ram t a"
    by (elim exE conjE) (rule that)
  have e: "edit acc cs = edit ?e cs'" using edit_append [of acc "[c]" cs'] unfolding cs(1) append.simps .
  have sub: "region str (length ?e + length codes) \<subseteq> region str (length acc + length (k # codes))"
    using le by (intro region_mono) simp
  have here: "str + of_nat (length acc) \<in> region str (length acc + length (k # codes))"
    using Cons.prems(7) by (simp add: region_def)
  have "\<forall>a. a \<notin> region str (length acc + length (k # codes)) \<longrightarrow> ram s' a = ram s a"
  proof (intro allI impI)
    fix a assume a: "a \<notin> region str (length acc + length (k # codes))"
    have "a \<notin> region str (length ?e + length codes)" by (rule contra_subsetD [OF sub a])
    then have "ram s' a = ram t a" using s'(6) by blast
    moreover have "a \<noteq> str + of_nat (length acc)" using a here by metis
    then have "ram t a = ram s a" using t(6) by blast
    ultimately show "ram s' a = ram s a" by (rule trans)
  qed
  with s'(1-5) show ?case unfolding e t(1) by (intro exI [of _ s'] conjI)
qed

end

interpretation gl: line_loop "gets_loop str" str for str
  by unfold_locales (rule gets_step [OF _ _ _ _ _ refl])


section \<open>Mouse\<close>

definition mouse_ok :: "'a input_state_scheme \<Rightarrow> bool" where
  "mouse_ok s \<longleftrightarrow> 0 \<le> sint (mo_x (mouse s)) \<and> sint (mo_x (mouse s)) \<le> 1024 \<and> 0 \<le> sint (mo_y (mouse s)) \<and> sint (mo_y (mouse s)) \<le> 768
     \<and> mouse_cycle s \<le> 2 \<and> length (mouse_byte s) = 3"

lemma bound_range: "0 \<le> sint hi \<Longrightarrow> 0 \<le> sint (bound v hi) \<and> sint (bound v hi) \<le> sint hi"
  by (auto simp: bound_def)

lemma bound_sint: "0 \<le> sint hi \<Longrightarrow> sint (bound v hi) = max 0 (min (sint hi) (sint v))"
  by (auto simp: bound_def)

lemma mouse_loop_inv:
  assumes "\<And>b s. I s \<Longrightarrow> I (mouse_take b s)" "\<And>ws s. I s \<Longrightarrow> I (s\<lparr>port_reads := ws\<rparr>)" "I s" "mouse_loop status s = Some s'"
  shows "I s'"
proof -
  have "I s \<longrightarrow> I s'"
  proof (rule mouse_loop.raw_induct [where P = "\<lambda>_ s s'. I s \<longrightarrow> I s'", OF _ assms(4)])
    fix f :: "u8 \<Rightarrow> 'a input_state_scheme \<Rightarrow> 'a input_state_scheme option" and status s s'
    assume IH: "\<And>status s s'. f status s = Some s' \<Longrightarrow> I s \<longrightarrow> I s'"
      and r: "(if status AND MOUSE_BBIT = 0 then Some s
        else do {
          (b, s) \<leftarrow> inportb MOUSE_PORT s;
          let s = (if status AND MOUSE_F_BIT \<noteq> 0 then mouse_take b s else s);
          (status, s) \<leftarrow> inportb MOUSE_STATUS s;
          f status s
        }) = Some s'"
    show "I s \<longrightarrow> I s'"
    proof (cases "status AND MOUSE_BBIT = 0")
      case False
      with r obtain b t st u where t: "inportb MOUSE_PORT s = Some (b, t)"
        and u: "inportb MOUSE_STATUS (if status AND MOUSE_F_BIT \<noteq> 0 then mouse_take b t else t) = Some (st, u)"
        and f: "f st u = Some s'"
        by (auto simp: bind_eq_Some_conv Let_def)
      have io: "I y" if "inportb p x = Some (v, y)" "I x" for p v and x y :: "'a input_state_scheme"
        using that assms(2) by (auto simp: inportb_def split: list.splits)
      show ?thesis using io [OF t] io [OF u] IH [OF f] assms(1) by auto
    qed (use r in auto)
  qed
  then show ?thesis using assms(3) by simp
qed

lemma mouse_take_ok: "mouse_ok s \<Longrightarrow> mouse_ok (mouse_take b s)"
  using bound_range [of 1024] bound_range [of 768]
  by (auto simp: mouse_ok_def mouse_take_def Let_def mouse_check_bounds_def)

text \<open>Whatever the mouse sends, the handler keeps the pointer between 0 and 1024 and between 0 and 768, which
  is one column and one row more than the screen of 1024 by 768 has, and the packet counter at most 2.\<close>
theorem mouse_handler_bounds:
  assumes "mouse_ok s" "mouse_handler s = Some s'"
  shows "mouse_ok s'"
proof -
  have io: "mouse_ok (s\<lparr>port_reads := ws\<rparr>)" if "mouse_ok s" for s :: "'a input_state_scheme" and ws
    using that by (simp add: mouse_ok_def)
  from assms(2) obtain st ws where "mouse_loop st (s\<lparr>port_reads := ws\<rparr>) = Some s'"
    by (auto simp: mouse_handler_def bind_eq_Some_conv inportb_def split: list.splits)
  from mouse_loop_inv [of mouse_ok, OF mouse_take_ok io io [OF assms(1)] this] show ?thesis by simp
qed

text \<open>The pointer as integers with its button, and what one packet means for it: the two displacements are
  signed bytes, the vertical one counts upwards, and a press stays noted until another one comes.\<close>

definition pointer :: "'a input_state_scheme \<Rightarrow> int \<times> int \<times> u32" where
  "pointer s = (sint (mo_x (mouse s)), sint (mo_y (mouse s)), mo_button (mouse s))"

definition pointer_step :: "u8 \<times> u8 \<times> u8 \<Rightarrow> int \<times> int \<times> u32 \<Rightarrow> int \<times> int \<times> u32" where
  "pointer_step = (\<lambda>(b0, b1, b2) (x, y, button).
     (max 0 (min 1024 (x + sint b1)), max 0 (min 768 (y - sint b2)),
      if bit b0 0 then 1 else if bit b0 1 then 2 else if bit b0 2 then 4 else button))"

text \<open>The ports while packets are waiting: the status \<open>st\<close> before each of the three bytes.\<close>

definition packet_reads :: "u16 \<Rightarrow> (u8 \<times> u8 \<times> u8) list \<Rightarrow> u16 list" where
  "packet_reads st ps = concat (map (\<lambda>(b0, b1, b2). [st, ucast b0, st, ucast b1, st, ucast b2]) ps)"

lemma bit_mask_test:
  "(b AND (0x80 :: u8) = 0) = (\<not> bit b 7)" "(b AND (0x40 :: u8) = 0) = (\<not> bit b 6)" "(b AND (8 :: u8) = 0) = (\<not> bit b 3)"
  "(b AND (4 :: u8) = 0) = (\<not> bit b 2)" "(b AND (2 :: u8) = 0) = (\<not> bit b 1)" "(b AND (1 :: u8) = 0) = (\<not> bit b 0)"
proof -
  show "(b AND (0x80 :: u8) = 0) = (\<not> bit b 7)" "(b AND (0x40 :: u8) = 0) = (\<not> bit b 6)" "(b AND (8 :: u8) = 0) = (\<not> bit b 3)"
    "(b AND (4 :: u8) = 0) = (\<not> bit b 2)" "(b AND (2 :: u8) = 0) = (\<not> bit b 1)" "(b AND (1 :: u8) = 0) = (\<not> bit b 0)"
    using and_exp_eq_0_iff_not_bit [of b 7] and_exp_eq_0_iff_not_bit [of b 6] and_exp_eq_0_iff_not_bit [of b 3]
      and_exp_eq_0_iff_not_bit [of b 2] and_exp_eq_0_iff_not_bit [of b 1] and_exp_eq_0_iff_not_bit [of b 0] by simp_all
qed

lemma bound_add:
  assumes "0 \<le> sint v" "sint v \<le> sint hi" "0 \<le> sint hi" "sint hi \<le> 1024"
  shows "sint (bound (v + scast (b :: u8)) hi) = max 0 (min (sint hi) (sint v + sint b))"
    "sint (bound (v - scast b) hi) = max 0 (min (sint hi) (sint v - sint b))"
proof -
  have b: "- 128 \<le> sint b" "sint b < 128" using sint_ge [of b] sint_less [of b] by simp_all
  have "sint (v + scast b) = sint v + sint b" "sint (v - scast b) = sint v - sint b"
    using assms b by (simp_all add: sint_word_ariths signed_take_bit_int_eq_self signed_scast_eq)
  then show "sint (bound (v + scast b) hi) = max 0 (min (sint hi) (sint v + sint b))"
    "sint (bound (v - scast b) hi) = max 0 (min (sint hi) (sint v - sint b))"
    by (simp_all only: bound_sint [OF assms(3)])
qed

lemma mouse_handler_byte:
  assumes "port_reads s = st # b # ws" "ucast st AND MOUSE_BBIT \<noteq> 0" "ucast st AND MOUSE_F_BIT \<noteq> 0"
  shows "mouse_handler s = mouse_handler (mouse_take (ucast b) (s\<lparr>port_reads := ws\<rparr>))"
  using assms by (simp add: mouse_handler_def inport_cons mouse_loop.simps [of "ucast st"])

lemma mouse_take_reads [simp]: "port_reads (mouse_take b s) = port_reads s"
  by (simp add: mouse_take_def Let_def mouse_check_bounds_def)

text \<open>The three bytes of one packet.\<close>

lemma mouse_take_packet:
  fixes b0 b1 b2 :: u8 and w1 w2 w3 :: "u16 list"
  assumes "mouse_ok s" "mouse_cycle s = 0" "bit b0 3" "\<not> bit b0 6" "\<not> bit b0 7"
  defines "t \<equiv> mouse_take b2 ((mouse_take b1 ((mouse_take b0 (s\<lparr>port_reads := w1\<rparr>))\<lparr>port_reads := w2\<rparr>))\<lparr>port_reads := w3\<rparr>)"
  shows "pointer t = pointer_step (b0, b1, b2) (pointer s)" "mouse_cycle t = 0" "mouse_ok t" "port_reads t = w3"
proof -
  have len: "length (mouse_byte s) = 3" using assms(1) by (simp add: mouse_ok_def)
  have x: "sint (bound (mo_x (mouse s) + scast b1) 1024) = max 0 (min 1024 (sint (mo_x (mouse s)) + sint b1))"
    using bound_add(1) [of "mo_x (mouse s)" 1024 b1] assms(1) by (simp add: mouse_ok_def)
  have y: "sint (bound (mo_y (mouse s) - scast b2) 768) = max 0 (min 768 (sint (mo_y (mouse s)) - sint b2))"
    using bound_add(2) [of "mo_y (mouse s)" 768 b2] assms(1) by (simp add: mouse_ok_def)
  have ok: "mouse_ok (w\<lparr>port_reads := ws\<rparr>)" if "mouse_ok w" for w :: "'a input_state_scheme" and ws
    using that by (simp add: mouse_ok_def)
  show "mouse_ok t" unfolding t_def by (intro mouse_take_ok ok assms(1))
  show "port_reads t = w3" by (simp add: t_def)
  show "mouse_cycle t = 0"
    using assms(2-5) len by (simp add: t_def mouse_take_def Let_def mouse_check_bounds_def MOUSE_V_BIT_def bit_mask_test)
  show "pointer t = pointer_step (b0, b1, b2) (pointer s)"
    using assms(2-5) len x y
    by (simp add: t_def mouse_take_def Let_def mouse_check_bounds_def pointer_def pointer_step_def MOUSE_V_BIT_def LEFT_CLICK_def
        RIGHT_CLICK_def MIDDLE_CLICK_def bit_mask_test)
qed

text \<open>C39: the handler works off all packets that wait at the controller, each with the sign bit 3 and without
  an overflow bit, in their order: it adds the signed displacements, with the vertical one reversed,
  without any wrap-around, cuts the position after each packet to 0 to 1024 and 0 to 768 and notes the
  button.  The limits are the source's, and each is one too large: column 1024 and row 768 are not on the
  screen of 1024 by 768.\<close>
theorem mouse_packets_move:
  assumes "mouse_ok s" "mouse_cycle s = 0" "port_reads s = packet_reads st ps @ fin # rest"
    "ucast st AND MOUSE_BBIT \<noteq> 0" "ucast st AND MOUSE_F_BIT \<noteq> 0" "ucast fin AND MOUSE_BBIT = 0"
    "\<forall>(b0, b1, b2) \<in> set ps. bit b0 3 \<and> \<not> bit b0 6 \<and> \<not> bit b0 7"
  shows "\<exists>s'. mouse_handler s = Some s' \<and> pointer s' = fold pointer_step ps (pointer s)
    \<and> mouse_cycle s' = 0 \<and> port_reads s' = rest"
  using assms(1-3,7)
proof (induction ps arbitrary: s)
  case Nil
  then show ?case
    using assms(6) by (simp add: packet_reads_def mouse_handler_def inport_cons mouse_loop.simps [of "ucast fin"] pointer_def)
next
  case (Cons p ps)
  obtain b0 b1 b2 where p: "p = (b0, b1, b2)" by (cases p)
  let ?ws = "packet_reads st ps @ fin # rest"
  let ?t = "mouse_take b2 ((mouse_take b1 ((mouse_take b0 (s\<lparr>port_reads := st # ucast b1 # st # ucast b2 # ?ws\<rparr>))
      \<lparr>port_reads := st # ucast b2 # ?ws\<rparr>))\<lparr>port_reads := ?ws\<rparr>)"
  have r: "port_reads s = st # ucast b0 # st # ucast b1 # st # ucast b2 # ?ws"
    using Cons.prems(3) by (simp add: packet_reads_def p)
  have c: "ucast (ucast b :: u16) = b" for b :: u8 by (rule bit_word_eqI) (auto simp: bit_simps)
  have h: "mouse_handler s = mouse_handler ?t"
    using mouse_handler_byte [OF r assms(4,5)]
      mouse_handler_byte [OF _ assms(4,5), of "mouse_take b0 (s\<lparr>port_reads := st # ucast b1 # st # ucast b2 # ?ws\<rparr>)" "ucast b1" "st # ucast b2 # ?ws"]
      mouse_handler_byte [OF _ assms(4,5), of "mouse_take b1 ((mouse_take b0 (s\<lparr>port_reads := st # ucast b1 # st # ucast b2 # ?ws\<rparr>))
        \<lparr>port_reads := st # ucast b2 # ?ws\<rparr>)" "ucast b2" ?ws]
    by (simp add: c)
  have bits: "bit b0 3" "\<not> bit b0 6" "\<not> bit b0 7" using Cons.prems(4) by (simp_all add: p)
  note t = mouse_take_packet [OF Cons.prems(1,2) bits, where ?b1.0 = b1 and ?b2.0 = b2 and ?w1.0 = "st # ucast b1 # st # ucast b2 # ?ws"
      and ?w2.0 = "st # ucast b2 # ?ws" and ?w3.0 = ?ws]
  from Cons.IH [OF t(3,2,4)] Cons.prems(4) show ?case unfolding h p fold_simps(2) t(1) [symmetric] by simp
qed

text \<open>After one packet with an overflow bit the driver never moves again: every later byte is taken as
  the third one of that packet, so position, buttons and counter stay whatever is sent.\<close>
theorem mouse_overflow_stuck:
  assumes "mouse_cycle s = 2" "mouse_byte s ! 0 AND 0xC0 \<noteq> 0" "length (mouse_byte s) = 3" "mouse_handler s = Some s'"
  shows "mouse s' = mouse s \<and> mouse_cycle s' = 2 \<and> mouse_byte s' ! 0 = mouse_byte s ! 0"
proof -
  define I where "I t \<longleftrightarrow> mouse t = mouse s \<and> mouse_cycle t = 2 \<and> mouse_byte t ! 0 = mouse_byte s ! 0 \<and> length (mouse_byte t) = 3"
    for t :: "'a input_state_scheme"
  have ov: "mouse_byte s ! 0 AND 0x80 \<noteq> 0 \<or> mouse_byte s ! 0 AND 0x40 \<noteq> 0"
  proof -
    have "(0xC0 :: u8) = 0x80 OR 0x40" by simp
    then have "mouse_byte s ! 0 AND 0xC0 = (mouse_byte s ! 0 AND 0x80) OR (mouse_byte s ! 0 AND 0x40)"
      by (simp only: bit.conj_disj_distrib)
    then show ?thesis using assms(2) by auto
  qed
  have t: "I (mouse_take b x)" if "I x" for b x
    using that ov by (auto simp: I_def mouse_take_def Let_def)
  have io: "I (x\<lparr>port_reads := ws\<rparr>)" if "I x" for x ws using that by (simp add: I_def)
  have s: "I s" using assms(1,3) by (simp add: I_def)
  from assms(4) obtain st ws where "mouse_loop st (s\<lparr>port_reads := ws\<rparr>) = Some s'"
    by (auto simp: mouse_handler_def bind_eq_Some_conv inportb_def split: list.splits)
  from mouse_loop_inv [of I, OF t io io [OF s] this] show ?thesis by (simp add: I_def)
qed

section \<open>Witnesses\<close>

definition demo_input :: "nat \<Rightarrow> u16 list \<Rightarrow> input_state" where
  "demo_input n rs = ata_state.extend (demo_ata rs)
     \<lparr>lastkey = 0, kbd_irqs = n, mouse_cycle = 0, mouse_byte = [0, 0, 0], mouse = \<lparr>mo_x = 1020, mo_y = 0, mo_button = 0\<rparr>\<rparr>"

lemma demo_input_simps:
  "port_reads (demo_input n rs) = rs" "lastkey (demo_input n rs) = 0" "kbd_irqs (demo_input n rs) = n"
  "mouse_cycle (demo_input n rs) = 0" "mouse_byte (demo_input n rs) = [0, 0, 0]"
  "mouse (demo_input n rs) = \<lparr>mo_x = 1020, mo_y = 0, mo_button = 0\<rparr>"
  by (simp_all add: demo_input_def ata_state.defs demo_ata_reads)


theorem mouse_handler_bounds_witness:
  "\<exists>s'. mouse_handler (demo_input 0 [0x21, 8, 0x21, 100, 0x21, 100, 0]) = Some s' \<and> mouse_ok s'"
proof -
  let ?s = "demo_input 0 [0x21, 8, 0x21, 100, 0x21, 100, 0]"
  have "mouse_handler ?s \<noteq> None"
    by (simp add: mouse_handler_def inport_cons demo_input_simps mouse_loop.simps MOUSE_BBIT_def MOUSE_F_BIT_def mouse_take_def
        MOUSE_V_BIT_def Let_def mouse_check_bounds_def)
  moreover have "mouse_ok ?s" by (simp add: mouse_ok_def demo_input_simps)
  ultimately show ?thesis using mouse_handler_bounds [of ?s] by auto
qed

text \<open>Two packets from column 1020: 100 to the right, which stops at 1024, then 4 to the left and 3 down with the
  right button.\<close>

theorem mouse_packets_move_witness:
  "\<exists>s'. mouse_handler (demo_input 0 (packet_reads 0x21 [(8, 100, 0), (0x3A, 0xFC, 0xFD)] @ [0])) = Some s'
    \<and> pointer s' = (1020, 3, 2) \<and> mouse_cycle s' = 0"
proof -
  let ?ps = "[(8, 100, 0), (0x3A, 0xFC, 0xFD)] :: (u8 \<times> u8 \<times> u8) list"
  let ?s = "demo_input 0 (packet_reads 0x21 ?ps @ 0 # [])"
  have ok: "mouse_ok ?s" by (simp add: mouse_ok_def demo_input_simps)
  have st: "ucast (0x21 :: u16) AND MOUSE_BBIT \<noteq> 0" "ucast (0x21 :: u16) AND MOUSE_F_BIT \<noteq> 0" "ucast (0 :: u16) AND MOUSE_BBIT = 0"
    by (simp_all add: MOUSE_BBIT_def MOUSE_F_BIT_def)
  have bits: "\<forall>(b0, b1, b2) \<in> set ?ps. bit b0 3 \<and> \<not> bit b0 6 \<and> \<not> bit b0 7" by simp
  have "fold pointer_step ?ps (pointer ?s) = (1020, 3, 2)"
    by (simp add: pointer_def pointer_step_def demo_input_simps)
  with mouse_packets_move [OF ok demo_input_simps(4,1) st bits] show ?thesis by auto
qed

theorem mouse_overflow_stuck_witness:
  "\<exists>s'. mouse_handler ((demo_input 0 [0x21, 8, 0])\<lparr>mouse_cycle := 2, mouse_byte := [0x48, 1, 1]\<rparr>) = Some s' \<and> mouse_cycle s' = 2"
proof -
  let ?s = "(demo_input 0 [0x21, 8, 0])\<lparr>mouse_cycle := 2, mouse_byte := [0x48, 1, 1]\<rparr>"
  have "mouse_handler ?s \<noteq> None"
    by (simp add: mouse_handler_def inport_cons demo_input_simps mouse_loop.simps MOUSE_BBIT_def MOUSE_F_BIT_def mouse_take_def Let_def)
  then show ?thesis using mouse_overflow_stuck [of ?s] by auto
qed

end
