(* ===== verification/Video.thy ===== *)
theory Video
  imports Input
begin

text \<open>
  The screen, \<open>drivers/video/video.c\<close>: the text terminal in video memory, with its scrolling, and the
  drawing of pixels, rectangles and characters in the frame buffer.  Both lie in linear memory.  The
  text terminal refines an abstract one, a grid of cells with a cursor.
\<close>

record vbe_mem =
  vb_buffer_size :: u32
  vb_mem :: u32
  vb_buffer :: u32
  vb_xres :: u16
  vb_yres :: u16
  vb_bpp :: u8
  vb_pitch :: u16

record video_state = input_state +
  vx :: u32
  vy :: u32
  vheigth :: u32
  vwidth :: u32
  vram :: u32
  vbemem :: vbe_mem

section \<open>Text\<close>

definition video_init :: "u32 \<Rightarrow> u32 \<Rightarrow> 'a video_state_scheme \<Rightarrow> 'a video_state_scheme" where
  "video_init h w s = s\<lparr>vx := 0, vy := 0, vheigth := h, vwidth := w, vram := 0xB8000\<rparr>"

text \<open>The cell at an index of video memory.\<close>

definition set_cell :: "u32 \<Rightarrow> u16 \<Rightarrow> 'a video_state_scheme \<Rightarrow> 'a video_state_scheme" where
  "set_cell i v s = s\<lparr>ram := write16 (ram s) (vram s + 2 * i) v\<rparr>"

definition scroll :: "'a video_state_scheme \<Rightarrow> 'a video_state_scheme" where
  "scroll s =
     (let w = vwidth s; n = w * (vheigth s - 1);
          s = fold (\<lambda>i s. set_cell (of_nat i) (read16 (ram s) (vram s + 2 * (of_nat i + w))) s) [0..<nat (sint n)] s
      in fold (\<lambda>i. set_cell (n + of_nat i) 3872) [0..<nat (sint w)] s)"

definition check :: "'a video_state_scheme \<Rightarrow> 'a video_state_scheme" where
  "check s =
     (let s = (if sint (vwidth s) \<le> sint (vx s) then s\<lparr>vx := 0, vy := vy s + 1\<rparr> else s)
      in if sint (vheigth s) \<le> sint (vy s) then scroll (s\<lparr>vy := vy s - 1\<rparr>) else s)"

definition clear :: "'a video_state_scheme \<Rightarrow> 'a video_state_scheme" where
  "clear s = fold (\<lambda>i. set_cell (of_nat i) 3872) [0..<nat (sint (vheigth s * vwidth s))] (s\<lparr>vx := 0, vy := 0\<rparr>)"

text \<open>The switch of \<open>printk_string\<close>.\<close>

definition print_char :: "u8 \<Rightarrow> 'a video_state_scheme \<Rightarrow> 'a video_state_scheme" where
  "print_char c s =
     (if c = 8 then
        let s = s\<lparr>vx := vx s - 1\<rparr> in set_cell (vy s * vwidth s + vx s) 3872 s
      else if c = 10 then check (s\<lparr>vy := vy s + 1, vx := 0\<rparr>)
      else if c = 13 then s\<lparr>vx := 0\<rparr>
      else
        let s = check s; s = set_cell (vy s * vwidth s + vx s) (3840 OR scast c) s
        in s\<lparr>vx := vx s + 1\<rparr>)"

partial_function (option) print_loop :: "u32 \<Rightarrow> 'a video_state_scheme \<Rightarrow> 'a video_state_scheme option" where
  "print_loop p s = (let c = ram s p in if c = 0 then Some s else print_loop (p + 1) (print_char c s))"

definition printk_string :: "u32 \<Rightarrow> 'a video_state_scheme \<Rightarrow> 'a video_state_scheme option" where
  "printk_string buffer s = print_loop buffer (check s)"

text \<open>\<open>printk\<close>: \<open>str\<close> is its array of 256 bytes and \<open>buf\<close> the one that \<open>vsprintf\<close> converts numbers in.\<close>

definition printk :: "u32 \<Rightarrow> u32 \<Rightarrow> u32 \<Rightarrow> u32 list \<Rightarrow> 'a video_state_scheme \<Rightarrow> 'a video_state_scheme option" where
  "printk str buf fmt args s = do {
     m \<leftarrow> vsprintf (ram s) str fmt args buf;
     printk_string str (s\<lparr>ram := m\<rparr>)
   }"

section \<open>Drawing\<close>

definition fonts :: "u8 list list" where
  "fonts = [
     [0x00, 0x00, 0x00, 0x00, 0x00, 0x00, 0x00, 0x00],
     [0x00, 0x3E, 0x41, 0x55, 0x41, 0x55, 0x49, 0x3E],
     [0x00, 0x3E, 0x7F, 0x6B, 0x7F, 0x6B, 0x77, 0x3E],
     [0x00, 0x22, 0x77, 0x7F, 0x7F, 0x3E, 0x1C, 0x08],
     [0x00, 0x08, 0x1C, 0x3E, 0x7F, 0x3E, 0x1C, 0x08],
     [0x00, 0x08, 0x1C, 0x2A, 0x7F, 0x2A, 0x08, 0x1C],
     [0x00, 0x08, 0x1C, 0x3E, 0x7F, 0x3E, 0x08, 0x1C],
     [0x00, 0x00, 0x1C, 0x3E, 0x3E, 0x3E, 0x1C, 0x00],
     [0xFF, 0xFF, 0xE3, 0xC1, 0xC1, 0xC1, 0xE3, 0xFF],
     [0x00, 0x00, 0x1C, 0x22, 0x22, 0x22, 0x1C, 0x00],
     [0xFF, 0xFF, 0xE3, 0xDD, 0xDD, 0xDD, 0xE3, 0xFF],
     [0x00, 0x0F, 0x03, 0x05, 0x39, 0x48, 0x48, 0x30],
     [0x00, 0x08, 0x3E, 0x08, 0x1C, 0x22, 0x22, 0x1C],
     [0x00, 0x18, 0x14, 0x10, 0x10, 0x30, 0x70, 0x60],
     [0x00, 0x0F, 0x19, 0x11, 0x13, 0x37, 0x76, 0x60],
     [0x00, 0x08, 0x2A, 0x1C, 0x77, 0x1C, 0x2A, 0x08],
     [0x00, 0x60, 0x78, 0x7E, 0x7F, 0x7E, 0x78, 0x60],
     [0x00, 0x03, 0x0F, 0x3F, 0x7F, 0x3F, 0x0F, 0x03],
     [0x00, 0x08, 0x1C, 0x2A, 0x08, 0x2A, 0x1C, 0x08],
     [0x00, 0x66, 0x66, 0x66, 0x66, 0x00, 0x66, 0x66],
     [0x00, 0x3F, 0x65, 0x65, 0x3D, 0x05, 0x05, 0x05],
     [0x00, 0x0C, 0x32, 0x48, 0x24, 0x12, 0x4C, 0x30],
     [0x00, 0x00, 0x00, 0x00, 0x00, 0x7F, 0x7F, 0x7F],
     [0x00, 0x08, 0x1C, 0x2A, 0x08, 0x2A, 0x1C, 0x3E],
     [0x00, 0x08, 0x1C, 0x3E, 0x7F, 0x1C, 0x1C, 0x1C],
     [0x00, 0x1C, 0x1C, 0x1C, 0x7F, 0x3E, 0x1C, 0x08],
     [0x00, 0x08, 0x0C, 0x7E, 0x7F, 0x7E, 0x0C, 0x08],
     [0x00, 0x08, 0x18, 0x3F, 0x7F, 0x3F, 0x18, 0x08],
     [0x00, 0x00, 0x00, 0x70, 0x70, 0x70, 0x7F, 0x7F],
     [0x00, 0x00, 0x14, 0x22, 0x7F, 0x22, 0x14, 0x00],
     [0x00, 0x08, 0x1C, 0x1C, 0x3E, 0x3E, 0x7F, 0x7F],
     [0x00, 0x7F, 0x7F, 0x3E, 0x3E, 0x1C, 0x1C, 0x08],
     [0x00, 0x00, 0x00, 0x00, 0x00, 0x00, 0x00, 0x00],
     [0x00, 0x18, 0x3C, 0x3C, 0x18, 0x18, 0x00, 0x18],
     [0x00, 0x36, 0x36, 0x14, 0x00, 0x00, 0x00, 0x00],
     [0x00, 0x36, 0x36, 0x7F, 0x36, 0x7F, 0x36, 0x36],
     [0x00, 0x08, 0x1E, 0x20, 0x1C, 0x02, 0x3C, 0x08],
     [0x00, 0x60, 0x66, 0x0C, 0x18, 0x30, 0x66, 0x06],
     [0x00, 0x3C, 0x66, 0x3C, 0x28, 0x65, 0x66, 0x3F],
     [0x00, 0x18, 0x18, 0x18, 0x30, 0x00, 0x00, 0x00],
     [0x00, 0x60, 0x30, 0x18, 0x18, 0x18, 0x30, 0x60],
     [0x00, 0x06, 0x0C, 0x18, 0x18, 0x18, 0x0C, 0x06],
     [0x00, 0x00, 0x36, 0x1C, 0x7F, 0x1C, 0x36, 0x00],
     [0x00, 0x00, 0x08, 0x08, 0x3E, 0x08, 0x08, 0x00],
     [0x00, 0x00, 0x00, 0x00, 0x30, 0x30, 0x30, 0x60],
     [0x00, 0x00, 0x00, 0x00, 0x3C, 0x00, 0x00, 0x00],
     [0x00, 0x00, 0x00, 0x00, 0x00, 0x00, 0x60, 0x60],
     [0x00, 0x00, 0x06, 0x0C, 0x18, 0x30, 0x60, 0x00],
     [0x00, 0x3C, 0x66, 0x6E, 0x76, 0x66, 0x66, 0x3C],
     [0x00, 0x18, 0x18, 0x38, 0x18, 0x18, 0x18, 0x7E],
     [0x00, 0x3C, 0x66, 0x06, 0x0C, 0x30, 0x60, 0x7E],
     [0x00, 0x3C, 0x66, 0x06, 0x1C, 0x06, 0x66, 0x3C],
     [0x00, 0x0C, 0x1C, 0x2C, 0x4C, 0x7E, 0x0C, 0x0C],
     [0x00, 0x7E, 0x60, 0x7C, 0x06, 0x06, 0x66, 0x3C],
     [0x00, 0x3C, 0x66, 0x60, 0x7C, 0x66, 0x66, 0x3C],
     [0x00, 0x7E, 0x66, 0x0C, 0x0C, 0x18, 0x18, 0x18],
     [0x00, 0x3C, 0x66, 0x66, 0x3C, 0x66, 0x66, 0x3C],
     [0x00, 0x3C, 0x66, 0x66, 0x3E, 0x06, 0x66, 0x3C],
     [0x00, 0x00, 0x18, 0x18, 0x00, 0x18, 0x18, 0x00],
     [0x00, 0x00, 0x18, 0x18, 0x00, 0x18, 0x18, 0x30],
     [0x00, 0x06, 0x0C, 0x18, 0x30, 0x18, 0x0C, 0x06],
     [0x00, 0x00, 0x00, 0x3C, 0x00, 0x3C, 0x00, 0x00],
     [0x00, 0x60, 0x30, 0x18, 0x0C, 0x18, 0x30, 0x60],
     [0x00, 0x3C, 0x66, 0x06, 0x1C, 0x18, 0x00, 0x18],
     [0x00, 0x38, 0x44, 0x5C, 0x58, 0x42, 0x3C, 0x00],
     [0x00, 0x3C, 0x66, 0x66, 0x7E, 0x66, 0x66, 0x66],
     [0x00, 0x7C, 0x66, 0x66, 0x7C, 0x66, 0x66, 0x7C],
     [0x00, 0x3C, 0x66, 0x60, 0x60, 0x60, 0x66, 0x3C],
     [0x00, 0x7C, 0x66, 0x66, 0x66, 0x66, 0x66, 0x7C],
     [0x00, 0x7E, 0x60, 0x60, 0x7C, 0x60, 0x60, 0x7E],
     [0x00, 0x7E, 0x60, 0x60, 0x7C, 0x60, 0x60, 0x60],
     [0x00, 0x3C, 0x66, 0x60, 0x60, 0x6E, 0x66, 0x3C],
     [0x00, 0x66, 0x66, 0x66, 0x7E, 0x66, 0x66, 0x66],
     [0x00, 0x3C, 0x18, 0x18, 0x18, 0x18, 0x18, 0x3C],
     [0x00, 0x1E, 0x0C, 0x0C, 0x0C, 0x6C, 0x6C, 0x38],
     [0x00, 0x66, 0x6C, 0x78, 0x70, 0x78, 0x6C, 0x66],
     [0x00, 0x60, 0x60, 0x60, 0x60, 0x60, 0x60, 0x7E],
     [0x00, 0x63, 0x77, 0x7F, 0x6B, 0x63, 0x63, 0x63],
     [0x00, 0x63, 0x73, 0x7B, 0x6F, 0x67, 0x63, 0x63],
     [0x00, 0x3C, 0x66, 0x66, 0x66, 0x66, 0x66, 0x3C],
     [0x00, 0x7C, 0x66, 0x66, 0x66, 0x7C, 0x60, 0x60],
     [0x00, 0x3C, 0x66, 0x66, 0x66, 0x6E, 0x3C, 0x06],
     [0x00, 0x7C, 0x66, 0x66, 0x7C, 0x78, 0x6C, 0x66],
     [0x00, 0x3C, 0x66, 0x60, 0x3C, 0x06, 0x66, 0x3C],
     [0x00, 0x7E, 0x5A, 0x18, 0x18, 0x18, 0x18, 0x18],
     [0x00, 0x66, 0x66, 0x66, 0x66, 0x66, 0x66, 0x3E],
     [0x00, 0x66, 0x66, 0x66, 0x66, 0x66, 0x3C, 0x18],
     [0x00, 0x63, 0x63, 0x63, 0x6B, 0x7F, 0x77, 0x63],
     [0x00, 0x63, 0x63, 0x36, 0x1C, 0x36, 0x63, 0x63],
     [0x00, 0x66, 0x66, 0x66, 0x3C, 0x18, 0x18, 0x18],
     [0x00, 0x7E, 0x06, 0x0C, 0x18, 0x30, 0x60, 0x7E],
     [0x00, 0x1E, 0x18, 0x18, 0x18, 0x18, 0x18, 0x1E],
     [0x00, 0x00, 0x60, 0x30, 0x18, 0x0C, 0x06, 0x00],
     [0x00, 0x78, 0x18, 0x18, 0x18, 0x18, 0x18, 0x78],
     [0x00, 0x08, 0x14, 0x22, 0x41, 0x00, 0x00, 0x00],
     [0x00, 0x00, 0x00, 0x00, 0x00, 0x00, 0x00, 0x7F],
     [0x00, 0x0C, 0x0C, 0x06, 0x00, 0x00, 0x00, 0x00],
     [0x00, 0x00, 0x00, 0x3C, 0x06, 0x3E, 0x66, 0x3E],
     [0x00, 0x60, 0x60, 0x60, 0x7C, 0x66, 0x66, 0x7C],
     [0x00, 0x00, 0x00, 0x3C, 0x66, 0x60, 0x66, 0x3C],
     [0x00, 0x06, 0x06, 0x06, 0x3E, 0x66, 0x66, 0x3E],
     [0x00, 0x00, 0x00, 0x3C, 0x66, 0x7E, 0x60, 0x3C],
     [0x00, 0x1C, 0x36, 0x30, 0x30, 0x7C, 0x30, 0x30],
     [0x00, 0x00, 0x3E, 0x66, 0x66, 0x3E, 0x06, 0x3C],
     [0x00, 0x60, 0x60, 0x60, 0x7C, 0x66, 0x66, 0x66],
     [0x00, 0x00, 0x18, 0x00, 0x18, 0x18, 0x18, 0x3C],
     [0x00, 0x0C, 0x00, 0x0C, 0x0C, 0x6C, 0x6C, 0x38],
     [0x00, 0x60, 0x60, 0x66, 0x6C, 0x78, 0x6C, 0x66],
     [0x00, 0x18, 0x18, 0x18, 0x18, 0x18, 0x18, 0x18],
     [0x00, 0x00, 0x00, 0x63, 0x77, 0x7F, 0x6B, 0x6B],
     [0x00, 0x00, 0x00, 0x7C, 0x7E, 0x66, 0x66, 0x66],
     [0x00, 0x00, 0x00, 0x3C, 0x66, 0x66, 0x66, 0x3C],
     [0x00, 0x00, 0x7C, 0x66, 0x66, 0x7C, 0x60, 0x60],
     [0x00, 0x00, 0x3C, 0x6C, 0x6C, 0x3C, 0x0D, 0x0F],
     [0x00, 0x00, 0x00, 0x7C, 0x66, 0x66, 0x60, 0x60],
     [0x00, 0x00, 0x00, 0x3E, 0x40, 0x3C, 0x02, 0x7C],
     [0x00, 0x00, 0x18, 0x18, 0x7E, 0x18, 0x18, 0x18],
     [0x00, 0x00, 0x00, 0x66, 0x66, 0x66, 0x66, 0x3E],
     [0x00, 0x00, 0x00, 0x00, 0x66, 0x66, 0x3C, 0x18],
     [0x00, 0x00, 0x00, 0x63, 0x6B, 0x6B, 0x6B, 0x3E],
     [0x00, 0x00, 0x00, 0x66, 0x3C, 0x18, 0x3C, 0x66],
     [0x00, 0x00, 0x00, 0x66, 0x66, 0x3E, 0x06, 0x3C],
     [0x00, 0x00, 0x00, 0x3C, 0x0C, 0x18, 0x30, 0x3C],
     [0x00, 0x0E, 0x18, 0x18, 0x30, 0x18, 0x18, 0x0E],
     [0x00, 0x18, 0x18, 0x18, 0x00, 0x18, 0x18, 0x18],
     [0x00, 0x70, 0x18, 0x18, 0x0C, 0x18, 0x18, 0x70],
     [0x00, 0x00, 0x00, 0x3A, 0x6C, 0x00, 0x00, 0x00],
     [0x00, 0x08, 0x1C, 0x36, 0x63, 0x41, 0x41, 0x7F]]"

definition draw_pixel :: "u32 \<Rightarrow> u32 \<Rightarrow> u32 \<Rightarrow> 'a video_state_scheme \<Rightarrow> 'a video_state_scheme" where
  "draw_pixel x y color s =
     (let v = vbemem s in
      if sint x < 0 \<or> int (unat (vb_xres v)) < sint x \<or> sint y < 0 \<or> int (unat (vb_yres v)) < sint y then s
      else
        let p = vb_buffer v + x * ucast (vb_bpp v div 8) + y * ucast (vb_pitch v)
        in s\<lparr>ram := (ram s)(p := ucast color, p + 1 := ucast (drop_bit 8 color), p + 2 := ucast (drop_bit 16 color))\<rparr>)"

text \<open>One row of a rectangle, four bytes from pixel to pixel.\<close>

definition rect_row :: "u32 \<Rightarrow> u32 \<Rightarrow> u32 \<Rightarrow> mem \<Rightarrow> mem" where
  "rect_row p w color m =
     fold (\<lambda>j m. let q = p + 4 * of_nat j in
         m(q := ucast color, q + 1 := ucast (drop_bit 8 color), q + 2 := ucast (drop_bit 16 color))) [0..<nat (sint w)] m"

definition draw_rect :: "u32 \<Rightarrow> u32 \<Rightarrow> u32 \<Rightarrow> u32 \<Rightarrow> u32 \<Rightarrow> 'a video_state_scheme \<Rightarrow> 'a video_state_scheme" where
  "draw_rect x y w h color s =
     (let v = vbemem s in
      if sint x < 0 \<or> int (unat (vb_xres v)) < sint x \<or> sint y < 0 \<or> int (unat (vb_yres v)) < sint y then s
      else
        let p = vb_buffer v + x * ucast (vb_bpp v div 8) + y * ucast (vb_pitch v);
            row = ucast (vb_xres v) * ucast (vb_bpp v div 8)
        in s\<lparr>ram := fold (\<lambda>i. rect_row (p + of_nat i * row) w color) [0..<nat (sint h)] (ram s)\<rparr>)"

definition draw_char :: "u32 \<Rightarrow> u32 \<Rightarrow> u8 list \<Rightarrow> 'a video_state_scheme \<Rightarrow> 'a video_state_scheme" where
  "draw_char x y font_char s =
     fold (\<lambda>i s. fold (\<lambda>l s. if bit (font_char ! i) (7 - l) then draw_pixel (x + of_nat l) (y + of_nat i) 0 s else s) [0..<8] s) [0..<8] s"

text \<open>The index into the table is the signed character; outside the table there is no result.\<close>

partial_function (option) draw_string_loop :: "u32 \<Rightarrow> u32 \<Rightarrow> u32 \<Rightarrow> u32 \<Rightarrow> 'a video_state_scheme \<Rightarrow> 'a video_state_scheme option" where
  "draw_string_loop startx x y p s =
     (let c = ram s p in
      if c = 0 then Some s
      else if c = 8 \<or> c = 13 then draw_string_loop startx x y (p + 1) s
      else if c = 10 then draw_string_loop startx startx (y + 9) (p + 1) s
      else if c = of_char CHR '' '' then draw_string_loop startx (x + 9) y (p + 1) s
      else if unat c < 128 then draw_string_loop startx (x + 9) y (p + 1) (draw_char x y (fonts ! unat c) s)
      else None)"

definition draw_string :: "u32 \<Rightarrow> u32 \<Rightarrow> u32 \<Rightarrow> 'a video_state_scheme \<Rightarrow> 'a video_state_scheme option" where
  "draw_string x y string s = draw_string_loop x x y string s"

definition is_text_mode :: "'a video_state_scheme \<Rightarrow> u32" where
  "is_text_mode s = (if vb_mem (vbemem s) \<noteq> 0 then 0 else 1)"

section \<open>The abstract terminal\<close>

text \<open>Cursor and cells of a terminal of \<open>h\<close> lines of \<open>w\<close> cells; 3872 is a blank.  Erasing to the left
  of a line has no result.\<close>

type_synonym term_state = "nat \<times> nat \<times> u16 list"

definition t_check :: "nat \<Rightarrow> nat \<Rightarrow> term_state \<Rightarrow> term_state" where
  "t_check h w = (\<lambda>(x, y, cs).
     let (x, y) = (if w \<le> x then (0, y + 1) else (x, y))
     in if h \<le> y then (x, y - 1, drop w cs @ replicate w 3872) else (x, y, cs))"

definition t_put :: "nat \<Rightarrow> nat \<Rightarrow> u8 \<Rightarrow> term_state \<Rightarrow> term_state option" where
  "t_put h w c = (\<lambda>(x, y, cs).
     if c = 8 then if x = 0 then None else Some (x - 1, y, cs[y * w + (x - 1) := 3872])
     else if c = 10 then Some (t_check h w (0, y + 1, cs))
     else if c = 13 then Some (0, y, cs)
     else case t_check h w (x, y, cs) of (x, y, cs) \<Rightarrow> Some (x + 1, y, cs[y * w + x := 3840 OR scast c]))"

fun t_print :: "nat \<Rightarrow> nat \<Rightarrow> u8 list \<Rightarrow> term_state \<Rightarrow> term_state option" where
  "t_print h w [] t = Some t"
| "t_print h w (c # cs) t = do { t \<leftarrow> t_put h w c t; t_print h w cs t }"

definition screen :: "'a video_state_scheme \<Rightarrow> term_state" where
  "screen s = (unat (vx s), unat (vy s), cells (ram s) (vram s) (unat (vheigth s) * unat (vwidth s)))"

definition screen_ok :: "'a video_state_scheme \<Rightarrow> bool" where
  "screen_ok s \<longleftrightarrow> 0 < unat (vheigth s) \<and> 0 < unat (vwidth s) \<and> unat (vheigth s) < 1000 \<and> unat (vwidth s) < 1000
     \<and> unat (vx s) \<le> unat (vwidth s) \<and> unat (vy s) < unat (vheigth s)"

definition screen_area :: "'a video_state_scheme \<Rightarrow> u32 set" where
  "screen_area s = region (vram s) (2 * (unat (vheigth s) * unat (vwidth s)))"

text \<open>A step of the terminal: only the cursor and the screen's memory change.\<close>

definition on_screen :: "'a video_state_scheme \<Rightarrow> 'a video_state_scheme \<Rightarrow> bool" where
  "on_screen s s' \<longleftrightarrow> (\<exists>m x y. s' = s\<lparr>ram := m, vx := x, vy := y\<rparr> \<and> (\<forall>a. a \<notin> screen_area s \<longrightarrow> m a = ram s a))"

lemma on_screen_refl [simp]: "on_screen s s"
proof -
  have "s = s\<lparr>ram := ram s, vx := vx s, vy := vy s\<rparr>" by simp
  then show ?thesis unfolding on_screen_def by blast
qed

lemma on_screen_fields:
  assumes "on_screen s t"
  shows "vheigth t = vheigth s" "vwidth t = vwidth s" "vram t = vram s" "screen_area t = screen_area s"
    "a \<notin> screen_area s \<Longrightarrow> ram t a = ram s a"
  using assms by (auto simp: on_screen_def screen_area_def)

lemma on_screen_trans:
  assumes "on_screen s t" "on_screen t u"
  shows "on_screen s u"
proof -
  from assms obtain m x y m' x' y' where "t = s\<lparr>ram := m, vx := x, vy := y\<rparr>" "u = t\<lparr>ram := m', vx := x', vy := y'\<rparr>"
    by (auto simp: on_screen_def)
  then have "u = s\<lparr>ram := m', vx := x', vy := y'\<rparr>" by simp
  moreover have "\<forall>a. a \<notin> screen_area s \<longrightarrow> m' a = ram s a"
    using on_screen_fields(4,5) [OF assms(1)] on_screen_fields(5) [OF assms(2)] \<open>u = s\<lparr>ram := m', vx := x', vy := y'\<rparr>\<close> by auto
  ultimately show ?thesis unfolding on_screen_def by blast
qed

lemma on_screen_cursor: "on_screen s (s\<lparr>vx := x, vy := y\<rparr>)" "on_screen s (s\<lparr>vx := x\<rparr>)" "on_screen s (s\<lparr>vy := y\<rparr>)"
proof -
  have "s\<lparr>vx := x, vy := y\<rparr> = s\<lparr>ram := ram s, vx := x, vy := y\<rparr>" "s\<lparr>vx := x\<rparr> = s\<lparr>ram := ram s, vx := x, vy := vy s\<rparr>"
    "s\<lparr>vy := y\<rparr> = s\<lparr>ram := ram s, vx := vx s, vy := y\<rparr>" by simp_all
  then show "on_screen s (s\<lparr>vx := x, vy := y\<rparr>)" "on_screen s (s\<lparr>vx := x\<rparr>)" "on_screen s (s\<lparr>vy := y\<rparr>)"
    unfolding on_screen_def by blast+
qed

section \<open>Cells\<close>

text \<open>The number of cells, and an index below it, fit the machine's integers.\<close>

lemma screen_size:
  assumes "screen_ok s"
  shows "unat (vheigth s) * unat (vwidth s) < 1000000"
proof -
  have "unat (vheigth s) * unat (vwidth s) \<le> 999 * 999" using assms by (intro mult_le_mono) (auto simp: screen_ok_def)
  then show ?thesis by simp
qed

lemma set_cell:
  assumes "screen_ok s" "i < unat (vheigth s) * unat (vwidth s)" "of_nat i = k"
  shows "cells (ram (set_cell k v s)) (vram s) (unat (vheigth s) * unat (vwidth s))
      = (cells (ram s) (vram s) (unat (vheigth s) * unat (vwidth s)))[i := v]"
    "on_screen s (set_cell k v s)" "vx (set_cell k v s) = vx s" "vy (set_cell k v s) = vy s"
proof -
  have n: "2 * (unat (vheigth s) * unat (vwidth s)) < 2 ^ 32" using screen_size [OF assms(1)] by simp
  show "cells (ram (set_cell k v s)) (vram s) (unat (vheigth s) * unat (vwidth s))
      = (cells (ram s) (vram s) (unat (vheigth s) * unat (vwidth s)))[i := v]"
    using cells_write16 [OF assms(2)] n by (simp add: set_cell_def assms(3) [symmetric])
  have "set_cell k v s = s\<lparr>ram := write16 (ram s) (vram s + 2 * of_nat i) v, vx := vx s, vy := vy s\<rparr>"
    by (simp add: set_cell_def assms(3))
  then show "on_screen s (set_cell k v s)"
    using write16_outside [OF assms(2) n] unfolding on_screen_def screen_area_def by blast
qed (simp_all add: set_cell_def)

text \<open>A run of cell updates, as a change of the list of cells.\<close>

lemma set_cells:
  assumes "screen_ok s" "n \<le> unat (vheigth s) * unat (vwidth s)" "base + n \<le> unat (vheigth s) * unat (vwidth s)"
    "\<And>i t. i < n \<Longrightarrow> on_screen s t \<Longrightarrow> f i t = g i (cells (ram t) (vram s) (unat (vheigth s) * unat (vwidth s)))"
    "k = of_nat base"
  shows "let t = fold (\<lambda>i t. set_cell (k + of_nat i) (f i t) t) [0..<n] s in
    on_screen s t \<and> vx t = vx s \<and> vy t = vy s \<and>
    cells (ram t) (vram s) (unat (vheigth s) * unat (vwidth s))
      = fold (\<lambda>i cs. cs[base + i := g i cs]) [0..<n] (cells (ram s) (vram s) (unat (vheigth s) * unat (vwidth s)))"
  using assms(2,3,4)
proof (induction n)
  case (Suc n)
  let ?t = "fold (\<lambda>i t. set_cell (k + of_nat i) (f i t) t) [0..<n] s"
  let ?N = "unat (vheigth s) * unat (vwidth s)"
  have IH: "on_screen s ?t" "vx ?t = vx s" "vy ?t = vy s"
    "cells (ram ?t) (vram s) ?N = fold (\<lambda>i cs. cs[base + i := g i cs]) [0..<n] (cells (ram s) (vram s) ?N)"
    using Suc by (auto simp: Let_def)
  note f = on_screen_fields [OF IH(1)]
  have ok: "screen_ok ?t" using assms(1) IH(2,3) f(1,2) by (simp add: screen_ok_def)
  have "base + n < unat (vheigth ?t) * unat (vwidth ?t)" using Suc.prems(2) f(1,2) by simp
  note c = set_cell [OF ok this, of "k + of_nat n"]
  show ?case using c assms(5) IH Suc.prems(3) [of n ?t] on_screen_trans [OF IH(1)] unfolding f(1-3) Let_def by simp
qed simp

lemma shift_fold:
  "n + w \<le> length cs \<Longrightarrow> fold (\<lambda>i cs. cs[0 + i := cs ! (i + w)]) [0..<n] cs = take n (drop w cs) @ drop n cs"
proof (induction n)
  case (Suc n)
  let ?c = "take n (drop w cs) @ drop n cs"
  have "?c ! (n + w) = cs ! (n + w)" using Suc.prems by (simp add: nth_append)
  moreover have "?c[n := v] = take n (drop w cs) @ v # drop (Suc n) cs" for v
    using Suc.prems by (simp add: list_update_append Cons_nth_drop_Suc [symmetric])
  moreover have "take (Suc n) (drop w cs) = take n (drop w cs) @ [cs ! (n + w)]"
    using Suc.prems by (simp add: take_Suc_conv_app_nth add.commute)
  ultimately show ?case using Suc by simp
qed simp

lemma fill_fold:
  "b + n \<le> length cs \<Longrightarrow> fold (\<lambda>i cs. cs[b + i := v]) [0..<n] cs = take b cs @ replicate n v @ drop (b + n) cs"
proof (induction n)
  case (Suc n)
  have "(take b cs @ replicate n v @ drop (b + n) cs)[b + n := v] = take b cs @ replicate n v @ v # drop (Suc (b + n)) cs"
    using Suc.prems by (simp add: list_update_append Cons_nth_drop_Suc [symmetric])
  then show ?case using Suc by (simp add: replicate_append_same)
qed simp

lemma unat_rows:
  assumes "screen_ok s"
  shows "unat (vwidth s * (vheigth s - 1)) = unat (vwidth s) * (unat (vheigth s) - 1)"
    "nat (sint (vwidth s * (vheigth s - 1))) = unat (vwidth s) * (unat (vheigth s) - 1)"
    "nat (sint (vwidth s)) = unat (vwidth s)"
proof -
  have h: "unat (vheigth s - 1) = unat (vheigth s) - 1" using assms by (intro unat_minus_one) (auto simp: screen_ok_def)
  have "unat (vwidth s) * (unat (vheigth s) - 1) \<le> unat (vheigth s) * unat (vwidth s)" by (simp add: mult.commute)
  then have l: "unat (vwidth s) * (unat (vheigth s) - 1) < 1000000" using screen_size [OF assms] by (rule le_less_trans)
  then show u: "unat (vwidth s * (vheigth s - 1)) = unat (vwidth s) * (unat (vheigth s) - 1)"
    by (subst unat_mult_lem [THEN iffD1]) (simp_all add: h)
  show "nat (sint (vwidth s * (vheigth s - 1))) = unat (vwidth s) * (unat (vheigth s) - 1)"
  proof -
    have "sint (vwidth s * (vheigth s - 1)) = int (unat (vwidth s * (vheigth s - 1)))"
      by (rule sint_nonneg, unfold sint_nonneg_iff u) (use l in linarith)
    then show ?thesis by (simp only: nat_int u)
  qed
  show "nat (sint (vwidth s)) = unat (vwidth s)"
    using assms sint_nonneg [of "vwidth s"] unfolding sint_nonneg_iff screen_ok_def by simp
qed

lemma scroll_screen:
  assumes "screen_ok s" "cs = cells (ram s) (vram s) (unat (vheigth s) * unat (vwidth s))"
  shows "on_screen s (scroll s) \<and> vx (scroll s) = vx s \<and> vy (scroll s) = vy s
    \<and> cells (ram (scroll s)) (vram s) (unat (vheigth s) * unat (vwidth s)) = drop (unat (vwidth s)) cs @ replicate (unat (vwidth s)) 3872"
proof -
  let ?w = "unat (vwidth s)" and ?h = "unat (vheigth s)"
  let ?N = "?h * ?w" and ?n = "?w * (?h - 1)"
  have N: "?N = ?n + ?w" using assms(1) by (cases ?h) (auto simp: screen_ok_def mult.commute)
  let ?s1 = "fold (\<lambda>i t. set_cell (0 + of_nat i) (read16 (ram t) (vram t + 2 * (of_nat i + vwidth s))) t) [0..<?n] s"
  have f: "read16 (ram t) (vram t + 2 * (of_nat i + vwidth s)) = cells (ram t) (vram s) ?N ! (i + ?w)"
    if "i < ?n" "on_screen s t" for i t
    using on_screen_fields(3) [OF that(2)] that(1) N by simp
  have "?n \<le> ?N" "0 + ?n \<le> ?N" using N by simp_all
  from set_cells [where g = "\<lambda>i cs. cs ! (i + ?w)" and k = 0, OF assms(1) this f] have s1: "on_screen s ?s1" "vx ?s1 = vx s" "vy ?s1 = vy s"
    "cells (ram ?s1) (vram s) ?N = fold (\<lambda>i cs. cs[0 + i := cs ! (i + ?w)]) [0..<?n] cs"
    unfolding Let_def assms(2) by simp_all
  note g = on_screen_fields [OF s1(1)]
  have ok: "screen_ok ?s1" using assms(1) s1(2,3) g(1,2) by (simp add: screen_ok_def)
  let ?s2 = "fold (\<lambda>i t. set_cell (vwidth s * (vheigth s - 1) + of_nat i) 3872 t) [0..<?w] ?s1"
  have k: "vwidth s * (vheigth s - 1) = of_nat ?n" unfolding unat_rows(1) [OF assms(1), symmetric] by simp
  have "?w \<le> unat (vheigth ?s1) * unat (vwidth ?s1)" "?n + ?w \<le> unat (vheigth ?s1) * unat (vwidth ?s1)"
    using N unfolding g(1,2) by simp_all
  from set_cells [where g = "\<lambda>_ _. 3872" and f = "\<lambda>_ _. 3872", OF ok this refl k] have s2: "on_screen ?s1 ?s2" "vx ?s2 = vx s" "vy ?s2 = vy s"
    "cells (ram ?s2) (vram s) ?N = fold (\<lambda>i cs. cs[?n + i := 3872]) [0..<?w] (cells (ram ?s1) (vram s) ?N)"
    unfolding Let_def g(1-3) s1(2,3) by simp_all
  have len: "length cs = ?n + ?w" using assms(2) N by simp
  have "cells (ram ?s2) (vram s) ?N = drop ?w cs @ replicate ?w 3872"
  proof -
    have a: "fold (\<lambda>i cs. cs[0 + i := cs ! (i + ?w)]) [0..<?n] cs = take ?n (drop ?w cs) @ drop ?n cs"
      using len by (intro shift_fold) simp
    have b: "?n + ?w \<le> length (take ?n (drop ?w cs) @ drop ?n cs)" using len by simp
    show ?thesis unfolding s2(4) s1(4) a fill_fold [OF b] using len by simp
  qed
  moreover have "scroll s = ?s2"
    unfolding scroll_def Let_def unat_rows(2,3) [OF assms(1)] by simp
  ultimately show ?thesis using on_screen_trans [OF s1(1) s2(1)] s2(2,3) by simp
qed

lemma small_sint: "unat v < 1001 \<Longrightarrow> sint (v :: u32) = int (unat v)"
  using sint_nonneg [of v] unfolding sint_nonneg_iff by simp

text \<open>The cursor may stand one column behind the last, and, at the start of a line, one line below.\<close>

definition cursor_ok :: "'a video_state_scheme \<Rightarrow> bool" where
  "cursor_ok s \<longleftrightarrow> 0 < unat (vheigth s) \<and> 0 < unat (vwidth s) \<and> unat (vheigth s) < 1000 \<and> unat (vwidth s) < 1000
     \<and> unat (vx s) \<le> unat (vwidth s) \<and> (unat (vy s) < unat (vheigth s) \<or> unat (vy s) = unat (vheigth s) \<and> vx s = 0)"

lemma unat_add1: "unat v < 1001 \<Longrightarrow> unat (v + 1 :: u32) = unat v + 1"
  by (subst unat_add_lem [THEN iffD1]) simp_all

lemma check_screen:
  assumes "cursor_ok s"
  shows "on_screen s (check s) \<and> screen_ok (check s) \<and> unat (vx (check s)) < unat (vwidth s)
    \<and> screen (check s) = t_check (unat (vheigth s)) (unat (vwidth s)) (screen s)"
proof -
  let ?w = "unat (vwidth s)" and ?h = "unat (vheigth s)"
  define s1 where "s1 = (if ?w \<le> unat (vx s) then s\<lparr>vx := 0, vy := vy s + 1\<rparr> else s)"
  have c: "unat (vx s) \<le> ?w" "?w < 1000" "?h < 1000" "unat (vy s) \<le> ?h" "0 < ?w" "0 < ?h" using assms by (auto simp: cursor_ok_def)
  have sw: "sint (vwidth s) = int ?w" "sint (vx s) = int (unat (vx s))" "sint (vheigth s) = int ?h"
    by (rule small_sint, use c in simp)+
  have y1: "unat (vy s + 1) = unat (vy s) + 1" using c by (intro unat_add1) simp
  have on1: "on_screen s s1" unfolding s1_def by (simp add: on_screen_cursor)
  have cell1: "ram s1 = ram s" "vram s1 = vram s" "vheigth s1 = vheigth s" "vwidth s1 = vwidth s" by (simp_all add: s1_def)
  have x1: "unat (vx s1) < ?w" "unat (vy s1) \<le> ?h" using assms y1 c by (auto simp: s1_def cursor_ok_def)
  have xy: "(unat (vx s1), unat (vy s1)) = (if ?w \<le> unat (vx s) then (0, unat (vy s) + 1) else (unat (vx s), unat (vy s)))"
    using y1 by (simp add: s1_def)
  have s1eq: "(if sint (vwidth s) \<le> sint (vx s) then s\<lparr>vx := 0, vy := vy s + 1\<rparr> else s) = s1"
    unfolding sw of_nat_le_iff s1_def ..
  have sy: "sint (vy s1) = int (unat (vy s1))" by (rule small_sint) (use x1(2) c(3) in linarith)
  have le: "sint (vheigth s1) \<le> sint (vy s1) \<longleftrightarrow> ?h \<le> unat (vy s1)"
    unfolding cell1(3) sw sy of_nat_le_iff ..
  have t: "t_check ?h ?w (screen s) = (if ?h \<le> unat (vy s1) then (unat (vx s1), unat (vy s1) - 1, drop ?w (cells (ram s) (vram s) (?h * ?w)) @ replicate ?w 3872)
      else (unat (vx s1), unat (vy s1), cells (ram s) (vram s) (?h * ?w)))"
    unfolding t_check_def screen_def prod.case Let_def xy [symmetric] by simp
  show ?thesis
  proof (cases "?h \<le> unat (vy s1)")
    case True
    let ?s2 = "s1\<lparr>vy := vy s1 - 1\<rparr>"
    have y: "unat (vy s1 - 1) = unat (vy s1) - 1" using True c(6) by (intro unat_minus_one) auto
    have ok: "screen_ok ?s2" using c x1 y True by (auto simp: screen_ok_def cell1)
    have eq: "check s = scroll ?s2" unfolding check_def Let_def s1eq using True le by simp
    note sc = scroll_screen [OF ok refl]
    have on2: "on_screen s1 ?s2" by (rule on_screen_cursor)
    have on3: "on_screen ?s2 (scroll ?s2)" using sc by blast
    note f = on_screen_fields [OF on3]
    have on: "on_screen s (scroll ?s2)" by (rule on_screen_trans [OF on_screen_trans [OF on1 on2] on3])
    have "screen_ok (scroll ?s2)" using sc ok by (simp add: screen_ok_def f(1,2))
    moreover have "screen (scroll ?s2) = (unat (vx s1), unat (vy s1) - 1, drop ?w (cells (ram s) (vram s) (?h * ?w)) @ replicate ?w 3872)"
      using sc y by (simp add: screen_def f(1-3) cell1)
    ultimately show ?thesis using on sc True x1(1) unfolding eq t by simp
  next
    case False
    then have "check s = s1" unfolding check_def Let_def s1eq using le by simp
    moreover have "screen_ok s1" using False c x1 by (simp add: screen_ok_def cell1)
    ultimately show ?thesis using False on1 x1(1) unfolding t by (simp add: screen_def cell1)
  qed
qed

text \<open>A character, and a string.\<close>

lemma cell_index:
  assumes "screen_ok s" "unat (vx s) < unat (vwidth s)"
  shows "unat (vy s) * unat (vwidth s) + unat (vx s) < unat (vheigth s) * unat (vwidth s)"
    "of_nat (unat (vy s) * unat (vwidth s) + unat (vx s)) = vy s * vwidth s + vx s"
proof -
  have "unat (vy s) * unat (vwidth s) + unat (vx s) < Suc (unat (vy s)) * unat (vwidth s)" using assms(2) by simp
  also have "\<dots> \<le> unat (vheigth s) * unat (vwidth s)" using assms(1) by (intro mult_le_mono1) (simp add: screen_ok_def)
  finally show "unat (vy s) * unat (vwidth s) + unat (vx s) < unat (vheigth s) * unat (vwidth s)" .
qed simp

lemma put_cell:
  assumes "screen_ok s" "unat (vx s) < unat (vwidth s)"
  shows "on_screen s (set_cell (vy s * vwidth s + vx s) v s) \<and> screen_ok (set_cell (vy s * vwidth s + vx s) v s)
    \<and> screen (set_cell (vy s * vwidth s + vx s) v s) = (unat (vx s), unat (vy s),
        (cells (ram s) (vram s) (unat (vheigth s) * unat (vwidth s)))[unat (vy s) * unat (vwidth s) + unat (vx s) := v])"
proof -
  note c = set_cell [OF assms(1) cell_index [OF assms], of v]
  note f = on_screen_fields [OF c(2)]
  show ?thesis using c assms(1) by (simp add: screen_def screen_ok_def f(1-3))
qed

lemma print_char_screen:
  assumes "screen_ok s" "t_put (unat (vheigth s)) (unat (vwidth s)) c (screen s) = Some t"
  shows "on_screen s (print_char c s) \<and> screen_ok (print_char c s) \<and> screen (print_char c s) = t"
proof -
  consider "c = 8" | "c = 10" | "c = 13" | "c \<noteq> 8" "c \<noteq> 10" "c \<noteq> 13" by blast
  then show ?thesis
  proof cases
    case 1
    let ?s = "s\<lparr>vx := vx s - 1\<rparr>"
    have x: "unat (vx s) \<noteq> 0" using assms(2) 1 by (simp add: t_put_def screen_def split: if_splits)
    then have x': "unat (vx s - 1) = unat (vx s) - 1" by (intro unat_minus_one) auto
    have ok: "screen_ok ?s" "unat (vx ?s) < unat (vwidth ?s)" using assms(1) x x' by (auto simp: screen_ok_def)
    have on: "on_screen s ?s" by (rule on_screen_cursor)
    note p = put_cell [OF ok, of 3872]
    have "print_char c s = set_cell (vy ?s * vwidth ?s + vx ?s) 3872 ?s" using 1 by (simp add: print_char_def Let_def)
    moreover have "t = (unat (vx ?s), unat (vy ?s), (cells (ram ?s) (vram ?s) (unat (vheigth ?s) * unat (vwidth ?s)))
        [unat (vy ?s) * unat (vwidth ?s) + unat (vx ?s) := 3872])"
      using assms(2) 1 x x' by (simp add: t_put_def screen_def)
    ultimately show ?thesis using p on_screen_trans [OF on] by metis
  next
    case 2
    let ?s = "s\<lparr>vy := vy s + 1, vx := 0\<rparr>"
    have y: "unat (vy s + 1) = unat (vy s) + 1" using assms(1) by (intro unat_add1) (simp add: screen_ok_def)
    have ok: "cursor_ok ?s" using assms(1) y by (auto simp: screen_ok_def cursor_ok_def)
    have on: "on_screen s ?s" by (rule on_screen_trans [OF on_screen_cursor(3) on_screen_cursor(2)])
    have "print_char c s = check ?s" using 2 by (simp add: print_char_def)
    moreover have "t = t_check (unat (vheigth ?s)) (unat (vwidth ?s)) (screen ?s)"
      using assms(2) 2 y by (simp add: t_put_def screen_def)
    ultimately show ?thesis using check_screen [OF ok] on_screen_trans [OF on] by metis
  next
    case 3
    have "print_char c s = s\<lparr>vx := 0\<rparr>" using 3 by (simp add: print_char_def)
    then show ?thesis using assms 3 on_screen_cursor(2) [of s 0] by (auto simp: t_put_def screen_def screen_ok_def)
  next
    case 4
    have "cursor_ok s" using assms(1) by (auto simp: screen_ok_def cursor_ok_def)
    note c = check_screen [OF this]
    let ?s = "check s"
    have on: "on_screen s ?s" and ok: "screen_ok ?s" and x: "unat (vx ?s) < unat (vwidth ?s)"
      using c on_screen_fields(2) [of s ?s] by auto
    note f = on_screen_fields [OF on]
    let ?v = "3840 OR scast c :: u16"
    let ?t = "set_cell (vy ?s * vwidth ?s + vx ?s) ?v ?s"
    note p = put_cell [OF ok x, of ?v]
    have on2: "on_screen s ?t" using p on_screen_trans [OF on] by blast
    note g = on_screen_fields [OF on2]
    have eq: "print_char c s = ?t\<lparr>vx := vx ?t + 1\<rparr>" using 4 by (simp add: print_char_def Let_def)
    have xt: "vx ?t = vx ?s" by (simp add: set_cell_def)
    have x1: "unat (vx ?t + 1) = unat (vx ?s) + 1" unfolding xt
      using ok x by (intro unat_add1) (simp add: screen_ok_def)
    have "screen_ok (?t\<lparr>vx := vx ?t + 1\<rparr>)" using p x x1 ok g(1,2) f(1,2) by (simp add: screen_ok_def)
    moreover have "screen (?t\<lparr>vx := vx ?t + 1\<rparr>) = t"
      using p x1 assms(2) 4 c f(1-3) by (simp add: t_put_def screen_def g(1-3) split: prod.splits)
    moreover have "on_screen s (?t\<lparr>vx := vx ?t + 1\<rparr>)"
      by (rule on_screen_trans [OF on2]) (rule on_screen_cursor)
    ultimately show ?thesis unfolding eq by blast
  qed
qed

lemma print_loop_screen:
  assumes "cstr (ram s) p str" "length str < 2 ^ 32" "region p (Suc (length str)) \<inter> screen_area s = {}" "screen_ok s"
    "t_print (unat (vheigth s)) (unat (vwidth s)) str (screen s) = Some t"
  shows "\<exists>s'. print_loop p s = Some s' \<and> screen s' = t \<and> on_screen s s'"
  using assms
proof (induction str arbitrary: p s)
  case Nil
  then show ?case by (subst print_loop.simps) simp
next
  case (Cons c str)
  let ?s = "print_char c s"
  from Cons.prems(5) obtain t' where t': "t_put (unat (vheigth s)) (unat (vwidth s)) c (screen s) = Some t'"
    "t_print (unat (vheigth s)) (unat (vwidth s)) str t' = Some t" by (auto simp: bind_eq_Some_conv)
  from print_char_screen [OF Cons.prems(4) t'(1)] have p: "on_screen s ?s" "screen_ok ?s" "screen ?s = t'" by auto
  note f = on_screen_fields [OF p(1)]
  have r: "region p (Suc (Suc (length str))) = insert p (region (p + 1) (Suc (length str)))"
    using Cons.prems(2) by (intro region_Suc) simp
  have dis: "region (p + 1) (Suc (length str)) \<inter> screen_area s = {}"
    using Cons.prems(3) unfolding list.size(4) add.right_neutral One_nat_def add_Suc_right r by blast
  have "ram s a = ram ?s a" if "a \<in> region (p + 1) (Suc (length str))" for a
    by (rule f(5) [symmetric]) (use that dis in blast)
  from cstr_cong [OF _ this] Cons.prems(1,2) have "cstr (ram ?s) (p + 1) str" by simp
  moreover have "region (p + 1) (Suc (length str)) \<inter> screen_area ?s = {}" using dis unfolding f(4) .
  ultimately have "\<exists>s'. print_loop (p + 1) ?s = Some s' \<and> screen s' = t \<and> on_screen ?s s'"
    using Cons.IH [of ?s "p + 1"] p Cons.prems(2) t'(2) by (simp add: f(1,2))
  moreover have "print_loop p s = print_loop (p + 1) ?s"
    using Cons.prems(1) by (subst print_loop.simps) simp
  ultimately show ?case using on_screen_trans [OF p(1)] by metis
qed

text \<open>Printing a string is the abstract terminal's.\<close>

lemma printk_string_screen:
  assumes "cstr (ram s) p str" "length str < 2 ^ 32" "region p (Suc (length str)) \<inter> screen_area s = {}" "cursor_ok s"
    "t_print (unat (vheigth s)) (unat (vwidth s)) str (t_check (unat (vheigth s)) (unat (vwidth s)) (screen s)) = Some t"
  shows "\<exists>s'. printk_string p s = Some s' \<and> screen s' = t \<and> on_screen s s'"
proof -
  let ?s = "check s"
  note c = check_screen [OF assms(4)]
  then have on: "on_screen s ?s" by blast
  note f = on_screen_fields [OF on]
  have "ram s a = ram ?s a" if "a \<in> region p (Suc (length str))" for a
    by (rule f(5) [symmetric]) (use that assms(3) in blast)
  from cstr_cong [OF assms(2) this] assms(1) have s: "cstr (ram ?s) p str" by simp
  have "region p (Suc (length str)) \<inter> screen_area ?s = {}" using assms(3) unfolding f(4) .
  from print_loop_screen [OF s assms(2) this, of t] c assms(5) obtain s' where
    "print_loop p ?s = Some s'" "screen s' = t" "on_screen ?s s'" by (auto simp: f(1,2))
  then show ?thesis unfolding printk_string_def using on_screen_trans [OF on] by blast
qed

lemma screen_cong:
  assumes "unat (vheigth s) < 1000" "unat (vwidth s) < 1000" "\<forall>x \<in> screen_area s. m x = ram s x"
  shows "screen (s\<lparr>ram := m\<rparr>) = screen s"
proof -
  have "unat (vheigth s) * unat (vwidth s) \<le> 999 * 999" using assms(1,2) by (intro mult_le_mono) simp_all
  then have "2 * (unat (vheigth s) * unat (vwidth s)) < 2 ^ 32" by simp
  then have "cells m (vram s) (unat (vheigth s) * unat (vwidth s)) = cells (ram s) (vram s) (unat (vheigth s) * unat (vwidth s))"
    using assms(3) by (intro cells_cong) (auto simp: screen_area_def)
  then show ?thesis by (simp add: screen_def)
qed

lemma vsprintf_text:
  assumes "renders m W f args out" "W = region str (Suc (length out)) \<union> region buf 40"
    "region str (Suc (length out)) \<inter> region buf 40 = {}" "length out < 2 ^ 31" "0 \<notin> set out"
    "cstr m format f" "Suc (length f) < 2 ^ 32" "region format (Suc (length f)) \<inter> W = {}"
  shows "\<exists>m'. vsprintf m str format args buf = Some m' \<and> cstr m' str out \<and> (\<forall>x. x \<notin> W \<longrightarrow> m' x = m x)"
proof -
  have "vs_inv m str (length out) buf m []" by (simp add: vs_inv_def)
  then obtain m' where "vs_loop str format buf 0 (length ([] :: u8 list)) args m = Some m'"
      "vs_inv m str (length out) buf m' ([] @ out)" "m' (str + of_nat (length out)) = 0"
    using vs_loop_renders [OF assms(1) _ assms(6,7,2,3,4,8), where i = 0 and pre = "[]"] by auto
  then show ?thesis using assms(2,5) by (auto simp: vsprintf_def vs_inv_def cstr_iff)
qed

text \<open>C8: What \<open>printk\<close> prints is what its format and arguments describe: it returns, and the cursor and the
  cells are those an abstract terminal has after the characters of that text, scrolled lines and erased
  cells included; outside the screen, the text's buffer and the one for numbers no byte changes.\<close>

theorem printk_shows:
  assumes "renders (ram s) W f args out" "W = region str (Suc (length out)) \<union> region buf 40"
    "region str (Suc (length out)) \<inter> region buf 40 = {}" "length out < 256" "0 \<notin> set out"
    "cstr (ram s) fmt f" "Suc (length f) < 2 ^ 32" "region fmt (Suc (length f)) \<inter> W = {}"
    "W \<inter> screen_area s = {}" "cursor_ok s"
    "t_print (unat (vheigth s)) (unat (vwidth s)) out (t_check (unat (vheigth s)) (unat (vwidth s)) (screen s)) = Some t"
  shows "\<exists>s'. printk str buf fmt args s = Some s' \<and> screen s' = t \<and> (\<forall>a. a \<notin> W \<union> screen_area s \<longrightarrow> ram s' a = ram s a)"
proof -
  have "length out < 2 ^ 31" using assms(4) by simp
  from vsprintf_text [OF assms(1-3) this assms(5-8)] obtain m where
    m: "vsprintf (ram s) str fmt args buf = Some m" "cstr m str out" "\<forall>x. x \<notin> W \<longrightarrow> m x = ram s x" by blast
  let ?s = "s\<lparr>ram := m\<rparr>"
  have area: "screen_area ?s = screen_area s" by (simp add: screen_area_def)
  have sc: "screen ?s = screen s" using m(3) assms(9,10) by (intro screen_cong) (auto simp: cursor_ok_def)
  have "region str (Suc (length out)) \<inter> screen_area ?s = {}" using assms(2,9) area by blast
  then obtain s' where s': "printk_string str ?s = Some s'" "screen s' = t" "on_screen ?s s'"
    using printk_string_screen [of ?s str out t] m(2) assms(4,10,11) sc by (auto simp: cursor_ok_def)
  have "ram s' a = ram s a" if "a \<notin> W \<union> screen_area s" for a
    using on_screen_fields(5) [OF s'(3), of a] area m(3) that by simp
  then show ?thesis using s'(1,2) m(1) by (auto simp: printk_def)
qed

text \<open>What the abstract terminal cannot do is erase to the left of a line: there the code's column
  becomes the largest unsigned number and the blank is written before the line, for the first line
  before the screen's memory.\<close>

theorem backspace_escapes:
  assumes "vx s = 0" "vy s = 0" "0 < unat (vheigth s) * unat (vwidth s)" "unat (vheigth s) * unat (vwidth s) < 1000000"
  shows "ram (print_char 8 s) (vram s - 2) = 0x20 \<and> ram (print_char 8 s) (vram s - 1) = 0x0F
    \<and> vram s - 2 \<notin> screen_area s \<and> unat (vx (print_char 8 s)) = 2 ^ 32 - 1"
proof -
  have "unat (vram s - 2 - vram s) = 4294967294" by simp
  then have "vram s - 2 \<notin> screen_area s" unfolding screen_area_def region_def using assms(4) by simp
  moreover have "unat (- 1 :: u32) = 2 ^ 32 - 1" by (simp add: unsigned_minus_1_eq_mask mask_eq_exp_minus_1)
  ultimately show ?thesis using assms(1,2) by (simp add: print_char_def set_cell_def write16_def)
qed

definition demo_video :: "video_state" where
  "demo_video = video_init 25 80 (input_state.extend (demo_input 0 [])
     \<lparr>vx = 0, vy = 0, vheigth = 0, vwidth = 0, vram = 0,
      vbemem = \<lparr>vb_buffer_size = 0, vb_mem = 0, vb_buffer = 0, vb_xres = 0, vb_yres = 0, vb_bpp = 0, vb_pitch = 0\<rparr>\<rparr>)"

lemma demo_video_simps:
  "vx demo_video = 0" "vy demo_video = 0" "vheigth demo_video = 25" "vwidth demo_video = 80" "vram demo_video = 0xB8000"
  by (simp_all add: demo_video_def video_init_def)

theorem printk_shows_witness:
  "\<exists>s'. printk 0x4000 0x5000 0x2000 [7] (demo_video\<lparr>ram := store_bytes (\<lambda>_. 0) 0x2000 (lit ''%d'')\<rparr>) = Some s'
    \<and> screen s' = (1, 0, (cells (store_bytes (\<lambda>_. 0) 0x2000 (lit ''%d'')) 0xB8000 2000)[0 := 0xF37])"
proof -
  let ?m = "store_bytes (\<lambda>_. 0) 0x2000 (lit ''%d'')" let ?s = "demo_video\<lparr>ram := ?m\<rparr>"
  let ?W = "region 0x4000 (Suc (length [55 :: u8])) \<union> region 0x5000 40"
  have "num_text 10 7 = [55]" by code_simp
  moreover have "renders (ram ?s) ?W (lit ''%d'') [7] (num_text 10 7 @ [])"
    unfolding lit_def list.map by (rule r_number) (auto intro: r_end)
  ultimately have r: "renders (ram ?s) ?W (lit ''%d'') [7] [55]" by simp
  have f: "cstr (ram ?s) 0x2000 (lit ''%d'')" by (simp add: lit_def store_bytes_def)
  have d: "region 0x4000 (Suc (length [55 :: u8])) \<inter> region 0x5000 40 = {}"
    "region 0x2000 (Suc (length (lit ''%d''))) \<inter> ?W = {}" "?W \<inter> screen_area ?s = {}"
    unfolding screen_area_def by (simp_all add: demo_video_simps lit_def Int_Un_distrib Int_Un_distrib2 region_apart)
  have c: "cursor_ok ?s" by (simp add: cursor_ok_def demo_video_simps)
  have t: "t_print (unat (vheigth ?s)) (unat (vwidth ?s)) [55] (t_check (unat (vheigth ?s)) (unat (vwidth ?s)) (screen ?s))
      = Some (1, 0, (cells ?m 0xB8000 2000)[0 := 0xF37])"
    by (simp add: screen_def t_check_def t_put_def demo_video_simps)
  show ?thesis using printk_shows [OF r refl d(1) _ _ f _ d(2,3) c t] by (auto simp: lit_def)
qed

theorem backspace_escapes_witness:
  "ram (print_char 8 demo_video) 0xB7FFE = 0x20 \<and> unat (vx (print_char 8 demo_video)) = 2 ^ 32 - 1"
  using backspace_escapes [of demo_video] by (simp add: demo_video_simps)

end
