(* ===== verification/Gui.thy ===== *)
theory Gui
  imports Video
begin

text \<open>
  The windows of \<open>gui/window.c\<close>, the desktop of \<open>drivers/graphics.c\<close> and the set-up of the frame
  buffer in \<open>drivers/video/video.c\<close>.  Windows, text areas and their lists are blocks of the kernel heap,
  laid out in linear memory as the structures of \<open>gui/window.h\<close>: a window has its title at 0, then
  position and size, and its components at 272; a text area has its type, position and size, a cursor
  and its text at 28.
\<close>

record gui_state = video_state +
  wlist :: u32

definition WINDOW_EDGE_COLOR :: u32 where "WINDOW_EDGE_COLOR = 0xA3A29E"
definition WINDOW_BACKGROUND_COLOR :: u32 where "WINDOW_BACKGROUND_COLOR = 0xE8E6E3"
definition TEXT_AREA_COLOR :: u32 where "TEXT_AREA_COLOR = 0xFFFFF6"
definition TYPE_TEXT_AREA :: u32 where "TYPE_TEXT_AREA = 1"

abbreviation set32 :: "u32 \<Rightarrow> u32 \<Rightarrow> 'a pmm_state_scheme \<Rightarrow> 'a pmm_state_scheme" where
  "set32 a v s \<equiv> s\<lparr>ram := write32 (ram s) a v\<rparr>"

abbreviation get32 :: "'a pmm_state_scheme \<Rightarrow> u32 \<Rightarrow> u32" where
  "get32 s \<equiv> read32 (ram s)"

text \<open>The fields of the structures in memory.\<close>

definition w_x :: "mem \<Rightarrow> u32 \<Rightarrow> u32" where "w_x m w = read32 m (w + 256)"
definition w_y :: "mem \<Rightarrow> u32 \<Rightarrow> u32" where "w_y m w = read32 m (w + 260)"
definition w_h :: "mem \<Rightarrow> u32 \<Rightarrow> u32" where "w_h m w = read32 m (w + 264)"
definition w_w :: "mem \<Rightarrow> u32 \<Rightarrow> u32" where "w_w m w = read32 m (w + 268)"
definition w_components :: "mem \<Rightarrow> u32 \<Rightarrow> u32" where "w_components m w = read32 m (w + 272)"
definition l_item :: "mem \<Rightarrow> u32 \<Rightarrow> u32" where "l_item m l = read32 m l"
definition l_next :: "mem \<Rightarrow> u32 \<Rightarrow> u32" where "l_next m l = read32 m (l + 4)"
definition t_x :: "mem \<Rightarrow> u32 \<Rightarrow> u32" where "t_x m t = read32 m (t + 4)"
definition t_y :: "mem \<Rightarrow> u32 \<Rightarrow> u32" where "t_y m t = read32 m (t + 8)"
definition t_h :: "mem \<Rightarrow> u32 \<Rightarrow> u32" where "t_h m t = read32 m (t + 12)"
definition t_w :: "mem \<Rightarrow> u32 \<Rightarrow> u32" where "t_w m t = read32 m (t + 16)"
definition t_cursorx :: "mem \<Rightarrow> u32 \<Rightarrow> u32" where "t_cursorx m t = read32 m (t + 20)"
definition t_cursory :: "mem \<Rightarrow> u32 \<Rightarrow> u32" where "t_cursory m t = read32 m (t + 24)"

section \<open>Windows\<close>

text \<open>An entry of the list of windows, or of components: the item and the next entry.\<close>

definition windows_list_init :: "'a gui_state_scheme \<Rightarrow> 'a gui_state_scheme option" where
  "windows_list_init s = do {
     (p, s) \<leftarrow> kmalloc 8 s;
     let s = s\<lparr>wlist := p\<rparr>;
     Some (if p \<noteq> 0 then set32 p 0 (set32 (p + 4) 0 s) else s)
   }"

definition window_create ::
  "u32 \<Rightarrow> u32 \<Rightarrow> u32 \<Rightarrow> u32 \<Rightarrow> u32 \<Rightarrow> 'a gui_state_scheme \<Rightarrow> (u32 \<times> 'a gui_state_scheme) option" where
  "window_create title x y w h s = do {
     (win, s) \<leftarrow> kmalloc 276 s;
     if win = 0 then Some (0, s)
     else do {
       m \<leftarrow> strcpy (ram s) win title;
       let s = s\<lparr>ram := m\<rparr>;
       let s = set32 (win + 264) h (set32 (win + 268) w (set32 (win + 260) y (set32 (win + 256) x s)));
       (new, s) \<leftarrow> kmalloc 8 s;
       let s = set32 new win s;
       let s = set32 (new + 4) (get32 s (wlist s + 4)) s;
       let s = set32 (wlist s + 4) new s;
       (c, s) \<leftarrow> kmalloc 8 s;
       let s = set32 (win + 272) c s;
       let s = set32 (get32 s (win + 272)) 0 s;
       let s = set32 (get32 s (win + 272) + 4) 0 s;
       Some (win, s)
     }
   }"

definition add_component :: "u32 \<Rightarrow> u32 \<Rightarrow> 'a gui_state_scheme \<Rightarrow> 'a gui_state_scheme option" where
  "add_component window component s = do {
     let app = get32 s (window + 272);
     (c, s) \<leftarrow> kmalloc 8 s;
     let s = set32 (window + 272) c s;
     let s = set32 (get32 s (window + 272)) component s;
     Some (set32 (get32 s (window + 272) + 4) app s)
   }"

definition create_text_area ::
  "u32 \<Rightarrow> u32 \<Rightarrow> u32 \<Rightarrow> u32 \<Rightarrow> 'a gui_state_scheme \<Rightarrow> (u32 \<times> 'a gui_state_scheme) option" where
  "create_text_area x y w h s = do {
     (t, s) \<leftarrow> kmalloc 1052 s;
     let s = set32 (t + 8) y (set32 (t + 4) x (set32 t TYPE_TEXT_AREA s));
     let s = set32 (t + 12) h (set32 (t + 16) w s);
     Some (t, set32 (t + 24) 0 (set32 (t + 20) 0 s))
   }"

definition text_area_set_text :: "u32 \<Rightarrow> u32 \<Rightarrow> 'a gui_state_scheme \<Rightarrow> 'a gui_state_scheme option" where
  "text_area_set_text text_area txt s = do { m \<leftarrow> strcpy (ram s) (text_area + 28) txt; Some (s\<lparr>ram := m\<rparr>) }"

definition text_area_append :: "u32 \<Rightarrow> u32 \<Rightarrow> 'a gui_state_scheme \<Rightarrow> 'a gui_state_scheme option" where
  "text_area_append text_area txt s = do { m \<leftarrow> strcat (ram s) (text_area + 28) txt; Some (s\<lparr>ram := m\<rparr>) }"

section \<open>Painting\<close>

definition draw_text_area :: "u32 \<Rightarrow> u32 \<Rightarrow> 'a gui_state_scheme \<Rightarrow> 'a gui_state_scheme option" where
  "draw_text_area win t s = do {
     let s = draw_rect (w_x (ram s) win + 10 + t_x (ram s) t) (w_y (ram s) win + 20 + t_y (ram s) t)
               (t_w (ram s) t) (t_h (ram s) t) TEXT_AREA_COLOR s;
     draw_string (w_x (ram s) win + 10 + t_x (ram s) t + t_cursorx (ram s) t)
       (w_y (ram s) win + 20 + t_y (ram s) t + t_cursory (ram s) t) (t + 28) s
   }"

partial_function (option) paint_components :: "u32 \<Rightarrow> u32 \<Rightarrow> 'a gui_state_scheme \<Rightarrow> 'a gui_state_scheme option" where
  "paint_components win app s =
     (if app = 0 then Some s
      else do {
        let c = l_item (ram s) app;
        s \<leftarrow> (if c \<noteq> 0 \<and> get32 s c = TYPE_TEXT_AREA then draw_text_area win c s else Some s);
        paint_components win (l_next (ram s) app) s
      })"

definition paint_window :: "u32 \<Rightarrow> 'a gui_state_scheme \<Rightarrow> 'a gui_state_scheme option" where
  "paint_window win s = do {
     let s = draw_rect (w_x (ram s) win) (w_y (ram s) win) (w_w (ram s) win) (w_h (ram s) win) WINDOW_EDGE_COLOR s;
     let s = draw_rect (w_x (ram s) win + 10) (w_y (ram s) win + 20) (w_w (ram s) win - 20) (w_h (ram s) win - 35)
               WINDOW_BACKGROUND_COLOR s;
     s \<leftarrow> draw_string (w_x (ram s) win + 5) (w_y (ram s) win + 5) win s;
     paint_components win (w_components (ram s) win) s
   }"

partial_function (option) paint_windows_loop :: "u32 \<Rightarrow> 'a gui_state_scheme \<Rightarrow> 'a gui_state_scheme option" where
  "paint_windows_loop app s =
     (if app = 0 then Some s
      else do {
        let win = l_item (ram s) app;
        s \<leftarrow> (if win \<noteq> 0 then paint_window win s else Some s);
        paint_windows_loop (l_next (ram s) app) s
      })"

definition paint_windows :: "'a gui_state_scheme \<Rightarrow> 'a gui_state_scheme option" where
  "paint_windows s = paint_windows_loop (wlist s) s"

definition paint_mouse :: "'a gui_state_scheme \<Rightarrow> 'a gui_state_scheme" where
  "paint_mouse s = draw_rect (mo_x (get_mouse_info s)) (mo_y (get_mouse_info s)) 10 10 0xFFFFFF s"

definition paint_desktop :: "'a gui_state_scheme \<Rightarrow> 'a gui_state_scheme option" where
  "paint_desktop s = do {
     s \<leftarrow> paint_windows (draw_rect 0 0 1024 768 0xCE2C2C s);
     Some (paint_mouse s)
   }"

text \<open>\<open>refresh_screen\<close> paints for ever: the first \<open>n\<close> of its pictures.\<close>

fun refresh_screen :: "nat \<Rightarrow> 'a gui_state_scheme \<Rightarrow> 'a gui_state_scheme option" where
  "refresh_screen 0 s = Some s"
| "refresh_screen (Suc n) s = do {
     s \<leftarrow> paint_desktop s;
     let v = vbemem s;
     refresh_screen n (s\<lparr>ram := memcpy (ram s) (vb_mem v) (vb_buffer v) (vb_buffer_size v)\<rparr>)
   }"

section \<open>Setting up the frame buffer\<close>

text \<open>The boot information holds the addresses of the controller and mode descriptions at 72 and 76.  The
  call of the video BIOS, \<open>int32\<close> with its interrupt and its first register, is a parameter.\<close>

definition mb_mem_low :: "mem \<Rightarrow> u32 \<Rightarrow> u32" where "mb_mem_low m i = read32 m (i + 4)"
definition mb_mem_high :: "mem \<Rightarrow> u32 \<Rightarrow> u32" where "mb_mem_high m i = read32 m (i + 8)"
definition mb_mmap_len :: "mem \<Rightarrow> u32 \<Rightarrow> u32" where "mb_mmap_len m i = read32 m (i + 44)"
definition mb_mmap_addr :: "mem \<Rightarrow> u32 \<Rightarrow> u32" where "mb_mmap_addr m i = read32 m (i + 48)"
definition mb_vbe_control :: "mem \<Rightarrow> u32 \<Rightarrow> u32" where "mb_vbe_control m i = read32 m (i + 72)"
definition mb_vbe_mode :: "mem \<Rightarrow> u32 \<Rightarrow> u32" where "mb_vbe_mode m i = read32 m (i + 76)"
definition vc_version :: "mem \<Rightarrow> u32 \<Rightarrow> u16" where "vc_version m c = read16 m (c + 4)"
definition vm_attributes :: "mem \<Rightarrow> u32 \<Rightarrow> u16" where "vm_attributes m v = read16 m v"
definition vm_pitch :: "mem \<Rightarrow> u32 \<Rightarrow> u16" where "vm_pitch m v = read16 m (v + 16)"
definition vm_width :: "mem \<Rightarrow> u32 \<Rightarrow> u16" where "vm_width m v = read16 m (v + 18)"
definition vm_height :: "mem \<Rightarrow> u32 \<Rightarrow> u16" where "vm_height m v = read16 m (v + 20)"
definition vm_bpp :: "mem \<Rightarrow> u32 \<Rightarrow> u8" where "vm_bpp m v = m (v + 25)"
definition vm_framebuffer :: "mem \<Rightarrow> u32 \<Rightarrow> u32" where "vm_framebuffer m v = read32 m (v + 40)"

definition vbe_init ::
  "(u8 \<Rightarrow> u16 \<Rightarrow> 'a gui_state_scheme \<Rightarrow> 'a gui_state_scheme) \<Rightarrow> u32 \<Rightarrow> 'a gui_state_scheme \<Rightarrow> 'a gui_state_scheme option"
where
  "vbe_init int32 info s = (
     let m = ram s; contr = mb_vbe_control m info; mode = mb_vbe_mode m info;
         width = vm_width m mode; height = vm_height m mode; bpp = vm_bpp m mode; frame = vm_framebuffer m mode;
         size = ucast width * ucast height * ucast (bpp div 8);
         s = s\<lparr>vbemem := (vbemem s)\<lparr>vb_buffer_size := size, vb_mem := frame, vb_xres := width, vb_yres := height,
               vb_bpp := bpp, vb_pitch := vm_pitch m mode\<rparr>\<rparr>
     in if frame = 0 \<or> vc_version m contr < 0x0200 \<or> vm_attributes m mode AND 0x8 = 0 then
       Some (if width \<noteq> 80 \<and> height \<noteq> 25 then int32 0x10 3 s else s)
     else
       let buf = frame + size;
           s = s\<lparr>vbemem := (vbemem s)\<lparr>vb_buffer := buf\<rparr>\<rparr>;
           s = fold (\<lambda>i s.
                 let s = snd (vmm_map (get_kern_directory s) (buf + of_nat i * PAGE_SIZE) (PAGE_PRESENT OR PAGE_RW) s)
                 in snd (vmm_map_phys (get_kern_directory s) (frame + of_nat i * PAGE_SIZE) (frame + of_nat i * PAGE_SIZE)
                      (PAGE_PRESENT OR PAGE_RW) s)) [0..<nat (sint (c_div size PAGE_SIZE))] s
       in windows_list_init s)"

section \<open>Text areas\<close>

text \<open>The text of a text area has 1024 bytes and nothing limits it: appending to it returns, the text is the
  old one with the new behind it, and as soon as both together have 1024 characters the text runs past
  the end of the block, whose length is 1052.\<close>

theorem text_area_append_escapes:
  assumes "cstr (ram s) (t + 28) old" "cstr (ram s) txt new" "Suc (length old + length new) < 2 ^ 31"
    "region txt (Suc (length new)) \<inter> region (t + 28) (Suc (length old + length new)) = {}" "1024 \<le> length old + length new"
  shows "\<exists>s'. text_area_append t txt s = Some s' \<and> cstr (ram s') (t + 28) (old @ new)
    \<and> ram s' (t + 28 + of_nat (length old + length new)) = 0 \<and> t + 28 + of_nat (length old + length new) \<notin> region t 1052"
proof -
  let ?n = "length old + length new"
  from strcat_appends [OF assms(1,2) _ assms(4)] assms(3) obtain m' where
    m': "strcat (ram s) (t + 28) txt = Some m'" "cstr m' (t + 28) (old @ new)" by auto
  have "t + 28 + of_nat ?n = t + of_nat (28 + ?n)" by simp
  moreover have "t + of_nat (28 + ?n) \<notin> region t 1052" using assms(3,5) by (subst in_region_off) simp_all
  ultimately have "t + 28 + of_nat ?n \<notin> region t 1052" by metis
  moreover have "m' (t + 28 + of_nat ?n) = 0" using cstr_nul [OF m'(2)] by simp
  ultimately show ?thesis using m' by (simp add: text_area_append_def)
qed

section \<open>Text mode\<close>

text \<open>When the boot information names a frame buffer but the controller is older than version 2.0, the screen
  is put into text mode, no list of windows is made and no back buffer is set, yet \<open>is_text_mode\<close>
  denies it: the kernel starts its graphical console on a screen that is not there.\<close>

theorem vbe_init_misreports:
  assumes "vm_framebuffer (ram s) (mb_vbe_mode (ram s) info) \<noteq> 0" "vc_version (ram s) (mb_vbe_control (ram s) info) < 0x0200"
    "\<And>i a t. vbemem (int32 i a t) = vbemem t \<and> wlist (int32 i a t) = wlist t"
  shows "\<exists>s'. vbe_init int32 info s = Some s' \<and> is_text_mode s' = 0 \<and> wlist s' = wlist s
    \<and> vb_buffer (vbemem s') = vb_buffer (vbemem s)"
  using assms by (simp add: vbe_init_def Let_def is_text_mode_def)

section \<open>Witnesses\<close>

definition demo_gui :: "gui_state" where
  "demo_gui = video_state.extend demo_video \<lparr>wlist = 0\<rparr>"

theorem text_area_append_escapes_witness:
  "\<exists>s'. text_area_append 0x8000 0x2000 (demo_gui\<lparr>ram := (\<lambda>a. if unat (a - 0x801C) < 1023 then 65 else if a = 0x2000 then 66 else 0)\<rparr>) = Some s'
    \<and> ram s' 0x841C = 0"
proof -
  let ?m = "\<lambda>a :: u32. if unat (a - 0x801C) < 1023 then 65 else if a = 0x2000 then 66 else 0 :: u8"
  have old: "cstr (ram (demo_gui\<lparr>ram := ?m\<rparr>)) (0x8000 + 28) (replicate 1023 65)"
    by (auto simp: cstr_iff unsigned_of_nat take_bit_eq_mod)
  have new: "cstr (ram (demo_gui\<lparr>ram := ?m\<rparr>)) 0x2000 [66]" by simp
  have "region 0x2000 (Suc (Suc 0)) = {0x2000, 0x2001}" by (simp add: region_Suc)
  then have dis: "region 0x2000 (Suc (Suc 0)) \<inter> region (0x8000 + 28) 1025 = {}" by (simp add: region_def)
  have "Suc (length (replicate 1023 (65 :: u8)) + length [66 :: u8]) = 1025" by simp
  from text_area_append_escapes [OF old new] dis show ?thesis by fastforce
qed

theorem vbe_init_misreports_witness:
  "\<exists>s'. vbe_init (\<lambda>_ _ t. t) 0x1000 (demo_gui\<lparr>ram := write32 (write32 (\<lambda>_. 0) 0x104C 0x2000) 0x2028 0xFD000000\<rparr>) = Some s' \<and> is_text_mode s' = 0"
  using vbe_init_misreports [of "demo_gui\<lparr>ram := write32 (write32 (\<lambda>_. 0) 0x104C 0x2000) 0x2028 0xFD000000\<rparr>" "0x1000" "\<lambda>_ _ t. t"]
  by (simp add: read32_def read16_def write32_def vm_framebuffer_def mb_vbe_mode_def mb_vbe_control_def vc_version_def) blast

end
