(* ===== verification/Spaces.thy ===== *)
theory Spaces
  imports Vmm
begin

text \<open>
  Two address spaces at once.  The code that builds a process maps a frame in the kernel's
  directory and then the same frame in the process's directory (\<open>proc/proc.c\<close>, \<open>proc/elf.c\<close>).
  This theory gives the footprint of a mapping in linear memory, so that an operation on one
  directory leaves the translations of the other, and the effect of the two steps together.
\<close>

definition USER_FLAGS :: u32 where "USER_FLAGS = PAGE_PRESENT OR PAGE_RW OR PAGE_USER"
definition KERNEL_FLAGS :: u32 where "KERNEL_FLAGS = PAGE_PRESENT OR PAGE_RW"

text \<open>\<open>vmm_map\<close> in the kernel's directory and \<open>vmm_map_phys\<close> of the frame at \<open>v0\<close> in the process's,
  with the short circuit of the C condition.\<close>

definition map_both :: "u32 \<Rightarrow> u32 \<Rightarrow> u32 \<Rightarrow> 'a vmm_state_scheme \<Rightarrow> bool \<times> 'a vmm_state_scheme" where
  "map_both pdir virt v0 s = (let (ok, s) = vmm_map (get_kern_directory s) virt KERNEL_FLAGS s in
     if ok = 0 then (False, s)
     else let (ok, s) = vmm_map_phys pdir virt (get_phys_addr s (get_kern_directory s) v0) USER_FLAGS s
          in (ok \<noteq> 0, s))"

section \<open>The footprint of a mapping\<close>

definition tables :: "u32 \<Rightarrow> mem \<Rightarrow> u32 set" where
  "tables d m = {table (slot m d i) | i. i < 1024 \<and> slot m d i \<noteq> 0}"

definition dir_area :: "u32 \<Rightarrow> 'a vmm_state_scheme \<Rightarrow> u32 set" where
  "dir_area d s = region (pg_bitmap s) 64 \<union> region d 4096 \<union> (\<Union>t \<in> tables d (ram s). region t 4096)"

lemma tables_pde: "pde s d v \<noteq> 0 \<Longrightarrow> table (pde s d v) \<in> tables d (ram s)"
  unfolding tables_def slot_pde by (auto intro: index_less)

lemma set_pte_outside: "x \<notin> region (table (pde s d v)) 4096 \<Longrightarrow> ram (set_pte d v y s) x = ram s x"
  using cell_page [OF index_less(2), of "table (pde s d v)" v]
  by (auto simp: set_pte_def pte_table intro: write32_outside)

text \<open>An operation on directories changes linear memory and the count of tables only.\<close>

definition paging_only :: "'a vmm_state_scheme \<Rightarrow> 'a vmm_state_scheme \<Rightarrow> bool" where
  "paging_only s s' \<longleftrightarrow> (\<exists>m b. s' = s\<lparr>ram := m, pg_used_blocks := b\<rparr>)"

lemma paging_onlyI:
  "paging_only s (s\<lparr>ram := m, pg_used_blocks := b\<rparr>)" "paging_only s (s\<lparr>pg_used_blocks := b, ram := m\<rparr>)"
  "paging_only s (s\<lparr>ram := m\<rparr>)"
proof -
  show "paging_only s (s\<lparr>ram := m, pg_used_blocks := b\<rparr>)" for b by (auto simp: paging_only_def)
  note only = this
  have eq: "s\<lparr>pg_used_blocks := b, ram := m\<rparr> = s\<lparr>ram := m, pg_used_blocks := b\<rparr>"
    by (cases s rule: vmm_state.cases_scheme) simp
  show "paging_only s (s\<lparr>pg_used_blocks := b, ram := m\<rparr>)" unfolding eq by (rule only)
  show "paging_only s (s\<lparr>ram := m\<rparr>)" using only [of "pg_used_blocks s"] by simp
qed

lemma paging_only_trans:
  assumes "paging_only s s1" "paging_only s1 s2"
  shows "paging_only s s2"
proof -
  obtain m b m' b' where "s1 = s\<lparr>ram := m, pg_used_blocks := b\<rparr>" "s2 = s1\<lparr>ram := m', pg_used_blocks := b'\<rparr>"
    using assms unfolding paging_only_def by blast
  then have "s2 = s\<lparr>ram := m', pg_used_blocks := b'\<rparr>" by simp
  then show ?thesis by (simp only: paging_onlyI)
qed

lemma paging_only_simps:
  assumes "paging_only s s'"
  shows "pg_bitmap s' = pg_bitmap s" "pmm s' = pmm s" "kern_dir s' = kern_dir s" "current_dir s' = current_dir s"
  using assms by (auto simp: paging_only_def)

lemma set_pte_only: "paging_only s (set_pte d v y s)"
  unfolding set_pte_def by (rule paging_onlyI)

lemma page_table_malloc_only: "paging_only s (snd (page_table_malloc s))"
proof (cases "paging_first_free s = - 1")
  case True
  then show ?thesis using paging_onlyI(3) [of s "ram s"] by (simp add: page_table_malloc_def)
next
  case False
  then show ?thesis by (simp add: page_table_malloc_def paging_set_bit_def Let_def paging_onlyI)
qed

lemma set_pte_slots:
  assumes "vm_ok d s" "pde s d v \<noteq> 0" "i < 1024"
  shows "slot (ram (set_pte d v y s)) d i = slot (ram s) d i"
proof -
  obtain n where n: "n < 512" "table (pde s d v) = pg_addr n" "pg_addr n \<noteq> d"
    using vm_ok_table [OF assms(1), of "pd_index v"] assms(2) unfolding slot_pde by auto
  have "ram (set_pte d v y s) = write32 (ram s) (pg_addr n + 4 * pt_index v) y"
    by (simp add: set_pte_def pte_table n(2))
  then show ?thesis using slot_write [OF pg_addr_al vm_okD(2) [OF assms(1)] index_less(2) assms(3)] n(3) by simp
qed

lemma tables_cong: "(\<And>i. i < 1024 \<Longrightarrow> slot m' d i = slot m d i) \<Longrightarrow> tables d m' = tables d m"
  unfolding tables_def by (intro Collect_cong iff_exI) auto

lemma set_pte_tables: "vm_ok d s \<Longrightarrow> pde s d v \<noteq> 0 \<Longrightarrow> tables d (ram (set_pte d v y s)) = tables d (ram s)"
  by (rule tables_cong) (rule set_pte_slots)

lemma create_only:
  assumes "vmm_create_page_table d v f s = (ok, s')"
  shows "paging_only s s'"
proof (cases "fst (page_table_malloc s) = 0")
  case True
  then have "s' = snd (page_table_malloc s)"
    using assms by (simp add: vmm_create_page_table_def case_prod_unfold Let_def)
  then show ?thesis using page_table_malloc_only by simp
next
  case False
  then have "s' = (snd (page_table_malloc s))\<lparr>ram := write32 (ram (snd (page_table_malloc s))) (pde_at d v) (fst (page_table_malloc s) OR f)\<rparr>"
    using assms by (simp add: vmm_create_page_table_def case_prod_unfold Let_def)
  then show ?thesis by (simp only: paging_only_trans [OF page_table_malloc_only paging_onlyI(3)])
qed

lemma create_outside:
  assumes "vm_ok d s" "pde s d v = 0" "n < 512" "\<not> pg_used s n" "f < 0x1000"
    "vmm_create_page_table d v f s = (1, s')"
  obtains k where "k < 512" "\<not> pg_used s k" "table (pde s' d v) = pg_addr k"
    "\<And>x. x \<notin> region (pg_addr k) 4096 \<Longrightarrow> x \<notin> region (pg_bitmap s) 64 \<Longrightarrow> x \<notin> region d 4096 \<Longrightarrow> ram s' x = ram s x"
proof -
  note ok = vm_okD [OF assms(1)]
  have "n \<in> pg_frames s" using assms(3) by (simp add: pg_frames_def)
  then obtain k where k: "k < 512" "\<not> pg_used s k" "fst (page_table_malloc s) = pg_addr k"
      "\<And>x. x \<notin> region (pg_addr k) 4096 \<Longrightarrow> x \<notin> region (pg_bitmap s) 64
        \<Longrightarrow> ram (snd (page_table_malloc s)) x = ram s x"
    using page_table_malloc_frame [OF ok(1) _ assms(4)] by metis
  have "unat (pg_addr k) \<noteq> 0" using unat_pg_addr [OF k(1)] by simp
  then have "pg_addr k \<noteq> 0" by (metis unat_0)
  then have ram: "ram s' = write32 (ram (snd (page_table_malloc s))) (d + 4 * pd_index v) (pg_addr k OR f)"
    using assms(6) k(3) by (auto simp: vmm_create_page_table_def case_prod_unfold pde_at_def Let_def)
  have "pde s' d v = pg_addr k OR f" unfolding slot_pde ram using ok(2) by (simp add: slot_write)
  then have "table (pde s' d v) = pg_addr k"
    unfolding table_def by (simp only: page_of_or [OF pg_addr_al assms(5)])
  moreover have "ram s' x = ram s x"
    if "x \<notin> region (pg_addr k) 4096" "x \<notin> region (pg_bitmap s) 64" "x \<notin> region d 4096" for x
    using that k(4) cell_page [OF index_less(1), of d v] unfolding ram by (subst write32_outside) auto
  ultimately show ?thesis using that k(1,2) by blast
qed

lemma pd_index_onto: "i < 1024 \<Longrightarrow> \<exists>w. pd_index w = i"
proof
  assume "i < 1024"
  then have "i = take_bit 10 i"
    by (simp add: word_unat_eq_iff unsigned_take_bit_eq word_less_nat_alt take_bit_nat_eq_self)
  then have "bit i n \<Longrightarrow> n < 10" for n by (metis bit_take_bit_iff)
  then show "pd_index (push_bit 22 i) = i"
    by (auto simp: pd_index_def bit_eq_iff bit_drop_bit_eq bit_push_bit_iff dest: bit_imp_le_length)
qed

text \<open>A mapping writes only to the bitmap, the directory and its tables, and adds at most one
  table, a frame that was free.\<close>

definition footprint :: "u32 \<Rightarrow> 'a vmm_state_scheme \<Rightarrow> 'a vmm_state_scheme \<Rightarrow> bool" where
  "footprint d s s' \<longleftrightarrow> paging_only s s' \<and> (\<forall>x. x \<notin> dir_area d s' \<longrightarrow> ram s' x = ram s x)
     \<and> tables d (ram s') \<subseteq> tables d (ram s) \<union> {pg_addr k | k. k < 512 \<and> \<not> pg_used s k}"

lemma set_pte_footprint:
  assumes "vm_ok d s" "pde s d v \<noteq> 0"
  shows "footprint d s (set_pte d v y s)"
proof -
  note tb = set_pte_tables [OF assms, of y]
  have t: "table (pde s d v) \<in> tables d (ram (set_pte d v y s))" unfolding tb by (rule tables_pde [OF assms(2)])
  have "ram (set_pte d v y s) x = ram s x" if "x \<notin> dir_area d (set_pte d v y s)" for x
  proof (rule set_pte_outside)
    show "x \<notin> region (table (pde s d v)) 4096" using that t unfolding dir_area_def by blast
  qed
  then show ?thesis using tb set_pte_only by (auto simp: footprint_def)
qed

lemma create_tables:
  assumes "\<And>w. pd_index w \<noteq> pd_index v \<Longrightarrow> pde s1 d w = pde s d w" "table (pde s1 d v) = pg_addr k"
  shows "tables d (ram s1) \<subseteq> insert (pg_addr k) (tables d (ram s))"
proof
  fix t assume "t \<in> tables d (ram s1)"
  then obtain i where i: "i < 1024" "slot (ram s1) d i \<noteq> 0" "t = table (slot (ram s1) d i)"
    by (auto simp: tables_def)
  obtain w where w: "pd_index w = i" using pd_index_onto [OF i(1)] by blast
  show "t \<in> insert (pg_addr k) (tables d (ram s))"
  proof (cases "i = pd_index v")
    case True
    then show ?thesis using i(3) assms(2) by (simp add: slot_pde)
  next
    case False
    then have "pde s1 d w = pde s d w" using w by (intro assms(1)) simp
    then have "slot (ram s1) d i = slot (ram s) d i" by (simp only: slot_pde w)
    then have "t \<in> tables d (ram s)" using i unfolding tables_def by auto
    then show ?thesis by simp
  qed
qed

lemma create_footprint:
  assumes "vm_ok d s" "pde s d v = 0" "n < 512" "\<not> pg_used s n" "f < 0x1000"
    "vmm_create_page_table d v f s = (1, s1)"
  shows "footprint d s (set_pte d v y s1)"
proof -
  obtain k1 where s1: "vm_ok d s1" "pde s1 d v \<noteq> 0" "\<And>w. pd_index w \<noteq> pd_index v \<Longrightarrow> pde s1 d w = pde s d w"
    using vmm_create_page_table_effect [OF assms(1-5)] assms(6) by (metis Pair_inject)
  obtain k where k: "k < 512" "\<not> pg_used s k" "table (pde s1 d v) = pg_addr k"
      "\<And>x. x \<notin> region (pg_addr k) 4096 \<Longrightarrow> x \<notin> region (pg_bitmap s) 64 \<Longrightarrow> x \<notin> region d 4096 \<Longrightarrow> ram s1 x = ram s x"
    by (rule create_outside [OF assms]) (rule that)
  let ?s' = "set_pte d v y s1"
  note tb = set_pte_tables [OF s1(1,2), of y]
  have only: "paging_only s ?s'" by (rule paging_only_trans [OF create_only [OF assms(6)] set_pte_only])
  have t: "pg_addr k \<in> tables d (ram ?s')" unfolding tb k(3) [symmetric] by (rule tables_pde [OF s1(2)])
  have "ram ?s' x = ram s x" if x: "x \<notin> dir_area d ?s'" for x
  proof -
    have "x \<notin> region (pg_addr k) 4096" using x t unfolding dir_area_def by blast
    moreover have "x \<notin> region (pg_bitmap s) 64" "x \<notin> region d 4096"
      using x unfolding dir_area_def paging_only_simps(1) [OF only] by blast+
    ultimately show ?thesis using k(4) set_pte_outside [of x s1 d v y] unfolding k(3) by simp
  qed
  moreover have "tables d (ram ?s') \<subseteq> tables d (ram s) \<union> {pg_addr k | k. k < 512 \<and> \<not> pg_used s k}"
    unfolding tb using create_tables [OF s1(3) k(3)] k(1,2) by blast
  ultimately show ?thesis using only unfolding footprint_def by blast
qed

lemma map_phys_footprint:
  assumes "vm_ok d s" "pde s d v \<noteq> 0 \<or> (\<exists>n<512. \<not> pg_used s n)" "f < 0x1000"
    "vmm_map_phys d v phys f s = (1, s')"
  shows "footprint d s s'"
proof (cases "pde s d v = 0")
  case False
  then have "s' = set_pte d v (phys OR f) s" using assms(4) by (simp add: vmm_map_phys_def)
  then show ?thesis using set_pte_footprint [OF assms(1) False] by simp
next
  case True
  with assms(2) obtain n where n: "n < 512" "\<not> pg_used s n" by blast
  obtain k1 s1 where s1: "vmm_create_page_table d v f s = (1, s1)"
    by (rule vmm_create_page_table_effect [OF assms(1) True n assms(3)]) (rule that)
  then have "s' = set_pte d v (phys OR f) s1" using assms(4) True by (simp add: vmm_map_phys_def)
  then show ?thesis using create_footprint [OF assms(1) True n assms(3) s1] by simp
qed

section \<open>An operation on one directory, seen from another\<close>

definition dirs_apart :: "u32 \<Rightarrow> u32 \<Rightarrow> 'a vmm_state_scheme \<Rightarrow> bool" where
  "dirs_apart d e s \<longleftrightarrow> d \<noteq> e \<and> e \<notin> tables d (ram s) \<and> d \<notin> tables e (ram s)
     \<and> tables d (ram s) \<inter> tables e (ram s) = {}"

lemma dirs_apart_sym: "dirs_apart d e s \<longleftrightarrow> dirs_apart e d s"
  by (auto simp: dirs_apart_def)

lemma tables_used:
  assumes "vm_ok d s" "t \<in> tables d (ram s)"
  obtains n where "n < 512" "t = pg_addr n" "pg_used s n"
proof -
  obtain i where "i < 1024" "slot (ram s) d i \<noteq> 0" "t = table (slot (ram s) d i)"
    using assms(2) unfolding tables_def by blast
  then show ?thesis using vm_ok_table [OF assms(1)] that by metis
qed

lemma tables_al: "t \<in> tables d m \<Longrightarrow> al 12 t"
  by (auto simp: tables_def)

text \<open>A page that is neither the directory nor one of its tables keeps its cells.\<close>

lemma page_outside:
  assumes "al 12 q" "al 12 d" "q \<noteq> d" "q \<notin> tables d (ram s)" "region (pg_bitmap s) 64 \<inter> region q 4096 = {}"
    "x \<in> region q 4096"
  shows "x \<notin> dir_area d s"
proof -
  have "region q 4096 \<inter> region d 4096 = {}" by (rule pages_disjoint [OF assms(1-3)])
  moreover have "region q 4096 \<inter> region t 4096 = {}" if "t \<in> tables d (ram s)" for t
    using that assms(4) by (intro pages_disjoint [OF assms(1) tables_al]) auto
  ultimately show ?thesis using assms(5,6) unfolding dir_area_def by blast
qed

lemma footprint_tables:
  assumes "footprint d s s'" "vm_ok e s" "t \<notin> tables d (ram s)" "t = pg_addr n" "n < 512" "pg_used s n"
  shows "t \<notin> tables d (ram s')"
proof
  assume "t \<in> tables d (ram s')"
  then obtain k where "k < 512" "t = pg_addr k" "\<not> pg_used s k"
    using assms(1,3) unfolding footprint_def by blast
  then show False using pg_addr_inj assms(4-6) by metis
qed

lemma footprint_other:
  assumes "vm_ok d s" "vm_ok e s" "vm_ok d s'" "footprint d s s'" "dirs_apart d e s"
    "\<forall>n<512. pg_used s n \<longrightarrow> pg_used s' n"
  shows "i < 1024 \<Longrightarrow> slot (ram s') e i = slot (ram s) e i"
    "t \<in> tables e (ram s) \<Longrightarrow> i < 1024 \<Longrightarrow> slot (ram s') t i = slot (ram s) t i"
    "vm_ok e s'" "dirs_apart d e s'"
proof -
  have bm: "pg_bitmap s' = pg_bitmap s" using assms(4) by (simp add: footprint_def paging_only_simps(1))
  have ed: "e \<noteq> d" "al 12 e" "al 12 d" using assms(5) vm_okD(2) [OF assms(2)] vm_okD(2) [OF assms(1)] by (auto simp: dirs_apart_def)
  have keep: "slot (ram s') q i = slot (ram s) q i"
    if "al 12 q" "q \<noteq> d" "q \<notin> tables d (ram s')" "region (pg_bitmap s) 64 \<inter> region q 4096 = {}" "i < 1024" for q i
  proof (rule slot_cong [OF that(5)])
    fix x assume "x \<in> region q 4096"
    then have "x \<notin> dir_area d s'" using that bm ed by (intro page_outside [of q d s']) auto
    then show "ram s' x = ram s x" using assms(4) by (simp add: footprint_def)
  qed
  have et: "e \<notin> tables d (ram s')"
  proof
    assume "e \<in> tables d (ram s')"
    then obtain k where "k < 512" "e = pg_addr k" "\<not> pg_used s k"
      using assms(4,5) unfolding footprint_def dirs_apart_def by blast
    then show False using vm_okD(4) [OF assms(2)] by blast
  qed
  show slots: "slot (ram s') e i = slot (ram s) e i" if "i < 1024" for i
    using that ed et vm_okD(3) [OF assms(2)] by (intro keep) auto
  show tslots: "slot (ram s') t i = slot (ram s) t i" if t: "t \<in> tables e (ram s)" "i < 1024" for t i
  proof -
    obtain n where n: "n < 512" "t = pg_addr n" "pg_used s n" by (rule tables_used [OF assms(2) t(1)])
    have "t \<notin> tables d (ram s)" "t \<noteq> d" using t(1) assms(5) by (auto simp: dirs_apart_def)
    then have "t \<notin> tables d (ram s')" using footprint_tables [OF assms(4,2) _ n(2,1,3)] by blast
    then show ?thesis using t \<open>t \<noteq> d\<close> tables_al [OF t(1)] bitmap_page [OF vm_okD(1) [OF assms(2)] n(1)] n(2)
      by (intro keep) auto
  qed
  have tb: "tables e (ram s') = tables e (ram s)" by (rule tables_cong) (rule slots)
  show "vm_ok e s'"
  proof (rule vm_okI)
    show "pg_ok s'" using vm_okD(1) [OF assms(3)] .
    show "region (pg_bitmap s') 64 \<inter> region e 4096 = {}" using vm_okD(3) [OF assms(2)] bm by simp
    fix i assume i: "i < 1024" "slot (ram s') e i \<noteq> 0"
    show "\<exists>n<512. table (slot (ram s') e i) = pg_addr n \<and> pg_used s' n \<and> pg_addr n \<noteq> e"
      using vm_ok_table [OF assms(2) i(1)] i slots [OF i(1)] assms(6) by metis
  qed (use ed vm_okD(4) [OF assms(2)] assms(6) vm_ok_inj [OF assms(2)] slots in auto)
  have "tables d (ram s') \<inter> tables e (ram s) = {}"
  proof -
    have "t \<notin> tables d (ram s')" if t: "t \<in> tables e (ram s)" for t
    proof -
      obtain n where n: "n < 512" "t = pg_addr n" "pg_used s n" by (rule tables_used [OF assms(2) t])
      have "t \<notin> tables d (ram s)" using t assms(5) by (auto simp: dirs_apart_def)
      then show ?thesis using footprint_tables [OF assms(4,2) _ n(2,1,3)] by blast
    qed
    then show ?thesis by blast
  qed
  then show "dirs_apart d e s'" using assms(5) et tb by (simp add: dirs_apart_def)
qed

lemma footprint_translation:
  assumes "vm_ok d s" "vm_ok e s" "vm_ok d s'" "footprint d s s'" "dirs_apart d e s"
    "\<forall>n<512. pg_used s n \<longrightarrow> pg_used s' n"
  shows "get_phys_addr s' e w = get_phys_addr s e w" "pde s' e w = pde s e w"
proof -
  note other = footprint_other [OF assms]
  show pde: "pde s' e w = pde s e w" unfolding slot_pde by (rule other(1)) (rule index_less)
  have "pte s' e w = pte s e w" if "pde s e w \<noteq> 0"
    unfolding pte_def pde by (rule other(2) [OF tables_pde [OF that]]) (rule index_less)
  then show "get_phys_addr s' e w = get_phys_addr s e w" by (simp add: get_phys_addr_pte pde)
qed

section \<open>Both steps\<close>

text \<open>The invariant of two directories and the allocator of blocks: the bitmap of the blocks lies
  outside the bitmap of the tables, the area of the tables and the two directories.\<close>

definition pmm_area :: "'a pmm_state_scheme \<Rightarrow> u32 set" where
  "pmm_area s = region (mi_map (pmm s)) 0x20000"

definition pmm_apart :: "u32 \<Rightarrow> 'a vmm_state_scheme \<Rightarrow> bool" where
  "pmm_apart d s \<longleftrightarrow> pmm_area s \<inter> region d 4096 = {} \<and> pmm_area s \<inter> region (pg_bitmap s) 64 = {}
     \<and> pmm_area s \<inter> region 0x200000 0x200000 = {}"

definition mm_ok :: "u32 \<Rightarrow> 'a vmm_state_scheme \<Rightarrow> bool" where
  "mm_ok pdir s \<longleftrightarrow> vm_ok (kern_dir s) s \<and> vm_ok pdir s \<and> dirs_apart (kern_dir s) pdir s
     \<and> pmm_ok s \<and> pmm_apart (kern_dir s) s \<and> pmm_apart pdir s"

lemma pmm_used_outside:
  assumes "n < 2 ^ 20" "mi_map (pmm s') = mi_map (pmm s)" "\<forall>x \<in> pmm_area s. ram s' x = ram s x"
  shows "pmm_used s' n = pmm_used s n"
proof -
  have "used_at (ram s') (mi_map (pmm s)) n = used_at (ram s) (mi_map (pmm s)) n"
    using assms(1,3) by (intro used_at_cong [where N = "0x8000"]) (simp_all add: pmm_area_def)
  then show ?thesis by (simp add: pmm_used_def assms(2))
qed

lemma dir_area_sub:
  assumes "vm_ok d s" "x \<in> dir_area d s"
  shows "x \<in> region (pg_bitmap s) 64 \<or> x \<in> region d 4096 \<or> x \<in> region 0x200000 0x200000"
proof -
  have "x \<in> region 0x200000 0x200000" if "x \<in> region t 4096" and t: "t \<in> tables d (ram s)" for t
  proof -
    obtain n where "n < 512" "t = pg_addr n" by (rule tables_used [OF assms(1) t])
    then show ?thesis using pg_page_area that(1) by blast
  qed
  then show ?thesis using assms(2) unfolding dir_area_def by blast
qed

lemma footprint_pmm:
  assumes "vm_ok d s'" "footprint d s s'" "pmm_apart d s" "n < 2 ^ 20"
  shows "pmm_used s' n = pmm_used s n"
proof (rule pmm_used_outside [OF assms(4)])
  have only: "paging_only s s'" using assms(2) by (simp add: footprint_def)
  show "mi_map (pmm s') = mi_map (pmm s)" by (simp add: paging_only_simps(2) [OF only])
  show "\<forall>x \<in> pmm_area s. ram s' x = ram s x"
  proof
    fix x assume "x \<in> pmm_area s"
    then have "x \<notin> dir_area d s'"
      using dir_area_sub [OF assms(1), of x] assms(3) paging_only_simps(1) [OF only] by (auto simp: pmm_apart_def)
    then show "ram s' x = ram s x" using assms(2) by (simp add: footprint_def)
  qed
qed

text \<open>Allocating a block writes to the blocks' bitmap only.\<close>

lemma pmm_malloc_take:
  assumes "pmm_ok s" "n \<in> pmm_frames s" "\<not> pmm_used s n"
  obtains k s' where "pmm_malloc s = (frame_addr k, s')" "k \<in> pmm_frames s" "\<not> pmm_used s k" "k \<noteq> 0" "k < 2 ^ 20"
    "\<And>j. j < 2 ^ 20 \<Longrightarrow> pmm_used s' j \<longleftrightarrow> j = k \<or> pmm_used s j" "pmm_ok s'"
    "\<And>x. x \<notin> pmm_area s \<Longrightarrow> ram s' x = ram s x"
    "s' = s\<lparr>pmm := pmm s', ram := ram s'\<rparr>" "mi_map (pmm s') = mi_map (pmm s)" "pmm_frames s' = pmm_frames s"
proof -
  obtain k where k: "k \<in> pmm_frames s" "pmm_first_free s = of_nat k" "\<not> pmm_used s k" "k < 2 ^ 20" "k \<noteq> 0"
    using pmm_first_free_least [OF assms] by blast
  let ?s' = "pmm_add_used 1 (pmm_set_bit (of_nat k) s)"
  have "ram ?s' x = ram s x" if "x \<notin> pmm_area s" for x
    using that k(4) bm_update_outside(1) [of x "mi_map (pmm s)" "0x8000" k "ram s"]
    by (simp add: pmm_area_def pmm_set_bit_def)
  moreover have "?s' = s\<lparr>pmm := pmm ?s', ram := ram ?s'\<rparr>"
    by (simp add: pmm_add_used_def pmm_set_bit_def)
  moreover have "pmm_ok ?s'" using assms(1) k(4) by (simp add: pmm_ok_def)
  ultimately show ?thesis using that [OF pmm_malloc_eq [OF k(2,4,5)]] k by (simp add: pmm_frames_def)
qed

lemma dir_area_cong:
  assumes "pg_bitmap s' = pg_bitmap s" "\<forall>x \<in> dir_area d s. ram s' x = ram s x" "vm_ok d s"
  shows "vm_ok d s'" "tables d (ram s') = tables d (ram s)" "get_phys_addr s' d w = get_phys_addr s d w"
    "pde s' d w = pde s d w" "n < 512 \<Longrightarrow> pg_used s' n = pg_used s n"
proof -
  have slots: "slot (ram s') d i = slot (ram s) d i" if "i < 1024" for i
    using assms(2) that by (intro slot_cong) (auto simp: dir_area_def)
  show used: "pg_used s' n = pg_used s n" if "n < 512" for n
  proof -
    have "used_at (ram s') (pg_bitmap s) n = used_at (ram s) (pg_bitmap s) n"
      using that assms(2) by (intro used_at_cong [where N = 16]) (simp_all add: dir_area_def)
    then show ?thesis by (simp add: pg_used_def assms(1))
  qed
  show "vm_ok d s'" by (rule vm_ok_cong [OF assms(3,1) used slots])
  show "tables d (ram s') = tables d (ram s)" by (rule tables_cong) (rule slots)
  show pde: "pde s' d w = pde s d w" unfolding slot_pde by (rule slots) (rule index_less)
  have "pte s' d w = pte s d w" if "pde s d w \<noteq> 0"
    unfolding pte_def pde using tables_pde [OF that] assms(2) by (intro slot_cong) (auto simp: dir_area_def)
  then show "get_phys_addr s' d w = get_phys_addr s d w" by (simp add: get_phys_addr_pte pde)
qed

definition two_ok :: "u32 \<Rightarrow> u32 \<Rightarrow> 'a vmm_state_scheme \<Rightarrow> bool" where
  "two_ok d e s \<longleftrightarrow> vm_ok d s \<and> vm_ok e s \<and> dirs_apart d e s \<and> pmm_ok s \<and> pmm_apart d s \<and> pmm_apart e s"

lemma two_ok_sym: "two_ok d e s \<longleftrightarrow> two_ok e d s"
  by (auto simp: two_ok_def dirs_apart_sym)

lemma map_phys_step:
  assumes "two_ok d e s" "pde s d v \<noteq> 0 \<or> (\<exists>n<512. \<not> pg_used s n)" "f < 0x1000"
  obtains k s' where "vmm_map_phys d v phys f s = (1, s')" "two_ok d e s'" "paging_only s s'"
    "\<And>w. get_phys_addr s' d w = (if drop_bit 12 w = drop_bit 12 v then phys AND NOT 0xFFF else get_phys_addr s d w)"
    "\<And>w. get_phys_addr s' e w = get_phys_addr s e w"
    "\<And>j. j < 512 \<Longrightarrow> pg_used s' j \<longleftrightarrow> j = k \<or> pg_used s j" "\<And>n. n < 2 ^ 20 \<Longrightarrow> pmm_used s' n = pmm_used s n"
proof -
  have ok: "vm_ok d s" "vm_ok e s" "dirs_apart d e s" "pmm_ok s" "pmm_apart d s" "pmm_apart e s"
    using assms(1) by (simp_all add: two_ok_def)
  obtain k s' where s': "vmm_map_phys d v phys f s = (1, s')" "vm_ok d s'"
      "\<And>w. get_phys_addr s' d w = (if drop_bit 12 w = drop_bit 12 v then phys AND NOT 0xFFF else get_phys_addr s d w)"
      "\<And>j. j < 512 \<Longrightarrow> pg_used s' j \<longleftrightarrow> j = k \<or> pg_used s j"
    by (rule vmm_map_phys_effect [OF ok(1) assms(2,3)]) (rule that)
  have fp: "footprint d s s'" by (rule map_phys_footprint [OF ok(1) assms(2,3) s'(1)])
  then have only: "paging_only s s'" by (simp add: footprint_def)
  have used: "\<forall>n<512. pg_used s n \<longrightarrow> pg_used s' n" using s'(4) by blast
  note other = footprint_other(3,4) [OF ok(1,2) s'(2) fp ok(3) used]
  have pu: "pmm_used s' n = pmm_used s n" if "n < 2 ^ 20" for n by (rule footprint_pmm [OF s'(2) fp ok(5) that])
  have "pmm_ok s'" using ok(4) pu [of 0] paging_only_simps(2) [OF only] by (simp add: pmm_ok_def)
  then have "two_ok d e s'"
    using s'(2) other ok(5,6) paging_only_simps(1,2) [OF only] by (simp add: two_ok_def pmm_apart_def pmm_area_def)
  then show ?thesis
    using that [OF s'(1) _ only s'(3) footprint_translation(1) [OF ok(1,2) s'(2) fp ok(3) used] s'(4) pu] by blast
qed

lemma pmm_malloc_step:
  assumes "two_ok d e s" "n \<in> pmm_frames s" "\<not> pmm_used s n"
  obtains k s' where "pmm_malloc s = (frame_addr k, s')" "two_ok d e s'" "k \<in> pmm_frames s" "\<not> pmm_used s k" "k \<noteq> 0" "k < 2 ^ 20"
    "\<And>j. j < 2 ^ 20 \<Longrightarrow> pmm_used s' j \<longleftrightarrow> j = k \<or> pmm_used s j"
    "s' = s\<lparr>pmm := pmm s', ram := ram s'\<rparr>" "pmm_frames s' = pmm_frames s"
    "\<And>w. get_phys_addr s' d w = get_phys_addr s d w" "\<And>w. get_phys_addr s' e w = get_phys_addr s e w"
    "\<And>w. pde s' d w = pde s d w" "\<And>w. pde s' e w = pde s e w" "\<And>j. j < 512 \<Longrightarrow> pg_used s' j = pg_used s j"
proof -
  have ok: "vm_ok d s" "vm_ok e s" "dirs_apart d e s" "pmm_ok s" "pmm_apart d s" "pmm_apart e s"
    using assms(1) by (simp_all add: two_ok_def)
  obtain k s' where s': "pmm_malloc s = (frame_addr k, s')" "k \<in> pmm_frames s" "\<not> pmm_used s k" "k \<noteq> 0" "k < 2 ^ 20"
      "\<And>j. j < 2 ^ 20 \<Longrightarrow> pmm_used s' j \<longleftrightarrow> j = k \<or> pmm_used s j" "pmm_ok s'"
      "\<And>x. x \<notin> pmm_area s \<Longrightarrow> ram s' x = ram s x"
      "s' = s\<lparr>pmm := pmm s', ram := ram s'\<rparr>" "mi_map (pmm s') = mi_map (pmm s)" "pmm_frames s' = pmm_frames s"
    by (rule pmm_malloc_take [OF ok(4) assms(2,3)]) (rule that)
  have bm: "pg_bitmap s' = pg_bitmap s" by (subst s'(9)) simp
  have keep: "\<forall>x \<in> dir_area c s. ram s' x = ram s x" if c: "vm_ok c s" "pmm_apart c s" for c
  proof
    fix x assume "x \<in> dir_area c s"
    then have "x \<notin> pmm_area s" using dir_area_sub [OF c(1)] c(2) by (auto simp: pmm_apart_def)
    then show "ram s' x = ram s x" by (rule s'(8))
  qed
  note d = dir_area_cong [OF bm keep [OF ok(1,5)] ok(1)] and e = dir_area_cong [OF bm keep [OF ok(2,6)] ok(2)]
  have "two_ok d e s'"
    using d(1,2) e(1,2) ok(3,5,6) s'(7,10) bm by (simp add: two_ok_def dirs_apart_def pmm_apart_def pmm_area_def)
  then show ?thesis
    using that [OF s'(1) _ s'(2-6) s'(9,11) d(3) e(3) d(4) e(4) d(5)] by blast
qed

lemma frame_addr_ne: "k \<noteq> 0 \<Longrightarrow> k < 2 ^ 20 \<Longrightarrow> frame_addr k \<noteq> 0"
  using frame_addr_inj [of k 0] by (simp add: frame_addr_def)

lemma frame_addr_page: "frame_addr k AND NOT 0xFFF = frame_addr k"
proof -
  have "al 12 (BLOCKS_LEN * of_nat k)" by (rule al_mult) (simp_all add: BLOCKS_LEN_def al_def)
  then show ?thesis using page_of_or [of "frame_addr k" 0] by (simp add: frame_addr_def)
qed

lemma flags_small: "KERNEL_FLAGS < 0x1000" "USER_FLAGS < 0x1000"
  by (simp_all add: KERNEL_FLAGS_def USER_FLAGS_def PAGE_PRESENT_def PAGE_RW_def PAGE_USER_def)

text \<open>\<open>map_both\<close> takes a free block and gives it to both directories; the frame named in the
  process's directory is the one the kernel's directory has at \<open>v0\<close> after its own step.\<close>

lemma map_both_effect:
  assumes "two_ok (kern_dir s) d s" "n \<in> pmm_frames s" "\<not> pmm_used s n"
    "k1 < 512" "k2 < 512" "k1 \<noteq> k2" "\<not> pg_used s k1" "\<not> pg_used s k2"
  obtains k s' j1 j2 where "map_both d v v0 s = (True, s')" "two_ok (kern_dir s) d s'" "kern_dir s' = kern_dir s"
    "k \<in> pmm_frames s" "\<not> pmm_used s k" "k < 2 ^ 20" "\<And>j. j < 2 ^ 20 \<Longrightarrow> pmm_used s' j \<longleftrightarrow> j = k \<or> pmm_used s j"
    "pmm_frames s' = pmm_frames s" "\<And>j. j < 512 \<Longrightarrow> pg_used s' j \<longleftrightarrow> j = j1 \<or> j = j2 \<or> pg_used s j"
    "\<And>w. get_phys_addr s' (kern_dir s) w = (if drop_bit 12 w = drop_bit 12 v then frame_addr k else get_phys_addr s (kern_dir s) w)"
    "\<And>w. get_phys_addr s' d w = (if drop_bit 12 w = drop_bit 12 v
       then get_phys_addr s' (kern_dir s) v0 AND NOT 0xFFF else get_phys_addr s d w)"
    "s' = s\<lparr>pmm := pmm s', ram := ram s', pg_used_blocks := pg_used_blocks s'\<rparr>"
proof -
  let ?kd = "kern_dir s"
  obtain k s1 where s1: "pmm_malloc s = (frame_addr k, s1)" "two_ok ?kd d s1" "k \<in> pmm_frames s" "\<not> pmm_used s k" "k \<noteq> 0" "k < 2 ^ 20"
      "\<And>j. j < 2 ^ 20 \<Longrightarrow> pmm_used s1 j \<longleftrightarrow> j = k \<or> pmm_used s j"
      "s1 = s\<lparr>pmm := pmm s1, ram := ram s1\<rparr>" "pmm_frames s1 = pmm_frames s"
      "\<And>w. get_phys_addr s1 ?kd w = get_phys_addr s ?kd w" "\<And>w. get_phys_addr s1 d w = get_phys_addr s d w"
      "\<And>j. j < 512 \<Longrightarrow> pg_used s1 j = pg_used s j"
    by (rule pmm_malloc_step [OF assms(1-3)]) (rule that)
  have 1: "pde s1 ?kd v \<noteq> 0 \<or> (\<exists>n<512. \<not> pg_used s1 n)" using assms(4,7) s1(12) by blast
  obtain j1 s2 where s2: "vmm_map_phys ?kd v (frame_addr k) KERNEL_FLAGS s1 = (1, s2)" "two_ok ?kd d s2" "paging_only s1 s2"
      "\<And>w. get_phys_addr s2 ?kd w = (if drop_bit 12 w = drop_bit 12 v then frame_addr k AND NOT 0xFFF else get_phys_addr s1 ?kd w)"
      "\<And>w. get_phys_addr s2 d w = get_phys_addr s1 d w"
      "\<And>j. j < 512 \<Longrightarrow> pg_used s2 j \<longleftrightarrow> j = j1 \<or> pg_used s1 j" "\<And>n. n < 2 ^ 20 \<Longrightarrow> pmm_used s2 n = pmm_used s1 n"
    by (rule map_phys_step [OF s1(2) 1 flags_small(1)]) (rule that)
  have "\<not> pg_used s2 k1 \<or> \<not> pg_used s2 k2" using assms(4-8) s1(12) s2(6) by blast
  then have 2: "pde s2 d v \<noteq> 0 \<or> (\<exists>n<512. \<not> pg_used s2 n)" using assms(4,5) by blast
  have sym: "two_ok d ?kd s2" using s2(2) by (simp add: two_ok_sym)
  let ?phys = "get_phys_addr s2 ?kd v0"
  obtain j2 s3 where s3: "vmm_map_phys d v ?phys USER_FLAGS s2 = (1, s3)" "two_ok d ?kd s3" "paging_only s2 s3"
      "\<And>w. get_phys_addr s3 d w = (if drop_bit 12 w = drop_bit 12 v then ?phys AND NOT 0xFFF else get_phys_addr s2 d w)"
      "\<And>w. get_phys_addr s3 ?kd w = get_phys_addr s2 ?kd w"
      "\<And>j. j < 512 \<Longrightarrow> pg_used s3 j \<longleftrightarrow> j = j2 \<or> pg_used s2 j" "\<And>n. n < 2 ^ 20 \<Longrightarrow> pmm_used s3 n = pmm_used s2 n"
    by (rule map_phys_step [OF sym 2 flags_small(2)]) (rule that)
  have k1: "kern_dir s1 = kern_dir s" by (subst s1(8)) simp
  then have kd: "kern_dir s2 = kern_dir s" "kern_dir s3 = kern_dir s"
    using paging_only_simps(3) [OF s2(3)] paging_only_simps(3) [OF s3(3)] by simp_all
  have map: "vmm_map ?kd v KERNEL_FLAGS s = (1, s2)"
    using s1(1) s2(1) frame_addr_ne [OF s1(5,6)] by (simp add: vmm_map_def vmm_map_phys_def Let_def)
  have eq: "map_both d v v0 s = (True, s3)"
    using map s3(1) by (simp add: map_both_def get_kern_directory_def kd)
  have fields: "s3 = s\<lparr>pmm := pmm s3, ram := ram s3, pg_used_blocks := pg_used_blocks s3\<rparr>"
  proof -
    obtain m b where "s2 = s1\<lparr>ram := m, pg_used_blocks := b\<rparr>" using s2(3) unfolding paging_only_def by blast
    moreover obtain m' b' where s3e: "s3 = s2\<lparr>ram := m', pg_used_blocks := b'\<rparr>" using s3(3) unfolding paging_only_def by blast
    ultimately have "s3 = s1\<lparr>ram := m', pg_used_blocks := b'\<rparr>" by simp
    also have "\<dots> = (s\<lparr>pmm := pmm s1, ram := ram s1\<rparr>)\<lparr>ram := m', pg_used_blocks := b'\<rparr>" by (subst s1(8)) (rule refl)
    also have "\<dots> = s\<lparr>pmm := pmm s1, ram := m', pg_used_blocks := b'\<rparr>" by simp
    finally have "s3 = s\<lparr>pmm := pmm s1, ram := m', pg_used_blocks := b'\<rparr>" .
    then show ?thesis by simp
  qed
  have kdt: "get_phys_addr s3 ?kd w = (if drop_bit 12 w = drop_bit 12 v then frame_addr k else get_phys_addr s ?kd w)" for w
    using s3(5) s2(4) s1(10) frame_addr_page by simp
  have dt: "get_phys_addr s3 d w = (if drop_bit 12 w = drop_bit 12 v
       then get_phys_addr s3 ?kd v0 AND NOT 0xFFF else get_phys_addr s d w)" for w
    using s3(4,5) s2(5) s1(11) by simp
  have "\<And>j. j < 2 ^ 20 \<Longrightarrow> pmm_used s3 j \<longleftrightarrow> j = k \<or> pmm_used s j" using s3(7) s2(7) s1(7) by simp
  moreover have "pmm_frames s3 = pmm_frames s"
    using paging_only_simps(2) [OF s2(3)] paging_only_simps(2) [OF s3(3)] s1(9) by (simp add: pmm_frames_def)
  moreover have "\<And>j. j < 512 \<Longrightarrow> pg_used s3 j \<longleftrightarrow> j = j1 \<or> j = j2 \<or> pg_used s j" using s3(6) s2(6) s1(12) by auto
  ultimately show ?thesis
    using that [OF eq _ kd(2) s1(3,4,6) _ _ _ kdt dt fields] s3(2) two_ok_sym by blast
qed

text \<open>The same, counted: what is left of blocks and of frames for tables.\<close>

definition free_blocks :: "'a pmm_state_scheme \<Rightarrow> nat" where
  "free_blocks s = card {n \<in> pmm_frames s. \<not> pmm_used s n}"

definition free_tables :: "'a paging_state_scheme \<Rightarrow> nat" where
  "free_tables s = card {n. n < 512 \<and> \<not> pg_used s n}"

lemma two_of_card:
  assumes "2 \<le> card A"
  obtains a b where "a \<in> A" "b \<in> A" "a \<noteq> b"
proof -
  have f: "finite A" using assms by (metis card.infinite not_numeral_le_zero)
  obtain a where a: "a \<in> A" using assms by (metis all_not_in_conv card.empty not_numeral_le_zero)
  have "1 \<le> card (A - {a})" using a f assms by simp
  then obtain b where "b \<in> A - {a}" by (metis all_not_in_conv card.empty not_one_le_zero)
  with a that show ?thesis by blast
qed

lemma map_both_count:
  assumes "two_ok (kern_dir s) d s" "1 \<le> free_blocks s" "2 \<le> free_tables s"
  obtains k s' where "map_both d v v0 s = (True, s')" "two_ok (kern_dir s) d s'" "kern_dir s' = kern_dir s"
    "k \<in> pmm_frames s" "\<not> pmm_used s k" "k < 2 ^ 20" "\<And>j. j < 2 ^ 20 \<Longrightarrow> pmm_used s' j \<longleftrightarrow> j = k \<or> pmm_used s j"
    "pmm_frames s' = pmm_frames s" "free_blocks s \<le> free_blocks s' + 1" "free_tables s \<le> free_tables s' + 2"
    "\<And>w. get_phys_addr s' (kern_dir s) w = (if drop_bit 12 w = drop_bit 12 v then frame_addr k else get_phys_addr s (kern_dir s) w)"
    "\<And>w. get_phys_addr s' d w = (if drop_bit 12 w = drop_bit 12 v
       then get_phys_addr s' (kern_dir s) v0 AND NOT 0xFFF else get_phys_addr s d w)"
    "s' = s\<lparr>pmm := pmm s', ram := ram s', pg_used_blocks := pg_used_blocks s'\<rparr>"
proof -
  obtain n where n: "n \<in> pmm_frames s" "\<not> pmm_used s n"
    using assms(2) unfolding free_blocks_def by (metis (no_types, lifting) card.empty empty_Collect_eq not_one_le_zero)
  obtain k1 k2 where k12: "k1 < 512" "k2 < 512" "k1 \<noteq> k2" "\<not> pg_used s k1" "\<not> pg_used s k2"
    using two_of_card [OF assms(3) [unfolded free_tables_def]] by blast
  obtain k s' j1 j2 where s': "map_both d v v0 s = (True, s')" "two_ok (kern_dir s) d s'" "kern_dir s' = kern_dir s"
    "k \<in> pmm_frames s" "\<not> pmm_used s k" "k < 2 ^ 20" "\<And>j. j < 2 ^ 20 \<Longrightarrow> pmm_used s' j \<longleftrightarrow> j = k \<or> pmm_used s j"
    "pmm_frames s' = pmm_frames s" "\<And>j. j < 512 \<Longrightarrow> pg_used s' j \<longleftrightarrow> j = j1 \<or> j = j2 \<or> pg_used s j"
    "\<And>w. get_phys_addr s' (kern_dir s) w = (if drop_bit 12 w = drop_bit 12 v then frame_addr k else get_phys_addr s (kern_dir s) w)"
    "\<And>w. get_phys_addr s' d w = (if drop_bit 12 w = drop_bit 12 v
       then get_phys_addr s' (kern_dir s) v0 AND NOT 0xFFF else get_phys_addr s d w)"
    "s' = s\<lparr>pmm := pmm s', ram := ram s', pg_used_blocks := pg_used_blocks s'\<rparr>"
    by (rule map_both_effect [OF assms(1) n k12]) (rule that)
  have ok: "pmm_ok s" using assms(1) by (simp add: two_ok_def)
  have "{n \<in> pmm_frames s. \<not> pmm_used s n} \<subseteq> insert k {n \<in> pmm_frames s'. \<not> pmm_used s' n}"
    using s'(7,8) pmm_frames_bound [OF ok] by auto
  then have "free_blocks s \<le> card (insert k {n \<in> pmm_frames s'. \<not> pmm_used s' n})"
    unfolding free_blocks_def by (intro card_mono) (simp_all add: pmm_frames_def)
  also have "\<dots> \<le> free_blocks s' + 1" unfolding free_blocks_def by (simp add: card_insert_le_m1 card_insert_if pmm_frames_def)
  finally have fb: "free_blocks s \<le> free_blocks s' + 1" .
  have "{n. n < 512 \<and> \<not> pg_used s n} \<subseteq> insert j1 (insert j2 {n. n < 512 \<and> \<not> pg_used s' n})" using s'(9) by auto
  then have "free_tables s \<le> card (insert j1 (insert j2 {n. n < 512 \<and> \<not> pg_used s' n}))"
    unfolding free_tables_def by (intro card_mono) simp_all
  also have "\<dots> \<le> free_tables s' + 2" unfolding free_tables_def by (simp add: card_insert_if)
  finally have ft: "free_tables s \<le> free_tables s' + 2" .
  show ?thesis by (rule that [OF s'(1-8) fb ft s'(10-12)])
qed

text \<open>Addresses a number of pages apart lie in different pages.\<close>

lemma take12_add:
  assumes "al 12 w"
  shows "take_bit 12 (v + w) = take_bit 12 v"
proof -
  have tb: "unat (take_bit 12 x) = unat x mod 4096" for x :: u32
    by (subst unsigned_take_bit_eq) (simp add: take_bit_eq_mod)
  have w: "unat w mod 4096 = 0" using assms tb [of w] by (simp only: al_take_bit unat_0)
  have "unat (v + w) mod 4096 = (unat v + unat w) mod 4294967296 mod 4096" 
    using unat_word_ariths(1) [of v w] by simp
  also have "\<dots> = (unat v + unat w) mod 4096" by (rule mod_mod_cancel) simp
  also have "\<dots> = unat v mod 4096" using mod_add_right_eq [of "unat v" "unat w" 4096] w by simp
  finally show ?thesis by (simp only: word_unat_eq_iff tb)
qed

lemma page_eqI: "drop_bit 12 x = drop_bit 12 y \<Longrightarrow> take_bit 12 x = take_bit 12 y \<Longrightarrow> x = (y :: u32)"
proof -
  assume d: "drop_bit 12 x = drop_bit 12 y" and t: "take_bit 12 x = take_bit 12 y"
  have "x = push_bit 12 (drop_bit 12 x) + take_bit 12 x" by (rule bits_ident [symmetric])
  also have "\<dots> = push_bit 12 (drop_bit 12 y) + take_bit 12 y" by (simp only: d t)
  also have "\<dots> = y" by (rule bits_ident)
  finally show "x = y" .
qed

lemma page_step_inj:
  assumes "i < 2 ^ 20" "j < 2 ^ 20" "drop_bit 12 (v + of_nat i * PAGE_SIZE) = drop_bit 12 (v + of_nat j * PAGE_SIZE)"
  shows "i = j"
proof -
  have al: "al 12 (of_nat n * PAGE_SIZE)" for n by (rule al_mult2) (simp_all add: al_def PAGE_SIZE_def)
  have "v + of_nat i * PAGE_SIZE = v + of_nat j * PAGE_SIZE"
    by (rule page_eqI [OF assms(3)]) (simp only: take12_add [OF al])
  then have "(of_nat (i * 4096) :: u32) = of_nat (j * 4096)" by (simp add: PAGE_SIZE_def)
  then have "unat (of_nat (i * 4096) :: u32) = unat (of_nat (j * 4096) :: u32)" by (rule arg_cong)
  moreover have "i * 4096 < 4294967296" "j * 4096 < 4294967296" using assms(1,2) by simp_all
  ultimately have "i * 4096 = j * 4096" by (simp only: unat_of_nat_u32)
  then show ?thesis by simp
qed

text \<open>A state with two empty directories, for the witnesses.\<close>

definition demo_two :: vmm_state where
  "demo_two = demo_vmm\<lparr>ram := (\<lambda>_. 0)(0x40000 := 1), pmm := (pmm demo_vmm)\<lparr>mi_map := 0x40000\<rparr>\<rparr>"

lemma demo_two_simps:
  "ram demo_two = (\<lambda>_. 0)(0x40000 := 1)" "pg_bitmap demo_two = 0x1100" "kern_dir demo_two = 0x10000"
  "mi_map (pmm demo_two) = 0x40000" "mi_max_blocks (pmm demo_two) = 64"
  by (simp_all add: demo_two_def demo_vmm_simps)
    (simp add: demo_vmm_def demo_paging_def paging_state.defs pmm_state.defs demo_free_def demo_pmm_def)

lemma demo_two_unused: "n < 64 \<Longrightarrow> pmm_used demo_two n \<longleftrightarrow> n = 0"
proof -
  have "\<forall>n \<in> set [0..<64]. used_at ((\<lambda>_. 0)(0x40000 := 1)) 0x40000 n = (n = 0)" by code_simp
  moreover assume "n < 64"
  ultimately show ?thesis by (simp add: pmm_used_def demo_two_simps)
qed

lemma demo_two_tables: "n < 512 \<Longrightarrow> \<not> pg_used demo_two n"
proof -
  assume "n < 512"
  then have "used_at ((\<lambda>_. 0)(0x40000 := 1)) 0x1100 n = used_at (\<lambda>_. 0) 0x1100 n"
    by (intro used_at_cong [of _ 16]) (auto simp: region_def)
  then show ?thesis by (simp add: pg_used_def demo_two_simps used_at_def read32_def)
qed

lemma demo_two_counts: "free_tables demo_two = 512" "63 \<le> free_blocks demo_two"
proof -
  have "{n. n < 512 \<and> \<not> pg_used demo_two n} = {..<512}" using demo_two_tables by auto
  then show "free_tables demo_two = 512" by (simp add: free_tables_def)
  have "{n \<in> pmm_frames demo_two. \<not> pmm_used demo_two n} = {1..<64}"
    using demo_two_unused by (auto simp: pmm_frames_def demo_two_simps intro: gr0I)
  then show "63 \<le> free_blocks demo_two" by (simp add: free_blocks_def)
qed

lemma demo_two_empty:
  assumes "unat p + 4096 \<le> 0x40000" "i < 1024"
  shows "slot (ram demo_two) p i = 0"
proof -
  have "region p 4096 \<inter> region 0x40000 1 = {}" using assms(1) by (intro region_apart) simp_all
  then have "slot (ram demo_two) p i = slot (\<lambda>_. 0) p i"
    using assms(2) by (intro slot_cong) (auto simp: demo_two_simps region_def)
  then show ?thesis by (simp add: slot_def read32_def)
qed

lemma demo_two_dir:
  assumes "al 12 p" "0x10000 \<le> unat p" "unat p < 0x20000"
  shows "vm_ok p demo_two" "tables p (ram demo_two) = {}" "pmm_apart p demo_two"
proof -
  have e: "i < 1024 \<Longrightarrow> slot (ram demo_two) p i = 0" for i using assms(3) by (intro demo_two_empty) simp_all
  show "vm_ok p demo_two"
  proof (rule vm_okI)
    show "pg_ok demo_two" by (simp add: pg_ok_def demo_two_simps region_apart)
    show "al 12 p" by (rule assms(1))
    show "region (pg_bitmap demo_two) 64 \<inter> region p 4096 = {}"
      using assms by (simp add: demo_two_simps region_apart)
    fix n :: nat assume "n < 512" "p = pg_addr n"
    then show "pg_used demo_two n" using unat_pg_addr [of n] assms(3) by simp
  qed (use e in simp_all)
  show "tables p (ram demo_two) = {}" using e by (auto simp: tables_def)
  show "pmm_apart p demo_two"
    using assms(2,3) by (simp add: pmm_apart_def pmm_area_def demo_two_simps region_apart region_apart2)
qed

lemma demo_two_ok: "two_ok 0x10000 0x11000 demo_two"
proof -
  have "al 12 0x10000" "al 12 0x11000" by code_simp+
  then show ?thesis
    using demo_two_dir [of "0x10000"] demo_two_dir [of "0x11000"] demo_two_unused [of 0]
    by (simp add: two_ok_def dirs_apart_def pmm_ok_def demo_two_simps)
qed

end
