(* ===== verification/Thread.thy ===== *)
theory Thread
  imports Sched Uheap Spaces
begin

text \<open>
  Threads: \<open>proc/thread.c\<close> and the parts of \<open>proc/proc.c\<close> that build a thread's memory and end a
  process.  The threads of a process form a ring through \<open>next\<close> and \<open>prec\<close> in the typed store of
  theory Sched; stacks and heaps are written through linear memory.  \<open>end_proc\<close> and \<open>stop_thread\<close>
  never return: their result is the state in which they spin until the timer takes the processor
  away.  \<open>fork_eip\<close>, an assembly routine, returns to its caller.
\<close>

section \<open>Creation\<close>

definition create_thread :: "'a proc_state_scheme \<Rightarrow> (u32 \<times> 'a proc_state_scheme) option" where
  "create_thread s = do {
     (t, s) \<leftarrow> kmalloc 64 s;
     if t = 0 then Some (0, s)
     else
       let pid = next_pid s;
           s = s\<lparr>next_pid := pid + 1\<rparr>
       in Some (t, upd_thread t (\<lambda>x. x\<lparr>th_pid := pid, th_main := 0, th_time := 10, th_state := PROC_NEW,
                 th_next := t, th_prec := t\<rparr>) s)
   }"

section \<open>A thread's memory\<close>

definition build_stack :: "u32 \<Rightarrow> u32 \<Rightarrow> u32 \<Rightarrow> 'a proc_state_scheme \<Rightarrow> bool \<times> 'a proc_state_scheme" where
  "build_stack t pdir nthreads s =
     (let s = upd_thread t (\<lambda>x. x\<lparr>th_esp := th_image_base x + th_image_size x + PAGE_SIZE * 6 * nthreads\<rparr>) s;
          s = upd_thread t (\<lambda>x. x\<lparr>th_stack_limit := th_esp x + PAGE_SIZE\<rparr>) s;
          esp = th_esp (threads s t);
          (ok, s) = map_both pdir esp esp s
      in if \<not> ok then (False, s)
      else
        let s = upd_thread t (\<lambda>x. x\<lparr>th_esp_kernel := th_stack_limit x\<rparr>) s;
            s = upd_thread t (\<lambda>x. x\<lparr>th_stack_kernel_limit := th_esp_kernel x + PAGE_SIZE\<rparr>) s;
            esp = th_esp_kernel (threads s t)
        in map_both pdir esp esp s)"

fun map_heap :: "nat list \<Rightarrow> u32 \<Rightarrow> u32 \<Rightarrow> 'a proc_state_scheme \<Rightarrow> bool \<times> 'a proc_state_scheme" where
  "map_heap [] pdir heap s = (True, s)"
| "map_heap (i # is) pdir heap s =
     (let a = heap + of_nat i * PAGE_SIZE; (ok, s) = map_both pdir a a s
      in if ok then map_heap is pdir heap s else (False, s))"

definition build_heap :: "u32 \<Rightarrow> u32 \<Rightarrow> u32 \<Rightarrow> 'a proc_state_scheme \<Rightarrow> bool \<times> 'a proc_state_scheme" where
  "build_heap t pdir nthreads s =
     (let heap = th_stack_kernel_limit (threads s t) + PAGE_SIZE * 6 * nthreads;
          (ok, s) = map_heap [0..<4] pdir heap s
      in if \<not> ok then (False, s)
      else
        let s = upd_thread t (\<lambda>x. x\<lparr>th_heap := heap, th_heap_limit := heap + PAGE_SIZE * 4\<rparr>) s
        in (True, s\<lparr>ram := heap_init heap (ram s)\<rparr>))"

text \<open>The user stack of a new thread, and the frame that the scheduler's return pops from its
  kernel stack, in the order they are pushed.\<close>

definition user_frame :: "u32 \<Rightarrow> u32 \<Rightarrow> u32 list" where
  "user_frame argc argv = [argv, argc, RETURN_ADDR]"

definition kernel_frame :: "thread \<Rightarrow> u32 list" where
  "kernel_frame x = [0x23, th_esp x, 0x202, 0x1B, th_eip x, 0, 0, 0, 0, 0, 0, th_stack_limit x,
     0x23, 0x23, 0x23, 0x23]"

definition stack_fill :: "u32 \<Rightarrow> u32 \<Rightarrow> u32 \<Rightarrow> 'a proc_state_scheme \<Rightarrow> u32 \<times> 'a proc_state_scheme" where
  "stack_fill t argc argv s =
     (let (sp, m) = fold push32 (user_frame argc argv) (th_stack_limit (threads s t), ram s);
          s = upd_thread t (th_esp_update (\<lambda>_. sp)) (s\<lparr>ram := m\<rparr>);
          (sp, m) = fold push32 (kernel_frame (threads s t)) (th_stack_kernel_limit (threads s t), ram s);
          s = upd_thread t (th_esp_kernel_update (\<lambda>_. sp)) (s\<lparr>ram := m\<rparr>)
      in (1, vmm_unmap_phys (get_kern_directory s) (th_esp (threads s t)) s))"

section \<open>Rings of threads\<close>

abbreviation thread_next :: "'a proc_state_scheme \<Rightarrow> u32 \<Rightarrow> u32" where
  "thread_next s \<equiv> \<lambda>t. th_next (threads s t)"
abbreviation thread_prec :: "'a proc_state_scheme \<Rightarrow> u32 \<Rightarrow> u32" where
  "thread_prec s \<equiv> \<lambda>t. th_prec (threads s t)"

definition set_th_next :: "u32 \<Rightarrow> u32 \<Rightarrow> 'a proc_state_scheme \<Rightarrow> 'a proc_state_scheme" where
  "set_th_next t v = upd_thread t (th_next_update (\<lambda>_. v))"

definition set_th_prec :: "u32 \<Rightarrow> u32 \<Rightarrow> 'a proc_state_scheme \<Rightarrow> 'a proc_state_scheme" where
  "set_th_prec t v = upd_thread t (th_prec_update (\<lambda>_. v))"

interpretation thread_ring: ring_store thread_next thread_prec set_th_next set_th_prec
  by unfold_locales (auto simp: set_th_next_def set_th_prec_def upd_thread_def)

text \<open>The insertion of \<open>start_thread\<close> behind the running thread \<open>p\<close>, and the removal of
  \<open>stop_thread\<close>.\<close>

definition link_thread :: "u32 \<Rightarrow> u32 \<Rightarrow> 'a proc_state_scheme \<Rightarrow> 'a proc_state_scheme" where
  "link_thread p t s =
     (let s = set_th_prec t p s;
          s = set_th_next t (thread_next s p) s;
          s = set_th_prec (thread_next s p) t s
      in set_th_next p t s)"

definition unlink_thread :: "u32 \<Rightarrow> 'a proc_state_scheme \<Rightarrow> 'a proc_state_scheme" where
  "unlink_thread t s =
     (let s = set_th_prec (thread_next s t) (thread_prec s t) s
      in set_th_next (thread_prec s t) (thread_next s t) s)"

section \<open>Starting and stopping\<close>

definition fail_thread :: "u32 \<Rightarrow> 'a proc_state_scheme \<Rightarrow> (u32 \<times> 'a proc_state_scheme) option" where
  "fail_thread t s = do { s \<leftarrow> kfree t s; Some (- 1, enable_int (sched_state 1 s)) }"

definition start_thread :: "'a proc_state_scheme \<Rightarrow> (u32 \<times> 'a proc_state_scheme) option" where
  "start_thread s = do {
     let s = disable_int (sched_state 0 s);
     let cur = get_cur_proc s;
     (t, s) \<leftarrow> create_thread s;
     if t = 0 then Some (- 1, s)
     else do {
       let parent = pr_thread_list (procs s cur);
       let px = threads s parent;
       let s = upd_thread t (\<lambda>x. x\<lparr>th_image_base := th_image_base px, th_image_size := th_image_size px,
                 th_parent := cur\<rparr>) s;
       let (ok, s) = build_stack t (pr_pdir (procs s cur)) (pr_threads (procs s cur) + 1) s;
       if \<not> ok then fail_thread t s
       else do {
         let (_, s) = stack_fill t 0 0 s;
         let s = s\<lparr>ram := memcpy (ram s) (th_stack_limit (threads s t) - PAGE_SIZE)
                   (th_stack_limit (threads s (pr_thread_list (procs s cur))) - PAGE_SIZE) PAGE_SIZE\<rparr>;
         let (ok, s) = build_heap t (pr_pdir (procs s cur)) (pr_threads (procs s cur) + 1) s;
         if \<not> ok then fail_thread t s
         else do {
           let s = s\<lparr>ram := memcpy (ram s) (th_heap (threads s t))
                     (th_heap (threads s (pr_thread_list (procs s cur)))) PAGE_SIZE\<rparr>;
           let s = upd_proc cur (\<lambda>p. p\<lparr>pr_threads := pr_threads p + 1\<rparr>) s;
           let s = link_thread (pr_thread_list (procs s cur)) t s;
           if pr_thread_list (procs s cur) = parent then
             let s = upd_thread t (th_state_update (\<lambda>_. PROC_ACTIVE)) s
             in Some (th_pid (threads s t), enable_int (sched_state 1 s))
           else Some (0, s)
         }
       }
     }
   }"

definition no_process :: "'a proc_state_scheme \<Rightarrow> 'a proc_state_scheme" where
  "no_process s = enable_int (sched_state 1 (kprint (''Process not found'' @ NL) [] s))"

definition end_proc :: "u32 \<Rightarrow> 'a proc_state_scheme \<Rightarrow> 'a proc_state_scheme" where
  "end_proc ret s =
     (let s = sched_state 0 s; cur = get_cur_proc s in
      if cur = 0 then no_process s
      else
        let s = (if ret \<noteq> 0 then kprint (''Process %d returned with error: %d'' @ NL)
                   [th_pid (threads s (pr_thread_list (procs s cur))), ret] s else s);
            s = upd_proc cur (pr_state_update (\<lambda>_. PROC_STOPPED)) s
        in enable_int (sched_state 1 s))"

definition unmap_thread :: "u32 \<Rightarrow> thread \<Rightarrow> 'a vmm_state_scheme \<Rightarrow> 'a vmm_state_scheme" where
  "unmap_thread pdir x s =
     (let s = vmm_unmap pdir (th_stack_limit x - PAGE_SIZE) s;
          s = vmm_unmap pdir (th_stack_kernel_limit x - PAGE_SIZE) s
      in fold (\<lambda>i. vmm_unmap pdir (th_heap x + of_nat i * PAGE_SIZE)) [0..<4] s)"

definition stop_thread :: "u32 \<Rightarrow> 'a proc_state_scheme \<Rightarrow> 'a proc_state_scheme option" where
  "stop_thread code s =
     (let s = sched_state 0 s; cur = get_cur_proc s in
      if cur = 0 then Some (no_process s)
      else if th_main (threads s (pr_thread_list (procs s cur))) = 1 then Some (end_proc code s)
      else do {
        let t = pr_thread_list (procs s cur);
        let s = unlink_thread t s;
        let s = unmap_thread (pr_pdir (procs s cur)) (threads s t) s;
        s \<leftarrow> kfree t s;
        Some (enable_int (sched_state 1 s))
      })"

section \<open>Stacks\<close>

lemma upd_thread_mm [simp]:
  "two_ok d e (upd_thread t f s) = two_ok d e s" "kern_dir (upd_thread t f s) = kern_dir s"
  "free_blocks (upd_thread t f s) = free_blocks s" "free_tables (upd_thread t f s) = free_tables s"
  "pmm_used (upd_thread t f s) n = pmm_used s n" "pmm_frames (upd_thread t f s) = pmm_frames s"
  "get_phys_addr (upd_thread t f s) d w = get_phys_addr s d w" "ram (upd_thread t f s) = ram s"
  by (simp_all add: upd_thread_def two_ok_def vm_ok_def pg_ok_def pg_used_def dirs_apart_def pmm_ok_def
      pmm_apart_def pmm_area_def pmm_used_def free_blocks_def free_tables_def pmm_frames_def get_phys_addr_def pde_def)

lemma upd_thread_threads [simp]:
  "threads (upd_thread t f s) = (threads s)(t := f (threads s t))" "procs (upd_thread t f s) = procs s"
  by (simp_all add: upd_thread_def)

text \<open>C29: while blocks and frames for tables are free, \<open>build_stack\<close> gives a thread two pages: the
  user stack behind the image and the threads before it, and the kernel stack behind it; both
  directories translate each page to the same fresh frame, the two frames differ, and no other
  translation changes.\<close>
theorem build_stack_maps:
  assumes "two_ok (kern_dir s) pdir s" "2 \<le> free_blocks s" "4 \<le> free_tables s"
    "a = th_image_base (threads s t) + th_image_size (threads s t) + PAGE_SIZE * 6 * n"
  shows "\<exists>s' k1 k2. build_stack t pdir n s = (True, s') \<and> two_ok (kern_dir s) pdir s'
    \<and> th_esp (threads s' t) = a \<and> th_stack_limit (threads s' t) = a + PAGE_SIZE
    \<and> th_esp_kernel (threads s' t) = a + PAGE_SIZE \<and> th_stack_kernel_limit (threads s' t) = a + PAGE_SIZE + PAGE_SIZE
    \<and> k1 \<noteq> k2 \<and> {k1, k2} \<subseteq> {k \<in> pmm_frames s. \<not> pmm_used s k}
    \<and> (\<forall>d \<in> {kern_dir s, pdir}. \<forall>w. get_phys_addr s' d w =
         (if drop_bit 12 w = drop_bit 12 a then frame_addr k1
          else if drop_bit 12 w = drop_bit 12 (a + PAGE_SIZE) then frame_addr k2 else get_phys_addr s d w))"
proof -
  define s0 where "s0 = upd_thread t (\<lambda>x. x\<lparr>th_stack_limit := th_esp x + PAGE_SIZE\<rparr>)
    (upd_thread t (\<lambda>x. x\<lparr>th_esp := th_image_base x + th_image_size x + PAGE_SIZE * 6 * n\<rparr>) s)"
  have s0: "two_ok (kern_dir s0) pdir s0" "1 \<le> free_blocks s0" "2 \<le> free_tables s0" "kern_dir s0 = kern_dir s"
    "th_esp (threads s0 t) = a" "th_stack_limit (threads s0 t) = a + PAGE_SIZE" "free_blocks s0 = free_blocks s" "free_tables s0 = free_tables s"
    "pmm_frames s0 = pmm_frames s" "pmm_used s0 k = pmm_used s k" "get_phys_addr s0 d w = get_phys_addr s d w" for d w k
    using assms by (simp_all add: s0_def)
  obtain k1 s1 where s1: "map_both pdir a a s0 = (True, s1)" "two_ok (kern_dir s0) pdir s1" "kern_dir s1 = kern_dir s0"
    "k1 \<in> pmm_frames s0" "\<not> pmm_used s0 k1" "k1 < 2 ^ 20" "\<And>j. j < 2 ^ 20 \<Longrightarrow> pmm_used s1 j \<longleftrightarrow> j = k1 \<or> pmm_used s0 j"
    "pmm_frames s1 = pmm_frames s0" "free_blocks s0 \<le> free_blocks s1 + 1" "free_tables s0 \<le> free_tables s1 + 2"
    "\<And>w. get_phys_addr s1 (kern_dir s0) w = (if drop_bit 12 w = drop_bit 12 a then frame_addr k1 else get_phys_addr s0 (kern_dir s0) w)"
    "\<And>w. get_phys_addr s1 pdir w = (if drop_bit 12 w = drop_bit 12 a
       then get_phys_addr s1 (kern_dir s0) a AND NOT 0xFFF else get_phys_addr s0 pdir w)"
    "s1 = s0\<lparr>pmm := pmm s1, ram := ram s1, pg_used_blocks := pg_used_blocks s1\<rparr>"
    by (rule map_both_count [OF s0(1-3)]) (rule that)
  have t1: "threads s1 = threads s0" by (subst s1(13)) simp
  define s2 where "s2 = upd_thread t (\<lambda>x. x\<lparr>th_stack_kernel_limit := th_esp_kernel x + PAGE_SIZE\<rparr>)
    (upd_thread t (\<lambda>x. x\<lparr>th_esp_kernel := th_stack_limit x\<rparr>) s1)"
  let ?b = "a + PAGE_SIZE"
  have s2: "two_ok (kern_dir s2) pdir s2" "1 \<le> free_blocks s2" "2 \<le> free_tables s2" "kern_dir s2 = kern_dir s"
    "th_esp_kernel (threads s2 t) = ?b" "th_stack_kernel_limit (threads s2 t) = ?b + PAGE_SIZE"
    "th_esp (threads s2 t) = a" "th_stack_limit (threads s2 t) = ?b"
    "pmm_frames s2 = pmm_frames s" "pmm_used s2 k = pmm_used s1 k" "get_phys_addr s2 d w = get_phys_addr s1 d w" for d w k
    using assms s0 s1(2,3,8-10) t1 by (simp_all add: s2_def)
  obtain k2 s3 where s3: "map_both pdir ?b ?b s2 = (True, s3)" "two_ok (kern_dir s2) pdir s3" "kern_dir s3 = kern_dir s2"
    "k2 \<in> pmm_frames s2" "\<not> pmm_used s2 k2" "k2 < 2 ^ 20" "\<And>j. j < 2 ^ 20 \<Longrightarrow> pmm_used s3 j \<longleftrightarrow> j = k2 \<or> pmm_used s2 j"
    "pmm_frames s3 = pmm_frames s2" "free_blocks s2 \<le> free_blocks s3 + 1" "free_tables s2 \<le> free_tables s3 + 2"
    "\<And>w. get_phys_addr s3 (kern_dir s2) w = (if drop_bit 12 w = drop_bit 12 ?b then frame_addr k2 else get_phys_addr s2 (kern_dir s2) w)"
    "\<And>w. get_phys_addr s3 pdir w = (if drop_bit 12 w = drop_bit 12 ?b
       then get_phys_addr s3 (kern_dir s2) ?b AND NOT 0xFFF else get_phys_addr s2 pdir w)"
    "s3 = s2\<lparr>pmm := pmm s3, ram := ram s3, pg_used_blocks := pg_used_blocks s3\<rparr>"
    by (rule map_both_count [OF s2(1-3)]) (rule that)
  have t3: "threads s3 = threads s2" by (subst s3(13)) simp
  have eq: "build_stack t pdir n s = (True, s3)"
    unfolding build_stack_def Let_def s0_def [symmetric] s0(5) s1(1) prod.case not_True_eq_False if_False
      s2_def [symmetric] s2(5) by (rule s3(1))
  have ne: "drop_bit 12 a \<noteq> drop_bit 12 ?b" using page_step_inj [of 0 1 a] by auto
  have k: "k1 \<noteq> k2" "\<not> pmm_used s k2" using s3(4-6) s2(10) s1(7) s0(10) by auto
  have tr: "get_phys_addr s3 d w = (if drop_bit 12 w = drop_bit 12 a then frame_addr k1
          else if drop_bit 12 w = drop_bit 12 ?b then frame_addr k2 else get_phys_addr s d w)"
    if "d \<in> {kern_dir s, pdir}" for d w
    using that ne s0(4,11) s1(11,12) s2(4,11) s3(11,12) frame_addr_page by auto
  show ?thesis
    by (rule exI [of _ s3], rule exI [of _ k1], rule exI [of _ k2])
      (use eq s3(2,4) s2(4-9) t3 k s1(4,5) s0(9,10) tr in auto)
qed

text \<open>The words of a stack from its pointer upwards.\<close>

definition stack_words :: "mem \<Rightarrow> u32 \<Rightarrow> nat \<Rightarrow> u32 list" where
  "stack_words m sp n = map (\<lambda>i. read32 m (sp + 4 * of_nat i)) [0..<n]"

lemma stack_words_cong:
  assumes "\<forall>x \<in> region sp (4 * n). m' x = m x" "4 * n < 2 ^ 32"
  shows "stack_words m' sp n = stack_words m sp n"
  unfolding stack_words_def
proof (rule map_cong [OF refl])
  fix i assume "i \<in> set [0..<n]"
  then have "region (sp + of_nat (4 * i)) 4 \<subseteq> region sp (4 * n)" using assms(2) by (intro region_off) auto
  then show "read32 m' (sp + 4 * of_nat i) = read32 m (sp + 4 * of_nat i)"
    using assms(1) by (intro read32_cong) auto
qed

text \<open>Pushing words leaves them at the stack pointer, the last one lowest, and writes nothing else.\<close>

lemma push_words:
  assumes "4 * length ws < 2 ^ 32"
  shows "\<exists>m'. fold push32 ws (sp, m) = (sp - of_nat (4 * length ws), m')
    \<and> stack_words m' (sp - of_nat (4 * length ws)) (length ws) = rev ws
    \<and> (\<forall>x. x \<notin> region (sp - of_nat (4 * length ws)) (4 * length ws) \<longrightarrow> m' x = m x)"
  using assms
proof (induction ws rule: rev_induct)
  case (snoc w ws)
  let ?n = "length ws" and ?sp = "sp - of_nat (4 * length ws)"
  have ulen: "length (user_frame argc argv) = 3" by (simp add: user_frame_def)
  obtain m1 where m1: "fold push32 ws (sp, m) = (?sp, m1)" "stack_words m1 ?sp ?n = rev ws"
      "\<forall>x. x \<notin> region ?sp (4 * ?n) \<longrightarrow> m1 x = m x"
    using snoc by auto
  have sp: "sp - of_nat (4 * length (ws @ [w])) = ?sp - 4" by simp
  let ?m' = "write32 m1 (?sp - 4) w"
  have sub: "region ?sp (4 * ?n) \<subseteq> region (?sp - 4) (4 * Suc ?n)"
    using region_off [of 4 "4 * ?n" "4 * Suc ?n" "?sp - 4"] snoc.prems by simp
  have low: "region (?sp - 4) 4 \<subseteq> region (?sp - 4) (4 * Suc ?n)" by (rule region_mono) simp
  have dis: "region (?sp - 4) 4 \<inter> region ?sp (4 * ?n) = {}"
    using region_next [of 4 "4 * ?n" "?sp - 4"] snoc.prems by simp
  have "stack_words ?m' ?sp ?n = stack_words m1 ?sp ?n"
    using dis snoc.prems by (intro stack_words_cong) (auto intro: write32_outside)
  moreover have "stack_words ?m' (?sp - 4) (Suc ?n) = read32 ?m' (?sp - 4) # stack_words ?m' ?sp ?n"
    unfolding stack_words_def upt_conv_Cons [OF zero_less_Suc] map_Suc_upt [symmetric]
    by (simp add: algebra_simps del: upt_Suc)
  ultimately have "stack_words ?m' (?sp - 4) (Suc ?n) = rev (ws @ [w])" using m1(2) by simp
  moreover have "\<forall>x. x \<notin> region (?sp - 4) (4 * Suc ?n) \<longrightarrow> ?m' x = m x"
  proof (intro allI impI)
    fix x assume "x \<notin> region (?sp - 4) (4 * Suc ?n)"
    then have "x \<notin> region (?sp - 4) 4" "x \<notin> region ?sp (4 * ?n)" using sub low by blast+
    then show "?m' x = m x" using m1(3) by (simp add: write32_outside)
  qed
  moreover have "fold push32 (ws @ [w]) (sp, m) = (?sp - 4, ?m')" using m1(1) by (simp add: push32_def)
  ultimately show ?case unfolding sp by (intro exI [of _ ?m']) simp
qed (simp add: stack_words_def)

text \<open>C30: after \<open>stack_fill\<close> the user stack holds the return address, \<open>argc\<close> and \<open>argv\<close>, and the kernel
  stack, from its pointer upwards, the frame that the return from the scheduler pops: segment
  registers, the stack limit as \<open>ebp\<close>, six zero registers, then entry point, user code segment,
  flags, user stack pointer and user data segment for \<open>iret\<close>.\<close>
theorem stack_fill_frames:
  fixes s :: "'a proc_state_scheme" and t :: u32
  defines "x \<equiv> threads s t" and "usp \<equiv> th_stack_limit (threads s t) - 12" and "ksp \<equiv> th_stack_kernel_limit (threads s t) - 64"
  defines "stacks \<equiv> region usp 12 \<union> region ksp 64"
  assumes "region usp 12 \<inter> region ksp 64 = {}" "region (pde_at (kern_dir s) usp) 4 \<inter> stacks = {}"
    "region (pte_at (pde s (kern_dir s) usp) usp) 4 \<inter> stacks = {}"
  shows "case stack_fill t argc argv s of (r, s') \<Rightarrow> r = 1
    \<and> th_esp (threads s' t) = usp \<and> th_esp_kernel (threads s' t) = ksp
    \<and> stack_words (ram s') usp 3 = [RETURN_ADDR, argc, argv]
    \<and> stack_words (ram s') ksp 16 = [0x23, 0x23, 0x23, 0x23, th_stack_limit x, 0, 0, 0, 0, 0, 0,
         th_eip x, 0x1B, 0x202, usp, 0x23]"
proof -
  have ulen: "length (user_frame argc argv) = 3" by (simp add: user_frame_def)
  obtain m1 where m1: "fold push32 (user_frame argc argv) (th_stack_limit x, ram s) = (usp, m1)"
      "stack_words m1 usp 3 = [RETURN_ADDR, argc, argv]" "\<And>y. y \<notin> region usp 12 \<Longrightarrow> m1 y = ram s y"
    using push_words [of "user_frame argc argv" "th_stack_limit x" "ram s"]
    unfolding ulen by (auto simp: usp_def x_def) (auto simp: user_frame_def)
  define s1 where "s1 = upd_thread t (th_esp_update (\<lambda>_. usp)) (s\<lparr>ram := m1\<rparr>)"
  have t1: "threads s1 t = x\<lparr>th_esp := usp\<rparr>" "ram s1 = m1" "kern_dir s1 = kern_dir s"
    by (simp_all add: s1_def upd_thread_def x_def)
  let ?frame = "kernel_frame (x\<lparr>th_esp := usp\<rparr>)"
  have len: "length ?frame = 16" by (simp add: kernel_frame_def)
  obtain m2 where m2: "fold push32 ?frame (th_stack_kernel_limit x, m1) = (ksp, m2)"
      "stack_words m2 ksp 16 = rev ?frame" "\<And>y. y \<notin> region ksp 64 \<Longrightarrow> m2 y = m1 y"
    using push_words [of ?frame "th_stack_kernel_limit x" m1] unfolding len by (auto simp: ksp_def x_def)
  define s2 where "s2 = upd_thread t (th_esp_kernel_update (\<lambda>_. ksp)) (s1\<lparr>ram := m2\<rparr>)"
  have t2: "threads s2 t = x\<lparr>th_esp := usp, th_esp_kernel := ksp\<rparr>" "ram s2 = m2" "kern_dir s2 = kern_dir s"
    by (simp_all add: s2_def upd_thread_def t1)
  have keep: "m2 y = ram s y" if "y \<notin> stacks" for y
    using that m1(3) m2(3) by (simp add: stacks_def)
  have pde: "pde s2 (kern_dir s) usp = pde s (kern_dir s) usp"
    unfolding pde_def t2(2) using assms(6) keep by (intro read32_cong) auto
  define s3 where "s3 = vmm_unmap_phys (kern_dir s) usp s2"
  have t3: "threads s3 = threads s2" by (simp add: s3_def vmm_unmap_phys_def set_pte_def)
  have r3: "ram s3 y = m2 y" if "y \<in> stacks" for y
  proof -
    have "y \<notin> region (pte_at (pde s (kern_dir s) usp) usp) 4" using that assms(7) by blast
    then show ?thesis by (simp add: s3_def vmm_unmap_phys_def set_pte_def pde t2(2) write32_outside)
  qed
  have "stack_words (ram s3) ksp 16 = stack_words m2 ksp 16"
    using r3 by (intro stack_words_cong) (simp_all add: stacks_def)
  moreover have "stack_words (ram s3) usp 3 = stack_words m1 usp 3"
    using r3 m2(3) assms(5) by (intro stack_words_cong) (auto simp: stacks_def)
  moreover have "stack_fill t argc argv s = (1, s3)"
    using m1(1) m2(1) by (simp add: stack_fill_def Let_def x_def [symmetric] s1_def [symmetric] t1 s2_def [symmetric]
      t2 get_kern_directory_def s3_def)
  ultimately show ?thesis using m1(2) m2(2) t3 t2(1) by (simp add: kernel_frame_def)
qed

section \<open>Starting and stopping\<close>

text \<open>The insertion of \<open>start_thread\<close> puts the new thread into the ring right behind the running
  one, and the removal of \<open>stop_thread\<close> takes it out again.\<close>
theorem thread_links:
  assumes "ring_of (thread_next s) (thread_prec s) (p # ps)" "t \<notin> set (p # ps)"
  shows "ring_of (thread_next (link_thread p t s)) (thread_prec (link_thread p t s)) (p # t # ps)
    \<and> ring_of (thread_next (unlink_thread t (link_thread p t s))) (thread_prec (unlink_thread t (link_thread p t s))) (p # ps)"
proof -
  let ?s1 = "set_th_prec t p s"
  let ?s2 = "set_th_next t (thread_next ?s1 p) ?s1"
  let ?s3 = "set_th_prec (thread_next ?s2 p) t ?s2"
  have "thread_next ?s2 p = thread_next ?s2 t"
    using assms(2) by (auto simp: set_th_next_def set_th_prec_def upd_thread_def)
  then have "?s3 = set_th_prec (thread_next ?s2 t) t ?s2" by simp
  from thread_ring.insert_after [OF assms refl refl this refl]
  have l: "ring_of (thread_next (link_thread p t s)) (thread_prec (link_thread p t s)) (p # t # ps)"
    by (simp add: link_thread_def Let_def)
  let ?l = "link_thread p t s"
  have "ring_of (thread_next ?l) (thread_prec ?l) (t # ps @ [p])"
    using ring_rotate [OF l] by simp
  moreover obtain q qs where q: "ps @ [p] = q # qs" by (cases "ps @ [p]") auto
  ultimately have "ring_of (thread_next (unlink_thread t ?l)) (thread_prec (unlink_thread t ?l)) (q # qs)"
    unfolding unlink_thread_def Let_def by (intro thread_ring.delete_prv_first(1) [OF _ refl refl]) simp
  then have "ring_of (thread_next (unlink_thread t ?l)) (thread_prec (unlink_thread t ?l)) (p # [] @ ps)"
    unfolding q [symmetric] by (intro ring_rotate_to) simp
  with l show ?thesis by simp
qed

lemma vmm_unmap_more [simp]:
  "threads (vmm_unmap d v s) = threads (s :: 'a proc_state_scheme)" "procs (vmm_unmap d v s) = procs s"
  "proc_list (vmm_unmap d v s) = proc_list s"
  by (simp_all add: vmm_unmap_def set_pte_def pmm_free_def pmm_unset_bit_def pmm_add_used_def kprint_def Let_def)

lemma unmap_thread_more [simp]:
  "threads (unmap_thread d x s) = threads (s :: 'a proc_state_scheme)" "procs (unmap_thread d x s) = procs s"
  "proc_list (unmap_thread d x s) = proc_list s"
  by (simp_all add: unmap_thread_def Let_def numeral_eq_Suc)

lemma kfree_more:
  assumes "kfree p s = Some s'"
  shows "threads s' = threads (s :: 'a proc_state_scheme)" "procs s' = procs s" "proc_list s' = proc_list s"
  using assms by (auto simp: kfree_def kheap_add_used_def Let_def split: if_splits bind_splits)

text \<open>A thread that ends leaves its process's ring, but the process keeps the pointer to it and the old count of
  threads.\<close>

lemma stop_thread_ring:
  assumes "stop_thread code s = Some s'" "proc_list s = cur" "cur \<noteq> 0" "pr_thread_list (procs s cur) = t"
    "th_main (threads s t) \<noteq> 1" "ring_of (thread_next s) (thread_prec s) (t # q # qs)"
  shows "ring_of (thread_next s') (thread_prec s') (q # qs) \<and> pr_thread_list (procs s' cur) = t
    \<and> t \<notin> set (q # qs) \<and> pr_threads (procs s' cur) = pr_threads (procs s cur)"
proof -
  define s1 where "s1 = unlink_thread t (sched_state 0 s)"
  define s2 where "s2 = unmap_thread (pr_pdir (procs s1 cur)) (threads s1 t) s1"
  have "procs s1 = procs s" by (simp add: s1_def unlink_thread_def set_th_next_def set_th_prec_def upd_thread_def Let_def)
  moreover have "kfree t s2 \<noteq> None" and s': "\<And>x. kfree t s2 = Some x \<Longrightarrow> s' = enable_int (sched_state 1 x)"
    using assms(1-5) by (auto simp: stop_thread_def Let_def get_cur_proc_def s1_def s2_def split: bind_splits)
  then obtain s3 where s3: "kfree t s2 = Some s3" "s' = enable_int (sched_state 1 s3)" by blast
  have more: "threads s' = threads s1" "procs s' = procs s1"
    using kfree_more [OF s3(1)] by (simp_all add: s3(2) enable_int_def s2_def)
  have "ring_of (thread_next s1) (thread_prec s1) (q # qs)"
    unfolding s1_def unlink_thread_def Let_def
    by (rule thread_ring.delete_prv_first(1) [OF _ refl refl]) (use assms(6) in simp)
  then show ?thesis using more \<open>procs s1 = procs s\<close> assms(4,6) by (auto simp: ring_of_def)
qed

section \<open>Witnesses\<close>

text \<open>Process \<open>0x10\<close> with the threads \<open>0x100\<close> (main), running, and \<open>0x300\<close>, over two empty directories.\<close>

definition demo_space :: proc_state where
  "demo_space = demo_sched\<lparr>ram := ram demo_two, pmm := pmm demo_two, pg_bitmap := pg_bitmap demo_two,
     kern_dir := 0x10000,
     threads := (threads demo_sched)(0x100 := (demo_thread 1 0x300)\<lparr>th_main := 0, th_image_base := 0x800000,
       th_stack_limit := 0x805000, th_stack_kernel_limit := 0x806000\<rparr>, 0x300 := demo_thread 3 0x100)\<rparr>"

lemma demo_space_simps:
  "ram demo_space = ram demo_two" "pmm demo_space = pmm demo_two" "pg_bitmap demo_space = pg_bitmap demo_two"
  "kern_dir demo_space = 0x10000" "proc_list demo_space = 0x10" "procs demo_space = procs demo_sched"
  "threads demo_space = (threads demo_sched)(0x100 := (demo_thread 1 0x300)\<lparr>th_main := 0, th_image_base := 0x800000,
       th_stack_limit := 0x805000, th_stack_kernel_limit := 0x806000\<rparr>, 0x300 := demo_thread 3 0x100)"
  by (simp_all add: demo_space_def demo_sched_simps)

lemma demo_space_two: "two_ok 0x10000 0x11000 demo_space" "63 \<le> free_blocks demo_space" "free_tables demo_space = 512"
  using demo_two_ok demo_two_counts
  by (simp_all add: demo_space_simps two_ok_def vm_ok_def pg_ok_def pg_used_def dirs_apart_def pmm_ok_def
      pmm_apart_def pmm_area_def pmm_used_def free_blocks_def free_tables_def pmm_frames_def)

theorem build_stack_maps_witness:
  "\<exists>s' k. build_stack 0x100 0x11000 0 demo_space = (True, s')
    \<and> get_phys_addr s' 0x11000 0x800004 = frame_addr k \<and> get_phys_addr s' 0x10000 0x800004 = frame_addr k"
proof -
  have "drop_bit 12 (0x800004 :: u32) = 0x800" by simp
  then show ?thesis
    using build_stack_maps [of demo_space "0x11000" "0x800000" "0x100" 0] demo_space_two
    by (auto simp: demo_space_simps demo_thread_def)
qed

lemma demo_space_pde: "pde demo_space 0x10000 v = 0"
  using demo_two_empty [of "0x10000" "pd_index v"] by (simp add: slot_pde demo_space_simps)

theorem stack_fill_frames_witness:
  "case stack_fill 0x100 1 2 demo_space of (r, s') \<Rightarrow> r = 1 \<and> stack_words (ram s') 0x804FF4 3 = [RETURN_ADDR, 1, 2]"
proof -
  have "pde_at 0x10000 0x804FF4 = 0x10008" "pte_at 0 0x804FF4 = 0x10"
    by (simp_all add: pde_at_def pte_at_def pd_index_def pt_index_def)
  then show ?thesis
    using stack_fill_frames [of demo_space "0x100" 1 2]
    by (auto simp: demo_space_simps demo_space_pde region_apart Int_Un_distrib)
qed

theorem thread_links_witness:
  "ring_of (thread_next (link_thread 0x100 0x400 demo_space)) (thread_prec (link_thread 0x100 0x400 demo_space)) [0x100, 0x400, 0x300]"
proof -
  have "ring_of (thread_next demo_space) (thread_prec demo_space) [0x100, 0x300]"
    by (simp add: ring_of_def demo_space_simps demo_thread_def)
  from thread_links [OF this, of "0x400"] show ?thesis by simp
qed

end
