(* ===== verification/Elf.thy ===== *)
theory Elf
  imports Vfs Thread
begin

text \<open>
  The loader of executables, \<open>proc/elf.c\<close>: validation of the header, reading the file into memory
  at a fixed address, and copying its segments to their addresses in a new address space.
\<close>

definition MEMORY_LOAD_ADDRESS :: u32 where "MEMORY_LOAD_ADDRESS = 0x700000"
definition ELF_X86 :: u32 where "ELF_X86 = 0x3"
definition ELF_LITTLE_ENDIAN :: u32 where "ELF_LITTLE_ENDIAN = 1"
definition ELF_32BIT :: u32 where "ELF_32BIT = 1"

section \<open>Headers\<close>

definition eh_arch :: "mem \<Rightarrow> u32 \<Rightarrow> u32" where "eh_arch m eh = ucast (m (eh + 4))"
definition eh_machine :: "mem \<Rightarrow> u32 \<Rightarrow> u32" where "eh_machine m eh = ucast (m (eh + 5))"
definition eh_instruction_set :: "mem \<Rightarrow> u32 \<Rightarrow> u32" where "eh_instruction_set m eh = ucast (read16 m (eh + 18))"
definition eh_elf_version2 :: "mem \<Rightarrow> u32 \<Rightarrow> u32" where "eh_elf_version2 m eh = read32 m (eh + 20)"
definition eh_entry :: "mem \<Rightarrow> u32 \<Rightarrow> u32" where "eh_entry m eh = read32 m (eh + 24)"
definition eh_program_header :: "mem \<Rightarrow> u32 \<Rightarrow> u32" where "eh_program_header m eh = read32 m (eh + 28)"
definition eh_entry_number :: "mem \<Rightarrow> u32 \<Rightarrow> nat" where "eh_entry_number m eh = unat (read16 m (eh + 44))"

definition p_type :: "mem \<Rightarrow> u32 \<Rightarrow> u32" where "p_type m ph = read32 m ph"
definition p_offset :: "mem \<Rightarrow> u32 \<Rightarrow> u32" where "p_offset m ph = read32 m (ph + 4)"
definition p_vaddr :: "mem \<Rightarrow> u32 \<Rightarrow> u32" where "p_vaddr m ph = read32 m (ph + 8)"
definition p_file_size :: "mem \<Rightarrow> u32 \<Rightarrow> u32" where "p_file_size m ph = read32 m (ph + 16)"
definition p_mem_size :: "mem \<Rightarrow> u32 \<Rightarrow> u32" where "p_mem_size m ph = read32 m (ph + 20)"

definition elf_validate :: "u32 \<Rightarrow> 'a pmm_state_scheme \<Rightarrow> u32 \<times> 'a pmm_state_scheme" where
  "elf_validate eh s = (let m = ram s in
     if eh = 0 then (0, s)
     else if \<not> (m eh = 0x7F \<and> m (eh + 1) = of_char CHR ''E'' \<and> m (eh + 2) = of_char CHR ''L''
                 \<and> m (eh + 3) = of_char CHR ''F'')
     then (0, kprint (''Magic number wrong'' @ NL) [] s)
     else if eh_instruction_set m eh \<noteq> ELF_X86 then (0, kprint (''Not an x86 executable'' @ NL) [] s)
     else if eh_arch m eh \<noteq> ELF_32BIT then (0, kprint (''Not a 32 bit executable'' @ NL) [] s)
     else if eh_machine m eh \<noteq> ELF_LITTLE_ENDIAN then (0, kprint (''Not a little endian executable'' @ NL) [] s)
     else if eh_elf_version2 m eh \<noteq> 1 then (0, kprint (''Wrong ELF version'' @ NL) [] s)
     else (1, s))"

section \<open>Reading the file\<close>

text \<open>A page is mapped before every eighth sector; \<open>j\<close> counts sectors, \<open>n\<close> pages.\<close>

partial_function (option) load_loop :: "u32 \<Rightarrow> u32 \<Rightarrow> u32 \<Rightarrow> 'a fs_state_scheme \<Rightarrow> (u32 \<times> 'a fs_state_scheme) option" where
  "load_loop f j n s =
     (if f_eof (files s f) \<noteq> 1 then
        let (ok, s) = (if (j + 8) mod 8 = 0
              then vmm_map (get_kern_directory s) (MEMORY_LOAD_ADDRESS + j * 512) KERNEL_FLAGS s else (1, s))
        in if ok = 0 then Some (- 1, kprint ''Error mapping memory'' [] s)
        else do {
          s \<leftarrow> vfs_file_read f (MEMORY_LOAD_ADDRESS + j * 512) s;
          load_loop f (j + 1) (if (j + 8) mod 8 = 0 then n + 1 else n) s
        }
      else do { s \<leftarrow> vfs_file_close f s; Some (n, s) })"

definition load_elf_file ::
  "(string \<Rightarrow> u32) \<Rightarrow> fs_file \<Rightarrow> char_array \<Rightarrow> u32 \<Rightarrow> 'a fs_state_scheme \<Rightarrow> (u32 \<times> 'a fs_state_scheme) option"
where
  "load_elf_file ld f0 junk name s = do {
     (f, s) \<leftarrow> vfs_file_open ld f0 junk name (ld ''r'') s;
     if f_type (files s f) = FS_NULL \<or> f_type (files s f) = FS_DIR
     then Some (0, kprint (''Failed opening file'' @ NL) [] s)
     else load_loop f 0 0 s
   }"

section \<open>Relocation\<close>

fun map_segment :: "nat list \<Rightarrow> u32 \<Rightarrow> u32 \<Rightarrow> 'a vmm_state_scheme \<Rightarrow> bool \<times> 'a vmm_state_scheme" where
  "map_segment [] pdir vaddr s = (True, s)"
| "map_segment (j # js) pdir vaddr s =
     (let (ok, s) = map_both pdir (vaddr + of_nat j * PAGE_SIZE) vaddr s
      in if ok then map_segment js pdir vaddr s else (False, kprint ''Error mapping memory'' [] s))"

definition seg_pages :: "u32 \<Rightarrow> nat list" where
  "seg_pages file_size = [0..<unat (file_size div PAGE_SIZE) + 1]"

text \<open>One segment; the result is false when its pages cannot be mapped.\<close>

definition load_segment :: "u32 \<Rightarrow> u32 \<Rightarrow> 'a vmm_state_scheme \<Rightarrow> bool \<times> 'a vmm_state_scheme" where
  "load_segment pdir ph s =
     (let vaddr = p_vaddr (ram s) ph; fsize = p_file_size (ram s) ph;
          (ok, s) = map_segment (seg_pages fsize) pdir vaddr s
      in if \<not> ok then (False, s)
      else
        let s = s\<lparr>ram := memcpy (ram s) (p_vaddr (ram s) ph) (MEMORY_LOAD_ADDRESS + p_offset (ram s) ph) (p_file_size (ram s) ph)\<rparr>;
            s = s\<lparr>ram := memset (ram s) (p_vaddr (ram s) ph + p_file_size (ram s) ph) 0
                   (p_mem_size (ram s) ph - p_file_size (ram s) ph)\<rparr>
        in (True, fold (\<lambda>j s. vmm_unmap_phys (get_kern_directory s) (p_vaddr (ram s) ph + of_nat j * PAGE_SIZE) s)
              (seg_pages (p_file_size (ram s) ph)) s))"

text \<open>The loop over the program headers; \<open>last\<close> is the last one loaded, indeterminate at first.\<close>

partial_function (option) load_segments :: "nat \<Rightarrow> u32 \<Rightarrow> u32 \<Rightarrow> u32 \<Rightarrow> nat option \<Rightarrow> 'a vmm_state_scheme
    \<Rightarrow> ((bool \<times> nat option) \<times> 'a vmm_state_scheme) option" where
  "load_segments i eh ph pdir lst s =
     (if i < eh_entry_number (ram s) eh then
        let p = ph + 32 * of_nat i in
        if p_type (ram s) p = 1 \<and> p_mem_size (ram s) p \<noteq> 0 then
          let (ok, s) = load_segment pdir p s
          in if ok then load_segments (i + 1) eh ph pdir (Some i) s else Some ((False, lst), s)
        else load_segments (i + 1) eh ph pdir lst s
      else Some ((True, lst), s))"

partial_function (option) round_up :: "u32 \<Rightarrow> u32 option" where
  "round_up x = (if x mod PAGE_SIZE \<noteq> 0 then round_up (x + 1) else Some x)"

definition load_elf_relocate :: "u32 \<Rightarrow> u32 \<Rightarrow> u32 \<Rightarrow> 'a proc_state_scheme \<Rightarrow> (u32 \<times> 'a proc_state_scheme) option" where
  "load_elf_relocate t pdir eh s = do {
     let ph = eh + eh_program_header (ram s) eh;
     let s = upd_thread t (\<lambda>x. x\<lparr>th_eip := eh_entry (ram s) eh\<rparr>) s;
     let s = upd_thread t (\<lambda>x. x\<lparr>th_image_base := p_vaddr (ram s) ph\<rparr>) s;
     ((ok, lst), s) \<leftarrow> load_segments 0 eh ph pdir None s;
     if \<not> ok then Some (0, s)
     else do {
       l \<leftarrow> lst;
       let p = ph + 32 * of_nat l;
       let x = threads s t;
       n \<leftarrow> round_up (p_vaddr (ram s) p + p_mem_size (ram s) p - th_eip x);
       Some (1, upd_thread t (th_image_size_update (\<lambda>_. n)) s)
     }
   }"

section \<open>The loader\<close>

definition load_elf ::
  "(string \<Rightarrow> u32) \<Rightarrow> fs_file \<Rightarrow> char_array \<Rightarrow> u32 \<Rightarrow> u32 \<Rightarrow> u32 \<Rightarrow> 'a fs_state_scheme \<Rightarrow> (u32 \<times> 'a fs_state_scheme) option"
where
  "load_elf ld f0 junk name t pdir s = do {
     (file_size, s) \<leftarrow> load_elf_file ld f0 junk name s;
     if file_size = 0 then Some (0, kprint (''Error loading file'' @ NL) [] s)
     else
       let eh = MEMORY_LOAD_ADDRESS; (ok, s) = elf_validate eh s
       in if ok = 0 then Some (0, kprint (''Failed validating elf'' @ NL) [] s)
       else do {
         (ok, s) \<leftarrow> load_elf_relocate t pdir eh s;
         if ok = 0 then Some (0, kprint (''Error relocating'' @ NL) [] s)
         else Some (1, fold (\<lambda>i s. vmm_unmap (get_kern_directory s) (MEMORY_LOAD_ADDRESS + of_nat i * PAGE_SIZE) s)
                [0..<unat file_size] s)
       }
   }"

section \<open>Validation\<close>

text \<open>A header is accepted exactly when it is not NULL, starts with the ELF magic number, and
  names a 32-bit little-endian x86 executable of version 1; memory is unchanged.\<close>
theorem elf_validate_accepts:
  "(fst (elf_validate eh s) = 1 \<longleftrightarrow> eh \<noteq> 0 \<and> load_bytes (ram s) eh 6 = 0x7F # lit ''ELF'' @ [1, 1]
     \<and> read16 (ram s) (eh + 18) = 3 \<and> read32 (ram s) (eh + 20) = 1)
   \<and> fst (elf_validate eh s) \<in> {0, 1} \<and> ram (snd (elf_validate eh s)) = ram s"
proof -
  have 6: "(6 :: nat) = Suc (Suc (Suc (Suc (Suc (Suc 0)))))" by simp
  have c: "(ucast (read16 (ram s) a) :: u32) = 3 \<longleftrightarrow> read16 (ram s) a = 3" for a
  proof -
    have "(ucast x :: u32) = 3 \<longleftrightarrow> unat x = 3" for x :: u16
      using small_less(2) [of x] by (simp add: word_unat_eq_iff unsigned_ucast_eq take_bit_eq_mod del: small_less)
    then show ?thesis by (simp add: word_unat_eq_iff)
  qed
  have d: "(ucast (ram s a) :: u32) = 1 \<longleftrightarrow> ram s a = 1" for a
    using ucast_u8_inj [of "ram s a" 1] by simp
  show ?thesis
    unfolding 6 by (simp add: elf_validate_def Let_def eh_arch_def eh_machine_def eh_instruction_set_def
      eh_elf_version2_def ELF_X86_def ELF_32BIT_def ELF_LITTLE_ENDIAN_def lit_def add.assoc c d kprint_def) blast
qed

section \<open>Pages of a segment\<close>

text \<open>The pages behind the first one get the first one's frame in the process's directory.\<close>

lemma map_segment_rest:
  assumes "two_ok (kern_dir s) d s" "length js \<le> free_blocks s" "2 * length js \<le> free_tables s"
    "\<forall>j \<in> set js. 0 < j \<and> j < 2 ^ 20" "get_phys_addr s (kern_dir s) v = F" "F AND NOT 0xFFF = F"
  shows "\<exists>s'. map_segment js d v s = (True, s') \<and> two_ok (kern_dir s) d s' \<and> kern_dir s' = kern_dir s
    \<and> get_phys_addr s' (kern_dir s) v = F
    \<and> (\<forall>w. get_phys_addr s' d w = (if \<exists>j \<in> set js. drop_bit 12 w = drop_bit 12 (v + of_nat j * PAGE_SIZE)
         then F else get_phys_addr s d w))"
  using assms(1-5)
proof (induction js arbitrary: s)
  case (Cons j js)
  have 1: "1 \<le> free_blocks s" "2 \<le> free_tables s" using Cons.prems(2,3) by simp_all
  let ?v = "v + of_nat j * PAGE_SIZE"
  obtain k s1 where s1: "map_both d ?v v s = (True, s1)" "two_ok (kern_dir s) d s1" "kern_dir s1 = kern_dir s"
    "k \<in> pmm_frames s" "\<not> pmm_used s k" "k < 2 ^ 20" "\<And>j. j < 2 ^ 20 \<Longrightarrow> pmm_used s1 j \<longleftrightarrow> j = k \<or> pmm_used s j"
    "pmm_frames s1 = pmm_frames s" "free_blocks s \<le> free_blocks s1 + 1" "free_tables s \<le> free_tables s1 + 2"
    "\<And>w. get_phys_addr s1 (kern_dir s) w = (if drop_bit 12 w = drop_bit 12 ?v then frame_addr k else get_phys_addr s (kern_dir s) w)"
    "\<And>w. get_phys_addr s1 d w = (if drop_bit 12 w = drop_bit 12 ?v
       then get_phys_addr s1 (kern_dir s) v AND NOT 0xFFF else get_phys_addr s d w)"
    by (rule map_both_count [OF Cons.prems(1) 1]) (rule that)
  have "drop_bit 12 v \<noteq> drop_bit 12 ?v"
    using page_step_inj [of 0 j v] Cons.prems(4) by auto
  then have F: "get_phys_addr s1 (kern_dir s1) v = F" using s1(3,11) Cons.prems(5) by simp
  have 2: "two_ok (kern_dir s1) d s1" "length js \<le> free_blocks s1" "2 * length js \<le> free_tables s1"
    "\<forall>j \<in> set js. 0 < j \<and> j < 2 ^ 20"
    using s1(2,3,9,10) Cons.prems(2-4) by simp_all
  obtain s' where s': "map_segment js d v s1 = (True, s')" "two_ok (kern_dir s) d s'" "kern_dir s' = kern_dir s"
      "get_phys_addr s' (kern_dir s) v = F"
      "\<forall>w. get_phys_addr s' d w = (if \<exists>j \<in> set js. drop_bit 12 w = drop_bit 12 (v + of_nat j * PAGE_SIZE)
         then F else get_phys_addr s1 d w)"
    using Cons.IH [OF 2 F] s1(3) by auto
  have "map_segment (j # js) d v s = (True, s')" using s1(1) s'(1) by simp
  then show ?case using s'(2-5) s1(12) F s1(3) assms(6) by (intro exI [of _ s']) auto
qed simp

text \<open>C32: a segment of several pages is mapped to one frame: the loader looks up the frame of the
  segment's first page for every page, so in the process's directory all its pages are translated
  to the frame of the first one.\<close>
theorem map_segment_aliases:
  assumes "two_ok (kern_dir s) pdir s" "Suc n \<le> free_blocks s" "2 * Suc n \<le> free_tables s" "Suc n < 2 ^ 20"
  shows "\<exists>k s'. map_segment [0..<Suc n] pdir v s = (True, s') \<and> k \<in> pmm_frames s \<and> \<not> pmm_used s k
    \<and> (\<forall>j\<le>n. get_phys_addr s' pdir (v + of_nat j * PAGE_SIZE) = frame_addr k)"
proof -
  have 1: "1 \<le> free_blocks s" "2 \<le> free_tables s" using assms(2,3) by simp_all
  have z: "v + of_nat 0 * PAGE_SIZE = v" by simp
  obtain k s1 where s1: "map_both pdir v v s = (True, s1)" "two_ok (kern_dir s) pdir s1" "kern_dir s1 = kern_dir s"
    "k \<in> pmm_frames s" "\<not> pmm_used s k" "k < 2 ^ 20" "\<And>j. j < 2 ^ 20 \<Longrightarrow> pmm_used s1 j \<longleftrightarrow> j = k \<or> pmm_used s j"
    "pmm_frames s1 = pmm_frames s" "free_blocks s \<le> free_blocks s1 + 1" "free_tables s \<le> free_tables s1 + 2"
    "\<And>w. get_phys_addr s1 (kern_dir s) w = (if drop_bit 12 w = drop_bit 12 v then frame_addr k else get_phys_addr s (kern_dir s) w)"
    "\<And>w. get_phys_addr s1 pdir w = (if drop_bit 12 w = drop_bit 12 v
       then get_phys_addr s1 (kern_dir s) v AND NOT 0xFFF else get_phys_addr s pdir w)"
    by (rule map_both_count [OF assms(1) 1]) (rule that)
  have 2: "two_ok (kern_dir s1) pdir s1" "length [1..<Suc n] \<le> free_blocks s1" "2 * length [1..<Suc n] \<le> free_tables s1"
    "\<forall>j \<in> set [1..<Suc n]. 0 < j \<and> j < 2 ^ 20" "get_phys_addr s1 (kern_dir s1) v = frame_addr k"
    using s1(2,3,9-11) assms(2-4) by auto
  obtain s' where s': "map_segment [1..<Suc n] pdir v s1 = (True, s')"
      "\<forall>w. get_phys_addr s' pdir w = (if \<exists>j \<in> set [1..<Suc n]. drop_bit 12 w = drop_bit 12 (v + of_nat j * PAGE_SIZE)
         then frame_addr k else get_phys_addr s1 pdir w)"
    using map_segment_rest [OF 2 frame_addr_page] by blast
  have "[0..<Suc n] = 0 # [1..<Suc n]" by (simp add: upt_conv_Cons)
  then have eq: "map_segment [0..<Suc n] pdir v s = (True, s')" using s1(1) s'(1) by (simp del: upt_Suc)
  have "get_phys_addr s' pdir (v + of_nat j * PAGE_SIZE) = frame_addr k" if "j \<le> n" for j
  proof (cases "j = 0")
    case True
    then show ?thesis using s'(2) s1(11,12) frame_addr_page by simp
  next
    case False
    then have "j \<in> set [1..<Suc n]" using that by auto
    then show ?thesis using s'(2) by auto
  qed
  then show ?thesis using eq s1(4,5) by blast
qed

theorem map_segment_aliases_witness:
  "\<exists>s'. map_segment [0, 1] 0x11000 0x800000 demo_two = (True, s')
    \<and> get_phys_addr s' 0x11000 0x801000 = get_phys_addr s' 0x11000 0x800000"
proof -
  have "\<exists>k s'. map_segment [0..<Suc 1] 0x11000 0x800000 demo_two = (True, s') \<and> k \<in> pmm_frames demo_two
    \<and> \<not> pmm_used demo_two k \<and> (\<forall>j\<le>1. get_phys_addr s' 0x11000 (0x800000 + of_nat j * PAGE_SIZE) = frame_addr k)"
    by (rule map_segment_aliases) (use demo_two_ok demo_two_counts in \<open>simp_all add: demo_two_simps\<close>)
  then obtain k s' where s': "map_segment [0, 1] 0x11000 0x800000 demo_two = (True, s')"
      "\<forall>j\<le>1. get_phys_addr s' 0x11000 (0x800000 + of_nat j * PAGE_SIZE) = frame_addr k"
    by (auto simp: upt_rec)
  have "get_phys_addr s' 0x11000 0x800000 = frame_addr k" "get_phys_addr s' 0x11000 0x801000 = frame_addr k"
    using spec [OF s'(2), of 0] spec [OF s'(2), of 1] by (simp_all add: PAGE_SIZE_def)
  then show ?thesis using s'(1) by auto
qed

end
