(* ===== verification/Proc.thy ===== *)
theory Proc
  imports Elf
begin

text \<open>
  Processes, \<open>proc/proc.c\<close>: starting a program from a file, starting a kernel function as a
  process, the argument vector on the new heap, and removing a finished process.  The parts that
  build a thread's stacks and heap and end a process are in theory Thread.
\<close>

section \<open>Arguments\<close>

text \<open>One argument: a block of the heap with a copy of \<open>n\<close> characters, entered in the vector.  The
  copy is made by \<open>cpy\<close>.\<close>

definition put_arg :: "u32 \<Rightarrow> u32 \<Rightarrow> u32 \<Rightarrow> nat \<Rightarrow> (mem \<Rightarrow> u32 \<Rightarrow> mem option) \<Rightarrow> 'a pmm_state_scheme
    \<Rightarrow> 'a pmm_state_scheme option" where
  "put_arg heap argv argc n cpy s = do {
     (p, s) \<leftarrow> umalloc (of_nat n + 1) heap s;
     let m = write32 (ram s) (argv + 4 * argc) p;
     m \<leftarrow> cpy m (read32 m (argv + 4 * argc));
     Some (s\<lparr>ram := m\<rparr>)
   }"

partial_function (option) fill_args :: "u32 \<Rightarrow> u32 \<Rightarrow> u32 \<Rightarrow> u32 \<Rightarrow> 'a pmm_state_scheme \<Rightarrow> (u32 \<times> 'a pmm_state_scheme) option"
where
  "fill_args heap argv argc arguments s =
     (if ram s arguments = 0 then Some (argc, s)
      else do {
        p \<leftarrow> strchr (ram s) arguments (of_char CHR '' '');
        n \<leftarrow> strlen (ram s) arguments;
        if p = 0 then do {
          s \<leftarrow> put_arg heap argv argc n (\<lambda>m d. strcpy m d arguments) s;
          Some (argc + 1, s)
        }
        else do {
          k \<leftarrow> strlen (ram s) p;
          s \<leftarrow> put_arg heap argv argc (n - k) (\<lambda>m d. Some (strncpy m d arguments (of_nat (n - k)))) s;
          fill_args heap argv (argc + 1) (arguments + of_nat (n - k) + 1) s
        }
      })"

definition heap_fill :: "u32 \<Rightarrow> u32 \<Rightarrow> u32 \<Rightarrow> 'a proc_state_scheme \<Rightarrow> ((u32 \<times> u32) \<times> 'a proc_state_scheme) option" where
  "heap_fill t name arguments s = do {
     let heap = th_heap (threads s t);
     (argv, s) \<leftarrow> umalloc 40 heap s;
     n \<leftarrow> strlen (ram s) name;
     s \<leftarrow> put_arg heap argv 0 n (\<lambda>m d. strcpy m d name) s;
     (argc, s) \<leftarrow> fill_args heap argv 1 arguments s;
     Some ((argc, argv), vmm_unmap_phys (get_kern_directory s) (th_heap (threads s t)) s)
   }"

section \<open>Starting\<close>

text \<open>A block for a process, with its name copied to the start of the block without regard to the 16
  bytes of the field.\<close>

definition new_proc :: "u32 \<Rightarrow> 'a proc_state_scheme \<Rightarrow> (u32 \<times> 'a proc_state_scheme) option" where
  "new_proc name s = do {
     (proc, s) \<leftarrow> kmalloc 40 s;
     n \<leftarrow> strlen (ram s) name;
     m \<leftarrow> strcpy (ram s) proc name;
     Some (proc, upd_proc proc (\<lambda>p. p\<lparr>pr_name := load_bytes m proc n, pr_state := PROC_NEW\<rparr>) (s\<lparr>ram := m\<rparr>))
   }"

definition failed :: "string \<Rightarrow> 'a proc_state_scheme \<Rightarrow> (u32 \<times> 'a proc_state_scheme) option" where
  "failed msg s = Some (PROC_STOPPED, sched_state 1 (kprint (msg @ NL) [] s))"

definition start_proc ::
  "(string \<Rightarrow> u32) \<Rightarrow> fs_file \<Rightarrow> char_array \<Rightarrow> u32 \<Rightarrow> u32 \<Rightarrow> 'a fs_state_scheme \<Rightarrow> (u32 \<times> 'a fs_state_scheme) option"
where
  "start_proc ld f0 junk name arguments s = do {
     (proc, s) \<leftarrow> new_proc name s;
     let (pdir, s) = create_address_space s;
     let s = upd_proc proc (pr_pdir_update (\<lambda>_. pdir)) s;
     if pdir = 0 then Some (PROC_STOPPED, kprint (''Failed finding address space'' @ NL) [] s)
     else do {
       (t, s) \<leftarrow> create_thread s;
       let s = upd_proc proc (pr_thread_list_update (\<lambda>_. t)) s;
       if t = 0 then Some (PROC_STOPPED, s)
       else do {
         let s = upd_thread t (\<lambda>x. x\<lparr>th_main := 1, th_parent := proc\<rparr>) s;
         (ok, s) \<leftarrow> load_elf ld f0 junk name t pdir s;
         if ok = 0 then Some (PROC_STOPPED, sched_state 1 s)
         else do {
           let (ok, s) = build_stack t pdir 0 s;
           if \<not> ok then failed ''Failed allocating memory, error 1'' s
           else do {
             let (ok, s) = build_heap t pdir 0 s;
             if \<not> ok then failed ''Failed allocating memory, error 2'' s
             else do {
               ((argc, argv), s) \<leftarrow> heap_fill t name arguments s;
               let (_, s) = stack_fill t argc argv s;
               let s = upd_proc proc (pr_threads_update (\<lambda>_. 1)) s;
               let s = upd_thread t (th_state_update (\<lambda>_. PROC_ACTIVE)) s;
               let s = upd_proc proc (pr_state_update (\<lambda>_. PROC_ACTIVE)) s;
               let s = sched_add_proc proc s;
               Some (th_pid (threads s t), s)
             }
           }
         }
       }
     }
   }"

text \<open>The two pages of a kernel process's stack and the frame on it that the scheduler's return pops.\<close>

definition kernel_stack :: "u32 \<Rightarrow> u32 \<Rightarrow> 'a proc_state_scheme \<Rightarrow> 'a proc_state_scheme" where
  "kernel_stack proc t s =
     (let (_, s) = vmm_map (pr_pdir (procs s proc)) (KERNEL_SPACE_END + 0x5000) KERNEL_FLAGS s;
          s = upd_thread t (\<lambda>x. x\<lparr>th_esp := KERNEL_SPACE_END + 0x5000,
                th_stack_limit := KERNEL_SPACE_END + 0x5000 + PAGE_SIZE,
                th_esp_kernel := KERNEL_SPACE_END + 0x5000 + PAGE_SIZE,
                th_stack_kernel_limit := KERNEL_SPACE_END + 0x5000 + PAGE_SIZE + PAGE_SIZE\<rparr>) s;
          (_, s) = vmm_map (pr_pdir (procs s proc)) (th_esp_kernel (threads s t)) KERNEL_FLAGS s;
          x = threads s t;
          (sp, m) = fold push32 [0x10, th_esp x, 0x202, 0x8, th_eip x, 0, 0, 0, 0, 0, 0, th_stack_limit x,
                0x10, 0x10, 0x10, 0x10] (th_stack_kernel_limit x, ram s)
      in upd_thread t (th_esp_kernel_update (\<lambda>_. sp)) (s\<lparr>ram := m\<rparr>))"

definition start_kernel_proc :: "u32 \<Rightarrow> u32 \<Rightarrow> 'a proc_state_scheme \<Rightarrow> (u32 \<times> 'a proc_state_scheme) option" where
  "start_kernel_proc name addr s = do {
     (proc, s) \<leftarrow> new_proc name s;
     let s = upd_proc proc (pr_pdir_update (\<lambda>_. get_kern_directory s)) s;
     (t, s) \<leftarrow> create_thread s;
     let s = upd_proc proc (pr_thread_list_update (\<lambda>_. t)) s;
     if t = 0 then Some (PROC_STOPPED, s)
     else do {
       let s = upd_thread t (\<lambda>x. x\<lparr>th_main := 1, th_parent := proc, th_eip := addr\<rparr>) s;
       let s = kernel_stack proc t s;
       let s = upd_proc proc (pr_threads_update (\<lambda>_. 1)) s;
       let s = upd_thread t (th_state_update (\<lambda>_. PROC_ACTIVE)) s;
       let s = upd_proc proc (pr_state_update (\<lambda>_. PROC_ACTIVE)) s;
       let s = sched_add_proc proc s;
       Some (th_pid (threads s t), s)
     }
   }"

section \<open>Removing\<close>

fun remove_threads :: "nat \<Rightarrow> u32 \<Rightarrow> 'a proc_state_scheme \<Rightarrow> 'a proc_state_scheme option" where
  "remove_threads 0 cur s = Some s"
| "remove_threads (Suc n) cur s = do {
     let t = pr_thread_list (procs s cur);
     let s = (if th_main (threads s t) = 1 then sched_remove_proc (th_pid (threads s t)) s else s);
     let s = unmap_thread (pr_pdir (procs s cur)) (threads s t) s;
     let s = upd_proc cur (pr_thread_list_update (\<lambda>_. th_next (threads s t))) s;
     s \<leftarrow> kfree t s;
     remove_threads n cur s
   }"

definition remove_proc :: "u32 \<Rightarrow> 'a proc_state_scheme \<Rightarrow> 'a proc_state_scheme option" where
  "remove_proc pid s = do {
     let cur = get_proc_by_id pid s;
     let x = threads s (pr_thread_list (procs s cur));
     let s = fold (\<lambda>page. vmm_unmap (pr_pdir (procs s cur)) (th_image_base x + of_nat page * PAGE_SIZE))
               [0..<unat (th_image_size x div PAGE_SIZE)] s;
     s \<leftarrow> remove_threads (nat (sint (pr_threads (procs s cur)))) cur s;
     let s = change_page_directory (get_kern_directory s) s;
     let s = delete_address_space (pr_pdir (procs s cur)) s;
     kfree cur s
   }"

definition proc_state_of :: "u32 \<Rightarrow> 'a proc_state_scheme \<Rightarrow> u32" where
  "proc_state_of pid s = pr_state (procs s (get_proc_by_id pid s))"

text \<open>The list of processes, \<open>print_procs\<close> of \<open>proc/sched.c\<close>, with the name as text.\<close>

fun print_procs_loop :: "nat \<Rightarrow> u32 \<Rightarrow> 'a proc_state_scheme \<Rightarrow> 'a proc_state_scheme" where
  "print_procs_loop 0 app s = s"
| "print_procs_loop (Suc n) app s =
     (let p = procs s app; t = threads s (pr_thread_list p);
          s = kprint (''Name: '' @ map (\<lambda>c. char_of (unat c)) (pr_name p) @ '' id: %d page directory: 0x%x state: %d'' @ NL)
                [th_pid t, pr_pdir p, pr_state p] s;
          s = kprint (''    eip: 0x%x esp: 0x%x stack limit: 0x%x'' @ NL @ ''image base: 0x%x image size: %x'' @ NL @ NL)
                [th_eip t, th_esp t, th_stack_limit t, th_image_base t, th_image_size t] s
      in print_procs_loop n (pr_next p) s)"

definition print_procs :: "'a proc_state_scheme \<Rightarrow> 'a proc_state_scheme" where
  "print_procs s = print_procs_loop (nat (sint (n_proc s))) (proc_list s) s"

end
