(* ===== verification/Console.thy ===== *)
theory Console
  imports Gui Proc
begin

text \<open>
  The command console, \<open>apps/commands.c\<close>, \<open>apps/console.c\<close> and \<open>apps/console_gui.c\<close>: editing a line,
  splitting it into a command and its arguments, and executing it on the file system, the processes and
  the machine.  The record \<open>console_env\<close> holds what the code gets from elsewhere: the addresses of string
  literals and functions, the contents of variables it never sets, the vendor word of the processor, the
  address of a local array, and what the other processes do between two looks of a waiting console.
\<close>

record console_state = gui_state +
  con_dir :: u32
  con_senddir :: u32
  con_user :: u32
  con_window :: u32
  con_text_area :: u32

record 's console_env =
  ce_lit :: "string \<Rightarrow> u32"
  ce_file :: fs_file
  ce_junk :: char_array
  ce_cpuid :: u32
  ce_buf :: u32
  ce_others :: "'s \<Rightarrow> 's option"

type_synonym 'a console = "'a console_state_scheme"

section \<open>Printing and splitting\<close>

definition get_dir :: "'a console \<Rightarrow> u32" where "get_dir = con_dir"

definition character_check :: "u8 \<Rightarrow> u32" where
  "character_check c = (if 32 \<le> sint c \<and> sint c \<le> 122 then 1 else 0)"

definition console_gui_print :: "u32 \<Rightarrow> 'a console \<Rightarrow> 'a console option" where
  "console_gui_print str s = text_area_append (con_text_area s) str s"

text \<open>\<open>str\<close> is the array of 256 bytes and \<open>buf\<close> the one \<open>vsprintf\<close> converts numbers in.  The commands below
  record their messages instead, as the rest of the development does.\<close>

definition console_print :: "u32 \<Rightarrow> u32 \<Rightarrow> u32 \<Rightarrow> u32 list \<Rightarrow> 'a console \<Rightarrow> 'a console option" where
  "console_print str buf fmt args s = do {
     m \<leftarrow> vsprintf (ram s) str fmt args buf;
     let s = s\<lparr>ram := m\<rparr>;
     if is_text_mode s \<noteq> 0 then printk_string str s else console_gui_print str s
   }"

definition print_with :: "string \<Rightarrow> u32 \<Rightarrow> string \<Rightarrow> 'a console \<Rightarrow> 'a console option" where
  "print_with pre p tail s = do {
     n \<leftarrow> strlen (ram s) p;
     Some (kprint (pre @ map (\<lambda>c. char_of (unat c)) (load_bytes (ram s) p n) @ tail) [] s)
   }"

fun next_arg :: "nat \<Rightarrow> mem \<Rightarrow> u32 \<Rightarrow> u32 option" where
  "next_arg 0 m command = Some command"
| "next_arg (Suc n) m command = do {
     c \<leftarrow> strchr m command (of_char CHR '' '');
     if c \<noteq> 0 then next_arg n m (c + 1) else Some 0
   }"

definition get_argument :: "u32 \<Rightarrow> u32 \<Rightarrow> mem \<Rightarrow> u32 option" where
  "get_argument command n m = next_arg (nat (sint n)) m command"

section \<open>Commands\<close>

text \<open>The path in \<open>senddir\<close>: the current directory, a slash, and the first argument where there is one.\<close>

definition put_dir :: "'s console_env \<Rightarrow> u32 \<Rightarrow> 'a console \<Rightarrow> 'a console option" where
  "put_dir e dir s = do {
     m \<leftarrow> strcpy (memset (ram s) (con_senddir s) 0 64) (con_senddir s) dir;
     m \<leftarrow> strcat m (con_senddir s) (ce_lit e ''/'');
     Some (s\<lparr>ram := m\<rparr>)
   }"

definition put_path :: "'s console_env \<Rightarrow> u32 \<Rightarrow> u32 \<Rightarrow> 'a console \<Rightarrow> 'a console option" where
  "put_path e dir command s = do {
     s \<leftarrow> put_dir e dir s;
     a \<leftarrow> get_argument command 1 (ram s);
     m \<leftarrow> strcat (ram s) (con_senddir s) a;
     Some (s\<lparr>ram := m\<rparr>)
   }"

definition console_cd :: "'s console_env \<Rightarrow> u32 \<Rightarrow> u32 \<Rightarrow> 'a console \<Rightarrow> 'a console option" where
  "console_cd e dir command s = do {
     s \<leftarrow> put_dir e dir s;
     arg \<leftarrow> get_argument command 1 (ram s);
     if arg \<noteq> 0 then do {
       m \<leftarrow> strcat (ram s) (con_senddir s) arg;
       (r, s) \<leftarrow> vfs_cd (ce_file e) (ce_junk e) (con_senddir s) (s\<lparr>ram := m\<rparr>);
       if r \<noteq> 0 then do { m \<leftarrow> strcpy (ram s) dir (con_senddir s); Some (s\<lparr>ram := m\<rparr>) }
       else print_with ''cd '' (con_senddir s) ('': directory not found'' @ NL) s
     }
     else Some (s\<lparr>ram := memset (ram s) dir 0 64\<rparr>)
   }"

text \<open>Waiting for a process to stop.\<close>

partial_function (option) wait_proc :: "('a console \<Rightarrow> 'a console option) \<Rightarrow> u32 \<Rightarrow> 'a console \<Rightarrow> 'a console option" where
  "wait_proc others procn s =
     (if proc_state_of procn s = PROC_STOPPED then Some s
      else do { s \<leftarrow> others s; wait_proc others procn s })"

definition console_start :: "'a console console_env \<Rightarrow> u32 \<Rightarrow> u32 \<Rightarrow> 'a console \<Rightarrow> 'a console option" where
  "console_start e dir command s = do {
     s \<leftarrow> put_path e dir command s;
     a \<leftarrow> get_argument (con_senddir s) 1 (ram s);
     s \<leftarrow> (if a \<noteq> 0 then do {
         n \<leftarrow> strlen (ram s) (con_senddir s);
         k \<leftarrow> strlen (ram s) a;
         Some (s\<lparr>ram := strncpy (ram s) (con_senddir s) (con_senddir s) (of_nat n - of_nat k - 1)\<rparr>)
       } else Some s);
     (arguments, s) \<leftarrow> kmalloc 128 s;
     let s = s\<lparr>ram := memset (ram s) arguments 0 128\<rparr>;
     a \<leftarrow> get_argument command 2 (ram s);
     m \<leftarrow> strcpy (ram s) arguments a;
     (procn, s) \<leftarrow> start_proc (ce_lit e) (ce_file e) (ce_junk e) (con_senddir s) arguments (s\<lparr>ram := m\<rparr>);
     if procn \<noteq> PROC_STOPPED then do {
       s \<leftarrow> wait_proc (ce_others e) procn s;
       s \<leftarrow> remove_proc procn s;
       Some (kprint NL [] s)
     }
     else Some s
   }"

partial_function (option) print_file_loop :: "u32 \<Rightarrow> u32 \<Rightarrow> 'a console \<Rightarrow> 'a console option" where
  "print_file_loop buf f s =
     (if f_eof (files s f) = 1 then Some s
      else do {
        s \<leftarrow> vfs_file_read f buf s;
        let s = fold (\<lambda>i s. kprint ''%c'' [scast (ram s (buf + of_nat i))] s) [0..<512] s;
        s \<leftarrow> (if f_eof (files s f) \<noteq> 1 then do { (_, s) \<leftarrow> getchar s; Some s } else Some s);
        print_file_loop buf f s
      })"

definition print_file :: "u32 \<Rightarrow> u32 \<Rightarrow> 'a console \<Rightarrow> 'a console option" where
  "print_file buf f s =
     (if f_type (files s f) = FS_NULL then Some (kprint (''Cannot open file'' @ NL) [] s)
      else if f_type (files s f) AND FS_DIR = FS_DIR then Some (kprint (''Cannot display content of directory.'' @ NL) [] s)
      else print_file_loop buf f s)"

definition console_read :: "'s console_env \<Rightarrow> u32 \<Rightarrow> u32 \<Rightarrow> 'a console \<Rightarrow> 'a console option" where
  "console_read e dir command s = do {
     s \<leftarrow> put_path e dir command s;
     (f, s) \<leftarrow> vfs_file_open (ce_lit e) (ce_file e) (ce_junk e) (con_senddir s) (ce_lit e ''r'') s;
     s \<leftarrow> (if f_type (files s f) \<noteq> FS_FILE then print_with ''read: file '' (con_senddir s) ('' not found'' @ NL) s
          else print_file (ce_buf e) f s);
     vfs_file_close f s
   }"

definition console_write :: "'s console_env \<Rightarrow> u32 \<Rightarrow> u32 \<Rightarrow> 'a console \<Rightarrow> 'a console option" where
  "console_write e dir command s = do {
     s \<leftarrow> put_path e dir command s;
     (f, s) \<leftarrow> vfs_file_open (ce_lit e) (ce_file e) (ce_junk e) (con_senddir s) (ce_lit e ''w'') s;
     s \<leftarrow> (if f_type (files s f) \<noteq> FS_FILE then print_with ''write: file '' (con_senddir s) ('' not found'' @ NL) s
          else do { a \<leftarrow> get_argument command 2 (ram s); vfs_file_write f a s });
     vfs_file_close f s
   }"

definition console_touch :: "'s console_env \<Rightarrow> u32 \<Rightarrow> u32 \<Rightarrow> 'a console \<Rightarrow> 'a console option" where
  "console_touch e dir command s = do {
     s \<leftarrow> put_path e dir command s;
     (r, s) \<leftarrow> vfs_touch (ce_file e) (ce_junk e) (con_senddir s) s;
     Some (if r = 0 then kprint (''touch: Error creating file'' @ NL) [] s else s)
   }"

definition console_delete :: "'s console_env \<Rightarrow> u32 \<Rightarrow> u32 \<Rightarrow> 'a console \<Rightarrow> 'a console option" where
  "console_delete e dir command s = do {
     s \<leftarrow> put_path e dir command s;
     (r, s) \<leftarrow> vfs_delete (ce_file e) (ce_junk e) (con_senddir s) s;
     Some (if r = 0 then kprint (''delete: Error deleting file'' @ NL) [] s else s)
   }"

definition console_pwd :: "'a console \<Rightarrow> u32" where "console_pwd = get_dir"

definition console_pwd_user :: "'a console \<Rightarrow> (u32 \<times> 'a console) option" where
  "console_pwd_user s = (let cur = get_cur_proc s in
     if cur \<noteq> 0 \<and> pr_thread_list (procs s cur) \<noteq> 0 then do {
       let d = console_pwd s;
       n \<leftarrow> strlen (ram s) d;
       (p, s) \<leftarrow> umalloc (of_nat n) (th_heap (threads s (pr_thread_list (procs s cur)))) s;
       m \<leftarrow> strcpy (ram s) p d;
       Some (p, s\<lparr>ram := m\<rparr>)
     }
     else Some (0, s))"

definition print_meminfo :: "'a console \<Rightarrow> 'a console" where
  "print_meminfo s =
     (let s = kprint (''Total mem: %d MB'' @ NL @ ''Free mem: %d MB'' @ NL)
            [get_mem_size s div 1024, (get_max_blocks s - get_used_blocks s) * 4 div 1024] s;
          s = kprint (''Heap size: %d KB Free heap: %d KB'' @ NL)
            [c_div (get_heap_size s) 1024, c_div (get_heap_size s - get_used_heap s) 1024] s
      in kprint (''cr0: %x cr2: %x cr3: %x'' @ NL) [get_cr0 s, get_cr2 s, get_pdbr s] s)"

text \<open>\<open>get_cpu_vendor\<close> of \<open>drivers/x86/cpu.c\<close>; the word the processor answers in \<open>ebx\<close> is a parameter.\<close>

definition get_cpu_vendor :: "(string \<Rightarrow> u32) \<Rightarrow> u32 \<Rightarrow> 'a kheap_state_scheme \<Rightarrow> (u32 \<times> 'a kheap_state_scheme) option" where
  "get_cpu_vendor ld ebx s = do {
     (v, s) \<leftarrow> kmalloc 32 s;
     m \<leftarrow> (if ebx = 0x756E6547 then strcpy (ram s) v (ld ''Intel'')
          else if ebx = 0x68747541 then strcpy (ram s) v (ld ''AMD'')
          else Some (ram s));
     Some (v, s\<lparr>ram := m\<rparr>)
   }"

text \<open>\<open>halt\<close> is followed by an endless loop: that command has no result.\<close>

definition help_text :: string where
  "help_text = ''Help:'' @ NL @ ''hoho - prints hoho'' @ NL @ ''help - shows help'' @ NL @ ''meminfo - prints RAM info'' @ NL
     @ ''cpuinfo - shows CPU info'' @ NL @ ''ls - shows filesystem devices'' @ NL @ ''read - reads a file'' @ NL
     @ ''start - starts a program'' @ NL @ ''clear - clears the screen'' @ NL @ ''halt - shuts down'' @ NL
     @ ''reboot - reboots the pc'' @ NL"

definition console_exec :: "'a console console_env \<Rightarrow> u32 \<Rightarrow> 'a console \<Rightarrow> 'a console option" where
  "console_exec e buf s = (let starts = \<lambda>w n. strncmp (ram s) buf (ce_lit e w) n = 0; dir = con_dir s in
     if starts ''cd'' 2 then console_cd e dir buf s
     else if starts ''start'' 5 then console_start e dir buf s
     else if starts ''read'' 4 then console_read e dir buf s
     else if starts ''write'' 5 then console_write e dir buf s
     else if starts ''touch'' 5 then console_touch e dir buf s
     else if starts ''delete'' 6 then console_delete e dir buf s
     else do {
       r \<leftarrow> strcmp (ram s) buf (ce_lit e ''hoho'');
       if r = 0 then Some (kprint (''hoho'' @ NL) [] s) else do {
       r \<leftarrow> strcmp (ram s) buf (ce_lit e ''help'');
       if r = 0 then Some (kprint help_text [] s) else do {
       r \<leftarrow> strcmp (ram s) buf (ce_lit e ''meminfo'');
       if r = 0 then Some (print_meminfo s) else do {
       r \<leftarrow> strcmp (ram s) buf (ce_lit e ''cpuinfo'');
       if r = 0 then do { (v, s) \<leftarrow> get_cpu_vendor (ce_lit e) (ce_cpuid e) s; print_with [] v NL s } else do {
       r \<leftarrow> strcmp (ram s) buf (ce_lit e ''ls'');
       if r = 0 then (if ram s dir = 0 then vfs_ls s else vfs_ls_dir dir s) else do {
       r \<leftarrow> strcmp (ram s) buf (ce_lit e ''clear'');
       if r = 0 then Some (clear s) else do {
       r \<leftarrow> strcmp (ram s) buf (ce_lit e ''proc'');
       if r = 0 then Some (print_procs s) else do {
       r \<leftarrow> strcmp (ram s) buf (ce_lit e ''halt'');
       if r = 0 then None else do {
       r \<leftarrow> strcmp (ram s) buf (ce_lit e ''reboot'');
       if r = 0 then Some (reboot (kprint (''Rebooting'' @ NL) [] s))
       else Some (kprint (''Command not found'' @ NL) [] s) }}}}}}}}})"

section \<open>The console's loop\<close>

text \<open>The loop of \<open>console_run\<close> runs for ever; the result is the counter and the state in which it waits when
  \<open>kbd_irqs\<close> interrupts of the keyboard have been taken.  \<open>prompt\<close> is what is printed behind a command.\<close>

definition prompt :: "'a console \<Rightarrow> 'a console option" where
  "prompt s = do {
     n \<leftarrow> strlen (ram s) (con_user s);
     k \<leftarrow> strlen (ram s) (get_dir s);
     let txt = (\<lambda>p n. map (\<lambda>c. char_of (unat c)) (load_bytes (ram s) p n));
     Some (kprint (txt (con_user s) n @ '' '' @ txt (get_dir s) k @ '' $ '') [] s)
   }"

definition console_key :: "'a console console_env \<Rightarrow> u32 \<Rightarrow> u8 \<Rightarrow> u32 \<Rightarrow> 'a console \<Rightarrow> (u32 \<times> 'a console) option" where
  "console_key e buffer c n s = (let s = keyboard_invalidate_lastkey s in
     if c = 8 \<and> \<not> 0 < sint n then Some (n, s)
     else do {
       let (n, s) =
         (if character_check c \<noteq> 0 then (n + 1, s\<lparr>ram := (ram s)(buffer + n := c)\<rparr>)
          else if c = 8 then (n - 1, s) else (n, s));
       let s = kprint ''%c'' [scast c] s;
       if c = 10 then do {
         s \<leftarrow> console_exec e buffer (s\<lparr>ram := (ram s)(buffer + n := 0)\<rparr>);
         s \<leftarrow> prompt s;
         Some (0, s)
       }
       else Some (n, s)
     })"

partial_function (option) console_loop ::
  "'a console console_env \<Rightarrow> u32 \<Rightarrow> u32 \<Rightarrow> 'a console \<Rightarrow> (u32 \<times> 'a console) option" where
  "console_loop e buffer n s =
     (let c = keyboard_get_lastkey s in
      if c = 0 then
        (if kbd_irqs s = 0 then Some (n, s)
         else do { s \<leftarrow> keyboard_int (s\<lparr>kbd_irqs := kbd_irqs s - 1\<rparr>); console_loop e buffer n s })
      else do { (n, s) \<leftarrow> console_key e buffer c n s; console_loop e buffer n s })"

text \<open>The two consoles differ in how they print and in the space before the first dollar sign.\<close>

definition console_run :: "'a console console_env \<Rightarrow> 'a console \<Rightarrow> (u32 \<times> 'a console) option" where
  "console_run e s = do {
     (buffer, s) \<leftarrow> kmalloc 64 s;
     s \<leftarrow> print_with [] (con_user s) '' $  '' s;
     console_loop e buffer 0 s
   }"

definition console_run_gui :: "'a console console_env \<Rightarrow> 'a console \<Rightarrow> (u32 \<times> 'a console) option" where
  "console_run_gui e s = do {
     (buffer, s) \<leftarrow> kmalloc 64 s;
     s \<leftarrow> print_with [] (con_user s) ''  $ '' s;
     console_loop e buffer 0 s
   }"

text \<open>The length asked for is the size of a length, 4, not the length.\<close>

definition console_init :: "'a console console_env \<Rightarrow> u32 \<Rightarrow> 'a console \<Rightarrow> (u32 \<times> 'a console) option" where
  "console_init e usr s = do {
     (p, s) \<leftarrow> kmalloc 4 (kprint (''Console started'' @ NL) [] s);
     let s = s\<lparr>con_user := p\<rparr>;
     n \<leftarrow> strlen (ram s) usr;
     m \<leftarrow> strcpy (memset (ram s) p 0 (of_nat n + 1)) p usr;
     console_run e (s\<lparr>ram := m\<rparr>)
   }"

definition console_init_gui :: "'a console console_env \<Rightarrow> u32 \<Rightarrow> 'a console \<Rightarrow> (u32 \<times> 'a console) option" where
  "console_init_gui e usr s = do {
     (w, s) \<leftarrow> window_create (ce_lit e ''Console'') 50 50 700 500 s;
     let s = s\<lparr>con_window := w\<rparr>;
     (t, s) \<leftarrow> create_text_area 10 10 660 440 s;
     let s = s\<lparr>con_text_area := t\<rparr>;
     s \<leftarrow> add_component (con_window s) (con_text_area s) s;
     s \<leftarrow> text_area_set_text (con_text_area s) (ce_lit e (''Console started'' @ NL)) s;
     (p, s) \<leftarrow> kmalloc 4 s;
     let s = s\<lparr>con_user := p\<rparr>;
     m \<leftarrow> strcpy (ram s) p usr;
     console_run_gui e (s\<lparr>ram := m\<rparr>)
   }"

text \<open>The first process, \<open>main_proc\<close> of \<open>proc/sched.c\<close>.\<close>

definition main_proc :: "'a console console_env \<Rightarrow> 'a console \<Rightarrow> (u32 \<times> 'a console) option" where
  "main_proc e s =
     (if is_text_mode s \<noteq> 0 then console_init e (ce_lit e ''Hoho'') s
      else do {
        (_, s) \<leftarrow> start_kernel_proc (ce_lit e ''draw_thread'') (ce_lit e ''refresh_screen'') s;
        console_init_gui e (ce_lit e ''Hoho'') s
      })"

section \<open>Which command a line is\<close>

datatype command = Cmd_cd | Cmd_start | Cmd_read | Cmd_write | Cmd_touch | Cmd_delete | Cmd_hoho | Cmd_help | Cmd_meminfo
  | Cmd_cpuinfo | Cmd_ls | Cmd_clear | Cmd_proc | Cmd_halt | Cmd_reboot | Cmd_unknown

text \<open>Six commands are recognised by their first letters, the others by the whole line.\<close>

definition starts_with :: "string \<Rightarrow> u8 list \<Rightarrow> bool" where
  "starts_with w line \<longleftrightarrow> take (length w) line = lit w"

definition command_of :: "u8 list \<Rightarrow> command" where
  "command_of line =
     (if starts_with ''cd'' line then Cmd_cd
      else if starts_with ''start'' line then Cmd_start
      else if starts_with ''read'' line then Cmd_read
      else if starts_with ''write'' line then Cmd_write
      else if starts_with ''touch'' line then Cmd_touch
      else if starts_with ''delete'' line then Cmd_delete
      else if line = lit ''hoho'' then Cmd_hoho
      else if line = lit ''help'' then Cmd_help
      else if line = lit ''meminfo'' then Cmd_meminfo
      else if line = lit ''cpuinfo'' then Cmd_cpuinfo
      else if line = lit ''ls'' then Cmd_ls
      else if line = lit ''clear'' then Cmd_clear
      else if line = lit ''proc'' then Cmd_proc
      else if line = lit ''halt'' then Cmd_halt
      else if line = lit ''reboot'' then Cmd_reboot
      else Cmd_unknown)"

fun run_command :: "'a console console_env \<Rightarrow> u32 \<Rightarrow> command \<Rightarrow> 'a console \<Rightarrow> 'a console option" where
  "run_command e buf Cmd_cd s = console_cd e (con_dir s) buf s"
| "run_command e buf Cmd_start s = console_start e (con_dir s) buf s"
| "run_command e buf Cmd_read s = console_read e (con_dir s) buf s"
| "run_command e buf Cmd_write s = console_write e (con_dir s) buf s"
| "run_command e buf Cmd_touch s = console_touch e (con_dir s) buf s"
| "run_command e buf Cmd_delete s = console_delete e (con_dir s) buf s"
| "run_command e buf Cmd_hoho s = Some (kprint (''hoho'' @ NL) [] s)"
| "run_command e buf Cmd_help s = Some (kprint help_text [] s)"
| "run_command e buf Cmd_meminfo s = Some (print_meminfo s)"
| "run_command e buf Cmd_cpuinfo s = do { (v, s) \<leftarrow> get_cpu_vendor (ce_lit e) (ce_cpuid e) s; print_with [] v NL s }"
| "run_command e buf Cmd_ls s = (if ram s (con_dir s) = 0 then vfs_ls s else vfs_ls_dir (con_dir s) s)"
| "run_command e buf Cmd_clear s = Some (clear s)"
| "run_command e buf Cmd_proc s = Some (print_procs s)"
| "run_command e buf Cmd_halt s = None"
| "run_command e buf Cmd_reboot s = Some (reboot (kprint (''Rebooting'' @ NL) [] s))"
| "run_command e buf Cmd_unknown s = Some (kprint (''Command not found'' @ NL) [] s)"

definition command_words :: "string list" where
  "command_words = [''cd'', ''start'', ''read'', ''write'', ''touch'', ''delete'', ''hoho'', ''help'', ''meminfo'', ''cpuinfo'', ''ls'',
     ''clear'', ''proc'', ''halt'', ''reboot'']"

text \<open>The words of the commands are in memory where the code refers to them.\<close>

definition literals_ok :: "'s console_env \<Rightarrow> mem \<Rightarrow> bool" where
  "literals_ok e m \<longleftrightarrow> (\<forall>w \<in> set command_words. cstr m (ce_lit e w) (lit w))"

lemma load_bytes_cstr:
  assumes "cstr m p s" "n \<le> Suc (length s)"
  shows "load_bytes m p n = take n (s @ [0])"
proof (rule nth_equalityI)
  fix i assume "i < length (load_bytes m p n)"
  then have i: "i < n" by simp
  then have "i \<le> length s" using assms(2) by simp
  then show "load_bytes m p n ! i = take n (s @ [0]) ! i"
    using i cstr_nth [OF assms(1)] cstr_nul [OF assms(1)] by (cases "i = length s") (simp_all add: load_bytes_nth nth_append)
qed (use assms in simp)

text \<open>Comparing the first bytes with a word asks for that prefix, also when the line is shorter.\<close>

lemma strncmp_prefix:
  assumes "cstr m p line" "cstr m q w" "n = of_nat (length w)" "length w < 2 ^ 32"
  shows "strncmp m p q n = 0 \<longleftrightarrow> take (length w) line = w"
proof -
  have n: "unat n = length w" using assms(3,4) by (simp add: unsigned_of_nat take_bit_eq_mod)
  have q: "load_bytes m q (length w) = w" using load_bytes_cstr [OF assms(2)] by simp
  show ?thesis
  proof (cases "length w \<le> length line")
    case True
    then show ?thesis unfolding strncmp_0 n q using load_bytes_cstr [OF assms(1), of "length w"] by simp
  next
    case False
    then have "load_bytes m p (length w) ! length line = 0" using cstr_nul [OF assms(1)] by (simp add: load_bytes_nth)
    moreover have "w ! length line \<in> set w" using False by simp
    then have "w ! length line \<noteq> 0" using cstr_nonzero [OF assms(2)] by metis
    ultimately have "load_bytes m p (length w) \<noteq> w" by metis
    moreover have "take (length w) line \<noteq> w" using False by (metis length_take min.idem min_def nat_le_linear)
    ultimately show ?thesis unfolding strncmp_0 n q by simp
  qed
qed

lemma length_lit [simp]: "length (lit w) = length w"
  by (simp add: lit_def)

text \<open>C18: A line is executed as the command it names: a line that begins with one of six words (whatever
  follows, so \<open>cdrom\<close> too) by that command, a line equal to one of nine others by theirs, and any other
  with the message that there is no such command.\<close>

theorem console_exec_dispatches:
  assumes "cstr (ram s) buf line" "literals_ok e (ram s)"
  shows "console_exec e buf s = run_command e buf (command_of line) s"
proof -
  have w: "cstr (ram s) (ce_lit e x) (lit x)" if "x \<in> set command_words" for x
    using assms(2) that by (simp add: literals_ok_def)
  have p: "strncmp (ram s) buf (ce_lit e x) n = 0 \<longleftrightarrow> starts_with x line" if "x \<in> set command_words" "n = of_nat (length x)" "length x < 10" for x n
    using strncmp_prefix [OF assms(1) w [OF that(1)]] that(2,3) by (simp add: starts_with_def)
  have c: "strcmp (ram s) buf (ce_lit e x) = Some (str_order line (lit x))" if "x \<in> set command_words" for x
    by (rule strcmp_cstr [OF assms(1) w [OF that]])
  have p1: "strncmp (ram s) buf (ce_lit e ''cd'') 2 = 0 \<longleftrightarrow> starts_with ''cd'' line"
    "strncmp (ram s) buf (ce_lit e ''start'') 5 = 0 \<longleftrightarrow> starts_with ''start'' line"
    "strncmp (ram s) buf (ce_lit e ''read'') 4 = 0 \<longleftrightarrow> starts_with ''read'' line"
    "strncmp (ram s) buf (ce_lit e ''write'') 5 = 0 \<longleftrightarrow> starts_with ''write'' line"
    "strncmp (ram s) buf (ce_lit e ''touch'') 5 = 0 \<longleftrightarrow> starts_with ''touch'' line"
    "strncmp (ram s) buf (ce_lit e ''delete'') 6 = 0 \<longleftrightarrow> starts_with ''delete'' line"
    by (rule p; simp add: command_words_def)+
  have c1: "strcmp (ram s) buf (ce_lit e ''hoho'') = Some (str_order line (lit ''hoho''))"
    "strcmp (ram s) buf (ce_lit e ''help'') = Some (str_order line (lit ''help''))"
    "strcmp (ram s) buf (ce_lit e ''meminfo'') = Some (str_order line (lit ''meminfo''))"
    "strcmp (ram s) buf (ce_lit e ''cpuinfo'') = Some (str_order line (lit ''cpuinfo''))"
    "strcmp (ram s) buf (ce_lit e ''ls'') = Some (str_order line (lit ''ls''))"
    "strcmp (ram s) buf (ce_lit e ''clear'') = Some (str_order line (lit ''clear''))"
    "strcmp (ram s) buf (ce_lit e ''proc'') = Some (str_order line (lit ''proc''))"
    "strcmp (ram s) buf (ce_lit e ''halt'') = Some (str_order line (lit ''halt''))"
    "strcmp (ram s) buf (ce_lit e ''reboot'') = Some (str_order line (lit ''reboot''))"
    by (rule c; simp add: command_words_def)+
  show ?thesis
    unfolding console_exec_def Let_def p1 c1 bind.bind_lunit str_order_0 command_of_def
    by (simp only: if_distrib [where f = "\<lambda>c. run_command e buf c s"] run_command.simps)
qed

section \<open>Arguments\<close>

text \<open>The text behind the first \<open>n\<close> spaces.\<close>

fun behind :: "nat \<Rightarrow> u8 list \<Rightarrow> u8 list option" where
  "behind 0 cs = Some cs"
| "behind (Suc n) [] = None"
| "behind (Suc n) (c # cs) = (if c = of_char CHR '' '' then behind n cs else behind (Suc n) cs)"

lemma scast_space: "scast c = (32 :: u32) \<longleftrightarrow> c = (32 :: u8)"
proof -
  have "\<forall>c :: u8. (scast c = (32 :: u32)) = (c = 32)" unfolding u8_all by code_simp
  then show ?thesis by blast
qed

lemma behind_le: "behind n cs = Some t \<Longrightarrow> length t \<le> length cs"
  by (induction n cs rule: behind.induct) (auto split: if_splits)

lemma next_arg_behind:
  assumes "cstr m p cs" "0 < unat p" "unat p + length cs < 2 ^ 32"
  shows "case behind n cs of None \<Rightarrow> next_arg n m p = Some 0
     | Some t \<Rightarrow> next_arg n m p = Some (p + of_nat (length cs - length t)) \<and> cstr m (p + of_nat (length cs - length t)) t"
  using assms
proof (induction n cs arbitrary: p rule: behind.induct)
  case (2 n)
  then show ?case by (simp add: strchr.simps)
next
  case (3 n c cs)
  have p1: "unat (p + 1) = unat p + 1"
    using "3.prems"(3) by (subst unat_add_lem [THEN iffD1]) simp_all
  have st: "cstr m (p + 1) cs" "0 < unat (p + 1)" "unat (p + 1) + length cs < 2 ^ 32" "m p = c" "c \<noteq> 0" "p \<noteq> 0"
    using "3.prems" p1 by auto
  have off: "p + 1 + of_nat (length cs - length t) = p + of_nat (length (c # cs) - length t)" if "behind k cs = Some t" for k t
    using behind_le [OF that] by (simp add: Suc_diff_le)
  show ?case
  proof (cases "c = of_char CHR '' ''")
    case True
    then have "strchr m p (of_char CHR '' '') = Some p" using st(4,5) by (subst strchr.simps) (simp add: scast_space)
    then have n: "next_arg (Suc n) m p = next_arg n m (p + 1)" using st(6) by simp
    have b: "behind (Suc n) (c # cs) = behind n cs" using True by simp
    show ?thesis
    proof (cases "behind n cs")
      case (Some t)
      show ?thesis using "3.IH"(1) [OF True st(1-3)] unfolding n b Some option.case off [OF Some] .
    qed (use "3.IH"(1) [OF True st(1-3)] n b in simp)
  next
    case False
    then have "strchr m p (of_char CHR '' '') = strchr m (p + 1) (of_char CHR '' '')"
      using st(4,5) by (subst strchr.simps) (simp add: scast_space)
    then have n: "next_arg (Suc n) m p = next_arg (Suc n) m (p + 1)" by simp
    have b: "behind (Suc n) (c # cs) = behind (Suc n) cs" using False by simp
    show ?thesis
    proof (cases "behind (Suc n) cs")
      case (Some t)
      show ?thesis using "3.IH"(2) [OF False st(1-3)] unfolding n b Some option.case off [OF Some] .
    qed (use "3.IH"(2) [OF False st(1-3)] n b in simp)
  qed
qed simp

text \<open>C20: \<open>get_argument\<close> returns the text behind the given number of spaces, inside the command's own memory,
  and NULL when the command has fewer.\<close>

theorem get_argument_finds:
  assumes "cstr m command cs" "0 < unat command" "unat command + length cs < 2 ^ 32" "n < 2 ^ 31"
  shows "case behind n cs of None \<Rightarrow> get_argument command (of_nat n) m = Some 0
     | Some t \<Rightarrow> \<exists>p. get_argument command (of_nat n) m = Some p \<and> cstr m p t \<and> p = command + of_nat (length cs - length t)"
proof -
  have "nat (sint (of_nat n :: u32)) = n" using assms(4) by (simp add: signed_of_nat signed_take_bit_int_eq_self)
  then show ?thesis using next_arg_behind [OF assms(1-3), of n] by (auto simp: get_argument_def split: option.splits)
qed

section \<open>The line typed\<close>

text \<open>One key: the interrupt stores the character, the loop takes it.\<close>

lemma console_wait:
  assumes "lastkey s = 0" "kbd_irqs s = Suc n" "port_reads s = 1 # ucast code # rest" "keyboard_to_ascii code = Some c"
  shows "console_loop e buffer k s = console_loop e buffer k ((after_key rest n s)\<lparr>lastkey := c\<rparr>)"
proof -
  have "keyboard_int (s\<lparr>kbd_irqs := n\<rparr>) = Some ((after_key rest n s)\<lparr>lastkey := c\<rparr>)"
    using assms by (simp add: keyboard_int_def keyboard_read_key_def inport_cons after_key_def outportb_def)
  then show ?thesis
    by (subst console_loop.simps) (simp add: keyboard_get_lastkey_def assms(1,2))
qed

lemma after_key_again: "(after_key rest n s)\<lparr>lastkey := 0\<rparr> = after_key rest n s"
  by (simp add: after_key_def outportb_def)

lemma console_take:
  assumes "lastkey s = 0" "kbd_irqs s = Suc n" "port_reads s = 1 # ucast code # rest" "keyboard_to_ascii code = Some c" "c \<noteq> 0"
  shows "console_loop e buffer k s = do { (k, t) \<leftarrow> console_key e buffer c k (after_key rest n s); console_loop e buffer k t }"
proof -
  let ?t = "(after_key rest n s)\<lparr>lastkey := c\<rparr>"
  have "keyboard_get_lastkey ?t = c" by (simp add: keyboard_get_lastkey_def)
  then have a: "console_loop e buffer k ?t = do { (k, t) \<leftarrow> console_key e buffer c k ?t; console_loop e buffer k t }"
    using assms(5) console_loop.simps [of e buffer k ?t] by (simp only: Let_def if_False)
  have "console_key e buffer c k ?t = console_key e buffer c k (after_key rest n s)"
    by (simp add: console_key_def keyboard_invalidate_lastkey_def)
  then show ?thesis unfolding console_wait [OF assms(1-4)] a by simp
qed

lemma console_step:
  assumes "lastkey s = 0" "kbd_irqs s = Suc n" "port_reads s = 1 # ucast code # rest" "keyboard_to_ascii code = Some c" "c \<noteq> 10"
    "typed (ram s) buffer acc" "length acc < 2 ^ 30"
  shows "\<exists>s'. console_loop e buffer (of_nat (length acc)) s = console_loop e buffer (of_nat (length (edit acc [c]))) s'
    \<and> typed (ram s') buffer (edit acc [c])
    \<and> lastkey s' = 0 \<and> kbd_irqs s' = n \<and> port_reads s' = rest \<and> (\<forall>a. a \<noteq> buffer + of_nat (length acc) \<longrightarrow> ram s' a = ram s a)"
proof (cases "c = 0")
  case True
  have "console_loop e buffer (of_nat (length acc)) s = console_loop e buffer (of_nat (length acc)) (after_key rest n s)"
    using console_wait [OF assms(1-4)] True after_key_again [of rest n s] by simp
  moreover have "edit acc [c] = acc" using True by simp
  ultimately show ?thesis using assms(6) by (intro exI [of _ "after_key rest n s"]) (simp add: after_key_def outportb_def)
next
  case False
  let ?t = "after_key rest n s" and ?k = "of_nat (length acc) :: u32"
  have pos: "0 < sint ?k \<longleftrightarrow> acc \<noteq> []"
    using assms(7) by (simp add: signed_of_nat signed_take_bit_int_eq_self)
  have chk: "character_check c \<noteq> 0 \<longleftrightarrow> 32 \<le> c \<and> c \<le> 122" unfolding character_check_def using sint_u8 [of c] by simp
  have inv: "keyboard_invalidate_lastkey ?t = ?t" by (simp add: keyboard_invalidate_lastkey_def after_key_again)
  consider (letter) "32 \<le> c \<and> c \<le> 122" | (erase) "c = 8" "acc \<noteq> []" | (none) "c = 8" "acc = []" | (other) "\<not> (32 \<le> c \<and> c \<le> 122)" "c \<noteq> 8"
    by blast
  then have "\<exists>u. console_key e buffer c ?k ?t = Some (of_nat (length (edit acc [c])), u) \<and> typed (ram u) buffer (edit acc [c])
      \<and> lastkey u = 0 \<and> kbd_irqs u = n \<and> port_reads u = rest \<and> (\<forall>a. a \<noteq> buffer + ?k \<longrightarrow> ram u a = ram s a)"
  proof cases
    case letter
    then have "c \<noteq> 8" by auto
    then have "console_key e buffer c ?k ?t = Some (?k + 1, kprint ''%c'' [scast c] (?t\<lparr>ram := (ram ?t)(buffer + ?k := c)\<rparr>))"
      unfolding console_key_def Let_def inv chk using letter assms(5) by simp
    then show ?thesis using letter typed_snoc [OF assms(6), of c] assms(7) by (simp add: kprint_def after_key_def outportb_def)
  next
    case erase
    then have "\<not> (32 \<le> c \<and> c \<le> 122)" by simp
    then have "console_key e buffer c ?k ?t = Some (?k - 1, kprint ''%c'' [scast c] ?t)"
      unfolding console_key_def Let_def inv chk pos using erase by simp
    moreover have "?k - 1 = of_nat (length (butlast acc))" using erase by (cases acc rule: rev_cases) simp_all
    ultimately show ?thesis using erase typed_butlast [OF assms(6)] by (simp add: kprint_def after_key_def outportb_def)
  next
    case none
    then have "console_key e buffer c ?k ?t = Some (?k, ?t)" unfolding console_key_def Let_def inv chk pos by simp
    then show ?thesis using none assms(6) by (simp add: after_key_def outportb_def)
  next
    case other
    then have "console_key e buffer c ?k ?t = Some (?k, kprint ''%c'' [scast c] ?t)"
      unfolding console_key_def Let_def inv chk using assms(5) by simp
    then show ?thesis using other assms(6) by (simp add: kprint_def after_key_def outportb_def)
  qed
  then obtain u where u: "console_key e buffer c ?k ?t = Some (of_nat (length (edit acc [c])), u)"
      "typed (ram u) buffer (edit acc [c])" "lastkey u = 0" "kbd_irqs u = n" "port_reads u = rest"
      "\<forall>a. a \<noteq> buffer + ?k \<longrightarrow> ram u a = ram s a"
    by (elim exE conjE) (rule that)
  have "console_loop e buffer ?k s = console_loop e buffer (of_nat (length (edit acc [c]))) u"
    unfolding console_take [OF assms(1-4) False] u(1) bind.bind_lunit prod.case ..
  with u(2-) show ?thesis by blast
qed

interpretation cl: line_loop "console_loop e buffer" buffer for e buffer
  by unfold_locales (rule console_step)

text \<open>C19: The console hands to \<open>console_exec\<close> exactly the line typed up to the return key, with every
  backspace applied, at its buffer; it changes no byte outside those it may need, prints the prompt and
  starts the next line at the beginning of the buffer.  Nothing holds the line to the 64 bytes that the
  buffer has.\<close>

theorem console_line:
  assumes "lastkey s = 0" "kbd_irqs s = Suc (length codes + k)" "port_reads s = key_reads codes @ [1, 0x1C] @ rest"
    "list_all2 (\<lambda>k c. keyboard_to_ascii k = Some c) codes cs" "10 \<notin> set cs" "length codes < 2 ^ 30"
  shows "\<exists>t. console_loop e buffer 0 s = do { u \<leftarrow> console_exec e buffer t; u \<leftarrow> prompt u; console_loop e buffer 0 u }
    \<and> cstr (ram t) buffer (edit [] cs) \<and> lastkey t = 0 \<and> kbd_irqs t = k \<and> port_reads t = rest
    \<and> (\<forall>a. a \<notin> region buffer (Suc (length codes)) \<longrightarrow> ram t a = ram s a)"
proof -
  let ?l = "edit [] cs"
  have "typed (ram s) buffer []" by (simp add: typed_def)
  from cl.typing [where n = "Suc k" and rest = "[1, 0x1C] @ rest", OF assms(1) _ assms(3-5) this, of e] assms(2,6)
  obtain w where w: "console_loop e buffer 0 s = console_loop e buffer (of_nat (length ?l)) w" "typed (ram w) buffer ?l"
      "lastkey w = 0" "kbd_irqs w = Suc k" "port_reads w = 1 # ucast (0x1C :: u8) # rest"
      "\<forall>a. a \<notin> region buffer (length codes) \<longrightarrow> ram w a = ram s a"
    by auto
  have len: "length ?l \<le> length codes" using edit_length [of "[]" cs] list_all2_lengthD [OF assms(4)] by simp
  have c: "keyboard_to_ascii 0x1C = Some 10" by (simp add: keyboard_to_ascii_def)
  define t where "t = (kprint ''%c'' [scast (10 :: u8)] (after_key rest k w))\<lparr>ram := (ram w)(buffer + of_nat (length ?l) := 0)\<rparr>"
  have key: "console_key e buffer 10 (of_nat (length ?l)) (after_key rest k w)
      = do { u \<leftarrow> console_exec e buffer t; u \<leftarrow> prompt u; Some (0, u) }"
  proof -
    have "character_check 10 = 0" by (simp add: character_check_def)
    moreover have "keyboard_invalidate_lastkey (after_key rest k w) = after_key rest k w"
      by (simp add: keyboard_invalidate_lastkey_def after_key_again)
    moreover have "ram (kprint ''%c'' [scast (10 :: u8)] (after_key rest k w)) = ram w" by (simp add: kprint_def)
    ultimately show ?thesis unfolding console_key_def Let_def t_def by simp
  qed
  have loop: "console_loop e buffer (of_nat (length ?l)) w
      = do { u \<leftarrow> console_exec e buffer t; u \<leftarrow> prompt u; console_loop e buffer 0 u }"
    unfolding console_take [OF w(3-5) c, simplified] key by (cases "console_exec e buffer t") (auto split: bind_splits)
  have "0 \<notin> set ?l" by (rule edit_nonzero) simp
  moreover have "typed (ram t) buffer ?l"
    using w(2) offset_less [of _ "length ?l" buffer] len assms(6) by (simp add: t_def typed_def)
  ultimately have "cstr (ram t) buffer ?l" unfolding cstr_iff typed_def by (simp add: t_def)
  moreover have "ram t a = ram s a" if a: "a \<notin> region buffer (Suc (length codes))" for a
  proof -
    have "buffer + of_nat (length ?l) \<in> region buffer (Suc (length codes))" using len assms(6) by (simp add: region_def)
    then have "ram t a = ram w a" using a by (auto simp: t_def)
    also have "\<dots> = ram s a" using w(6) a region_mono [of "length codes" "Suc (length codes)" buffer] by (simp add: subset_eq) blast
    finally show ?thesis .
  qed
  ultimately show ?thesis unfolding w(1) loop by (intro exI [of _ t]) (simp add: t_def kprint_def)
qed

section \<open>Witnesses\<close>

definition demo_lit :: "string \<Rightarrow> u32" where
  "demo_lit w = 0x3000 + 16 * of_nat (length (takeWhile (\<lambda>x. x \<noteq> w) command_words))"

definition demo_words :: mem where
  "demo_words = store_bytes (\<lambda>_. 0) 0x3000 (concat (map (\<lambda>w. lit w @ replicate (16 - length w) 0) command_words))"

definition demo_null_file :: fs_file where
  "demo_null_file = \<lparr>f_name = (\<lambda>_. 0), f_flags = 0, f_len = 0, f_eof = 0, f_dev = 0, f_current_cluster = 0, f_type = FS_NULL\<rparr>"

definition demo_env :: "console_state console_env" where
  "demo_env = \<lparr>ce_lit = demo_lit, ce_file = demo_null_file, ce_junk = (\<lambda>_. 0), ce_cpuid = 0, ce_buf = 0x7000, ce_others = (\<lambda>_. None)\<rparr>"

definition demo_console :: "nat \<Rightarrow> u16 list \<Rightarrow> mem \<Rightarrow> console_state" where
  "demo_console n rs m = (gui_state.extend demo_gui
     \<lparr>con_dir = 0x6000, con_senddir = 0x6040, con_user = 0x6080, con_window = 0, con_text_area = 0\<rparr>)
     \<lparr>lastkey := 0, kbd_irqs := n, port_reads := rs, ram := m\<rparr>"

theorem console_exec_dispatches_witness:
  "console_exec demo_env 0x3060 (demo_console 0 [] demo_words) = Some (kprint (''hoho'' @ NL) [] (demo_console 0 [] demo_words))"
proof -
  have w: "list_all (\<lambda>w. cstr demo_words (demo_lit w) (lit w)) command_words" by code_simp
  then have "literals_ok demo_env (ram (demo_console 0 [] demo_words))"
    by (simp add: literals_ok_def list_all_iff demo_env_def demo_console_def)
  moreover have "demo_lit ''hoho'' = 0x3060" by (simp add: demo_lit_def command_words_def)
  then have "cstr (ram (demo_console 0 [] demo_words)) 0x3060 (lit ''hoho'')"
    using w by (simp add: command_words_def demo_console_def)
  moreover have "command_of (lit ''hoho'') = Cmd_hoho" by code_simp
  ultimately show ?thesis using console_exec_dispatches [of "demo_console 0 [] demo_words" "0x3060" "lit ''hoho''" demo_env] by simp
qed

theorem get_argument_finds_witness:
  "\<exists>p. get_argument 0x2000 1 (store_bytes (\<lambda>_. 0) 0x2000 (lit ''cd fdd'')) = Some p
    \<and> cstr (store_bytes (\<lambda>_. 0) 0x2000 (lit ''cd fdd'')) p (lit ''fdd'')"
proof -
  have "cstr (store_bytes (\<lambda>_. 0) 0x2000 (lit ''cd fdd'')) 0x2000 (lit ''cd fdd'')" by code_simp
  moreover have "behind 1 (lit ''cd fdd'') = Some (lit ''fdd'')" by code_simp
  ultimately show ?thesis using get_argument_finds [of _ "0x2000" "lit ''cd fdd''" 1] by fastforce
qed

theorem console_line_witness:
  "\<exists>t. console_loop demo_env 0x2000 0 (demo_console 3 (key_reads [0x23, 0x18] @ [1, 0x1C] @ []) (\<lambda>_. 0))
      = do { u \<leftarrow> console_exec demo_env 0x2000 t; u \<leftarrow> prompt u; console_loop demo_env 0x2000 0 u }
    \<and> cstr (ram t) 0x2000 (lit ''ho'')"
proof -
  have "list_all2 (\<lambda>k c. keyboard_to_ascii k = Some c) [0x23, 0x18] (lit ''ho'')"
    by (simp add: keyboard_to_ascii_def key_row_def lit_def)
  from console_line [where k = 0 and rest = "[]", OF _ _ _ this, of "demo_console 3 (key_reads [0x23, 0x18] @ [1, 0x1C] @ []) (\<lambda>_. 0)" demo_env "0x2000"]
  show ?thesis by (auto simp: demo_console_def lit_def)
qed

end
