(* ===== verification/Traps.thy ===== *)
theory Traps
  imports Console
begin

text \<open>
  What interrupts the running code: the exceptions of \<open>hal/exception.c\<close>, the panic of \<open>hal/panic.c\<close> with
  the beep of \<open>drivers/audio.c\<close>, and the system calls of \<open>hal/syscall.c\<close>.  The frame that the entry code of
  \<open>exception.asm\<close> pushes is read in memory: \<open>ds\<close>, \<open>es\<close>, \<open>fs\<close>, \<open>gs\<close>, \<open>edi\<close>, \<open>esi\<close>, \<open>ebp\<close>, \<open>esp\<close>, \<open>ebx\<close>,
  \<open>edx\<close>, \<open>ecx\<close>, \<open>eax\<close>, then an error code for some, \<open>eip\<close> and \<open>cs\<close>.
\<close>

text \<open>How such a routine ends: it returns a value, it loops for ever, or it goes on at another address.\<close>

datatype ('r, 's) ending = Returns 'r 's | Spins 's | Leaves u32 's

section \<open>The frame\<close>

text \<open>\<open>struct regs\<close> and \<open>struct regs_error\<close> at \<open>re\<close>: twelve registers, then \<open>eip\<close> and \<open>cs\<close>, in the second
  behind an error code.\<close>

definition r_ds :: "u32 \<Rightarrow> 'a pmm_state_scheme \<Rightarrow> u32" where "r_ds re s = get32 s re"
definition r_es :: "u32 \<Rightarrow> 'a pmm_state_scheme \<Rightarrow> u32" where "r_es re s = get32 s (re + 4)"
definition r_fs :: "u32 \<Rightarrow> 'a pmm_state_scheme \<Rightarrow> u32" where "r_fs re s = get32 s (re + 8)"
definition r_gs :: "u32 \<Rightarrow> 'a pmm_state_scheme \<Rightarrow> u32" where "r_gs re s = get32 s (re + 12)"
definition r_edi :: "u32 \<Rightarrow> 'a pmm_state_scheme \<Rightarrow> u32" where "r_edi re s = get32 s (re + 16)"
definition r_esi :: "u32 \<Rightarrow> 'a pmm_state_scheme \<Rightarrow> u32" where "r_esi re s = get32 s (re + 20)"
definition r_ebp :: "u32 \<Rightarrow> 'a pmm_state_scheme \<Rightarrow> u32" where "r_ebp re s = get32 s (re + 24)"
definition r_esp :: "u32 \<Rightarrow> 'a pmm_state_scheme \<Rightarrow> u32" where "r_esp re s = get32 s (re + 28)"
definition r_ebx :: "u32 \<Rightarrow> 'a pmm_state_scheme \<Rightarrow> u32" where "r_ebx re s = get32 s (re + 32)"
definition r_edx :: "u32 \<Rightarrow> 'a pmm_state_scheme \<Rightarrow> u32" where "r_edx re s = get32 s (re + 36)"
definition r_ecx :: "u32 \<Rightarrow> 'a pmm_state_scheme \<Rightarrow> u32" where "r_ecx re s = get32 s (re + 40)"
definition r_eax :: "u32 \<Rightarrow> 'a pmm_state_scheme \<Rightarrow> u32" where "r_eax re s = get32 s (re + 44)"
definition r_error :: "u32 \<Rightarrow> 'a pmm_state_scheme \<Rightarrow> u32" where "r_error re s = get32 s (re + 48)"
definition set_eax :: "u32 \<Rightarrow> u32 \<Rightarrow> 'a pmm_state_scheme \<Rightarrow> 'a pmm_state_scheme" where "set_eax re v s = set32 (re + 44) v s"

lemmas frame_defs = r_ds_def r_es_def r_fs_def r_gs_def r_edi_def r_esi_def r_ebp_def r_esp_def r_ebx_def r_edx_def r_ecx_def r_eax_def r_error_def set_eax_def

section \<open>Panic\<close>

text \<open>The arguments of \<open>outportb\<close> are the port and the value, in this order.\<close>

definition beep :: "'a cpu_state_scheme \<Rightarrow> 'a cpu_state_scheme option" where
  "beep s = do {
     let s = outportb 5 0x42 (outportb 30 0x42 (outportb 0xB6 0x43 s));
     (v, s) \<leftarrow> inportb 0x61 s;
     Some (outportb (ucast (v OR 3)) 0x61 s)
   }"

definition panic :: "'a console \<Rightarrow> ('r, 'a console) ending option" where
  "panic s = do {
     s \<leftarrow> beep (disable_int s);
     let s = kprint (NL @ ''PANIC'') [] s;
     Some (Spins (draw_rect 400 300 200 200 0 s))
   }"

section \<open>Exceptions\<close>

definition default_ir_handler :: "'a console \<Rightarrow> (unit, 'a console) ending option" where
  "default_ir_handler s = panic (kprint (''Unhandled exception'' @ NL) [] (disable_int s))"

definition ex_divide_by_zero :: "'a console \<Rightarrow> (unit, 'a console) ending option" where
  "ex_divide_by_zero s = panic (kprint (''Division by zero'' @ NL) [] s)"
definition ex_single_step :: "'a console \<Rightarrow> (unit, 'a console) ending option" where
  "ex_single_step s = panic (kprint (''Single step'' @ NL) [] s)"
definition ex_nmi :: "'a console \<Rightarrow> (unit, 'a console) ending option" where
  "ex_nmi s = panic (kprint (''NMI trap'' @ NL) [] s)"
definition ex_breakpoint :: "'a console \<Rightarrow> (unit, 'a console) ending option" where
  "ex_breakpoint s = panic (kprint (''Breakpoint'' @ NL) [] s)"
definition ex_overflow :: "'a console \<Rightarrow> (unit, 'a console) ending option" where
  "ex_overflow s = panic (kprint (''Overflow'' @ NL) [] s)"
definition ex_bounds_check :: "'a console \<Rightarrow> (unit, 'a console) ending option" where
  "ex_bounds_check s = panic (kprint (''Bounds check'' @ NL) [] s)"

text \<open>\<open>return_exception\<close> leaves 1 in \<open>eax\<close> and goes on at \<open>RETURN_ADDR\<close>, where \<open>sched_init\<close> has put the code
  that ends a process.\<close>

definition return_exception :: "'a console \<Rightarrow> (unit, 'a console) ending option" where
  "return_exception s = Some (Leaves RETURN_ADDR s)"

text \<open>The registers of a frame at \<open>re\<close>, whose \<open>eip\<close> and \<open>cs\<close> are at \<open>ip\<close> and behind it.\<close>

definition print_regs :: "u32 \<Rightarrow> u32 \<Rightarrow> 'a console \<Rightarrow> 'a console" where
  "print_regs re ip s = kprint (''eip: %x cs: %x'' @ NL @ ''eax: %d ebx: %d ecx: %d edx: %d'' @ NL @ ''esp: %x ebp: %x esi: %d edi: %d''
       @ NL @ ''ds: %x es: %x fs: %x gs: %x'' @ NL)
     [get32 s ip, get32 s (ip + 4), r_eax re s, r_ebx re s, r_ecx re s, r_edx re s,
      r_esp re s, r_ebp re s, r_esi re s, r_edi re s,
      r_ds re s, r_es re s, r_fs re s, r_gs re s] s"

definition ex_invalid_opcode :: "u32 \<Rightarrow> 'a console \<Rightarrow> (unit, 'a console) ending option" where
  "ex_invalid_opcode re s =
     (let s = print_regs re (re + 48) (kprint (''Invalid opcode'' @ NL) [] s)
      in if r_es re s = 0x10 then panic s else return_exception s)"

definition ex_device_not_available :: "'a console \<Rightarrow> (unit, 'a console) ending option" where
  "ex_device_not_available s = panic (kprint (''Device not available'' @ NL) [] s)"
definition ex_double_fault :: "'a console \<Rightarrow> (unit, 'a console) ending option" where
  "ex_double_fault s = panic (kprint (''Double fault'' @ NL) [] s)"
definition ex_invalid_tss :: "'a console \<Rightarrow> (unit, 'a console) ending option" where
  "ex_invalid_tss s = panic (kprint (''Invalid TSS'' @ NL) [] s)"
definition ex_segment_not_present :: "'a console \<Rightarrow> (unit, 'a console) ending option" where
  "ex_segment_not_present s = panic (kprint (''Segment not present'' @ NL) [] s)"
definition ex_stack_fault :: "'a console \<Rightarrow> (unit, 'a console) ending option" where
  "ex_stack_fault s = panic (kprint (''Stack fault'' @ NL) [] s)"

definition ex_gpf :: "u32 \<Rightarrow> 'a console \<Rightarrow> (unit, 'a console) ending option" where
  "ex_gpf re s =
     (let s = kprint (NL @ ''General protection fault'' @ NL @ ''Error code: %b'' @ NL) [r_error re s] s;
          s = print_regs re (re + 52) s;
          s = kprint (''cr2: %x cr3: %x'' @ NL) [get_cr2 s, get_pdbr s] s
      in if r_es re s = 0x10 then panic s else return_exception s)"

definition ex_page_fault :: "u32 \<Rightarrow> 'a console \<Rightarrow> (unit, 'a console) ending option" where
  "ex_page_fault re s =
     (let virt_addr = get_cr2 s;
          phys_addr = get_phys_addr s (get_page_directory s) virt_addr;
          s = kprint (NL @ ''Page fault at addr: 0x%x'' @ NL) [virt_addr] s;
          s = kprint (''Phys addr: 0x%x'' @ NL) [phys_addr] s
      in if r_es re s = 0x10 then panic s else return_exception s)"

definition ex_fpu_error :: "'a console \<Rightarrow> (unit, 'a console) ending option" where
  "ex_fpu_error s = panic (kprint (''FPU error'' @ NL) [] s)"
definition ex_alignment_check :: "'a console \<Rightarrow> (unit, 'a console) ending option" where
  "ex_alignment_check s = panic (kprint (''Alignment check'' @ NL) [] s)"
definition ex_machine_check :: "'a console \<Rightarrow> (unit, 'a console) ending option" where
  "ex_machine_check s = panic (kprint (''Machine check'' @ NL) [] s)"
definition ex_simd_fpu :: "'a console \<Rightarrow> (unit, 'a console) ending option" where
  "ex_simd_fpu s = panic (kprint (''SIMD FPU error'' @ NL) [] s)"

section \<open>System calls\<close>

definition MAX_SYSCALL :: u32 where "MAX_SYSCALL = 11"

definition syscall_init :: "(string \<Rightarrow> u32) \<Rightarrow> 'a hal_state_scheme \<Rightarrow> 'a hal_state_scheme" where
  "syscall_init ld = install_ir 0x72 (0x80 OR 0x0E OR 0x60) 0x8 (ld ''syscall_handle'')"

text \<open>The table of calls, with the five registers it passes.  A call without a value leaves \<open>junk\<close> in \<open>eax\<close>;
  those that end the calling thread loop until the scheduler takes the processor away.\<close>

definition syscalls ::
  "'a console console_env \<Rightarrow> u32 \<Rightarrow> u32 \<Rightarrow> u32 \<Rightarrow> u32 \<Rightarrow> u32 \<Rightarrow> u32 \<Rightarrow> u32 \<Rightarrow> 'a console \<Rightarrow> (u32, 'a console) ending option"
where
  "syscalls e junk n ebx ecx edx esi edi s =
     (let void = map_option (Returns junk); val = map_option (\<lambda>(r, s). Returns r s) in
      if n = 0 then void (console_print (ce_buf e) (ce_buf e + 256) ebx [ecx, edx, esi, edi] s)
      else if n = 1 then void (gets ebx s)
      else if n = 2 then void (Some (clear s))
      else if n = 3 then val (start_thread s)
      else if n = 4 then map_option Spins (stop_thread ebx s)
      else if n = 5 then Some (Spins (end_proc ebx s))
      else if n = 6 then val (vfs_file_open_user (ce_lit e) (ce_file e) (ce_junk e) ebx ecx s)
      else if n = 7 then void (vfs_file_close_user ebx s)
      else if n = 8 then val (console_pwd_user s)
      else if n = 9 then val (umalloc_sys ebx s)
      else void (ufree_sys ebx s))"

definition syscall_disp :: "'a console console_env \<Rightarrow> u32 \<Rightarrow> u32 \<Rightarrow> 'a console \<Rightarrow> (unit, 'a console) ending option" where
  "syscall_disp e junk re s =
     (if r_eax re s \<ge> MAX_SYSCALL then Some (Returns () (set_eax re (- 1) s))
      else map_option
        (\<lambda>r. case r of Returns v s \<Rightarrow> Returns () (set_eax re v s) | Spins s \<Rightarrow> Spins s | Leaves a s \<Rightarrow> Leaves a s)
        (syscalls e junk (r_eax re s) (r_ebx re s) (r_ecx re s) (r_edx re s) (r_esi re s)
          (r_edi re s) s))"

section \<open>What follows an exception\<close>

text \<open>The entries of \<open>exception.asm\<close> and the routines installed without one, by the names that \<open>idt_init\<close>
  installs; \<open>re\<close> is the frame.\<close>

definition trap_entry :: "string \<Rightarrow> u32 \<Rightarrow> 'a console \<Rightarrow> (unit, 'a console) ending option" where
  "trap_entry h re =
     (if h = ''ex_divide_by_zero'' then ex_divide_by_zero
      else if h = ''ex_single_step'' then ex_single_step
      else if h = ''ex_nmi'' then ex_nmi
      else if h = ''ex_breakpoint'' then ex_breakpoint
      else if h = ''ex_overflow'' then ex_overflow
      else if h = ''ex_bounds_check'' then ex_bounds_check
      else if h = ''invop_handle'' then ex_invalid_opcode re
      else if h = ''ex_device_not_available'' then ex_device_not_available
      else if h = ''ex_double_fault'' then ex_double_fault
      else if h = ''ex_invalid_tss'' then ex_invalid_tss
      else if h = ''ex_segment_not_present'' then ex_segment_not_present
      else if h = ''ex_stack_fault'' then ex_stack_fault
      else if h = ''gpf_handle'' then ex_gpf re
      else if h = ''pf_handle'' then ex_page_fault re
      else if h = ''ex_fpu_error'' then ex_fpu_error
      else if h = ''ex_alignment_check'' then ex_alignment_check
      else if h = ''ex_machine_check'' then ex_machine_check
      else if h = ''ex_simd_fpu'' then ex_simd_fpu
      else default_ir_handler)"

lemma kprint_state [simp]:
  "ram (kprint f a s) = ram s" "int_on (kprint f' a' t) = int_on t" "port_reads (kprint f' a' t) = port_reads t"
  by (simp_all add: kprint_def)

lemma r_es_kprint [simp]: "r_es re (kprint f a s) = r_es re s" "r_es re (print_regs re ip s) = r_es re s"
  by (simp_all add: r_es_def print_regs_def)

lemma draw_rect_int [simp]: "int_on (draw_rect x y w h c s) = int_on s" "port_writes (draw_rect x y w h c s) = port_writes s"
  by (simp_all add: draw_rect_def Let_def)

lemma panic_spins:
  assumes "panic s = Some r"
  shows "\<exists>s'. r = Spins s' \<and> \<not> int_on s'"
  using assms by (auto simp: panic_def beep_def inportb_def disable_int_def outportb_def bind_eq_Some_conv split: list.splits)

lemma print_regs_ram [simp]: "ram (print_regs re ip s) = ram s"
  by (simp add: print_regs_def)

text \<open>C21: No exception, expected or not, lets the code that caused it go on.  Every vector of the table that
  \<open>idt_init\<close> fills leads to a panic with the interrupts off; only an invalid opcode, a protection fault and
  a page fault outside the kernel lead to the code that ends the process instead, and leave memory alone.\<close>

theorem exceptions_end:
  assumes "trap_entry (handler j) re s = Some r"
  shows "(\<exists>s'. r = Spins s' \<and> \<not> int_on s')
    \<or> (j \<in> {6, 13, 14} \<and> r_es re s \<noteq> 0x10 \<and> (\<exists>s'. r = Leaves RETURN_ADDR s' \<and> ram s' = ram s))"
proof -
  have u: "(\<exists>s'. r = Spins s' \<and> \<not> int_on s')
      \<or> (h \<in> {''invop_handle'', ''gpf_handle'', ''pf_handle''} \<and> r_es re s \<noteq> 0x10 \<and> (\<exists>s'. r = Leaves RETURN_ADDR s' \<and> ram s' = ram s))"
    if h: "trap_entry h re s = Some r" for h
  proof (cases "h \<in> {''invop_handle'', ''gpf_handle'', ''pf_handle''}")
    case True
    then show ?thesis
      using h by (auto simp: trap_entry_def ex_invalid_opcode_def ex_gpf_def ex_page_fault_def return_exception_def Let_def
          dest!: panic_spins split: if_splits)
  next
    case False
    then have "\<exists>t. panic t = Some r"
      using h unfolding trap_entry_def ex_divide_by_zero_def ex_single_step_def ex_nmi_def ex_breakpoint_def ex_overflow_def
        ex_bounds_check_def ex_device_not_available_def ex_double_fault_def ex_invalid_tss_def ex_segment_not_present_def
        ex_stack_fault_def ex_fpu_error_def ex_alignment_check_def ex_machine_check_def ex_simd_fpu_def default_ir_handler_def
      by (auto split: if_splits)
    then show ?thesis using panic_spins by blast
  qed
  have "j \<in> {6, 13, 14}" if "handler j \<in> {''invop_handle'', ''gpf_handle'', ''pf_handle''}"
    using that by (simp add: handler_def exception_vectors_def split: if_splits)
  then show ?thesis using u [OF assms] by blast
qed

text \<open>The beep of a panic writes its ports and values exchanged: the commands for the timer and the speaker
  go to the ports 0xB6, 30 and 5 and to the port that the state of the speaker happens to give.\<close>

theorem beep_swaps:
  assumes "port_reads s = v # vs"
  shows "\<exists>s'. beep s = Some s' \<and> port_writes s' = port_writes s @ [(0xB6, 0x43), (30, 0x42), (5, 0x42), (ucast (ucast v OR 3 :: u8), 0x61)]"
  using assms by (simp add: beep_def inportb_def outportb_def)

text \<open>A system call with a number that the table does not have answers -1 in \<open>eax\<close> and changes nothing
  else.\<close>

theorem syscall_disp_rejects:
  assumes "r_eax re s \<ge> 11"
  shows "\<exists>s'. syscall_disp e junk re s = Some (Returns () s') \<and> r_eax re s' = - 1 \<and> s' = s\<lparr>ram := ram s'\<rparr>
    \<and> (\<forall>a. a \<notin> region (re + 44) 4 \<longrightarrow> ram s' a = ram s a)"
  using assms by (simp add: syscall_disp_def MAX_SYSCALL_def r_eax_def set_eax_def write32_outside)

theorem exceptions_end_witness:
  "\<exists>s'. trap_entry (handler 14) 0x5000 (demo_console 0 [] (\<lambda>_. 0)) = Some (Leaves RETURN_ADDR s')"
proof -
  let ?s = "demo_console 0 [] (\<lambda>_. 0)"
  have es: "r_es 0x5000 ?s = 0" by (simp add: r_es_def demo_console_def read32_def)
  obtain r where r: "trap_entry (handler 14) 0x5000 ?s = Some r" "\<And>t. r \<noteq> Spins t"
    using es by (simp add: handler_def exception_vectors_def trap_entry_def ex_page_fault_def return_exception_def Let_def)
  from exceptions_end [OF r(1)] r show ?thesis by auto
qed

theorem beep_swaps_witness:
  "\<exists>s'. beep (demo_console 0 [0x20] (\<lambda>_. 0)) = Some s'
    \<and> port_writes s' = port_writes (demo_console 0 [0x20] (\<lambda>_. 0)) @ [(0xB6, 0x43), (30, 0x42), (5, 0x42), (0x23, 0x61)]"
  using beep_swaps [of "demo_console 0 [0x20] (\<lambda>_. 0)" "0x20" "[]"] by (simp add: demo_console_def)

theorem syscall_disp_rejects_witness:
  "\<exists>s'. syscall_disp demo_env 0 0x5000 (demo_console 0 [] (\<lambda>a. if a = 0x502C then 11 else 0)) = Some (Returns () s')
    \<and> get32 s' 0x502C = - 1"
  using syscall_disp_rejects [of "0x5000" "demo_console 0 [] (\<lambda>a. if a = 0x502C then 11 else 0)" demo_env 0]
  by (auto simp: r_eax_def demo_console_def read32_def)

end
