(* ===== verification/Userlib.thy ===== *)
theory Userlib
  imports Traps
begin

text \<open>
  The library of user programs, \<open>lib/stdio.c\<close>, \<open>lib/stdlib.c\<close>, \<open>lib/unistd.c\<close> and \<open>lib/system_calls.c\<close>, on the
  system calls of the kernel.  A record holds what the registers contain that a function does not set.
  Addresses of the program and of the kernel are addresses of the same linear memory; the frame that the
  interrupt pushes on the kernel's stack is left out.
\<close>

record user_regs =
  ur_eax :: u32
  ur_ebx :: u32
  ur_ecx :: u32
  ur_edx :: u32
  ur_esi :: u32
  ur_edi :: u32

text \<open>What follows a call that may not return.\<close>

fun and_then :: "('r, 's) ending option \<Rightarrow> ('r \<Rightarrow> 's \<Rightarrow> ('q, 's) ending option) \<Rightarrow> ('q, 's) ending option" where
  "and_then None f = None"
| "and_then (Some (Returns r s)) f = f r s"
| "and_then (Some (Spins s)) f = Some (Spins s)"
| "and_then (Some (Leaves a s)) f = Some (Leaves a s)"

definition syscall_call ::
  "'a console console_env \<Rightarrow> u32 \<Rightarrow> user_regs \<Rightarrow> 'a console \<Rightarrow> (u32, 'a console) ending option" where
  "syscall_call e n r s =
     (if n \<ge> MAX_SYSCALL then Some (Returns (- 1) s)
      else syscalls e (ur_eax r) n (ur_ebx r) (ur_ecx r) (ur_edx r) (ur_esi r) (ur_edi r) s)"

section \<open>stdlib\<close>

definition malloc :: "'a console console_env \<Rightarrow> user_regs \<Rightarrow> u32 \<Rightarrow> 'a console \<Rightarrow> (u32, 'a console) ending option" where
  "malloc e r len s = syscall_call e 9 (r\<lparr>ur_ebx := len\<rparr>) s"

definition free :: "'a console console_env \<Rightarrow> user_regs \<Rightarrow> u32 \<Rightarrow> 'a console \<Rightarrow> (unit, 'a console) ending option" where
  "free e r ptr s = and_then (syscall_call e 10 (r\<lparr>ur_ebx := ptr\<rparr>) s) (\<lambda>_ s. Some (Returns () s))"

section \<open>unistd\<close>

definition fork :: "'a console console_env \<Rightarrow> user_regs \<Rightarrow> 'a console \<Rightarrow> (u32, 'a console) ending option" where
  "fork e r s = syscall_call e 3 r s"

definition exit :: "'a console console_env \<Rightarrow> user_regs \<Rightarrow> u32 \<Rightarrow> 'a console \<Rightarrow> (unit, 'a console) ending option" where
  "exit e r code s = and_then (syscall_call e 4 (r\<lparr>ur_ebx := code\<rparr>) s) (\<lambda>_ s. Some (Returns () s))"

definition wait :: "u32 \<Rightarrow> u32" where "wait x = 0"
definition getpid :: u32 where "getpid = 0"
definition getppid :: u32 where "getppid = 0"

section \<open>system_calls\<close>

definition system :: "'a console console_env \<Rightarrow> user_regs \<Rightarrow> u32 \<Rightarrow> 'a console \<Rightarrow> (unit, 'a console) ending option" where
  "system e r arg s = do {
     c \<leftarrow> strcmp (ram s) arg (ce_lit e ''clear'');
     if c = 0 then and_then (syscall_call e 2 r s) (\<lambda>_ s. Some (Returns () s)) else Some (Returns () s)
   }"

definition pwd :: "'a console console_env \<Rightarrow> user_regs \<Rightarrow> 'a console \<Rightarrow> (u32, 'a console) ending option" where
  "pwd e r s = syscall_call e 8 r s"

definition end_process_return :: "'a console console_env \<Rightarrow> user_regs \<Rightarrow> 'a console \<Rightarrow> (unit, 'a console) ending option" where
  "end_process_return e r s = and_then (syscall_call e 5 (r\<lparr>ur_ebx := ur_eax r\<rparr>) s) (\<lambda>_ s. Some (Returns () s))"

section \<open>stdio\<close>

text \<open>The text that \<open>printf\<close> has made is the format of the kernel's \<open>console_print\<close>.\<close>

definition printf ::
  "'a console console_env \<Rightarrow> user_regs \<Rightarrow> u32 \<Rightarrow> u32 \<Rightarrow> u32 list \<Rightarrow> 'a console \<Rightarrow> (unit, 'a console) ending option" where
  "printf e r buf fmt args s =
     and_then (malloc e r 256 s) (\<lambda>str s. do {
       m \<leftarrow> vsprintf (ram s) str fmt args buf;
       and_then (syscall_call e 0 (r\<lparr>ur_ebx := str\<rparr>) (s\<lparr>ram := m\<rparr>)) (\<lambda>_. free e r str)
     })"

text \<open>One conversion of \<open>scanf\<close>: the kernel reads a line into \<open>str\<close>.\<close>

definition scan_conv ::
  "'a console console_env \<Rightarrow> user_regs \<Rightarrow> u32 \<Rightarrow> u8 \<Rightarrow> u32 list \<Rightarrow> 'a console \<Rightarrow> (u32 list, 'a console) ending option" where
  "scan_conv e r str c args s =
     (if c \<in> of_char ` {CHR ''c'', CHR ''d'', CHR ''i'', CHR ''s''} then
        case args of [] \<Rightarrow> None
        | a # args \<Rightarrow> and_then (syscall_call e 1 (r\<lparr>ur_ebx := str\<rparr>) s) (\<lambda>_ s.
            if c = of_char CHR ''c'' then Some (Returns args (s\<lparr>ram := (ram s)(a := ram s str)\<rparr>))
            else if c = of_char CHR ''s'' then do { m \<leftarrow> strcpy (ram s) a str; Some (Returns args (s\<lparr>ram := m\<rparr>)) }
            else do { v \<leftarrow> atoi (ram s) str; Some (Returns args (set32 a v s)) })
      else Some (Returns args s))"

partial_function (option) scan_loop ::
  "'a console console_env \<Rightarrow> user_regs \<Rightarrow> u32 \<Rightarrow> u32 \<Rightarrow> nat \<Rightarrow> u32 list \<Rightarrow> 'a console \<Rightarrow> (unit, 'a console) ending option" where
  "scan_loop e r str format i args s = do {
     n \<leftarrow> strlen (ram s) format;
     if i < n then
       if ram s (format + of_nat i) = of_char CHR ''%'' then do {
         x \<leftarrow> scan_conv e r str (ram s (format + of_nat (i + 1))) args s;
         case x of Returns args s \<Rightarrow> scan_loop e r str format (i + 2) args s
         | Spins s \<Rightarrow> Some (Spins s) | Leaves a s \<Rightarrow> Some (Leaves a s)
       }
       else scan_loop e r str format (i + 1) args s
     else Some (Returns () s)
   }"

definition scanf ::
  "'a console console_env \<Rightarrow> user_regs \<Rightarrow> u32 \<Rightarrow> u32 list \<Rightarrow> 'a console \<Rightarrow> (unit, 'a console) ending option" where
  "scanf e r format args s =
     and_then (malloc e r 256 s) (\<lambda>str s. and_then (scan_loop e r str format 0 args s) (\<lambda>_. free e r str))"

definition fopen ::
  "'a console console_env \<Rightarrow> user_regs \<Rightarrow> u32 \<Rightarrow> u32 \<Rightarrow> 'a console \<Rightarrow> (u32, 'a console) ending option" where
  "fopen e r filename mode s =
     and_then (malloc e r 256 s) (\<lambda>f s. and_then (pwd e r s) (\<lambda>d s. do {
       m \<leftarrow> strcpy (ram s) f d;
       m \<leftarrow> strcat m f (ce_lit e ''/'');
       m \<leftarrow> strcat m f filename;
       and_then (syscall_call e 6 (r\<lparr>ur_ebx := f, ur_ecx := mode\<rparr>) (s\<lparr>ram := m\<rparr>)) (\<lambda>x s.
         and_then (free e r f s) (\<lambda>_. \<lambda>s. Some (Returns x s)))
     }))"

definition fclose :: "'a console console_env \<Rightarrow> user_regs \<Rightarrow> u32 \<Rightarrow> 'a console \<Rightarrow> (unit, 'a console) ending option" where
  "fclose e r f s = and_then (syscall_call e 7 (r\<lparr>ur_ebx := f\<rparr>) s) (\<lambda>_ s. Some (Returns () s))"

end
