(* ===== verification/Boot.thy ===== *)
theory Boot
  imports Userlib
begin

text \<open>
  The start of the kernel, \<open>main.c\<close>: every part is set up in the order in which the others need it, and the
  first process is started.  What the parts get from elsewhere is a record: the addresses of literals and
  handlers, the address of the bitmap of memory and of the kernel's end, the reads and writes of the two
  kinds of disks, the ticks that the detection of the floppy drives waits for, and the video BIOS.
\<close>

record 's boot_env =
  be_lit :: "string \<Rightarrow> u32"
  be_bitmap :: u32
  be_kernel_end :: u32
  be_bios :: "u8 \<Rightarrow> u16 \<Rightarrow> 's \<Rightarrow> 's"
  be_floppy_read :: "u32 \<Rightarrow> sector_io \<Rightarrow> (u32 \<times> sector_io) option"
  be_floppy_write :: "u32 \<Rightarrow> sector_io \<Rightarrow> sector_io option"
  be_ata_read :: "u32 \<Rightarrow> sector_io \<Rightarrow> (u32 \<times> sector_io) option"
  be_ticks :: "u8 list"

text \<open>\<open>sched_init\<close> does not come back: it loads the stack pointer of the first process, the result here.\<close>

definition kmain :: "'a console boot_env \<Rightarrow> u32 \<Rightarrow> 'a console \<Rightarrow> (u32 \<times> 'a console) option" where
  "kmain b info s = do {
     let s = clear (video_init 25 80 s);
     s \<leftarrow> pmm_init (be_bitmap b) (mb_mem_high (ram s) info + mb_mem_low (ram s) info) (mb_mmap_addr (ram s) info)
            (mb_mmap_len (ram s) info) s;
     let s = kheap_init (be_kernel_end b) (vmm_init s);
     s \<leftarrow> vbe_init (be_bios b) info s;
     s \<leftarrow> hal_init (be_lit b) s;
     s \<leftarrow> mouse_init (be_lit b) (keyboard_init (be_lit b) s);
     let s = install_tss (be_lit b) (syscall_init (be_lit b) s);
     s \<leftarrow> floppy_init (be_lit b) (be_floppy_read b) (be_floppy_write b) (be_ticks b) (vfs_init s);
     s \<leftarrow> ata_init (be_lit b) (be_ata_read b) s;
     sched_init (be_lit b) s
   }"

end
