(* ===== verification/Draw.thy ===== *)
theory Draw
  imports Gui
begin

text \<open>
  What the drawing routines of \<open>drivers/video/video.c\<close> leave in the frame buffer, for the mode the kernel
  asks for: 32 bits for a pixel and no gap behind a line.  \<open>pixel\<close> reads the three colour bytes at a
  column and a line; every routine is described by the pixels it changes, and by the bytes it leaves.
\<close>

definition pixel_at :: "'a video_state_scheme \<Rightarrow> nat \<Rightarrow> nat \<Rightarrow> u32" where
  "pixel_at s a b = vb_buffer (vbemem s) + of_nat (4 * (unat (vb_xres (vbemem s)) * b + a))"

definition pixel :: "'a video_state_scheme \<Rightarrow> nat \<Rightarrow> nat \<Rightarrow> u8 \<times> u8 \<times> u8" where
  "pixel s a b = (ram s (pixel_at s a b), ram s (pixel_at s a b + 1), ram s (pixel_at s a b + 2))"

definition rgb :: "u32 \<Rightarrow> u8 \<times> u8 \<times> u8" where
  "rgb c = (ucast c, ucast (drop_bit 8 c), ucast (drop_bit 16 c))"

definition frame_ok :: "'a video_state_scheme \<Rightarrow> bool" where
  "frame_ok s \<longleftrightarrow> vb_bpp (vbemem s) = 32 \<and> unat (vb_pitch (vbemem s)) = 4 * unat (vb_xres (vbemem s))
     \<and> 4 * (unat (vb_xres (vbemem s)) * unat (vb_yres (vbemem s))) < 2 ^ 31"

text \<open>The bytes of the frame buffer.\<close>

definition frame_area :: "'a video_state_scheme \<Rightarrow> u32 set" where
  "frame_area s = region (vb_buffer (vbemem s)) (4 * (unat (vb_xres (vbemem s)) * unat (vb_yres (vbemem s))))"

text \<open>Distances between addresses of the frame buffer.\<close>

lemma unat_of_nat31: "k < 2 ^ 31 \<Longrightarrow> unat (of_nat k :: u32) = k"
  by (simp add: unsigned_of_nat take_bit_eq_mod)

lemma unat_dist:
  assumes "A < 2 ^ 31" "B < 2 ^ 31"
  shows "unat (of_nat A - of_nat B :: u32) = (if B \<le> A then A - B else 2 ^ 32 - (B - A))"
proof (cases "B \<le> A")
  case True
  then have "(of_nat A - of_nat B :: u32) = of_nat (A - B)" by simp
  moreover have "A - B < 2 ^ 31" using assms(1) by simp
  ultimately show ?thesis using True unat_of_nat31 by metis
next
  case False
  then have "(of_nat A - of_nat B :: u32) = of_nat (2 ^ 32 - (B - A))" using assms by simp
  moreover have "unat (of_nat (2 ^ 32 - (B - A)) :: u32) = 2 ^ 32 - (B - A)"
    using False by (simp only: unsigned_of_nat take_bit_eq_mod) simp
  ultimately show ?thesis using False by simp
qed

definition colour_at :: "u32 \<Rightarrow> nat \<Rightarrow> u8" where
  "colour_at c r = ucast (drop_bit (8 * r) c)"

lemma quad_step:
  "(if k = 4 * n + 2 then f 2 else if k = 4 * n + 1 then f 1 else if k = 4 * n then f 0
      else if k < 4 * n \<and> k mod 4 \<noteq> 3 then f (k mod 4) else v)
    = (if k < 4 * Suc n \<and> k mod 4 \<noteq> 3 then f (k mod 4) else v)" for k n :: nat
proof -
  have a: "k < 4 * Suc n \<and> k mod 4 \<noteq> 3 \<longleftrightarrow> k = 4 * n + 2 \<or> k = 4 * n + 1 \<or> k = 4 * n \<or> k < 4 * n \<and> k mod 4 \<noteq> 3"
    by presburger
  have b: "(4 * n + 2) mod 4 = 2" "(4 * n + 1) mod 4 = 1" "(4 * n) mod 4 = 0" by presburger+
  show ?thesis unfolding a using b by auto
qed

lemma rect_row_byte:
  assumes "4 * nat (sint w) < 2 ^ 32"
  shows "rect_row p w c m q = (if unat (q - p) < 4 * nat (sint w) \<and> unat (q - p) mod 4 \<noteq> 3 then colour_at c (unat (q - p) mod 4) else m q)"
proof -
  define f where "f j m = (let q = p + 4 * of_nat j in
      m(q := ucast c, q + 1 := ucast (drop_bit 8 c), q + 2 := ucast (drop_bit 16 c)))" for j :: nat and m :: mem
  let ?k = "unat (q - p)"
  have "fold f [0..<n] m q = (if ?k < 4 * n \<and> ?k mod 4 \<noteq> 3 then colour_at c (?k mod 4) else m q)" if "4 * n < 2 ^ 32" for n
    using that
  proof (induction n)
    case (Suc n)
    have e: "q = p + 4 * of_nat n + of_nat i \<longleftrightarrow> ?k = 4 * n + i" if "i < 4" for i
    proof -
      have "unat (4 * of_nat n + of_nat i :: u32) = 4 * n + i"
        using Suc.prems that unsigned_of_nat [where 'a = nat and 'b = 32 and n = "4 * n + i"] by (simp add: take_bit_eq_mod)
      then have "q - p = 4 * of_nat n + of_nat i \<longleftrightarrow> ?k = 4 * n + i" by (metis word_unat_eq_iff)
      then show ?thesis by (simp add: diff_eq_eq add.commute add.left_commute)
    qed
    have "f n m' q = (if ?k = 4 * n + 2 then colour_at c 2 else if ?k = 4 * n + 1 then colour_at c 1
        else if ?k = 4 * n then colour_at c 0 else m' q)" for m'
      using e [of 0] e [of 1] e [of 2] by (simp add: f_def colour_at_def Let_def)
    then have step: "fold f [0..<Suc n] m q
       = (if ?k = 4 * n + 2 then colour_at c 2 else if ?k = 4 * n + 1 then colour_at c 1 else if ?k = 4 * n then colour_at c 0
          else if ?k < 4 * n \<and> ?k mod 4 \<noteq> 3 then colour_at c (?k mod 4) else m q)"
      using Suc by simp
    show ?case unfolding step by (rule quad_step)
  qed simp
  then show ?thesis using assms unfolding rect_row_def f_def by blast
qed

section \<open>Rectangles\<close>

text \<open>The byte \<open>r\<close> of a pixel lies in a run of \<open>w\<close> pixels on a line exactly if the pixel does.\<close>

lemma row_hit:
  fixes X :: nat
  assumes "x + w \<le> X" "a < X" "r < 4"
  shows "4 * (X * b' + x) \<le> 4 * (X * b + a) + r \<and> 4 * (X * b + a) + r - 4 * (X * b' + x) < 4 * w
    \<longleftrightarrow> b = b' \<and> x \<le> a \<and> a < x + w"
proof -
  consider "b < b'" | "b' < b" | "b = b'" by linarith
  then show ?thesis
  proof cases
    case 1
    then have "X * Suc b \<le> X * b'" by (intro mult_le_mono2) simp
    then show ?thesis using assms(2,3) 1 by simp
  next
    case 2
    then have "X * Suc b' \<le> X * b" by (intro mult_le_mono2) simp
    then show ?thesis using assms(1) 2 by simp
  next
    case 3
    then show ?thesis using assms(3) by (cases "w = 0") auto
  qed
qed

lemma in_frame:
  fixes X :: nat
  assumes "a < X" "b < Y" "r < 4"
  shows "4 * (X * b + a) + r < 4 * (X * Y)"
proof -
  have "X * Suc b \<le> X * Y" using assms(2) by (intro mult_le_mono2) simp
  then show ?thesis using assms(1,3) by simp
qed

lemma row_run:
  assumes "A < 2 ^ 31" "B < 2 ^ 31" "4 * w < 2 ^ 31"
  shows "rect_row (buf + of_nat B) (of_nat w) c m (buf + of_nat A)
    = (if B \<le> A \<and> A - B < 4 * w \<and> (A - B) mod 4 \<noteq> 3 then colour_at c ((A - B) mod 4) else m (buf + of_nat A))"
proof -
  have sw: "nat (sint (of_nat w :: u32)) = w"
    using assms(3) by (simp add: signed_of_nat signed_take_bit_int_eq_self)
  have o: "unat (buf + of_nat A - (buf + of_nat B) :: u32) = (if B \<le> A then A - B else 2 ^ 32 - (B - A))"
    using unat_dist [OF assms(1,2)] by simp
  have "4 * nat (sint (of_nat w :: u32)) < 2 ^ 32" unfolding sw using assms(3) by simp
  note e = rect_row_byte [OF this, of "buf + of_nat B" c m "buf + of_nat A", unfolded sw o]
  show ?thesis
  proof (cases "B \<le> A")
    case True
    then show ?thesis unfolding e by simp
  next
    case False
    then have "\<not> 2 ^ 32 - (B - A) < 4 * w" using assms(2,3) by simp
    then show ?thesis unfolding e using False by simp
  qed
qed

lemma row_byte:
  assumes "4 * (X * Y) < 2 ^ 31" "x + w \<le> X" "a < X" "b < Y" "b' < Y" "r < 4" "x < X"
  shows "rect_row (buf + of_nat (4 * (X * b' + x))) (of_nat w) c m (buf + of_nat (4 * (X * b + a) + r))
    = (if b = b' \<and> x \<le> a \<and> a < x + w \<and> r \<noteq> 3 then colour_at c r else m (buf + of_nat (4 * (X * b + a) + r)))"
proof -
  define A where "A = 4 * (X * b + a) + r"
  define B where "B = 4 * (X * b' + x)"
  have A: "A < 2 ^ 31" unfolding A_def using in_frame [OF assms(3,4,6)] assms(1) by (rule less_trans)
  have "4 * (X * b' + x) + 0 < 4 * (X * Y)" using in_frame [OF assms(7,5), of 0] by simp
  then have B: "B < 2 ^ 31" unfolding B_def using assms(1) by linarith
  have "X \<le> X * Y" using assms(4) by (cases Y) auto
  then have w: "4 * w < 2 ^ 31" using assms(1,2) by linarith
  have h: "B \<le> A \<and> A - B < 4 * w \<longleftrightarrow> b = b' \<and> x \<le> a \<and> a < x + w"
    unfolding A_def B_def by (rule row_hit [OF assms(2,3,6)])
  have r: "(A - B) mod 4 = r" if "B \<le> A"
  proof -
    have "A - B + B = A" using that by simp
    then have "(A - B + 4 * (X * b' + x)) mod 4 = (4 * (X * b + a) + r) mod 4" unfolding A_def B_def by simp
    moreover have "(A - B + 4 * c) mod 4 = (A - B) mod 4" "(4 * c + r) mod 4 = r" for c using assms(6) by simp_all
    ultimately show ?thesis by metis
  qed
  show ?thesis
  proof (cases "B \<le> A \<and> A - B < 4 * w")
    case True
    then show ?thesis unfolding A_def [symmetric] B_def [symmetric] row_run [OF A B w] using h r by simp
  next
    case False
    then show ?thesis unfolding A_def [symmetric] B_def [symmetric] row_run [OF A B w] using h by auto
  qed
qed

lemma row_outside:
  assumes "4 * (X * Y) < 2 ^ 31" "x + w \<le> X" "b' < Y" "x < X" "q \<notin> region buf (4 * (X * Y))"
  shows "rect_row (buf + of_nat (4 * (X * b' + x))) (of_nat w) c m q = m q"
proof -
  let ?B = "4 * (X * b' + x)" and ?k = "unat (q - (buf + of_nat (4 * (X * b' + x))))"
  have "X * Suc b' \<le> X * Y" using assms(3) by (intro mult_le_mono2) simp
  then have le: "?B + 4 * w \<le> 4 * (X * Y)" using assms(2) by simp
  have w: "4 * w < 2 ^ 31" using le assms(1) by linarith
  then have sw: "nat (sint (of_nat w :: u32)) = w"
    by (simp add: signed_of_nat signed_take_bit_int_eq_self)
  have "\<not> ?k < 4 * w"
  proof
    assume k: "?k < 4 * w"
    have "q - buf = of_nat (?k + ?B)" by simp
    moreover have "unat (of_nat (?k + ?B) :: u32) = ?k + ?B" using k le assms(1) by (intro unat_of_nat31) linarith
    ultimately have "unat (q - buf) = ?k + ?B" by metis
    then show False using assms(5) k le by (simp add: region_def)
  qed
  moreover have "4 * nat (sint (of_nat w :: u32)) < 2 ^ 32" unfolding sw using w by simp
  ultimately show ?thesis using rect_row_byte [of "of_nat w" "buf + of_nat ?B" c m q] unfolding sw by simp
qed

text \<open>The rows one after the other.\<close>

lemma rows_byte:
  assumes "4 * (X * Y) < 2 ^ 31" "x + w \<le> X" "x < X" "y + n \<le> Y"
  shows "a < X \<Longrightarrow> b < Y \<Longrightarrow> r < 4 \<Longrightarrow>
      fold (\<lambda>i. rect_row (buf + of_nat (4 * (X * (y + i) + x))) (of_nat w) c) [0..<n] m (buf + of_nat (4 * (X * b + a) + r))
    = (if y \<le> b \<and> b < y + n \<and> x \<le> a \<and> a < x + w \<and> r \<noteq> 3 then colour_at c r else m (buf + of_nat (4 * (X * b + a) + r)))"
    "q \<notin> region buf (4 * (X * Y)) \<Longrightarrow>
      fold (\<lambda>i. rect_row (buf + of_nat (4 * (X * (y + i) + x))) (of_nat w) c) [0..<n] m q = m q"
proof -
  define f where "f i = rect_row (buf + of_nat (4 * (X * (y + i) + x))) (of_nat w) c" for i
  define P where "P k \<longleftrightarrow> (\<forall>a b r. a < X \<longrightarrow> b < Y \<longrightarrow> r < 4 \<longrightarrow> fold f [0..<k] m (buf + of_nat (4 * (X * b + a) + r))
      = (if y \<le> b \<and> b < y + k \<and> x \<le> a \<and> a < x + w \<and> r \<noteq> 3 then colour_at c r else m (buf + of_nat (4 * (X * b + a) + r))))
    \<and> (\<forall>q. q \<notin> region buf (4 * (X * Y)) \<longrightarrow> fold f [0..<k] m q = m q)" for k
  have "P k" if "k \<le> n" for k
    using that
  proof (induction k)
    case (Suc k)
    have k: "y + k < Y" using Suc.prems assms(4) by simp
    have IH: "P k" using Suc by simp
    have "fold f [0..<Suc k] m (buf + of_nat (4 * (X * b + a) + r))
      = (if y \<le> b \<and> b < y + Suc k \<and> x \<le> a \<and> a < x + w \<and> r \<noteq> 3 then colour_at c r else m (buf + of_nat (4 * (X * b + a) + r)))"
      if "a < X" "b < Y" "r < 4" for a b r
    proof -
      define A :: u32 where "A = buf + of_nat (4 * (X * b + a) + r)"
      have "fold f [0..<Suc k] m A = f k (fold f [0..<k] m) A" by simp
      also have "\<dots> = (if b = y + k \<and> x \<le> a \<and> a < x + w \<and> r \<noteq> 3 then colour_at c r else fold f [0..<k] m A)"
        unfolding f_def A_def by (rule row_byte [OF assms(1,2) that(1,2) k that(3) assms(3)])
      also have "fold f [0..<k] m A = (if y \<le> b \<and> b < y + k \<and> x \<le> a \<and> a < x + w \<and> r \<noteq> 3 then colour_at c r else m A)"
        using IH that unfolding P_def A_def by blast
      finally show ?thesis unfolding A_def [symmetric] by auto
    qed
    moreover have "fold f [0..<Suc k] m q = m q" if "q \<notin> region buf (4 * (X * Y))" for q
    proof -
      have "fold f [0..<Suc k] m q = f k (fold f [0..<k] m) q" by simp
      also have "\<dots> = fold f [0..<k] m q" unfolding f_def by (rule row_outside [OF assms(1,2) k assms(3) that])
      also have "\<dots> = m q" using IH that unfolding P_def by blast
      finally show ?thesis .
    qed
    ultimately show ?case unfolding P_def by blast
  qed (auto simp: P_def)
  then have "P n" by simp
  then show "a < X \<Longrightarrow> b < Y \<Longrightarrow> r < 4 \<Longrightarrow>
      fold (\<lambda>i. rect_row (buf + of_nat (4 * (X * (y + i) + x))) (of_nat w) c) [0..<n] m (buf + of_nat (4 * (X * b + a) + r))
    = (if y \<le> b \<and> b < y + n \<and> x \<le> a \<and> a < x + w \<and> r \<noteq> 3 then colour_at c r else m (buf + of_nat (4 * (X * b + a) + r)))"
    "q \<notin> region buf (4 * (X * Y)) \<Longrightarrow>
      fold (\<lambda>i. rect_row (buf + of_nat (4 * (X * (y + i) + x))) (of_nat w) c) [0..<n] m q = m q"
    unfolding P_def f_def by blast+
qed

lemma sint_of_nat31: "k < 2 ^ 31 \<Longrightarrow> sint (of_nat k :: u32) = int k"
  by (simp add: signed_of_nat signed_take_bit_int_eq_self)

lemma frame_words:
  assumes "frame_ok s"
  shows "ucast (vb_bpp (vbemem s) div 8) = (4 :: u32)"
    "ucast (vb_pitch (vbemem s)) = (of_nat (4 * unat (vb_xres (vbemem s))) :: u32)"
    "ucast (vb_xres (vbemem s)) = (of_nat (unat (vb_xres (vbemem s))) :: u32)"
proof -
  have u: "(ucast (v :: u16) :: u32) = of_nat (unat v)" for v by simp
  show "ucast (vb_bpp (vbemem s) div 8) = (4 :: u32)"
  proof -
    have "vb_bpp (vbemem s) = 32" using assms by (simp add: frame_ok_def)
    then show ?thesis by simp
  qed
  show "ucast (vb_pitch (vbemem s)) = (of_nat (4 * unat (vb_xres (vbemem s))) :: u32)"
    using assms unfolding u frame_ok_def by metis
  show "ucast (vb_xres (vbemem s)) = (of_nat (unat (vb_xres (vbemem s))) :: u32)" by (rule u)
qed

text \<open>Inside the screen \<open>draw_rect\<close> is its rows.\<close>

lemma draw_rect_rows:
  assumes "frame_ok s" "x \<le> unat (vb_xres (vbemem s))" "y \<le> unat (vb_yres (vbemem s))" "h < 2 ^ 31"
  shows "draw_rect (of_nat x) (of_nat y) w (of_nat h) c s = s\<lparr>ram :=
    fold (\<lambda>i. rect_row (vb_buffer (vbemem s) + of_nat (4 * (unat (vb_xres (vbemem s)) * (y + i) + x))) w c) [0..<h] (ram s)\<rparr>"
proof -
  have "unat v < 2 ^ 31" for v :: u16 by (rule less_trans [OF unsigned_less]) simp
  then have "x < 2 ^ 31" "y < 2 ^ 31" using assms(2,3) by (metis le_less_trans)+
  note i = sint_of_nat31 [OF this(1)] sint_of_nat31 [OF this(2)] sint_of_nat31 [OF assms(4)]
  note f = frame_words [OF assms(1)]
  have a: "vb_buffer (vbemem s) + of_nat x * 4 + of_nat y * of_nat (4 * unat (vb_xres (vbemem s)))
      + of_nat i * (of_nat (unat (vb_xres (vbemem s))) * 4)
    = vb_buffer (vbemem s) + of_nat (4 * (unat (vb_xres (vbemem s)) * (y + i) + x))" for i
    by (simp add: algebra_simps)
  have "\<not> (int x < 0 \<or> int (unat (vb_xres (vbemem s))) < int x \<or> int y < 0 \<or> int (unat (vb_yres (vbemem s))) < int y)"
    unfolding of_nat_less_iff using assms(2,3) by linarith
  then show ?thesis unfolding draw_rect_def Let_def i f a nat_int by (simp only: if_False)
qed

text \<open>C16: A rectangle inside the screen colours exactly its pixels: the others, the bytes between them and
  everything outside the frame buffer stay.\<close>

theorem draw_rect_fills:
  assumes "frame_ok s" "0 < w" "x + w \<le> unat (vb_xres (vbemem s))" "y + h \<le> unat (vb_yres (vbemem s))"
  shows "let s' = draw_rect (of_nat x) (of_nat y) (of_nat w) (of_nat h) c s in (\<forall>a < unat (vb_xres (vbemem s)). \<forall>b < unat (vb_yres (vbemem s)).
      pixel s' a b = (if x \<le> a \<and> a < x + w \<and> y \<le> b \<and> b < y + h then rgb c else pixel s a b)
      \<and> ram s' (pixel_at s a b + 3) = ram s (pixel_at s a b + 3))
    \<and> (\<forall>q. q \<notin> frame_area s \<longrightarrow> ram s' q = ram s q) \<and> s' = s\<lparr>ram := ram s'\<rparr>"
proof -
  let ?X = "unat (vb_xres (vbemem s))" and ?Y = "unat (vb_yres (vbemem s))" and ?b = "vb_buffer (vbemem s)"
  have "unat (vb_yres (vbemem s)) < 2 ^ 31" by (rule less_trans [OF unsigned_less]) simp
  then have h: "h < 2 ^ 31" using assms(4) by linarith
  have N: "4 * (?X * ?Y) < 2 ^ 31" using assms(1) by (simp add: frame_ok_def)
  have x: "x < ?X" "x \<le> ?X" "y \<le> ?Y" using assms(2-4) by simp_all
  define m where "m = fold (\<lambda>i. rect_row (?b + of_nat (4 * (?X * (y + i) + x))) (of_nat w) c) [0..<h] (ram s)"
  define s' where "s' = draw_rect (of_nat x) (of_nat y) (of_nat w) (of_nat h) c s"
  have s': "s' = s\<lparr>ram := m\<rparr>" unfolding s'_def m_def by (rule draw_rect_rows [OF assms(1) x(2,3) h])
  have byte: "m (?b + of_nat (4 * (?X * b + a) + r)) = (if y \<le> b \<and> b < y + h \<and> x \<le> a \<and> a < x + w \<and> r \<noteq> 3
      then colour_at c r else ram s (?b + of_nat (4 * (?X * b + a) + r)))" if "a < ?X" "b < ?Y" "r < 4" for a b r
    unfolding m_def using rows_byte(1) [OF N assms(3) x(1) assms(4) that] .
  have "\<forall>q. q \<notin> frame_area s \<longrightarrow> m q = ram s q"
    unfolding m_def frame_area_def using rows_byte(2) [OF N assms(3) x(1) assms(4)] by blast
  moreover have "pixel s' a b = (if x \<le> a \<and> a < x + w \<and> y \<le> b \<and> b < y + h then rgb c else pixel s a b)
      \<and> ram s' (pixel_at s a b + 3) = ram s (pixel_at s a b + 3)" if "a < ?X" "b < ?Y" for a b
  proof -
    have at: "pixel_at s a b + of_nat r = ?b + of_nat (4 * (?X * b + a) + r)" for r by (simp add: pixel_at_def)
    show ?thesis
      using byte [OF that, of 0, folded at] byte [OF that, of 1, folded at] byte [OF that, of 2, folded at] byte [OF that, of 3, folded at]
      by (auto simp: s' pixel_def pixel_at_def rgb_def colour_at_def)
  qed
  ultimately show ?thesis unfolding Let_def s'_def [symmetric] unfolding s' by simp
qed

section \<open>Characters\<close>

lemma draw_pixel_bytes:
  assumes "frame_ok s" "x < unat (vb_xres (vbemem s))" "y < unat (vb_yres (vbemem s))"
  shows "draw_pixel (of_nat x) (of_nat y) c s = s\<lparr>ram := (ram s)
    (pixel_at s x y := ucast c, pixel_at s x y + 1 := ucast (drop_bit 8 c), pixel_at s x y + 2 := ucast (drop_bit 16 c))\<rparr>"
proof -
  have "unat v < 2 ^ 31" for v :: u16 by (rule less_trans [OF unsigned_less]) simp
  then have "x < 2 ^ 31" "y < 2 ^ 31" using assms(2,3) by (metis less_trans)+
  note i = sint_of_nat31 [OF this(1)] sint_of_nat31 [OF this(2)]
  have p: "vb_buffer (vbemem s) + of_nat x * 4 + of_nat y * of_nat (4 * unat (vb_xres (vbemem s))) = pixel_at s x y"
    by (simp add: pixel_at_def algebra_simps)
  have "\<not> (int x < 0 \<or> int (unat (vb_xres (vbemem s))) < int x \<or> int y < 0 \<or> int (unat (vb_yres (vbemem s))) < int y)"
    unfolding of_nat_less_iff using assms(2,3) by linarith
  then show ?thesis unfolding draw_pixel_def Let_def i frame_words [OF assms(1)] p by (simp only: if_False)
qed

text \<open>Bytes of different pixels, or at different places of one, have different addresses.\<close>

lemma pixel_addr:
  assumes "frame_ok s" "a < unat (vb_xres (vbemem s))" "b < unat (vb_yres (vbemem s))" "r < 4"
    "x < unat (vb_xres (vbemem s))" "y < unat (vb_yres (vbemem s))" "r' < 4"
  shows "pixel_at s a b + of_nat r = pixel_at s x y + of_nat r' \<longleftrightarrow> a = x \<and> b = y \<and> r = r'"
proof -
  let ?X = "unat (vb_xres (vbemem s))" and ?Y = "unat (vb_yres (vbemem s))"
  have N: "4 * (?X * ?Y) < 2 ^ 31" using assms(1) by (simp add: frame_ok_def)
  define A where "A = 4 * (?X * b + a) + r"
  define B where "B = 4 * (?X * y + x) + r'"
  have A: "A < 2 ^ 31" unfolding A_def using in_frame [OF assms(2,3,4)] N by (rule less_trans)
  have B: "B < 2 ^ 31" unfolding B_def using in_frame [OF assms(5,6,7)] N by (rule less_trans)
  have "pixel_at s a b + of_nat r = vb_buffer (vbemem s) + of_nat A" "pixel_at s x y + of_nat r' = vb_buffer (vbemem s) + of_nat B"
    by (simp_all add: pixel_at_def A_def B_def)
  moreover have "(of_nat A :: u32) = of_nat B \<longleftrightarrow> A = B" using unat_of_nat31 [OF A] unat_of_nat31 [OF B] by metis
  ultimately have "pixel_at s a b + of_nat r = pixel_at s x y + of_nat r' \<longleftrightarrow> A = B" by simp
  moreover have "A = B \<longleftrightarrow> a = x \<and> b = y \<and> r = r'"
  proof
    assume e: "A = B"
    have q: "(4 * k + j) div 4 = k" "(4 * k + j) mod 4 = j" if "j < 4" for k j :: nat using that by simp_all
    have "?X * b + a = ?X * y + x" "r = r'" using e q(1) [OF assms(4)] q(1) [OF assms(7)] q(2) [OF assms(4)] q(2) [OF assms(7)]
      unfolding A_def B_def by metis+
    moreover have "(?X * k + j) div ?X = k" "(?X * k + j) mod ?X = j" if "j < ?X" for k j using that by simp_all
    ultimately show "a = x \<and> b = y \<and> r = r'" using assms(2,5) by metis
  qed (simp add: A_def B_def)
  ultimately show ?thesis by simp
qed

lemma draw_pixel_fields [simp]: "vbemem (draw_pixel x y c s) = vbemem s"
  by (simp add: draw_pixel_def Let_def)

lemma draw_pixel_keeps: "draw_pixel x y c s = s\<lparr>ram := ram (draw_pixel x y c s)\<rparr>"
  by (simp add: draw_pixel_def Let_def)

lemma draw_pixel_pixel:
  assumes "frame_ok s" "x < unat (vb_xres (vbemem s))" "y < unat (vb_yres (vbemem s))"
    "a < unat (vb_xres (vbemem s))" "b < unat (vb_yres (vbemem s))"
  shows "pixel (draw_pixel (of_nat x) (of_nat y) c s) a b = (if a = x \<and> b = y then rgb c else pixel s a b)"
proof -
  note n = pixel_addr [OF assms(1,4,5) _ assms(2,3)]
  have "pixel_at s a b + of_nat r = pixel_at s x y + of_nat r' \<longleftrightarrow> a = x \<and> b = y \<and> r = r'" if "r \<in> {0, 1, 2}" "r' \<in> {0, 1, 2}" for r r'
    using n [of r r'] that by auto
  from this [of 0 0] this [of 0 1] this [of 0 2] this [of 1 0] this [of 1 1] this [of 1 2] this [of 2 0] this [of 2 1] this [of 2 2]
  show ?thesis unfolding draw_pixel_bytes [OF assms(1-3)] by (simp add: pixel_def pixel_at_def rgb_def)
qed

lemma fold_fold_product: "fold (\<lambda>i. fold (g i) ys) xs s = fold (\<lambda>(i, l). g i l) (List.product xs ys) s"
  by (induction xs arbitrary: s) (simp_all add: fold_map comp_def)

definition put_dot :: "nat \<Rightarrow> nat \<Rightarrow> u8 list \<Rightarrow> nat \<times> nat \<Rightarrow> 'a video_state_scheme \<Rightarrow> 'a video_state_scheme" where
  "put_dot x y g = (\<lambda>(i, l) s. if bit (g ! i) (7 - l) then draw_pixel (of_nat (x + l)) (of_nat (y + i)) 0 s else s)"

lemma draw_char_dots: "draw_char (of_nat x) (of_nat y) g s = fold (put_dot x y g) (List.product [0..<8] [0..<8]) s"
  unfolding draw_char_def fold_fold_product put_dot_def of_nat_add ..

lemma put_dots_pixel:
  assumes "frame_ok s" "x + 8 \<le> unat (vb_xres (vbemem s))" "y + 8 \<le> unat (vb_yres (vbemem s))"
    "a < unat (vb_xres (vbemem s))" "b < unat (vb_yres (vbemem s))" "set ps \<subseteq> {0..<8} \<times> {0..<8}"
  shows "pixel (fold (put_dot x y g) ps s) a b = (if \<exists>(i, l) \<in> set ps. bit (g ! i) (7 - l) \<and> a = x + l \<and> b = y + i then rgb 0 else pixel s a b)"
  using assms(1-3,6) assms(4,5)
proof (induction ps arbitrary: s)
  case (Cons p ps)
  obtain i l where p: "p = (i, l)" by (cases p)
  have il: "x + l < unat (vb_xres (vbemem s))" "y + i < unat (vb_yres (vbemem s))" using Cons.prems(2-4) p by auto
  define t where "t = put_dot x y g p s"
  have v: "vbemem t = vbemem s" by (simp add: t_def put_dot_def p)
  have ok: "frame_ok t" using Cons.prems(1) by (simp add: frame_ok_def v)
  have t: "pixel t a b = (if bit (g ! i) (7 - l) \<and> a = x + l \<and> b = y + i then rgb 0 else pixel s a b)"
    using draw_pixel_pixel [OF Cons.prems(1) il Cons.prems(5,6), of 0] unfolding t_def put_dot_def p prod.case by (cases "bit (g ! i) (7 - l)") auto
  have "pixel (fold (put_dot x y g) ps t) a b = (if \<exists>(i, l) \<in> set ps. bit (g ! i) (7 - l) \<and> a = x + l \<and> b = y + i then rgb 0 else pixel t a b)"
    using Cons.prems(4) by (intro Cons.IH [OF ok]) (use Cons.prems v in simp_all)
  moreover have "fold (put_dot x y g) (p # ps) s = fold (put_dot x y g) ps t" by (simp add: t_def)
  ultimately show ?case unfolding t by (auto simp: p)
qed simp

text \<open>C17: A character inside the screen turns black exactly the pixels of the set bits of its 8 rows, the
  highest bit leftmost.\<close>

theorem draw_char_glyph:
  assumes "frame_ok s" "x + 8 \<le> unat (vb_xres (vbemem s))" "y + 8 \<le> unat (vb_yres (vbemem s))"
    "a < unat (vb_xres (vbemem s))" "b < unat (vb_yres (vbemem s))"
  shows "pixel (draw_char (of_nat x) (of_nat y) g s) a b
    = (if x \<le> a \<and> a < x + 8 \<and> y \<le> b \<and> b < y + 8 \<and> bit (g ! (b - y)) (7 - (a - x)) then (0, 0, 0) else pixel s a b)"
proof -
  have "set (List.product [0..<8] [0..<8]) \<subseteq> {0..<8} \<times> {0..<8}" by simp
  note p = put_dots_pixel [OF assms this, of g]
  have "(\<exists>(i, l) \<in> set (List.product [0..<8] [0..<8]). bit (g ! i) (7 - l) \<and> a = x + l \<and> b = y + i)
      \<longleftrightarrow> x \<le> a \<and> a < x + 8 \<and> y \<le> b \<and> b < y + 8 \<and> bit (g ! (b - y)) (7 - (a - x))" (is "?L \<longleftrightarrow> ?R")
  proof
    assume r: ?R
    then have "(b - y, a - x) \<in> set (List.product [0..<8] [0..<8])" "a = x + (a - x)" "b = y + (b - y)" by auto
    then show ?L using r by blast
  qed auto
  moreover have "rgb 0 = (0, 0, 0)" by (simp add: rgb_def)
  ultimately show ?thesis unfolding draw_char_dots p by (simp only:)
qed

section \<open>Witnesses\<close>

text \<open>A screen of 1024 by 768 pixels.\<close>

definition demo_screen :: "video_state" where
  "demo_screen = demo_video\<lparr>vbemem := \<lparr>vb_buffer_size = 0x300000, vb_mem = 0xFD000000, vb_buffer = 0xFD300000,
     vb_xres = 1024, vb_yres = 768, vb_bpp = 32, vb_pitch = 4096\<rparr>\<rparr>"

lemma demo_screen_ok: "frame_ok demo_screen" "unat (vb_xres (vbemem demo_screen)) = 1024" "unat (vb_yres (vbemem demo_screen)) = 768"
  by (simp_all add: frame_ok_def demo_screen_def)

theorem draw_rect_fills_witness:
  "pixel (draw_rect 400 300 200 200 0xA3A29E demo_screen) 599 300 = (0x9E, 0xA2, 0xA3)
    \<and> pixel (draw_rect 400 300 200 200 0xA3A29E demo_screen) 600 300 = pixel demo_screen 600 300"
proof -
  have "300 + 200 \<le> unat (vb_yres (vbemem demo_screen))" "400 + 200 \<le> unat (vb_xres (vbemem demo_screen))"
    by (simp_all add: demo_screen_ok)
  from draw_rect_fills [OF demo_screen_ok(1) _ this(2,1), of "0xA3A29E"] show ?thesis
    by (simp add: Let_def demo_screen_ok rgb_def)
qed

theorem draw_char_glyph_witness:
  "pixel (draw_char 55 55 (fonts ! 65) demo_screen) 57 56 = (0, 0, 0)
    \<and> pixel (draw_char 55 55 (fonts ! 65) demo_screen) 55 56 = pixel demo_screen 55 56"
proof -
  have g: "fonts ! 65 = [0x00, 0x3C, 0x66, 0x66, 0x7E, 0x66, 0x66, 0x66]" by (simp add: fonts_def)
  have "55 + 8 \<le> unat (vb_xres (vbemem demo_screen))" "55 + 8 \<le> unat (vb_yres (vbemem demo_screen))"
    by (simp_all add: demo_screen_ok)
  note c = draw_char_glyph [OF demo_screen_ok(1) this, of _ _ "fonts ! 65"]
  have "bit (0x3C :: u8) 5" "\<not> bit (0x3C :: u8) 7" by (simp_all add: bit_numeral_rec)
  then show ?thesis using c [of 57 56] c [of 55 56] by (simp add: demo_screen_ok g)
qed

end
