(* ===== verification/Pager.thy ===== *)
theory Pager
  imports Console
begin

text \<open>
  Reading a whole file: the console's \<open>read\<close> command as the user sees it.  \<open>print_file\<close> calls the virtual
  file system until the end of the file and waits for a key between two sectors; the file system follows
  the chain of clusters in the allocation table.  The section ends with the theorem that puts these parts
  together: the console prints the sectors of the chain, in order and each once.
\<close>

section \<open>Chains of clusters\<close>

text \<open>Where the allocation table of the file's device leads from a cluster.\<close>

definition file_link :: "fs_file \<Rightarrow> 'a fs_state_scheme \<Rightarrow> nat \<Rightarrow> nat option" where
  "file_link f s = (let dv = dev_store s (get_dev_by_id (f_dev f) s) in
     fat_link (m_type (dv_minfo dv)) (fat_byte (media s (dv_id dv)) (dv_minfo dv)))"

definition cluster_sector :: "fs_file \<Rightarrow> 'a fs_state_scheme \<Rightarrow> nat \<Rightarrow> u8 list" where
  "cluster_sector f s c = media s (dv_id (dev_store s (get_dev_by_id (f_dev f) s))) (get_phys_sector (f\<lparr>f_current_cluster := of_nat c\<rparr>))"

fun is_chain :: "(nat \<Rightarrow> nat option) \<Rightarrow> nat list \<Rightarrow> bool" where
  "is_chain link [] \<longleftrightarrow> False"
| "is_chain link [c] \<longleftrightarrow> link c = None"
| "is_chain link (c # d # cs) \<longleftrightarrow> link c = Some d \<and> is_chain link (d # cs)"

lemma small_parts: "x div 16 < 2 ^ 28" "x mod 4096 < 2 ^ 28" "x < 2 ^ 28" if "x < 65536" for x :: nat
  using le_less_trans [OF div_le_dividend [of x 16] that] le_less_trans [OF mod_less_eq_dividend [of x 4096] that] that
  by simp_all

lemma fat_link_bound:
  assumes "\<And>i. b i < 256" "fat_link typ b c = Some d"
  shows "d < 2 ^ 28"
proof -
  define h where "h i = b i + 256 * b (i + 1)" for i
  define v where "v = (if odd c then h (c + c div 2) div 16 else h (c + c div 2) mod 4096)"
  define w where "w = (h (4 * c) + 65536 * h (4 * c + 2)) mod 2 ^ 28"
  have h: "h i < 65536" for i using assms(1) [of i] assms(1) [of "i + 1"] by (simp add: h_def)
  have "d = v \<or> d = h (2 * c) \<or> d = w"
    using assms(2) unfolding fat_link_def Let_def h_def [symmetric] v_def [symmetric] w_def [symmetric]
    by (simp only: option.distinct option.inject simp_thms split: if_split_asm)
  moreover have "v < 2 ^ 28" using small_parts [OF h] by (simp only: v_def simp_thms split: if_split)
  moreover have "w < 2 ^ 28" unfolding w_def by (rule mod_less_divisor) simp
  moreover note small_parts(3) [OF h [of "2 * c"]]
  ultimately show ?thesis by blast
qed

lemma file_link_bound: "file_link f s c = Some d \<Longrightarrow> d < 2 ^ 28"
  unfolding file_link_def Let_def by (rule fat_link_bound) (auto simp: fat_byte_def)

text \<open>What reading leaves as it was.\<close>

definition fs_same :: "'a fs_state_scheme \<Rightarrow> 'a fs_state_scheme \<Rightarrow> bool" where
  "fs_same s t \<longleftrightarrow> devices t = devices s \<and> dev_store t = dev_store s \<and> media t = media s \<and> mounted t = mounted s
     \<and> FAT_buf t = FAT_buf s"

lemma fs_same_dev: "fs_same s t \<Longrightarrow> get_dev_by_id n t = get_dev_by_id n s"
  by (simp add: fs_same_def get_dev_by_id_def find_dev_def)

lemma fs_same_fs:
  assumes "fs_same s t"
  shows "file_link f t = file_link f s" "cluster_sector f t = cluster_sector f s" "read_ready g buf b t = read_ready g buf b s"
    "devs_at d t = devs_at d s" "fs_table q t = fs_table q s"
  using assms fs_same_dev [OF assms] unfolding fs_same_def
  by (simp_all add: file_link_def [abs_def] cluster_sector_def [abs_def] read_ready_def devs_at_def fs_table_def)

section \<open>One sector\<close>

lemma vfs_read_step:
  assumes "p \<noteq> 0" "devs_at (f_dev (files s p)) s = Some q" "q \<noteq> 0" "fs_table q s = Fs_fat" "read_ready (files s p) buf b s"
  shows "\<exists>m. vfs_file_read p buf s = Some (upd_file p (\<lambda>_. case file_link (files s p) s (unat (f_current_cluster (files s p))) of
      None \<Rightarrow> (files s p)\<lparr>f_eof := 1\<rparr> | Some c \<Rightarrow> (files s p)\<lparr>f_current_cluster := of_nat c\<rparr>) (s\<lparr>ram := m\<rparr>))
    \<and> load_bytes m buf 512 = cluster_sector (files s p) s (unat (f_current_cluster (files s p)))"
proof -
  obtain m where m: "fat_read (files s p) buf s = Some (case file_link (files s p) s (unat (f_current_cluster (files s p))) of
        None \<Rightarrow> (files s p)\<lparr>f_eof := 1\<rparr> | Some c \<Rightarrow> (files s p)\<lparr>f_current_cluster := of_nat c\<rparr>, s\<lparr>ram := m\<rparr>)"
      "load_bytes m buf 512 = cluster_sector (files s p) s (unat (f_current_cluster (files s p)))"
    using fat_read_step [OF assms(5)] by (auto simp: file_link_def cluster_sector_def Let_def get_phys_sector_def)
  then show ?thesis using assms(1-4) by (intro exI [of _ m]) (simp add: vfs_file_read_def fs_call_def)
qed

text \<open>Printing the bytes of the buffer.\<close>

abbreviation echo :: "u8 \<Rightarrow> string \<times> u32 list" where "echo c \<equiv> (''%c'', [scast c])"

lemma load_bytes_map: "load_bytes m p n = map (\<lambda>i. m (p + of_nat i)) [0..<n]"
  by (rule nth_equalityI) (simp_all add: load_bytes_nth)

lemma print_bytes:
  "fold (\<lambda>i s. kprint ''%c'' [scast (ram s (buf + of_nat i))] s) [0..<n] s = s\<lparr>klog := klog s @ map echo (load_bytes (ram s) buf n)\<rparr>"
  unfolding load_bytes_map by (induction n) (simp_all add: kprint_def)

section \<open>The whole file\<close>

lemma getchar_step:
  assumes "lastkey s = 0" "kbd_irqs s = Suc n" "port_reads s = 1 # ucast code # rest" "keyboard_to_ascii code = Some c" "c \<noteq> 0"
  shows "getchar s = Some (c, after_key rest n (enable_int s))"
  using key_step [of "enable_int s" n code rest c] assms by (simp add: getchar_def enable_int_def)

text \<open>The state of the loop: \<open>s0\<close> is the state before it, \<open>c\<close> the cluster that is read next, \<open>ks\<close> the keys
  to come and \<open>L\<close> what has been printed.\<close>

definition pager_inv :: "u32 \<Rightarrow> 'a console \<Rightarrow> nat \<Rightarrow> u8 list \<Rightarrow> nat \<Rightarrow> u16 list \<Rightarrow> (string \<times> u32 list) list \<Rightarrow> 'a console \<Rightarrow> bool" where
  "pager_inv p s0 c ks k rest L s \<longleftrightarrow> fs_same s0 s \<and> files s p = (files s0 p)\<lparr>f_current_cluster := of_nat c\<rparr> \<and> lastkey s = 0
     \<and> kbd_irqs s = length ks + k \<and> port_reads s = key_reads ks @ rest \<and> klog s = L"

definition read_setup :: "u32 \<Rightarrow> u32 \<Rightarrow> u32 \<Rightarrow> 'a console \<Rightarrow> bool" where
  "read_setup p buf b s \<longleftrightarrow> p \<noteq> 0 \<and> (\<exists>q. devs_at (f_dev (files s p)) s = Some q \<and> q \<noteq> 0 \<and> fs_table q s = Fs_fat)
     \<and> read_ready (files s p) buf b s \<and> f_eof (files s p) \<noteq> 1"

text \<open>What reading one sector comes to: \<open>t\<close> is the state before the loop waits for a key.\<close>

definition pager_read_to :: "u32 \<Rightarrow> u32 \<Rightarrow> 'a console \<Rightarrow> 'a console \<Rightarrow> nat \<Rightarrow> u8 list \<Rightarrow> nat \<Rightarrow> u16 list \<Rightarrow> (string \<times> u32 list) list \<Rightarrow> 'a console \<Rightarrow> bool" where
  "pager_read_to p buf s0 s c ks k rest L t \<longleftrightarrow>
     print_file_loop buf p s = (do { s \<leftarrow> (if f_eof (files t p) \<noteq> 1 then do { (_, s) \<leftarrow> getchar t; Some s } else Some t); print_file_loop buf p s })
     \<and> fs_same s0 t \<and> lastkey t = 0 \<and> kbd_irqs t = length ks + k \<and> port_reads t = key_reads ks @ rest
     \<and> klog t = L @ map echo (cluster_sector (files s0 p) s0 c)
     \<and> files t p = (case file_link (files s0 p) s0 c of None \<Rightarrow> (files s p)\<lparr>f_eof := 1\<rparr> | Some d \<Rightarrow> (files s0 p)\<lparr>f_current_cluster := of_nat d\<rparr>)"

lemma pager_read:
  assumes "read_setup p buf b s0" "pager_inv p s0 c ks k rest L s" "c < 2 ^ 28"
  shows "\<exists>t. pager_read_to p buf s0 s c ks k rest L t"
proof -
  let ?f = "files s0 p"
  have inv: "fs_same s0 s" "files s p = ?f\<lparr>f_current_cluster := of_nat c\<rparr>" "lastkey s = 0" "kbd_irqs s = length ks + k"
    "port_reads s = key_reads ks @ rest" "klog s = L" using assms(2) by (simp_all add: pager_inv_def)
  obtain q where q: "p \<noteq> 0" "devs_at (f_dev ?f) s0 = Some q" "q \<noteq> 0" "fs_table q s0 = Fs_fat" "read_ready ?f buf b s0" "f_eof ?f \<noteq> 1"
    using assms(1) by (auto simp: read_setup_def)
  note same = fs_same_fs [OF inv(1)]
  have c: "unat (f_current_cluster (files s p)) = c" using assms(3) by (simp add: inv(2) unsigned_of_nat take_bit_eq_mod)
  have r: "read_ready (files s p) buf b s"
    using q(5) c assms(3) unfolding same(3) by (simp add: inv(2) read_ready_def Let_def)
  have d: "devs_at (f_dev (files s p)) s = Some q" "fs_table q s = Fs_fat" using q(2,4) by (simp_all add: inv(2) same(4,5))
  have l: "file_link (files s p) s = file_link ?f s0" "cluster_sector (files s p) s = cluster_sector ?f s0"
    unfolding same(1,2) by (simp_all add: inv(2) file_link_def cluster_sector_def [abs_def] get_phys_sector_def)
  define g where "g = (case file_link ?f s0 c of None \<Rightarrow> (files s p)\<lparr>f_eof := 1\<rparr> | Some d \<Rightarrow> ?f\<lparr>f_current_cluster := of_nat d\<rparr>)"
  have "(case file_link ?f s0 c of None \<Rightarrow> (files s p)\<lparr>f_eof := 1\<rparr> | Some c \<Rightarrow> (files s p)\<lparr>f_current_cluster := of_nat c\<rparr>) = g"
    unfolding g_def inv(2) by (simp split: option.split)
  with vfs_read_step [OF q(1) d(1) q(3) d(2) r] obtain m where m:
      "vfs_file_read p buf s = Some (upd_file p (\<lambda>_. g) (s\<lparr>ram := m\<rparr>))" "load_bytes m buf 512 = cluster_sector ?f s0 c"
    unfolding l c by auto
  let ?u = "upd_file p (\<lambda>_. g) (s\<lparr>ram := m\<rparr>)"
  define t where "t = ?u\<lparr>klog := klog ?u @ map echo (load_bytes (ram ?u) buf 512)\<rparr>"
  have e: "f_eof (files s p) \<noteq> 1" using q(6) by (simp add: inv(2))
  have "print_file_loop buf p s = (do { s \<leftarrow> (if f_eof (files t p) \<noteq> 1 then do { (_, s) \<leftarrow> getchar t; Some s } else Some t); print_file_loop buf p s })"
    by (subst print_file_loop.simps) (simp only: e if_False m(1) bind.bind_lunit Let_def print_bytes t_def)
  moreover have "fs_same s0 t" using inv(1) by (simp add: t_def fs_same_def upd_file_def)
  moreover have "lastkey t = 0" "kbd_irqs t = length ks + k" "port_reads t = key_reads ks @ rest" "files t p = g"
      "klog t = L @ map echo (cluster_sector ?f s0 c)"
    using inv(3-6) m(2) by (simp_all add: t_def upd_file_def)
  ultimately show ?thesis unfolding g_def pager_read_to_def by blast
qed

text \<open>The loop over a chain.\<close>

lemma pager_chain:
  assumes "read_setup p buf b s0" "is_chain (file_link (files s0 p) s0) (c # cs)" "c < 2 ^ 28" "length ks = length cs"
    "list_all (\<lambda>k. case keyboard_to_ascii k of None \<Rightarrow> False | Some x \<Rightarrow> x \<noteq> 0) ks" "pager_inv p s0 c ks k rest L s"
  shows "\<exists>s'. print_file_loop buf p s = Some s' \<and> fs_same s0 s' \<and> f_eof (files s' p) = 1 \<and> kbd_irqs s' = k \<and> port_reads s' = rest
    \<and> klog s' = L @ concat (map (\<lambda>c. map echo (cluster_sector (files s0 p) s0 c)) (c # cs))"
  using assms(2-6)
proof (induction cs arbitrary: c ks L s)
  case Nil
  have n: "file_link (files s0 p) s0 c = None" "ks = []" using Nil.prems(1,3) by simp_all
  obtain t where "pager_read_to p buf s0 s c ks k rest L t" using pager_read [OF assms(1) Nil.prems(5,2)] ..
  note t = this [unfolded pager_read_to_def n option.case]
  have "files t p = (files s p)\<lparr>f_eof := 1\<rparr>" using t by blast
  then have e: "f_eof (files t p) = 1" by simp
  then have "print_file_loop buf p t = Some t" by (subst print_file_loop.simps) simp
  moreover have "print_file_loop buf p s = (do { s \<leftarrow> (if f_eof (files t p) \<noteq> 1 then do { (_, s) \<leftarrow> getchar t; Some s } else Some t); print_file_loop buf p s })"
    using t by blast
  ultimately have "print_file_loop buf p s = Some t" by (simp only: e simp_thms if_False bind.bind_lunit)
  moreover have "fs_same s0 t" "kbd_irqs t = k" "port_reads t = rest" "klog t = L @ map echo (cluster_sector (files s0 p) s0 c)"
    using t by (simp_all add: key_reads_def)
  ultimately show ?case using e by (intro exI [of _ t]) (simp only: concat.simps list.map append_Nil2 simp_thms)
next
  case (Cons d cs)
  have n: "file_link (files s0 p) s0 c = Some d" "is_chain (file_link (files s0 p) s0) (d # cs)" using Cons.prems(1) by simp_all
  obtain key ks' where ks: "ks = key # ks'" "length ks' = length cs" using Cons.prems(3) by (cases ks) auto
  obtain x where x: "keyboard_to_ascii key = Some x" "x \<noteq> 0" using Cons.prems(4) by (auto simp: ks(1) split: option.splits)
  obtain t where "pager_read_to p buf s0 s c ks k rest L t" using pager_read [OF assms(1) Cons.prems(5,2)] ..
  note r = this [unfolded pager_read_to_def n(1) option.case]
  have t: "print_file_loop buf p s = (do { s \<leftarrow> (if f_eof (files t p) \<noteq> 1 then do { (_, s) \<leftarrow> getchar t; Some s } else Some t); print_file_loop buf p s })"
      "fs_same s0 t" "lastkey t = 0" "kbd_irqs t = length ks + k" "port_reads t = key_reads ks @ rest"
      "klog t = L @ map echo (cluster_sector (files s0 p) s0 c)" "files t p = (files s0 p)\<lparr>f_current_cluster := of_nat d\<rparr>"
    using r by blast+
  have e: "f_eof (files t p) \<noteq> 1" using assms(1) t(7) by (simp add: read_setup_def)
  let ?u = "after_key (key_reads ks' @ rest) (length ks' + k) (enable_int t)"
  have "getchar t = Some (x, ?u)" using getchar_step [OF t(3) _ _ x] t(4,5) by (simp add: ks(1) key_reads_def)
  then have loop: "print_file_loop buf p s = print_file_loop buf p ?u" by (subst t(1)) (simp add: e)
  have "pager_inv p s0 d ks' k rest (L @ map echo (cluster_sector (files s0 p) s0 c)) ?u"
    using t(2,6,7) by (simp add: pager_inv_def after_key_def outportb_def enable_int_def fs_same_def)
  from Cons.IH [OF n(2) file_link_bound [OF n(1)] ks(2) _ this] Cons.prems(4) show ?case unfolding loop by (simp add: ks(1))
qed

text \<open>C10: Reading a file prints it: when the allocation table links the file's cluster to a chain, the console
  prints the bytes of the chain's sectors in order and each once, waits for a key between two of them,
  stops at the end of the chain with the file marked as read, and takes exactly those keys.\<close>

theorem print_file_prints:
  assumes "read_setup p buf b s" "f_type (files s p) = FS_FILE" "is_chain (file_link (files s p) s) (unat (f_current_cluster (files s p)) # cs)"
    "lastkey s = 0" "kbd_irqs s = length ks + k" "port_reads s = key_reads ks @ rest" "length ks = length cs"
    "list_all (\<lambda>k. case keyboard_to_ascii k of None \<Rightarrow> False | Some x \<Rightarrow> x \<noteq> 0) ks"
  shows "\<exists>s'. print_file buf p s = Some s' \<and> f_eof (files s' p) = 1 \<and> kbd_irqs s' = k \<and> port_reads s' = rest
    \<and> klog s' = klog s @ concat (map (\<lambda>c. map (\<lambda>x. (''%c'', [scast x])) (cluster_sector (files s p) s c)) (unat (f_current_cluster (files s p)) # cs))"
proof -
  let ?c = "unat (f_current_cluster (files s p))"
  have "pager_inv p s ?c ks k rest (klog s) s" using assms(4-6) by (simp add: pager_inv_def fs_same_def)
  moreover have "?c < 2 ^ 28" using assms(1) by (simp add: read_setup_def read_ready_def Let_def)
  moreover have "print_file buf p s = print_file_loop buf p s"
    using assms(2) by (simp add: print_file_def FS_FILE_def FS_NULL_def FS_DIR_def)
  ultimately show ?thesis using pager_chain [OF assms(1,3) _ assms(7,8), of k rest "klog s" s] by auto
qed

section \<open>An example\<close>

text \<open>A file of two clusters, 3 and 4, on a floppy disk: the first bytes of its allocation table are those that link
  3 to 4 and end the chain at 4.  The user presses the return key once.\<close>

definition demo_pager :: console_state where
  "demo_pager = (demo_console 1 (key_reads [0x1C] @ []) (\<lambda>_. 0))
     \<lparr>devices := devices demo_fs, dev_store := dev_store demo_fs, mounted := (replicate 26 0)[2 := 0x7000 + FS_OFFSET],
      media := (\<lambda>n lba. if lba = 1 then replicate 4 0 @ [0x40, 0, 0xFF, 0x0F] @ replicate 504 0 else if lba = 34 then replicate 512 65 else replicate 512 66),
      FAT_buf := 0x3000, files := (\<lambda>_. demo_file)\<rparr>"

lemma demo_pager_simps:
  "devices demo_pager = [0, 0, 0x7000, 0, 0, 0, 0, 0]" "dev_store demo_pager = dev_store demo_fs" "FAT_buf demo_pager = 0x3000"
  "media demo_pager n lba = (if lba = 1 then replicate 4 0 @ [0x40, 0, 0xFF, 0x0F] @ replicate 504 0 else if lba = 34 then replicate 512 65 else replicate 512 66)"
  "mounted demo_pager = (replicate 26 0)[2 := 0x7000 + FS_OFFSET]" "files demo_pager p = demo_file" "lastkey demo_pager = 0"
  "kbd_irqs demo_pager = 1" "port_reads demo_pager = key_reads [0x1C] @ []" "klog demo_pager = klog demo_gui"
  by (simp_all add: demo_pager_def demo_console_def demo_fs_simps gui_state.defs)

theorem print_file_prints_witness:
  "\<exists>s'. print_file 0x2000 0x9000 demo_pager = Some s' \<and> port_reads s' = []
    \<and> klog s' = klog demo_pager @ replicate 512 (''%c'', [65]) @ replicate 512 (''%c'', [66])"
proof -
  have dev: "get_dev_by_id 2 demo_pager = 0x7000" by (simp add: get_dev_by_id_def find_dev_def demo_pager_simps demo_fs_simps)
  have ready: "read_ready demo_file 0x2000 0x1000 demo_pager"
    by (simp add: read_ready_def Let_def demo_fs_simps demo_pager_simps demo_file_def dev region_apart)
  have table: "fs_table (0x7000 + FS_OFFSET) demo_pager = Fs_fat"
    by (simp add: fs_table_def demo_pager_simps demo_fs_def proc_state.defs ideal_device_def)
  have prep: "read_setup 0x9000 0x2000 0x1000 demo_pager"
    using ready table by (simp add: read_setup_def devs_at_def demo_pager_simps demo_file_def FS_OFFSET_def MAX_DEVICES_def)
  have link: "file_link demo_file demo_pager 3 = Some 4" "file_link demo_file demo_pager 4 = None"
    by (simp_all add: file_link_def Let_def demo_file_def dev fat_link_def fat_byte_def demo_pager_simps demo_fs_simps nth_append)
  have sector: "cluster_sector demo_file demo_pager 3 = replicate 512 65" "cluster_sector demo_file demo_pager 4 = replicate 512 66"
    by (simp_all add: cluster_sector_def get_phys_sector_def demo_file_def demo_pager_simps)
  have "unat (f_current_cluster demo_file) = 3" "f_type demo_file = FS_FILE" by (simp_all add: demo_file_def)
  moreover have "keyboard_to_ascii 0x1C = Some 10" by code_simp
  ultimately show ?thesis
    using print_file_prints [OF prep, where cs = "[4]" and ks = "[0x1C]" and k = 0 and rest = "[]"] link sector
    by (auto simp: demo_pager_simps)
qed

end
