(* ===== verification/Printf.thy ===== *)
theory Printf
  imports Userlib
begin

text \<open>
  \<open>printf\<close> of a user program from its call to the screen: the library takes a block of the running thread's
  heap, writes the text into it, hands it to the kernel as a format, and releases the block.  The parts that
  take part are the user heap (Uheap), the formatting of text (Cstring), the system calls (Traps) and the
  terminal (Video).
\<close>

section \<open>Formats\<close>

lemma renders_plain: "of_char CHR ''%'' \<notin> set out \<Longrightarrow> renders m W out args out"
  by (induction out) (auto intro: renders.intros)

lemma renders_cong:
  assumes "renders m W f args out" "\<forall>x. x \<notin> W \<longrightarrow> m' x = m x" "W' \<subseteq> W"
  shows "renders m' W' f args out"
  using assms(1)
proof induction
  case (r_string a t f args out)
  have "m a' = m' a'" if "a' \<in> region a (Suc (length t))" for a' using that r_string.hyps(3) assms(2) by auto
  moreover have "length t < 2 ^ 32" using r_string.hyps(2) by simp
  ultimately have "cstr m' a t" using cstr_cong [of t a m m'] r_string.hyps(1) by blast
  moreover have "region a (Suc (length t)) \<inter> W' = {}" using r_string.hyps(3) assms(3) by blast
  ultimately show ?case using r_string.hyps(2) r_string.IH by (blast intro: renders.r_string)
qed (blast intro: renders.intros)+

section \<open>The heap of the running thread\<close>

definition uheap_of :: "'a proc_state_scheme \<Rightarrow> u32 option" where
  "uheap_of s = (let t = pr_thread_list (procs s (get_cur_proc s)) in
     if get_cur_proc s \<noteq> 0 \<and> t \<noteq> 0 then Some (th_heap (threads s t)) else None)"

lemma uheap_calls:
  assumes "uheap_of s = Some h"
  shows "umalloc_sys len s = umalloc len h s" "ufree_sys p s = ufree p h s"
  using assms by (auto simp: uheap_of_def umalloc_sys_def ufree_sys_def Let_def split: if_splits)

lemma uheap_of_same [simp]: "uheap_of (s\<lparr>ram := m\<rparr>) = uheap_of s"
  by (simp add: uheap_of_def get_cur_proc_def Let_def)

lemma uheap_of_screen: "on_screen s s' \<Longrightarrow> uheap_of s' = uheap_of s"
  by (auto simp: on_screen_def uheap_of_def get_cur_proc_def Let_def)

lemma user_calls:
  assumes "uheap_of s = Some h"
  shows "malloc e r len s = map_option (\<lambda>(p, s). Returns p s) (umalloc len h s)"
    "free e r p s = map_option (Returns ()) (ufree p h s)"
  using uheap_calls [OF assms]
  by (cases "ufree p h s"; simp add: malloc_def free_def syscall_call_def syscalls_def MAX_SYSCALL_def Let_def)+

text \<open>The bytes that a heap with these blocks keeps for itself, and the payload of the block at \<open>a\<close>.\<close>

definition heap_area :: "u32 \<Rightarrow> block list \<Rightarrow> u32 \<Rightarrow> u32 set" where
  "heap_area h bs a = region h 16 \<union> (\<Union>b \<in> set bs. region (fst b) 16) \<union> region (a + 16) 256"

lemma payload_clear:
  assumes "uheap_at m h bs'" "fit 256 bs = Some (a, bs')" "room a 256"
  shows "region (a + 16) 256 \<inter> (region h 16 \<union> (\<Union>b \<in> set bs'. region (fst b) 16)) = {}"
proof -
  have asc: "ascending bs'" "apart h a" using assms(1) fit_block [OF assms(2)] by (auto simp: uheap_at_def)
  have "region (a + 16) 256 \<inter> region (fst b) 16 = {}" if "b \<in> set bs'" for b
    using payload_apart [OF asc(1) assms(2,3) _ that, of 256] by simp
  moreover have "unat a + 4368 \<le> 2 ^ 32" using assms(3) by (simp add: room_def)
  then have "region (a + 16) 256 \<inter> region h 16 = {}"
    using asc(2) unat_off [of a 4368 16] by (intro region_apart2) (simp_all add: apart_def)
  ultimately show ?thesis by blast
qed

lemma uheap_at_cong:
  assumes "uheap_at m h bs" "\<forall>x \<in> region h 16 \<union> (\<Union>b \<in> set bs. region (fst b) 16). m' x = m x"
  shows "uheap_at m' h bs"
proof -
  have "uh_first m' h = uh_first m h" using assms(2) by (intro uh_cong(1)) blast
  moreover have "blocks m' p bs = blocks m p bs" for p using assms(2) by (intro blocks_cong) blast
  ultimately show ?thesis using assms(1) by (simp add: uheap_at_def)
qed

section \<open>From the call to the screen\<close>

text \<open>What the kernel does with a text that has no conversions.\<close>

lemma console_print_text:
  assumes "cstr (ram s) p out" "length out < 256" "0 \<notin> set out" "of_char CHR ''%'' \<notin> set out"
    "region p (Suc (length out)) \<inter> K = {}" "region p (Suc (length out)) \<inter> screen_area s = {}" "K = region k 296" "K \<inter> screen_area s = {}"
    "is_text_mode s \<noteq> 0" "cursor_ok s"
    "t_print (unat (vheigth s)) (unat (vwidth s)) out (t_check (unat (vheigth s)) (unat (vwidth s)) (screen s)) = Some t"
  shows "\<exists>s'. console_print k (k + 256) p args s = Some s' \<and> screen s' = t
    \<and> (\<exists>m. on_screen (s\<lparr>ram := m\<rparr>) s' \<and> (\<forall>x. x \<notin> K \<longrightarrow> m x = ram s x))"
proof -
  let ?W = "region k (Suc (length out)) \<union> region (k + 256) 40"
  have W: "?W \<subseteq> K" using region_mono [of "Suc (length out)" 296 k] region_off [of 256 40 296 k] assms(2) by (simp add: assms(7))
  have kb: "region k (Suc (length out)) \<inter> region (k + 256) 40 = {}"
    using region_next [of 256 40 k] region_mono [of "Suc (length out)" 256 k] assms(2) by auto
  have "region p (Suc (length out)) \<inter> ?W = {}" using W assms(5) by blast
  from vsprintf_text [OF renders_plain [OF assms(4)] refl kb _ assms(3,1) _ this] assms(2) obtain m where
    m: "vsprintf (ram s) k p args (k + 256) = Some m" "cstr m k out" "\<forall>x. x \<notin> ?W \<longrightarrow> m x = ram s x" by auto
  let ?s = "s\<lparr>ram := m\<rparr>"
  have area: "screen_area ?s = screen_area s" by (simp add: screen_area_def)
  have sc: "screen ?s = screen s" using assms(8,10) W m(3) by (intro screen_cong) (auto simp: cursor_ok_def)
  have "\<exists>s'. printk_string k ?s = Some s' \<and> screen s' = t \<and> on_screen ?s s'"
  proof (rule printk_string_screen)
    show "region k (Suc (length out)) \<inter> screen_area ?s = {}" using W assms(8) area by blast
  qed (use m(2) assms(2,10,11) sc in \<open>simp_all add: cursor_ok_def\<close>)
  moreover have "is_text_mode ?s \<noteq> 0" using assms(9) by (simp add: is_text_mode_def)
  ultimately show ?thesis using m(1,3) W by (simp add: console_print_def) blast
qed

text \<open>A heap of the running thread from which a block of 256 bytes can be taken, at \<open>a\<close>, with the blocks before
  and after.\<close>

definition heap_ready :: "u32 \<Rightarrow> block list \<Rightarrow> u32 \<Rightarrow> block list \<Rightarrow> 'a proc_state_scheme \<Rightarrow> bool" where
  "heap_ready h bs a bs' s \<longleftrightarrow> uheap_of s = Some h \<and> uheap_at (ram s) h bs \<and> uh_used (ram s) h < uh_size (ram s) h
     \<and> (\<forall>b \<in> set bs. fst b < h + 0x10000) \<and> fit 256 bs = Some (a, bs') \<and> room a 256"

lemma heap_area_parts:
  assumes "heap_ready h bs a bs' s"
  shows "region h 16 \<subseteq> heap_area h bs' a" "(\<Union>b \<in> set bs'. region (fst b) 16) \<subseteq> heap_area h bs' a"
    "region (a + 16) 256 \<subseteq> heap_area h bs' a" "region a 16 \<subseteq> heap_area h bs' a"
    "region (a + 16 * 256 + 256) 16 \<subseteq> heap_area h bs' a" "(a, 256, False) \<in> set bs'"
proof -
  obtain pre sz where "bs' = pre @ cut a sz 256" using fit_shape assms unfolding heap_ready_def by blast
  then have ins: "(a, 256, False) \<in> set bs'" "(a + 16 * 256 + 256, sz - 256 - 16, True) \<in> set bs'" by (simp_all add: cut_def)
  then show "region a 16 \<subseteq> heap_area h bs' a" "region (a + 16 * 256 + 256) 16 \<subseteq> heap_area h bs' a" "(a, 256, False) \<in> set bs'"
    unfolding heap_area_def by fastforce+
qed (auto simp: heap_area_def)

text \<open>The library's part: the block holds the text, and the heap's own bytes are as the allocation left them.\<close>

lemma user_text:
  assumes "heap_ready h bs a bs' s" "A = heap_area h bs' a" "U = region ubuf 40" "A \<inter> U = {}"
    and format: "renders (ram s) (A \<union> U) f args out" "cstr (ram s) fmt f" "Suc (length f) < 2 ^ 32"
      "region fmt (Suc (length f)) \<inter> (A \<union> U) = {}" "length out < 256" "0 \<notin> set out"
  shows "\<exists>m1 m2. umalloc 256 h s = Some (a + 16, s\<lparr>ram := m1\<rparr>) \<and> vsprintf m1 (a + 16) fmt args ubuf = Some m2
    \<and> cstr m2 (a + 16) out \<and> uheap_at m2 h bs' \<and> (\<forall>x. x \<notin> A \<union> U \<longrightarrow> m2 x = ram s x)"
proof -
  let ?p = "a + 16" let ?W = "region ?p (Suc (length out)) \<union> U"
  note ready = assms(1) [unfolded heap_ready_def]
  note area = heap_area_parts [OF assms(1), folded assms(2)]
  have pay: "region ?p (Suc (length out)) \<subseteq> region ?p 256" using format(5) by (intro region_mono) simp
  obtain m1 where m1: "umalloc 256 h s = Some (?p, s\<lparr>ram := m1\<rparr>)" "uheap_at m1 h bs'" "\<forall>x. x \<notin> A \<longrightarrow> m1 x = ram s x"
    using umalloc_step [of s h bs 256 a bs'] room_apart ready area(1,4,5) by blast
  have W: "?W \<subseteq> A \<union> U" using pay area(3) by blast
  have r: "renders m1 ?W f args out" by (rule renders_cong [OF format(1) _ W]) (use m1(3) in blast)
  have "ram s x = m1 x" if "x \<in> region fmt (Suc (length f))" for x using that format(4) m1(3) by auto
  then have f: "cstr m1 fmt f" using cstr_cong [of f fmt "ram s" m1] format(2,3) by simp
  have dis: "region fmt (Suc (length f)) \<inter> ?W = {}" "region ?p (Suc (length out)) \<inter> region ubuf 40 = {}"
    using format(4) W pay area(3) assms(3,4) by blast+
  obtain m2 where m2: "vsprintf m1 ?p fmt args ubuf = Some m2" "cstr m2 ?p out" "\<forall>x. x \<notin> ?W \<longrightarrow> m2 x = m1 x"
    using vsprintf_text [OF r _ dis(2) _ format(6) f format(3) dis(1)] format(5) assms(3) by auto
  from payload_clear [OF m1(2)] ready
  have "region ?p 256 \<inter> (region h 16 \<union> (\<Union>b \<in> set bs'. region (fst b) 16)) = {}" by blast
  then have "m2 x = m1 x" if "x \<in> region h 16 \<union> (\<Union>b \<in> set bs'. region (fst b) 16)" for x
    using that pay area(1,2) assms(4) m2(3) by blast
  then have "uheap_at m2 h bs'" by (intro uheap_at_cong [OF m1(2)]) blast
  moreover have "m2 x = ram s x" if "x \<notin> A \<union> U" for x
  proof -
    have "x \<notin> ?W" "x \<notin> A" using that W by blast+
    then show ?thesis using m1(3) m2(3) by simp
  qed
  ultimately show ?thesis using m1(1) m2(1,2) by (intro exI [of _ m1] exI [of _ m2]) simp
qed

text \<open>The last part: the block is released and the screen stays.\<close>

lemma user_release:
  assumes "heap_ready h bs a bs' s" "uheap_of s' = Some h" "uheap_at (ram s') h bs'" "heap_area h bs' a \<inter> screen_area s' = {}"
    "unat (vheigth s') < 1000" "unat (vwidth s') < 1000"
  shows "\<exists>m. free e r (a + 16) s' = Some (Returns () (s'\<lparr>ram := m\<rparr>)) \<and> screen (s'\<lparr>ram := m\<rparr>) = screen s'
    \<and> uheap_at m h (release a bs') \<and> (\<forall>x. x \<notin> heap_area h bs' a \<longrightarrow> m x = ram s' x)"
proof -
  note area = heap_area_parts [OF assms(1)]
  from ufree_step [OF assms(3) area(6)] obtain m where m: "ufree (a + 16) h s' = Some (s'\<lparr>ram := m\<rparr>)"
      "uheap_at m h (release a bs')" "\<forall>x. x \<notin> heap_area h bs' a \<longrightarrow> m x = ram s' x" using area(1,4) by blast
  moreover have "screen (s'\<lparr>ram := m\<rparr>) = screen s'" using m(3) assms(4-6) by (intro screen_cong) auto
  moreover have "free e r (a + 16) s' = Some (Returns () (s'\<lparr>ram := m\<rparr>))"
    by (simp only: user_calls(2) [OF assms(2)] m(1) option.map)
  ultimately show ?thesis by blast
qed

text \<open>C9: \<open>printf\<close> of a user program shows its text.  When the block it takes from the heap, the number buffers, the
  kernel's buffers and the screen are apart, the call returns; the screen is what an abstract terminal
  shows after the text that format and arguments describe, if the text has no percent sign, which the
  kernel would take for a conversion; the heap's block is free again, merged with its successor; and no
  other byte of memory has changed.\<close>

theorem printf_shows:
  assumes heap: "heap_ready h bs a bs' s"
    and areas: "A = heap_area h bs' a" "U = region ubuf 40" "K = region (ce_buf e) 296"
      "sorted_wrt (\<lambda>X Y. X \<inter> Y = {}) [A, U, K, screen_area s]"
    and format: "renders (ram s) (A \<union> U) f args out" "cstr (ram s) fmt f" "Suc (length f) < 2 ^ 32"
      "region fmt (Suc (length f)) \<inter> (A \<union> U) = {}" "length out < 256" "0 \<notin> set out" "of_char CHR ''%'' \<notin> set out"
    and terminal: "is_text_mode s \<noteq> 0" "cursor_ok s"
      "t_print (unat (vheigth s)) (unat (vwidth s)) out (t_check (unat (vheigth s)) (unat (vwidth s)) (screen s)) = Some t"
  shows "\<exists>s'. printf e r ubuf fmt args s = Some (Returns () s') \<and> screen s' = t \<and> uheap_at (ram s') h (release a bs')
    \<and> (\<forall>x. x \<notin> A \<union> U \<union> K \<union> screen_area s \<longrightarrow> ram s' x = ram s x)"
proof -
  let ?p = "a + 16" and ?S = "screen_area s" and ?k = "ce_buf e"
  have dis: "A \<inter> U = {}" "A \<inter> K = {}" "A \<inter> ?S = {}" "U \<inter> K = {}" "U \<inter> ?S = {}" "K \<inter> ?S = {}" using areas(4) by simp_all
  have h: "uheap_of s = Some h" using heap by (simp add: heap_ready_def)
  note area = heap_area_parts [OF heap, folded areas(1)]
  obtain m1 m2 where m: "umalloc 256 h s = Some (?p, s\<lparr>ram := m1\<rparr>)" "vsprintf m1 ?p fmt args ubuf = Some m2"
      "cstr m2 ?p out" "uheap_at m2 h bs'" "\<forall>x. x \<notin> A \<union> U \<longrightarrow> m2 x = ram s x"
    using user_text [OF heap areas(1,2) dis(1) format(1-6)] by blast
  let ?s2 = "s\<lparr>ram := m2\<rparr>"
  have s2: "screen_area ?s2 = ?S" "vheigth ?s2 = vheigth s" "vwidth ?s2 = vwidth s" "is_text_mode ?s2 \<noteq> 0" "cursor_ok ?s2"
    using terminal(1,2) by (simp_all add: screen_area_def is_text_mode_def cursor_ok_def)
  have sc2: "screen ?s2 = screen s" using m(5) dis terminal(2) by (intro screen_cong) (auto simp: cursor_ok_def)
  have "region ?p (Suc (length out)) \<subseteq> A" using region_mono [of "Suc (length out)" 256 ?p] format(5) area(3) by auto
  then have pay: "region ?p (Suc (length out)) \<inter> K = {}" "region ?p (Suc (length out)) \<inter> screen_area ?s2 = {}" "K \<inter> screen_area ?s2 = {}"
    using dis unfolding s2(1) by blast+
  have "\<exists>s'. console_print ?k (?k + 256) ?p [ur_ecx r, ur_edx r, ur_esi r, ur_edi r] ?s2 = Some s' \<and> screen s' = t
      \<and> (\<exists>m. on_screen (?s2\<lparr>ram := m\<rparr>) s' \<and> (\<forall>x. x \<notin> K \<longrightarrow> m x = ram ?s2 x))"
    by (rule console_print_text [OF _ format(5,6,7) pay(1,2) areas(3) pay(3)]) (use m(3) s2(2-5) sc2 terminal(3) in simp_all)
  then obtain s3 m3 where s3: "console_print ?k (?k + 256) ?p [ur_ecx r, ur_edx r, ur_esi r, ur_edi r] ?s2 = Some s3"
      "screen s3 = t" "on_screen (s\<lparr>ram := m3\<rparr>) s3" "\<forall>x. x \<notin> K \<longrightarrow> m3 x = m2 x" by auto
  have area3: "screen_area (s\<lparr>ram := m3\<rparr>) = ?S" by (simp add: screen_area_def)
  note f3 = on_screen_fields [OF s3(3)]
  have same: "ram s3 x = m2 x" if "x \<notin> K \<union> ?S" for x using that f3(5) [of x] s3(4) by (simp add: area3)
  have "uheap_at (ram s3) h bs'" by (rule uheap_at_cong [OF m(4)]) (use same area(1,2) dis in blast)
  moreover have "uheap_of s3 = Some h" using uheap_of_screen [OF s3(3)] h by simp
  moreover have "heap_area h bs' a \<inter> screen_area s3 = {}" using dis(3) f3(4) area3 areas(1) by simp
  moreover have "unat (vheigth s3) < 1000" "unat (vwidth s3) < 1000" using f3(1,2) terminal(2) by (simp_all add: cursor_ok_def)
  ultimately obtain m4 where m4: "free e r ?p s3 = Some (Returns () (s3\<lparr>ram := m4\<rparr>))" "screen (s3\<lparr>ram := m4\<rparr>) = t"
      "uheap_at m4 h (release a bs')" "\<forall>x. x \<notin> A \<longrightarrow> m4 x = ram s3 x"
    using user_release [OF heap, of s3] s3(2) areas(1) by blast
  have "printf e r ubuf fmt args s = Some (Returns () (s3\<lparr>ram := m4\<rparr>))"
    using user_calls(1) [OF h] m(1,2) s3(1) m4(1) by (simp add: printf_def syscall_call_def syscalls_def MAX_SYSCALL_def)
  then show ?thesis using m4(2-4) same m(5) by (intro exI [of _ "s3\<lparr>ram := m4\<rparr>"]) simp
qed

section \<open>An example\<close>

text \<open>A program whose heap starts at \<open>0x900000\<close> calls \<open>printf("%c!", 'A')\<close> on an empty screen.\<close>

definition demo_heap_mem :: mem where
  "demo_heap_mem = store_bytes (heap_init 0x900000 (\<lambda>_. 0)) 0x2000 (lit ''%c!'' @ [0])"

definition demo_printf :: console_state where
  "demo_printf = (demo_console 0 [] demo_heap_mem)
     \<lparr>threads := (\<lambda>_. (demo_thread 1 0x100)\<lparr>th_heap := 0x900000\<rparr>), procs := (\<lambda>_. demo_proc 0x100 0x20), proc_list := 0x10\<rparr>"

lemma demo_gui_video:
  "vx demo_gui = 0" "vy demo_gui = 0" "vheigth demo_gui = 25" "vwidth demo_gui = 80" "vram demo_gui = 0xB8000" "vb_mem (vbemem demo_gui) = 0"
  by (simp_all add: demo_gui_def video_state.defs demo_video_simps) (simp add: demo_video_def video_init_def input_state.defs)

lemma demo_printf_simps:
  "ram demo_printf = demo_heap_mem" "vx demo_printf = 0" "vy demo_printf = 0" "vheigth demo_printf = 25" "vwidth demo_printf = 80"
  "vram demo_printf = 0xB8000" "uheap_of demo_printf = Some 0x900000" "is_text_mode demo_printf \<noteq> 0"
  by (simp_all add: demo_printf_def demo_console_def gui_state.defs demo_gui_video uheap_of_def get_cur_proc_def demo_proc_def
      is_text_mode_def)

lemma demo_heap_ready: "heap_ready 0x900000 [(0x900040, 0x3FE0, True)] 0x900040 (cut 0x900040 0x3FE0 256) demo_printf"
proof -
  have "uheap_at (heap_init 0x900000 (\<lambda>_. 0)) 0x900000 [(0x900040, 0x3FE0, True)]" "uh_used (heap_init 0x900000 (\<lambda>_. 0)) 0x900000 = 16"
    "uh_size (heap_init 0x900000 (\<lambda>_. 0)) 0x900000 = 0x3FF0"
    using heap_init_info [of "0x900000" "\<lambda>_. 0"] by simp_all
  moreover have same: "demo_heap_mem x = heap_init 0x900000 (\<lambda>_. 0) x" if "x \<in> region 0x900000 16 \<union> region 0x900040 16" for x
  proof -
    have "region 0x900000 16 \<inter> region 0x2000 4 = {}" "region 0x900040 16 \<inter> region 0x2000 4 = {}" by (simp_all add: region_apart2)
    moreover have "length (lit ''%c!'' @ [0]) = 4" by (simp add: lit_def)
    ultimately have "x \<notin> region 0x2000 (length (lit ''%c!'' @ [0]))" using that by (simp only:) blast
    then show ?thesis unfolding demo_heap_mem_def by (rule store_bytes_outside)
  qed
  moreover have "\<forall>x \<in> region 0x900000 16. demo_heap_mem x = heap_init 0x900000 (\<lambda>_. 0) x" using same by blast
  note uh_cong [OF this]
  ultimately show ?thesis
    unfolding heap_ready_def demo_printf_simps by (simp add: room_def uheap_at_cong)
qed

theorem printf_shows_witness:
  "\<exists>s'. printf demo_env \<lparr>ur_eax = 0, ur_ebx = 0, ur_ecx = 0, ur_edx = 0, ur_esi = 0, ur_edi = 0\<rparr> 0x5000 0x2000 [65] demo_printf = Some (Returns () s')
    \<and> screen s' = (2, 0, (cells demo_heap_mem 0xB8000 2000)[0 := 0xF41, Suc 0 := 0xF21])
    \<and> uheap_at (ram s') 0x900000 [(0x900040, 0x3FE0, True)]"
proof -
  let ?s = demo_printf and ?A = "heap_area 0x900000 (cut 0x900040 0x3FE0 256) 0x900040" and ?U = "region 0x5000 40"
  have A: "?A = region 0x900000 16 \<union> (region 0x900040 16 \<union> region 0x901140 16) \<union> region 0x900050 256"
    by (simp add: heap_area_def cut_def)
  have area: "sorted_wrt (\<lambda>X Y. X \<inter> Y = {}) [?A, ?U, region (ce_buf demo_env) 296, screen_area ?s]"
    unfolding A screen_area_def by (simp add: demo_printf_simps demo_env_def Int_Un_distrib2 region_apart region_apart2)
  have "renders (ram ?s) (?A \<union> ?U) (lit ''%c!'') [65] [ucast (65 :: u32), of_char CHR ''!'']"
    unfolding lit_def list.map by (rule r_char, rule r_plain, simp, rule r_end)
  then have r: "renders (ram ?s) (?A \<union> ?U) (lit ''%c!'') [65] [65, 33]" by simp
  have f: "cstr (ram ?s) 0x2000 (lit ''%c!'')" "region 0x2000 (Suc (length (lit ''%c!''))) \<inter> (?A \<union> ?U) = {}"
    unfolding A by (simp_all add: demo_printf_simps demo_heap_mem_def lit_def store_bytes_def Int_Un_distrib region_apart)
  have c: "cursor_ok ?s" by (simp add: cursor_ok_def demo_printf_simps)
  have t: "t_print (unat (vheigth ?s)) (unat (vwidth ?s)) [65, 33] (t_check (unat (vheigth ?s)) (unat (vwidth ?s)) (screen ?s))
      = Some (2, 0, (cells demo_heap_mem 0xB8000 2000)[0 := 0xF41, Suc 0 := 0xF21])"
    by (simp add: screen_def t_check_def t_put_def demo_printf_simps)
  have rel: "release 0x900040 (cut 0x900040 0x3FE0 256) = [(0x900040, 0x3FE0, True)]" by (simp add: cut_def)
  show ?thesis
    using printf_shows [OF demo_heap_ready refl refl refl area r f(1) _ f(2) _ _ _ demo_printf_simps(8) c t] unfolding rel
    by (auto simp: lit_def)
qed

end
