(* ===== verification/Fatwrite.thy ===== *)
theory Fatwrite
  imports Fat
begin

text \<open>
  Writing a file: \<open>fat_write\<close> puts the text into the buffer of the disk, writes the file's sector, looks the
  entry of the file up in the root directory and writes its sector back with a new size.  Both lookups of
  the name allocate a block for its stored form, and only one of them releases it.  The section ends with
  the theorem that a read returns what the write has stored.
\<close>

section \<open>The stored name\<close>

text \<open>\<open>d\<close> is the stored form of a name with an extension of three characters.\<close>

definition named :: "char_array \<Rightarrow> u8 list \<Rightarrow> bool" where
  "named name d \<longleftrightarrow> (\<exists>b e. (\<forall>k<length b. name k = b ! k) \<and> name (length b) = of_char CHR ''.'' \<and> (\<forall>k<3. name (length b + 1 + k) = e ! k)
     \<and> name (length b + 4) = 0 \<and> length b \<le> 8 \<and> length e = 3 \<and> 0 \<notin> set b \<and> 0 \<notin> set e \<and> of_char CHR ''.'' \<notin> set b
     \<and> d = dos_bytes b e)"

lemma named_dos:
  assumes "named name d" "str \<noteq> 0"
  shows "to_dos_file_name name str m = Some (store_bytes m str (d @ [0]))" "length d = 11"
  using assms to_dos_file_name_eq [where str = str and m = m] unfolding named_def by (blast, auto simp: dos_bytes_def)

text \<open>A new block with the stored name; it lies with its header and the header behind it in 448 bytes.\<close>

lemma dos_name_step:
  assumes "kheap_at s bs" "get_used_heap s < get_heap_size s" "fit 11 bs = Some (a, bs')" "room a 11" "named name d"
  shows "\<exists>m. dos_name name s = Some (a + 16, kheap_add_used 27 (s\<lparr>ram := m\<rparr>))
    \<and> kheap_at (kheap_add_used 27 (s\<lparr>ram := m\<rparr>)) bs' \<and> load_bytes m (a + 16) 11 = d
    \<and> (\<forall>x. x \<notin> region a 448 \<longrightarrow> m x = ram s x)"
proof -
  obtain m where m: "kmalloc 11 s = Some (a + 16, kheap_add_used 27 (s\<lparr>ram := m\<rparr>))" "kheap_at (kheap_add_used 27 (s\<lparr>ram := m\<rparr>)) bs'"
      "\<forall>x. x \<notin> region a 16 \<union> region (a + 432) 16 \<longrightarrow> m x = ram s x"
  proof -
    have "a + 16 * 11 + 256 = a + 432" by simp
    from kmalloc_step [OF assms(1-4), unfolded this] that show thesis by auto
  qed
  have sub: "region a 16 \<subseteq> region a 448" "region (a + 432) 16 \<subseteq> region a 448" "region (a + 16) 12 \<subseteq> region a 448"
    using region_off [of 0 16 448 a] region_off [of 432 16 448 a] region_off [of 16 12 448 a] by simp_all
  have "unat (a + 16) = unat a + 16" using assms(4) unat_off [of a "0x100" 16] by (simp add: room_def)
  then have "a + 16 \<noteq> 0" by (metis add_is_0 unat_0 zero_neq_numeral)
  note d = named_dos [OF assms(5) this]
  let ?m = "store_bytes m (a + 16) (d @ [0])"
  have len: "length (d @ [0]) = 12" using d(2) by simp
  have asc: "ascending bs'" using m(2) by (simp add: kheap_at_def kheap_add_used_def)
  have "blocks ?m p bs' = blocks m p bs'" for p
  proof (rule blocks_cong)
    fix b assume "b \<in> set bs'"
    from payload_apart [OF asc assms(3,4) _ this, of 12] show "\<forall>x \<in> region (fst b) 16. ?m x = m x"
      using store_bytes_outside [of _ "a + 16" "d @ [0]" m] unfolding len by auto
  qed
  then have "kheap_at (kheap_add_used 27 (s\<lparr>ram := ?m\<rparr>)) bs'" using m(2) by (simp add: kheap_at_def kheap_add_used_def)
  moreover have "dos_name name s = Some (a + 16, kheap_add_used 27 (s\<lparr>ram := ?m\<rparr>))"
    using m(1) d(1) by (simp add: dos_name_def NAME_LEN_def kheap_add_used_def)
  moreover have "load_bytes ?m (a + 16) 11 = d"
    by (rule nth_equalityI) (simp_all add: d(2) load_bytes_nth store_bytes_nth nth_append)
  moreover have "?m x = ram s x" if "x \<notin> region a 448" for x
  proof -
    have "x \<notin> region (a + 16) (length (d @ [0]))" "x \<notin> region a 16 \<union> region (a + 432) 16" using that sub unfolding len by blast+
    then show ?thesis using m(3) by (simp add: store_bytes_outside)
  qed
  ultimately show ?thesis by blast
qed

section \<open>Finding the entry\<close>

definition find_in :: "u8 list \<Rightarrow> u8 list \<Rightarrow> nat option" where
  "find_in sec d = find (\<lambda>j. d = take 11 (drop (32 * j) sec)) [0..<16]"

lemma load_part:
  assumes "length xs = 512" "k + n \<le> 512"
  shows "load_bytes (store_bytes m b xs) (b + of_nat k) n = take n (drop k xs)"
proof (rule nth_equalityI)
  fix i assume "i < length (load_bytes (store_bytes m b xs) (b + of_nat k) n)"
  then have i: "i < n" by simp
  have "b + of_nat k + of_nat i = b + of_nat (k + i)" by simp
  then have "store_bytes m b xs (b + of_nat k + of_nat i) = xs ! (k + i)"
    using i assms store_bytes_nth [of "k + i" xs m b] by (simp only:) simp
  then show "load_bytes (store_bytes m b xs) (b + of_nat k) n ! i = take n (drop k xs) ! i"
    using i assms by (simp add: load_bytes_nth)
qed (use assms in simp)

lemma find_entry_sector:
  assumes "length sec = 512" "load_bytes m nm 11 = d" "region nm 11 \<inter> region b 512 = {}"
  shows "find_entry (store_bytes m b sec) nm b = find_in sec d"
proof -
  have nm: "load_bytes (store_bytes m b sec) nm 11 = d" using load_store_other [of nm 11 b sec m] assms by simp
  show ?thesis unfolding find_entry_def find_in_def
  proof (rule find_cong [OF refl])
    fix j assume "j \<in> set [0..<16]"
    then have "32 * j + 11 \<le> 512" by simp
    from load_part [OF assms(1) this, of m b]
    show "(strncmp (store_bytes m b sec) nm (b + 32 * of_nat j) NAME_LEN = 0) = (d = take 11 (drop (32 * j) sec))"
      by (simp add: strncmp_0 NAME_LEN_def nm)
  qed
qed

lemma kheap_at_sector:
  assumes "kheap_at s bs" "\<forall>b \<in> set bs. region (fst b) 16 \<inter> region p (length xs) = {}"
  shows "kheap_at (s\<lparr>ram := store_bytes (ram s) p xs\<rparr>) bs"
proof -
  have "blocks (store_bytes (ram s) p xs) q bs = blocks (ram s) q bs" for q
  proof (rule blocks_cong)
    fix b assume "b \<in> set bs"
    then show "\<forall>x \<in> region (fst b) 16. store_bytes (ram s) p xs x = ram s x" using assms(2) by (blast intro: store_bytes_outside)
  qed
  then show ?thesis using assms(1) by (simp add: kheap_at_def)
qed

lemma get_dir_loop_finds:
  assumes "sector_device b (dev_store s dev)" "\<forall>lba. length (media s (dv_id (dev_store s dev)) lba) = 512"
    "kheap_at s bs" "(a, sz, False) \<in> set bs" "\<forall>b' \<in> set bs. region (fst b') 16 \<inter> region b 512 = {}"
    "load_bytes (ram s) (a + 16) 11 = d" "region (a + 16) 11 \<inter> region b 512 = {}"
    "k \<le> i" "i < 14" "\<forall>i'. k \<le> i' \<and> i' < i \<longrightarrow> find_in (media s (dv_id (dev_store s dev)) (root_sector dev i' s)) d = None"
    "find_in (media s (dv_id (dev_store s dev)) (root_sector dev i s)) d = Some j"
  shows "\<exists>m. get_dir_loop [k..<14] dev (a + 16) s
      = Some (b + 32 * of_nat j, kheap_add_used (- sz) (s\<lparr>dir_sector := of_nat i, ram := m\<rparr>))
    \<and> kheap_at (kheap_add_used (- sz) (s\<lparr>dir_sector := of_nat i, ram := m\<rparr>)) (release a bs)
    \<and> load_bytes m b 512 = media s (dv_id (dev_store s dev)) (root_sector dev i s)
    \<and> (\<forall>x. x \<notin> region b 512 \<union> region a 16 \<longrightarrow> m x = ram s x)"
  using assms(1-8,10,11)
proof (induction "i - k" arbitrary: k s)
  case 0
  let ?sec = "media s (dv_id (dev_store s dev)) (root_sector dev i s)" let ?s = "s\<lparr>ram := store_bytes (ram s) b ?sec, dir_sector := of_nat i\<rparr>"
  have k: "k = i" "[k..<14] = i # [Suc i..<14]" using 0 assms(9) by (simp_all add: upt_conv_Cons)
  have len: "length ?sec = 512" using 0 by blast
  have "kheap_at (s\<lparr>ram := store_bytes (ram s) b ?sec\<rparr>) bs" using 0 len by (intro kheap_at_sector) auto
  then have "kheap_at ?s bs" by (simp add: kheap_at_def)
  from kfree_step [OF this] 0 obtain m where m: "kfree (a + 16) ?s = Some (kheap_add_used (- sz) (?s\<lparr>ram := m\<rparr>))"
      "kheap_at (kheap_add_used (- sz) (?s\<lparr>ram := m\<rparr>)) (release a bs)" "\<forall>x. x \<notin> region a 16 \<longrightarrow> m x = ram ?s x" by blast
  have "region a 16 \<inter> region b 512 = {}" using 0 by fastforce
  then have "load_bytes m b 512 = load_bytes (ram ?s) b 512" using m(3) by (intro load_bytes_cong) auto
  also have "\<dots> = ?sec" using load_512_sector [OF len] by simp
  finally have ld: "load_bytes m b 512 = ?sec" .
  have "find_entry (store_bytes (ram s) b ?sec) (a + 16) b = Some j" using find_entry_sector [OF len] 0 by auto
  then have "get_dir_loop [k..<14] dev (a + 16) s = Some (b + 32 * of_nat j, kheap_add_used (- sz) (?s\<lparr>ram := m\<rparr>))"
    unfolding k(2) using dev_read_sector [of b s dev "root_sector dev i s"] 0 len m(1) by simp
  then show ?case using m(2,3) ld len by (intro exI [of _ m]) (simp add: store_bytes_outside)
next
  case (Suc n)
  let ?sec = "media s (dv_id (dev_store s dev)) (root_sector dev k s)" let ?s = "s\<lparr>ram := store_bytes (ram s) b ?sec\<rparr>"
  have k: "k < i" "[k..<14] = k # [Suc k..<14]" using Suc.hyps(2) assms(9) by (simp_all add: upt_conv_Cons)
  have len: "length ?sec = 512" using Suc.prems by blast
  have "find_entry (store_bytes (ram s) b ?sec) (a + 16) b = None" using find_entry_sector [OF len] Suc.prems k(1) by auto
  then have step: "get_dir_loop [k..<14] dev (a + 16) s = get_dir_loop [Suc k..<14] dev (a + 16) ?s"
    unfolding k(2) using dev_read_sector [of b s dev "root_sector dev k s"] Suc.prems len by simp
  have "kheap_at ?s bs" using Suc.prems len by (intro kheap_at_sector) auto
  moreover have "load_bytes (ram ?s) (a + 16) 11 = d" using load_store_other [of "a + 16" 11 b ?sec "ram s"] Suc.prems len by simp
  moreover have "root_sector dev i' ?s = root_sector dev i' s" for i' by (simp add: root_sector_def)
  ultimately have "\<exists>m. get_dir_loop [Suc k..<14] dev (a + 16) ?s
      = Some (b + 32 * of_nat j, kheap_add_used (- sz) (?s\<lparr>dir_sector := of_nat i, ram := m\<rparr>))
    \<and> kheap_at (kheap_add_used (- sz) (?s\<lparr>dir_sector := of_nat i, ram := m\<rparr>)) (release a bs)
    \<and> load_bytes m b 512 = media ?s (dv_id (dev_store ?s dev)) (root_sector dev i ?s)
    \<and> (\<forall>x. x \<notin> region b 512 \<union> region a 16 \<longrightarrow> m x = ram ?s x)"
    using Suc.prems Suc.hyps(2) k(1) by (intro Suc.hyps(1)) auto
  then obtain m where "get_dir_loop [Suc k..<14] dev (a + 16) ?s
      = Some (b + 32 * of_nat j, kheap_add_used (- sz) (s\<lparr>dir_sector := of_nat i, ram := m\<rparr>))"
    "kheap_at (kheap_add_used (- sz) (s\<lparr>dir_sector := of_nat i, ram := m\<rparr>)) (release a bs)"
    "load_bytes m b 512 = media s (dv_id (dev_store s dev)) (root_sector dev i s)"
    "\<forall>x. x \<notin> region b 512 \<union> region a 16 \<longrightarrow> m x = ram ?s x" by (auto simp: root_sector_def)
  then show ?case unfolding step using len by (intro exI [of _ m]) (simp add: store_bytes_outside)
qed

section \<open>Sectors with a change\<close>

definition bytes32 :: "u32 \<Rightarrow> u8 list" where
  "bytes32 v = [ucast v, ucast (drop_bit 8 v), ucast (drop_bit 16 v), ucast (drop_bit 24 v)]"

definition padded :: "u8 list \<Rightarrow> u8 list" where "padded t = t @ replicate (512 - length t) 0"

text \<open>The sector \<open>sec\<close> of a directory with the size field of its entry \<open>j\<close> replaced.\<close>

definition set_size :: "nat \<Rightarrow> u32 \<Rightarrow> u8 list \<Rightarrow> u8 list" where
  "set_size j v sec = take (32 * j + 28) sec @ bytes32 v @ drop (32 * j + 32) sec"

lemma write32_bytes: "write32 m p v = store_bytes m p (bytes32 v)"
proof
  fix x
  have "store_bytes m p (bytes32 v) = (((m(p := ucast v))(p + 1 := ucast (drop_bit 8 v)))(p + 2 := ucast (drop_bit 16 v)))(p + 3 := ucast (drop_bit 24 v))"
    using store_bytes_snoc [of "[]" m p "ucast v"] store_bytes_snoc [of "[ucast v]" m p "ucast (drop_bit 8 v)"]
      store_bytes_snoc [of "[ucast v, ucast (drop_bit 8 v)]" m p "ucast (drop_bit 16 v)"]
      store_bytes_snoc [of "[ucast v, ucast (drop_bit 8 v), ucast (drop_bit 16 v)]" m p "ucast (drop_bit 24 v)"]
    by (simp add: bytes32_def)
  then show "write32 m p v x = store_bytes m p (bytes32 v) x" by (simp add: write32_def)
qed

lemma load_patch:
  assumes "k + length xs \<le> n" "n < 2 ^ 32"
  shows "load_bytes (store_bytes m (b + of_nat k) xs) b n = take k (load_bytes m b n) @ xs @ drop (k + length xs) (load_bytes m b n)"
proof (rule nth_equalityI)
  fix i assume "i < length (load_bytes (store_bytes m (b + of_nat k) xs) b n)"
  then have i: "i < n" by simp
  let ?e = "b + of_nat i - (b + of_nat k)"
  have "k \<le> i \<and> unat ?e = i - k" if "unat ?e < length xs"
  proof -
    have "of_nat i = (of_nat (k + unat ?e) :: u32)" by simp
    then have "unat (of_nat i :: u32) = unat (of_nat (k + unat ?e) :: u32)" by (rule arg_cong)
    moreover have "i < 4294967296" "k + unat ?e < 4294967296" using that i assms by simp_all
    ultimately have "i = k + unat ?e" by (simp only: unat_of_nat_u32)
    then show ?thesis by simp
  qed
  moreover have "unat ?e = i - k" if "k \<le> i"
  proof -
    have "unat ?e = unat (of_nat (i - k) :: u32)" by (intro arg_cong [where f = unat]) (simp add: of_nat_diff that)
    also have "\<dots> = i - k" using i assms(2) by (intro unat_of_nat_u32) simp
    finally show ?thesis .
  qed
  ultimately have "unat ?e < length xs \<longleftrightarrow> k \<le> i \<and> i < k + length xs" "k \<le> i \<Longrightarrow> unat ?e = i - k" by auto
  then show "load_bytes (store_bytes m (b + of_nat k) xs) b n ! i
      = (take k (load_bytes m b n) @ xs @ drop (k + length xs) (load_bytes m b n)) ! i"
    using i assms by (auto simp: load_bytes_nth store_bytes_def nth_append)
qed (use assms in simp)

section \<open>Writing a file\<close>

text \<open>The disk: its sectors pass through the buffer at \<open>b\<close>, and entry \<open>j\<close> of sector \<open>i\<close> of its root directory is
  the first with the file's name.\<close>

definition entry_at :: "fs_file \<Rightarrow> u8 list \<Rightarrow> u32 \<Rightarrow> nat \<Rightarrow> nat \<Rightarrow> 'a fs_state_scheme \<Rightarrow> bool" where
  "entry_at f d b i j s \<longleftrightarrow>
     (let dev = get_dev_by_id (f_dev f) s; w = media s (dv_id (dev_store s dev)) in
      sector_device b (dev_store s dev) \<and> (\<forall>lba. length (w lba) = 512) \<and> dma_buffer s = b \<and> 0 < unat b \<and> unat b + 512 \<le> 2 ^ 32
      \<and> named (f_name f) d \<and> i < 14 \<and> (\<forall>i'<i. find_in (w (root_sector dev i' s)) d = None)
      \<and> find_in (w (root_sector dev i s)) d = Some j \<and> (\<forall>i'\<le>i. get_phys_sector f \<noteq> root_sector dev i' s))"

text \<open>The kernel heap has room for two names, the first of which is never released.\<close>

definition two_names :: "block list \<Rightarrow> u32 \<Rightarrow> block list \<Rightarrow> u32 \<Rightarrow> block list \<Rightarrow> u32 \<Rightarrow> 'a kheap_state_scheme \<Rightarrow> bool" where
  "two_names bs a1 bs1 a2 bs2 b s \<longleftrightarrow> kheap_at s bs \<and> get_used_heap s < get_heap_size s \<and> get_used_heap s + 27 < get_heap_size s
     \<and> fit 11 bs = Some (a1, bs1) \<and> fit 11 bs1 = Some (a2, bs2) \<and> room a1 11 \<and> room a2 11
     \<and> region a1 448 \<inter> region b 512 = {} \<and> region a2 448 \<inter> region b 512 = {}
     \<and> (\<forall>x \<in> set bs. region (fst x) 16 \<inter> region b 512 = {})"

lemma fit_apart:
  assumes "fit 11 bs = Some (a, bs')" "\<forall>x \<in> set bs. region (fst x) 16 \<inter> R = {}" "region a 448 \<inter> R = {}"
  shows "\<forall>x \<in> set bs'. region (fst x) 16 \<inter> R = {}"
proof
  fix x assume "x \<in> set bs'"
  then have "fst x \<in> fst ` set bs \<union> {a, a + 16 * 11 + 256}" using fit_addrs [OF assms(1)] by blast
  then have "(\<exists>y \<in> set bs. fst x = fst y) \<or> fst x = a \<or> fst x = a + 432" by (auto simp: image_iff add.commute)
  moreover have "region a 16 \<inter> R = {}" "region (a + 432) 16 \<inter> R = {}"
    using assms(3) region_off [of 0 16 448 a] region_off [of 432 16 448 a] by auto
  ultimately show "region (fst x) 16 \<inter> R = {}" using assms(2) by metis
qed

text \<open>The buffer is filled with the text and zeros.\<close>

lemma fill_buffer:
  assumes "cstr m str t" "length t \<le> 512" "region str (Suc (length t)) \<inter> region b 512 = {}"
  shows "strlen (memset m b 0 SECTOR_SIZE) str = Some (length t)"
    "memcpy (memset m b 0 SECTOR_SIZE) b str (of_nat (length t)) = store_bytes (store_bytes m b (replicate 512 0)) b t"
    "load_bytes (store_bytes (store_bytes m b (replicate 512 0)) b t) b 512 = padded t"
proof -
  have z: "memset m b 0 SECTOR_SIZE = store_bytes m b (replicate 512 0)"
    by (rule ext) (simp add: memset_def store_bytes_def SECTOR_SIZE_def)
  have c: "cstr (store_bytes m b (replicate 512 0)) str t"
  proof -
    have "m x = store_bytes m b (replicate 512 0) x" if "x \<in> region str (Suc (length t))" for x
    proof -
      have "x \<notin> region b (length (replicate 512 (0 :: u8)))" using that assms(3) by auto
      then show ?thesis by (rule store_bytes_outside [symmetric])
    qed
    then show ?thesis using cstr_cong [of t str m] assms(1,2) by simp
  qed
  then show "strlen (memset m b 0 SECTOR_SIZE) str = Some (length t)" unfolding z by (rule strlen_cstr)
  have "region str (length t) \<inter> region b (length t) = {}"
    using assms(2,3) region_mono [of "length t" "Suc (length t)" str] region_mono [of "length t" 512 b] by auto
  moreover have "load_bytes (store_bytes m b (replicate 512 0)) str (length t) = t"
    by (rule nth_equalityI) (simp_all add: load_bytes_nth cstr_nth [OF c])
  ultimately show "memcpy (memset m b 0 SECTOR_SIZE) b str (of_nat (length t)) = store_bytes (store_bytes m b (replicate 512 0)) b t"
    unfolding z using assms(2) by (subst memcpy_eq) simp_all
  have "load_bytes (store_bytes m b (replicate 512 0)) b 512 = replicate 512 0" by (intro load_store_same) simp_all
  then show "load_bytes (store_bytes (store_bytes m b (replicate 512 0)) b t) b 512 = padded t"
    using load_patch [of 0 t 512 "store_bytes m b (replicate 512 0)" b] assms(2) by (simp add: padded_def)
qed

lemma get_dev_cong: "devices s' = devices s \<Longrightarrow> dev_store s' = dev_store s \<Longrightarrow> get_dev_by_id n s' = get_dev_by_id n s"
  by (simp add: get_dev_by_id_def find_dev_def)

text \<open>Finding the entry with a new block for the name.\<close>

lemma fat_get_dir_finds:
  fixes s :: "'a fs_state_scheme"
  assumes "kheap_at s bs" "get_used_heap s < get_heap_size s" "fit 11 bs = Some (a, bs')" "room a 11" "region a 448 \<inter> region b 512 = {}"
    "\<forall>x \<in> set bs. region (fst x) 16 \<inter> region b 512 = {}" "entry_at f d b i j s"
  shows "\<exists>m. fat_get_dir f s = Some (b + 32 * of_nat j, kheap_add_used (- 11) (kheap_add_used 27 (s\<lparr>dir_sector := of_nat i, ram := m\<rparr>)))
    \<and> kheap_at (kheap_add_used 27 (s\<lparr>ram := m\<rparr>)) (release a bs')
    \<and> load_bytes m b 512 = media s (dv_id (dev_store s (get_dev_by_id (f_dev f) s))) (root_sector (get_dev_by_id (f_dev f) s) i s)
    \<and> (\<forall>x. x \<notin> region b 512 \<union> region a 448 \<longrightarrow> m x = ram s x)"
proof -
  let ?dev = "get_dev_by_id (f_dev f) s"
  have e: "sector_device b (dev_store s ?dev)" "\<forall>lba. length (media s (dv_id (dev_store s ?dev)) lba) = 512" "named (f_name f) d" "i < 14"
    "\<forall>i'<i. find_in (media s (dv_id (dev_store s ?dev)) (root_sector ?dev i' s)) d = None"
    "find_in (media s (dv_id (dev_store s ?dev)) (root_sector ?dev i s)) d = Some j"
    using assms(7) by (simp_all add: entry_at_def Let_def)
  from dos_name_step [OF assms(1-4) e(3)] obtain m where m: "dos_name (f_name f) s = Some (a + 16, kheap_add_used 27 (s\<lparr>ram := m\<rparr>))"
      "kheap_at (kheap_add_used 27 (s\<lparr>ram := m\<rparr>)) bs'" "load_bytes m (a + 16) 11 = d" "\<forall>x. x \<notin> region a 448 \<longrightarrow> m x = ram s x" by blast
  let ?s = "kheap_add_used 27 (s\<lparr>ram := m\<rparr>)"
  have f: "devices ?s = devices s" "dev_store ?s = dev_store s" "media ?s = media s" "ram ?s = m" by (simp_all add: kheap_add_used_def)
  have dev: "get_dev_by_id (f_dev f) ?s = ?dev" by (rule get_dev_cong) (simp_all add: f)
  have rs: "root_sector ?dev k ?s = root_sector ?dev k s" for k by (simp add: root_sector_def f)
  have name: "region (a + 16) 11 \<inter> region b 512 = {}" using assms(5) region_off [of 16 11 448 a] by auto
  have "\<exists>m'. get_dir_loop [0..<14] ?dev (a + 16) ?s = Some (b + 32 * of_nat j, kheap_add_used (- 11) (?s\<lparr>dir_sector := of_nat i, ram := m'\<rparr>))
    \<and> kheap_at (kheap_add_used (- 11) (?s\<lparr>dir_sector := of_nat i, ram := m'\<rparr>)) (release a bs')
    \<and> load_bytes m' b 512 = media ?s (dv_id (dev_store ?s ?dev)) (root_sector ?dev i ?s)
    \<and> (\<forall>x. x \<notin> region b 512 \<union> region a 16 \<longrightarrow> m' x = ram ?s x)"
    by (rule get_dir_loop_finds [OF _ _ m(2) fit_block [OF assms(3)] fit_apart [OF assms(3,6,5)] _ name])
      (use e m(3) in \<open>simp_all add: f rs\<close>)
  then obtain m' where m': "get_dir_loop [0..<14] ?dev (a + 16) ?s = Some (b + 32 * of_nat j, kheap_add_used (- 11) (?s\<lparr>dir_sector := of_nat i, ram := m'\<rparr>))"
      "kheap_at (kheap_add_used (- 11) (?s\<lparr>dir_sector := of_nat i, ram := m'\<rparr>)) (release a bs')"
      "load_bytes m' b 512 = media s (dv_id (dev_store s ?dev)) (root_sector ?dev i s)" "\<forall>x. x \<notin> region b 512 \<union> region a 16 \<longrightarrow> m' x = m x"
    unfolding f rs by blast
  have st: "?s\<lparr>dir_sector := of_nat i, ram := m'\<rparr> = kheap_add_used 27 (s\<lparr>dir_sector := of_nat i, ram := m'\<rparr>)" by (simp add: kheap_add_used_def)
  have "fat_get_dir f s = Some (b + 32 * of_nat j, kheap_add_used (- 11) (kheap_add_used 27 (s\<lparr>dir_sector := of_nat i, ram := m'\<rparr>)))"
    unfolding fat_get_dir_def m(1) bind.bind_lunit prod.case dev m'(1) st by (rule refl)
  moreover have "kheap_at (kheap_add_used 27 (s\<lparr>ram := m'\<rparr>)) (release a bs')" using m'(2) by (simp add: kheap_at_def kheap_add_used_def)
  moreover have "m' x = ram s x" if "x \<notin> region b 512 \<union> region a 448" for x
  proof -
    have "x \<notin> region a 16" using that region_off [of 0 16 448 a] by auto
    then show ?thesis using that m'(4) m(4) by simp
  qed
  ultimately show ?thesis using m'(3) by blast
qed

text \<open>The first half of the write: the text is on the disk.\<close>

lemma text_written:
  fixes s :: "'a fs_state_scheme"
  assumes "two_names bs a1 bs1 a2 bs2 b s" "entry_at f d b i j s" "cstr (ram s) str t" "length t \<le> 512"
    "region str (Suc (length t)) \<inter> (region b 512 \<union> region a1 448) = {}"
  defines "dev \<equiv> get_dev_by_id (f_dev f) s"
  defines "w \<equiv> media s (dv_id (dev_store s dev))"
  shows "\<exists>m1 m. dos_name (f_name f) s = Some (a1 + 16, kheap_add_used 27 (s\<lparr>ram := m1\<rparr>))
    \<and> strlen (memset m1 b 0 SECTOR_SIZE) str = Some (length t) \<and> memcpy (memset m1 b 0 SECTOR_SIZE) b str (of_nat (length t)) = m
    \<and> dev_write dev (get_phys_sector f) (kheap_add_used 27 (s\<lparr>ram := m\<rparr>))
        = Some (kheap_add_used 27 (s\<lparr>ram := m, media := (media s)(dv_id (dev_store s dev) := w(get_phys_sector f := padded t))\<rparr>))
    \<and> kheap_at (kheap_add_used 27 (s\<lparr>ram := m\<rparr>)) bs1 \<and> (\<forall>x. x \<notin> region b 512 \<union> region a1 448 \<longrightarrow> m x = ram s x)"
proof -
  have h: "kheap_at s bs" "get_used_heap s < get_heap_size s" "fit 11 bs = Some (a1, bs1)" "room a1 11"
    "region a1 448 \<inter> region b 512 = {}" "\<forall>x \<in> set bs. region (fst x) 16 \<inter> region b 512 = {}"
    using assms(1) by (simp_all add: two_names_def)
  have e: "sector_device b (dev_store s dev)" "named (f_name f) d" "dma_buffer s = b"
    using assms(2) by (simp_all add: entry_at_def Let_def dev_def)
  from dos_name_step [OF h(1-4) e(2)] obtain m1 where m1: "dos_name (f_name f) s = Some (a1 + 16, kheap_add_used 27 (s\<lparr>ram := m1\<rparr>))"
      "kheap_at (kheap_add_used 27 (s\<lparr>ram := m1\<rparr>)) bs1" "\<forall>x. x \<notin> region a1 448 \<longrightarrow> m1 x = ram s x" by blast
  have "ram s x = m1 x" if "x \<in> region str (Suc (length t))" for x using that m1(3) assms(5) by auto
  then have c: "cstr m1 str t" using cstr_cong [of t str "ram s" m1] assms(3,4) by simp
  have dis: "region str (Suc (length t)) \<inter> region b 512 = {}" using assms(5) by blast
  define z where "z = store_bytes m1 b (replicate 512 0)"
  define m where "m = store_bytes z b t"
  note fill = fill_buffer [OF c assms(4) dis, folded z_def, folded m_def]
  have near: "\<forall>x \<in> set bs1. region (fst x) 16 \<inter> region b 512 = {}" by (rule fit_apart [OF h(3,6,5)])
  let ?s = "kheap_add_used 27 (s\<lparr>ram := m1\<rparr>)"
  have "kheap_at (?s\<lparr>ram := store_bytes (ram ?s) b (replicate 512 0)\<rparr>) bs1" by (rule kheap_at_sector [OF m1(2)]) (use near in simp)
  then have "kheap_at (?s\<lparr>ram := z\<rparr>) bs1" by (simp add: z_def kheap_add_used_def)
  from kheap_at_sector [OF this, of b t] have "kheap_at (?s\<lparr>ram := m\<rparr>) bs1"
    using near region_mono [of "length t" 512 b] assms(4) by (simp add: m_def) blast
  then have "kheap_at (kheap_add_used 27 (s\<lparr>ram := m\<rparr>)) bs1" by (simp add: kheap_at_def kheap_add_used_def)
  moreover have "m x = ram s x" if "x \<notin> region b 512 \<union> region a1 448" for x
  proof -
    have "x \<notin> region b (length t)" using that region_mono [of "length t" 512 b] assms(4) by auto
    then show ?thesis using that m1(3) by (simp add: m_def z_def store_bytes_outside)
  qed
  moreover have "dev_write dev (get_phys_sector f) (kheap_add_used 27 (s\<lparr>ram := m\<rparr>))
      = Some (kheap_add_used 27 (s\<lparr>ram := m, media := (media s)(dv_id (dev_store s dev) := w(get_phys_sector f := padded t))\<rparr>))"
    using e(1) fill(3) by (simp add: dev_write_def sector_device_def kheap_add_used_def w_def)
  ultimately show ?thesis using m1(1) fill(1,2) by blast
qed

text \<open>The entry is still found when the text is on the disk.\<close>

lemma entry_at_text:
  assumes "entry_at f d b i j s" "length x = 512" "devices s2 = devices s" "dev_store s2 = dev_store s" "dma_buffer s2 = dma_buffer s"
  defines "dev \<equiv> get_dev_by_id (f_dev f) s"
  defines "w \<equiv> media s (dv_id (dev_store s dev))"
  assumes "media s2 (dv_id (dev_store s dev)) = w(get_phys_sector f := x)"
  shows "entry_at (f\<lparr>f_len := v\<rparr>) d b i j s2" "(w(get_phys_sector f := x)) (root_sector dev i s) = w (root_sector dev i s)"
proof -
  let ?f = "f\<lparr>f_len := v\<rparr>" and ?w = "w(get_phys_sector f := x)"
  have dv: "get_dev_by_id (f_dev f) s2 = dev" by (rule trans [OF get_dev_cong [OF assms(3,4)] dev_def [symmetric, THEN meta_eq_to_obj_eq]])
  have rs: "root_sector dev k s2 = root_sector dev k s" for k by (simp add: root_sector_def assms(4))
  note e = assms(1) [unfolded entry_at_def Let_def, folded dev_def, folded w_def]
  have same: "?w (root_sector dev k s) = w (root_sector dev k s)" if "k \<le> i" for k using e that by auto
  then show "?w (root_sector dev i s) = w (root_sector dev i s)" by blast
  have "\<forall>lba. length (?w lba) = 512" using e assms(2) by simp
  moreover have "\<forall>k<i. find_in (?w (root_sector dev k s)) d = None" "find_in (?w (root_sector dev i s)) d = Some j"
    using e same by (simp_all del: fun_upd_apply)
  moreover have "get_phys_sector ?f = get_phys_sector f" by (simp add: get_phys_sector_def)
  moreover have "f_name ?f = f_name f" "f_dev ?f = f_dev f" by simp_all
  ultimately show "entry_at ?f d b i j s2"
    using e by (simp_all only: entry_at_def Let_def dv rs assms(4,5,8) simp_thms order_refl) blast
qed

text \<open>The whole write.\<close>

lemma fat_write_step:
  fixes s :: "'a fs_state_scheme"
  assumes "two_names bs a1 bs1 a2 bs2 b s" "entry_at f d b i j s" "cstr (ram s) str t" "length t \<le> 512"
    "region str (Suc (length t)) \<inter> (region b 512 \<union> region a1 448) = {}" "j < 16"
  defines "dev \<equiv> get_dev_by_id (f_dev f) s"
  defines "w \<equiv> media s (dv_id (dev_store s dev))"
  shows "\<exists>m k. fat_write f str s = Some (f\<lparr>f_len := f_len f + 1\<rparr>, s\<lparr>ram := m, kheap := k, dir_sector := of_nat i,
      media := (media s)(dv_id (dev_store s dev) := w(get_phys_sector f := padded t,
        root_sector dev i s := set_size j (f_len f + 1) (w (root_sector dev i s))))\<rparr>)
    \<and> (\<forall>x. x \<notin> region b 512 \<union> region a1 448 \<union> region a2 448 \<longrightarrow> m x = ram s x)"
proof -
  let ?f = "f\<lparr>f_len := f_len f + 1\<rparr>" and ?n = "dv_id (dev_store s dev)" and ?r = "root_sector dev i s"
  from text_written [OF assms(1-5), folded dev_def, folded w_def] obtain m1 m where t:
      "dos_name (f_name f) s = Some (a1 + 16, kheap_add_used 27 (s\<lparr>ram := m1\<rparr>))" "strlen (memset m1 b 0 SECTOR_SIZE) str = Some (length t)"
      "memcpy (memset m1 b 0 SECTOR_SIZE) b str (of_nat (length t)) = m"
      "dev_write dev (get_phys_sector f) (kheap_add_used 27 (s\<lparr>ram := m\<rparr>))
        = Some (kheap_add_used 27 (s\<lparr>ram := m, media := (media s)(?n := w(get_phys_sector f := padded t))\<rparr>))"
      "kheap_at (kheap_add_used 27 (s\<lparr>ram := m\<rparr>)) bs1" "\<forall>x. x \<notin> region b 512 \<union> region a1 448 \<longrightarrow> m x = ram s x" by blast
  let ?w = "w(get_phys_sector f := padded t)"
  define s2 where "s2 = kheap_add_used 27 (s\<lparr>ram := m, media := (media s)(?n := ?w)\<rparr>)"
  have st: "devices s2 = devices s" "dev_store s2 = dev_store s" "media s2 ?n = ?w" "dma_buffer s2 = dma_buffer s" "ram s2 = m"
    "get_used_heap s2 = get_used_heap s + 27" "get_heap_size s2 = get_heap_size s"
    by (simp_all add: s2_def kheap_add_used_def get_used_heap_def get_heap_size_def)
  have dv: "get_dev_by_id (f_dev f) s2 = dev" by (rule trans [OF get_dev_cong [OF st(1,2)] dev_def [symmetric, THEN meta_eq_to_obj_eq]])
  have rs: "root_sector dev k s2 = root_sector dev k s" for k by (simp add: root_sector_def st)
  have heap: "kheap_at s2 bs1" "get_used_heap s2 < get_heap_size s2" "fit 11 bs1 = Some (a2, bs2)" "room a2 11" "region a2 448 \<inter> region b 512 = {}"
    "\<forall>x \<in> set bs1. region (fst x) 16 \<inter> region b 512 = {}"
    using t(5) assms(1) fit_apart [of bs a1 bs1 "region b 512"] unfolding st(6,7)
    by (simp_all add: two_names_def kheap_at_def kheap_add_used_def s2_def)
  have pad: "length (padded t) = 512" using assms(4) by (simp add: padded_def)
  note ent = entry_at_text(1) [where v = "f_len f + 1", OF assms(2) pad st(1,2,4), folded dev_def, folded w_def, OF st(3)]
    entry_at_text(2) [OF assms(2) pad st(1,2,4), folded dev_def, folded w_def, OF st(3)]
  from fat_get_dir_finds [OF heap ent(1)] obtain m' where g:
      "fat_get_dir ?f s2 = Some (b + 32 * of_nat j, kheap_add_used (- 11) (kheap_add_used 27 (s2\<lparr>dir_sector := of_nat i, ram := m'\<rparr>)))"
      "load_bytes m' b 512 = w ?r" "\<forall>x. x \<notin> region b 512 \<union> region a2 448 \<longrightarrow> m' x = m x"
    using ent(2) by (auto simp: st dv rs)
  let ?v = "f_len f + 1" and ?dir = "b + 32 * of_nat j"
  let ?s4 = "kheap_add_used (- 11) (kheap_add_used 27 (s2\<lparr>dir_sector := of_nat i, ram := m'\<rparr>))"
  let ?m = "write32 m' (?dir + 28) ?v"
  have b: "sector_device b (dev_store s dev)" "0 < unat b" "unat b + 512 \<le> 2 ^ 32" "dma_buffer s = b"
    using assms(2) by (simp_all add: entry_at_def Let_def dev_def)
  have off: "?dir + 28 = b + of_nat (32 * j + 28)" by simp
  have "unat ?dir = unat b + 32 * j"
  proof -
    have "?dir = of_nat (unat b + 32 * j)" by simp
    also have "unat \<dots> = unat b + 32 * j" using b(3) assms(6) by (intro unat_of_nat_u32) simp
    finally show ?thesis .
  qed
  then have nz: "?dir \<noteq> 0" using b(2) by (metis add_gr_0 less_numeral_extra(3) unat_0)
  have "load_bytes ?m b 512 = set_size j ?v (w ?r)"
    unfolding off write32_bytes using load_patch [of "32 * j + 28" "bytes32 ?v" 512 m' b] assms(6) g(2)
    by (simp add: bytes32_def set_size_def add.commute)
  then have wr: "dev_write dev (m_root_offset (dv_minfo (dev_store ?s4 dev)) + dir_sector ?s4) (?s4\<lparr>ram := ?m\<rparr>)
      = Some (?s4\<lparr>ram := ?m, media := (media s)(?n := ?w(?r := set_size j ?v (w ?r)))\<rparr>)"
    using b(1) by (simp add: dev_write_def sector_device_def kheap_add_used_def root_sector_def s2_def)
  let ?s1 = "kheap_add_used 27 (s\<lparr>ram := m1\<rparr>)"
  have s1: "get_dev_by_id (f_dev f) ?s1 = dev"
    by (rule trans [OF get_dev_cong dev_def [symmetric, THEN meta_eq_to_obj_eq]]) (simp_all add: kheap_add_used_def)
  have s1': "ram ?s1 = m1" "dma_buffer ?s1 = b" "?s1\<lparr>ram := x\<rparr> = kheap_add_used 27 (s\<lparr>ram := x\<rparr>)" for x
    using b(4) by (simp_all add: kheap_add_used_def)
  have s4: "ram ?s4 = m'" "f_len ?f = ?v" by (simp_all add: kheap_add_used_def)
  have "fat_write f str s = Some (?f, ?s4\<lparr>ram := ?m, media := (media s)(?n := ?w(?r := set_size j ?v (w ?r)))\<rparr>)"
    unfolding fat_write_def Let_def t(1) bind.bind_lunit prod.case s1 s1' t(2,3,4) s2_def [symmetric] g(1) s4 wr
    by (simp only: nz if_True not_False_eq_True)
  moreover have "?s4\<lparr>ram := ?m, media := (media s)(?n := ?w(?r := set_size j ?v (w ?r)))\<rparr>
      = s\<lparr>ram := ?m, kheap := kheap ?s4, dir_sector := of_nat i, media := (media s)(?n := ?w(?r := set_size j ?v (w ?r)))\<rparr>"
    by (simp add: kheap_add_used_def s2_def)
  moreover have "?m x = ram s x" if "x \<notin> region b 512 \<union> region a1 448 \<union> region a2 448" for x
  proof -
    have "x \<notin> region (?dir + 28) 4" using that region_off [of "32 * j + 28" 4 512 b] assms(6) unfolding off by auto
    then show ?thesis using that g(3) t(6) by (simp add: write32_outside)
  qed
  ultimately show ?thesis by (intro exI [of _ ?m] exI [of _ "kheap ?s4"]) simp
qed

text \<open>C27: What is written to a file comes back.  When the file's name has an entry in the root directory, the
  write puts the text, filled up with zeros, on the file's sector, and adds one to the size in that entry
  of the directory (not the length of the text); no other sector changes.  A read of the file then
  leaves exactly that text at its destination.\<close>

theorem fat_write_read:
  fixes s :: "'a fs_state_scheme"
  assumes "two_names bs a1 bs1 a2 bs2 b s" "entry_at f d b i j s" "read_ready f buf b s"
    "cstr (ram s) str t" "length t \<le> 512" "region str (Suc (length t)) \<inter> (region b 512 \<union> region a1 448) = {}"
  defines "dev \<equiv> get_dev_by_id (f_dev f) s"
  defines "w \<equiv> media s (dv_id (dev_store s dev))"
  shows "\<exists>s' g m. fat_write f str s = Some (f\<lparr>f_len := f_len f + 1\<rparr>, s')
    \<and> media s' = (media s)(dv_id (dev_store s dev) := w(get_phys_sector f := t @ replicate (512 - length t) 0,
        root_sector dev i s := set_size j (f_len f + 1) (w (root_sector dev i s))))
    \<and> fat_read (f\<lparr>f_len := f_len f + 1\<rparr>) buf s' = Some (g, s'\<lparr>ram := m\<rparr>)
    \<and> load_bytes m buf 512 = t @ replicate (512 - length t) 0"
proof -
  let ?f = "f\<lparr>f_len := f_len f + 1\<rparr>" and ?n = "dv_id (dev_store s dev)" and ?r = "root_sector dev i s"
  let ?w = "w(get_phys_sector f := padded t, ?r := set_size j (f_len f + 1) (w ?r))"
  note e = assms(2) [unfolded entry_at_def Let_def, folded dev_def, folded w_def]
  have j: "j < 16" using e by (auto simp: find_in_def find_Some_iff)
  from fat_write_step [OF assms(1,2,4,5,6) j, folded dev_def, folded w_def] obtain m k where
    wr: "fat_write f str s = Some (?f, s\<lparr>ram := m, kheap := k, dir_sector := of_nat i, media := (media s)(?n := ?w)\<rparr>)" by blast
  let ?s = "s\<lparr>ram := m, kheap := k, dir_sector := of_nat i, media := (media s)(?n := ?w)\<rparr>"
  have st: "devices ?s = devices s" "dev_store ?s = dev_store s" "FAT_buf ?s = FAT_buf s" "media ?s ?n = ?w" by simp_all
  have dv: "get_dev_by_id (f_dev ?f) ?s = dev"
    using get_dev_cong [OF st(1,2), of "f_dev f"] by (simp add: dev_def)
  have len: "length (padded t) = 512" "length (set_size j (f_len f + 1) (w ?r)) = 512"
    using assms(5) e j by (auto simp: padded_def set_size_def bytes32_def)
  have ph: "get_phys_sector ?f = get_phys_sector f" "get_phys_sector f \<noteq> ?r" using e by (auto simp: get_phys_sector_def)
  note r = assms(3) [unfolded read_ready_def Let_def, folded dev_def, folded w_def]
  have "read_ready ?f buf b ?s"
    unfolding read_ready_def Let_def dv st using r len by simp
  from fat_read_step [OF this] obtain g m' where "fat_read ?f buf ?s = Some (g, ?s\<lparr>ram := m'\<rparr>)"
      "load_bytes m' buf 512 = ?w (get_phys_sector f)"
    unfolding dv st ph(1) by blast
  then show ?thesis using wr ph(2) unfolding padded_def [symmetric]
    by (intro exI [of _ ?s] exI [of _ g] exI [of _ m']) simp
qed

section \<open>An example\<close>

text \<open>The file \<open>a.txt\<close> has the first entry of the root directory, in sector 19, and the cluster 3, sector 34.  The
  text \<open>hi\<close> is at \<open>0x5000\<close>.\<close>

definition demo_entry :: "u8 list" where "demo_entry = dos_bytes (lit ''a'') (lit ''txt'') @ replicate 501 0"

definition demo_writer :: fs_state where
  "demo_writer = demo_fs\<lparr>ram := store_bytes (ram demo_fs) 0x5000 (lit ''hi'' @ [0]),
     media := (\<lambda>n lba. if lba = 19 then demo_entry else replicate 512 0)\<rparr>"

definition demo_named :: fs_file where "demo_named = demo_file\<lparr>f_name := (\<lambda>k. if k < 5 then lit ''a.txt'' ! k else 0)\<rparr>"

lemma demo_writer_simps:
  "get_dev_by_id 2 demo_writer = 0x7000" "dev_store demo_writer = dev_store demo_fs" "dma_buffer demo_writer = 0x1000" "FAT_buf demo_writer = 0x3000"
  "media demo_writer n lba = (if lba = 19 then demo_entry else replicate 512 0)" "m_root_offset (dv_minfo (dev_store demo_fs d)) = 19"
  "f_dev demo_named = 2" "f_current_cluster demo_named = 3"
  by (simp_all add: demo_writer_def get_dev_by_id_def find_dev_def demo_fs_simps demo_named_def demo_file_def)
    (simp_all add: demo_fs_def proc_state.defs ideal_device_def)

lemma demo_entry_length: "length demo_entry = 512"
  by (simp add: demo_entry_def dos_bytes_def lit_def)

lemma demo_writer_heap:
  "two_names [(0x100000, 0xFFFF0, True)] 0x100000 (cut 0x100000 0xFFFF0 11) 0x1001B0 ((0x100000, 11, False) # cut 0x1001B0 0xFFFD5 11) 0x1000 demo_writer"
proof -
  have eq: "ram demo_fs = ram demo_kheap" "kheap demo_fs = kheap demo_kheap"
    by (simp_all add: demo_fs_def proc_state.defs demo_sched_def hal_state.defs demo_hal_def cpu_state.defs kheap_state.defs)
  have "kheap_at demo_fs [(0x100000, 0xFFFF0, True)]" using demo_kheap_at unfolding kheap_at_def eq .
  then have "kheap_at (demo_fs\<lparr>ram := store_bytes (ram demo_fs) 0x5000 (lit ''hi'' @ [0])\<rparr>) [(0x100000, 0xFFFF0, True)]"
    by (rule kheap_at_sector) (simp add: lit_def region_apart2)
  then have "kheap_at demo_writer [(0x100000, 0xFFFF0, True)]" by (simp add: kheap_at_def demo_writer_def del: blocks.simps)
  moreover have "get_used_heap demo_writer + 27 < get_heap_size demo_writer" "get_used_heap demo_writer < get_heap_size demo_writer"
    by (simp_all add: demo_writer_def get_used_heap_def get_heap_size_def eq demo_kheap_def kheap_init_def Let_def HEAP_END_def)
  ultimately show ?thesis
    unfolding two_names_def by (simp add: cut_def room_def region_apart2)
qed

theorem fat_write_read_witness:
  "\<exists>s' g m. fat_write demo_named 0x5000 demo_writer = Some (demo_named\<lparr>f_len := 601\<rparr>, s')
    \<and> fat_read (demo_named\<lparr>f_len := 601\<rparr>) 0x2000 s' = Some (g, s'\<lparr>ram := m\<rparr>)
    \<and> load_bytes m 0x2000 512 = lit ''hi'' @ replicate 510 0"
proof -
  have c: "cstr (ram demo_writer) 0x5000 (lit ''hi'')" by (simp add: demo_writer_def lit_def store_bytes_def)
  have nm: "named (f_name demo_named) (dos_bytes (lit ''a'') (lit ''txt''))"
    unfolding named_def by (intro exI [of _ "lit ''a''"] exI [of _ "lit ''txt''"])
      (auto simp: demo_named_def lit_def numeral_3_eq_3 less_Suc_eq)
  have fi: "find_in demo_entry (dos_bytes (lit ''a'') (lit ''txt'')) = Some 0" by code_simp
  have ent: "entry_at demo_named (dos_bytes (lit ''a'') (lit ''txt'')) 0x1000 0 0 demo_writer"
    unfolding entry_at_def Let_def using nm fi
    by (simp add: demo_writer_simps demo_fs_simps demo_entry_length root_sector_def get_phys_sector_def)
  have ready: "read_ready demo_named 0x2000 0x1000 demo_writer"
    by (simp add: read_ready_def Let_def demo_writer_simps demo_fs_simps demo_entry_length region_apart)
  have dis: "region 0x5000 (Suc (length (lit ''hi''))) \<inter> (region 0x1000 512 \<union> region 0x100000 448) = {}"
    by (simp add: lit_def Int_Un_distrib region_apart region_apart2)
  show ?thesis
    using fat_write_read [OF demo_writer_heap ent ready c _ dis] by (auto simp: demo_named_def demo_file_def lit_def)
qed

end
