(* ===== verification/Life.thy ===== *)
theory Life
  imports Thread
begin

text \<open>
  The life of the processes: the scheduler's ring under every sequence of timer interrupts, starts, ends and
  removals of programs.  A configuration is the process whose code runs together with the kernel's state;
  they are kept apart because the kernel only believes the head of its ring to be running.
\<close>

section \<open>Steps\<close>

text \<open>The processes of the ring, from the head on.\<close>

fun ring_walk :: "nat \<Rightarrow> u32 \<Rightarrow> 'a proc_state_scheme \<Rightarrow> u32 list" where
  "ring_walk 0 p s = []"
| "ring_walk (Suc n) p s = p # ring_walk n (pr_next (procs s p)) s"

definition ring_procs :: "'a proc_state_scheme \<Rightarrow> u32 list" where
  "ring_procs s = ring_walk (nat (sint (n_proc s))) (proc_list s) s"

definition slice_over :: "'a proc_state_scheme \<Rightarrow> bool" where
  "slice_over s \<longleftrightarrow> sint (th_time (threads s (cur_thread s))) < sint (get_tick_count s)"

text \<open>What can happen: the timer interrupts the running code at tick count \<open>k\<close> with its stack at \<open>esp\<close>; the
  console \<open>c\<close> starts the process \<open>x\<close> in a block of its own; a program ends; the console removes a program.
  The console itself never ends: only programs reach \<open>end_proc\<close>.  A switch resumes the code whose stack pointer
  the chosen thread holds: the chosen process's own or, as \<open>sched_remove_misattributes\<close> below shows, the
  console's.\<close>

datatype life_event = Tick u8 u32 | Spawn u32 | Quit u32 | Reap u32

inductive life_step :: "u32 \<Rightarrow> u32 \<times> 'a proc_state_scheme \<Rightarrow> life_event \<Rightarrow> u32 \<times> 'a proc_state_scheme \<Rightarrow> bool" for c where
  tick: "schedule esp (s\<lparr>pit_ticks := k\<rparr>) = Some (sp, s')
    \<Longrightarrow> (if slice_over (s\<lparr>pit_ticks := k\<rparr>) then r' \<in> {c, proc_list s'} else r' = r)
    \<Longrightarrow> life_step c (r, s) (Tick k esp) (r', s')"
| spawn: "x \<noteq> 0 \<Longrightarrow> x \<notin> set (ring_procs s) \<Longrightarrow> pr_state (procs s x) = PROC_ACTIVE \<Longrightarrow> n_proc s < 0x40000000
    \<Longrightarrow> life_step c (c, s) (Spawn x) (c, sched_add_proc x s)"
| quit: "r \<noteq> c \<Longrightarrow> life_step c (r, s) (Quit code) (r, end_proc code s)"
| reap: "get_proc_by_id tid s \<in> set (ring_procs s) - {c} \<Longrightarrow> pr_state (procs s (get_proc_by_id tid s)) = PROC_STOPPED
    \<Longrightarrow> life_step c (c, s) (Reap tid) (c, sched_remove_proc tid s)"

inductive_cases tickE: "life_step c (r, s) (Tick k esp) (r', s')"
inductive_cases spawnE: "life_step c (r, s) (Spawn x) (r', s')"
inductive_cases quitE: "life_step c (r, s) (Quit code) (r', s')"
inductive_cases reapE: "life_step c (r, s) (Reap tid) (r', s')"

text \<open>Everything that follows from a state in which the console is alone.\<close>

inductive lives :: "u32 \<Rightarrow> u32 \<times> 'a proc_state_scheme \<Rightarrow> bool" for c where
  boot: "procs_ring s [c] \<Longrightarrow> pr_state (procs s c) \<noteq> PROC_STOPPED \<Longrightarrow> lives c (c, s)"
| step: "lives c x \<Longrightarrow> life_step c x ev y \<Longrightarrow> lives c y"

section \<open>The ring\<close>

lemma ring_walk_links: "links (proc_next s) pv (ps @ [y]) \<Longrightarrow> ring_walk (length ps) (hd (ps @ [y])) s = ps"
proof (induction ps)
  case (Cons p ps)
  then show ?case by (cases ps) auto
qed simp

lemma ring_procs_eq:
  assumes "procs_ring s ps"
  shows "ring_procs s = ps"
proof -
  have "links (proc_next s) (proc_prec s) (ps @ [hd ps])" "ps \<noteq> []" "hd ps = proc_list s" "nat (sint (n_proc s)) = length ps"
    using assms by (auto simp: procs_ring_def ring_of_def nat_sint_of_nat)
  then show ?thesis using ring_walk_links [of s "proc_prec s" ps "hd ps"] by (simp add: ring_procs_def)
qed

lemma end_proc_state:
  assumes "proc_list s \<noteq> 0"
  shows "procs (end_proc code s) = (procs s)(proc_list s := (procs s (proc_list s))\<lparr>pr_state := PROC_STOPPED\<rparr>)"
    "proc_list (end_proc code s) = proc_list s" "n_proc (end_proc code s) = n_proc s"
  using assms by (simp_all add: end_proc_def get_cur_proc_def sched_state_def enable_int_def upd_proc_def kprint_def Let_def)

lemma end_proc_ring: "procs_ring s ps \<Longrightarrow> procs_ring (end_proc code s) ps"
proof -
  assume r: "procs_ring s ps"
  then have "proc_list s \<noteq> 0" by (auto simp: procs_ring_def ring_of_def dest: hd_in_set)
  note e = end_proc_state [OF this]
  have "proc_next (end_proc code s) = proc_next s" "proc_prec (end_proc code s) = proc_prec s" by (auto simp: e(1))
  with r show ?thesis unfolding procs_ring_def e by simp
qed

text \<open>Adding and removing leave the states of processes as they are.\<close>

lemma sched_add_proc_states: "pr_state (procs (sched_add_proc x s) p) = pr_state (procs s p)"
  by (simp add: sched_add_proc_def Let_def set_pr_next_def set_pr_prec_def upd_proc_def)

lemma sched_remove_proc_states: "pr_state (procs (sched_remove_proc tid s) p) = pr_state (procs s p)"
  by (simp add: sched_remove_proc_def Let_def set_pr_next_def set_pr_prec_def upd_proc_def)

lemma schedule_early: "\<not> slice_over s \<Longrightarrow> schedule esp s = Some (esp, s)"
  by (simp add: schedule_def slice_over_def not_less)

text \<open>A switch, with what it keeps.\<close>

lemma schedule_late:
  assumes "procs_ring s ps" "c \<in> set ps" "pr_state (procs s c) \<noteq> PROC_STOPPED" "slice_over s"
  shows "\<exists>s' ps'. schedule esp s = Some (th_esp_kernel (threads s' (cur_thread s')), s') \<and> procs_ring s' ps' \<and> set ps' = set ps
    \<and> (\<forall>p. pr_state (procs s' p) = pr_state (procs s p)) \<and> pr_state (procs s (proc_list s')) \<noteq> PROC_STOPPED
    \<and> threads s' = (threads s)(cur_thread s := (threads s (cur_thread s))\<lparr>th_esp_kernel := esp\<rparr>)"
proof -
  obtain p qs where ps: "ps = p # qs" using assms(2) by (cases ps) auto
  then have "\<exists>q \<in> set (qs @ [p]). pr_state (procs s q) \<noteq> PROC_STOPPED" using assms(2,3) by auto
  from split_list_first_prop [OF this] obtain as q bs where q: "qs @ [p] = as @ q # bs" "pr_state (procs s q) \<noteq> PROC_STOPPED"
    "\<forall>a \<in> set as. pr_state (procs s a) = PROC_STOPPED" by blast
  from schedule_switch [OF assms(1) [unfolded ps] q(1,3,2) refl assms(4) [unfolded slice_over_def], of esp] obtain s' where
    s': "schedule esp s = Some (th_esp_kernel (threads s' (cur_thread s')), s')" "procs_ring s' (q # bs @ as)"
      "threads s' = (threads s)(cur_thread s := (threads s (cur_thread s))\<lparr>th_esp_kernel := esp\<rparr>)"
      "procs s' = (procs s)(p := (procs s p)\<lparr>pr_thread_list := th_next (threads s (cur_thread s))\<rparr>)" by blast
  have set: "set (q # bs @ as) = set ps" using arg_cong [OF q(1), of set] ps by auto
  have head: "proc_list s' = q" using s'(2) by (simp add: procs_ring_def)
  have states: "\<forall>p. pr_state (procs s' p) = pr_state (procs s p)" unfolding s'(4) by simp
  have "pr_state (procs s (proc_list s')) \<noteq> PROC_STOPPED" unfolding head by (rule q(2))
  with s'(1-3) set states show ?thesis by blast
qed

lemma procs_ring_head: "procs_ring s ps \<Longrightarrow> proc_list s \<in> set ps"
  by (auto simp: procs_ring_def ring_of_def dest: hd_in_set)

text \<open>The invariant: the ring is whole, the console is in it and not stopped, and the code that runs is the
  console's or that of the ring's head.\<close>

definition life_ok :: "u32 \<Rightarrow> u32 \<times> 'a proc_state_scheme \<Rightarrow> bool" where
  "life_ok c = (\<lambda>(r, s). procs_ring s (ring_procs s) \<and> c \<in> set (ring_procs s) \<and> pr_state (procs s c) \<noteq> PROC_STOPPED
     \<and> (r = c \<or> r = proc_list s))"

lemma life_okI:
  "procs_ring s ps \<Longrightarrow> c \<in> set ps \<Longrightarrow> pr_state (procs s c) \<noteq> PROC_STOPPED \<Longrightarrow> r = c \<or> r = proc_list s \<Longrightarrow> life_ok c (r, s)"
  using ring_procs_eq [of s ps] by (simp add: life_ok_def)

lemma life_step_ok:
  assumes "life_step c x ev y" "life_ok c x"
  shows "life_ok c y"
  using assms
proof (cases rule: life_step.cases)
  case (tick esp k s sp s' r' r)
  let ?s = "s\<lparr>pit_ticks := k\<rparr>"
  have ok: "procs_ring ?s (ring_procs s)" "c \<in> set (ring_procs s)" "pr_state (procs ?s c) \<noteq> PROC_STOPPED" "r = c \<or> r = proc_list s"
    using assms(2) by (simp_all add: tick(1) life_ok_def)
  show ?thesis
  proof (cases "slice_over ?s")
    case True
    from schedule_late [OF ok(1-3) True, of esp] tick(4) obtain ps' where
      ps': "procs_ring s' ps'" "set ps' = set (ring_procs s)" "\<forall>p. pr_state (procs s' p) = pr_state (procs ?s p)" by auto
    have "c \<in> set ps'" "pr_state (procs s' c) \<noteq> PROC_STOPPED" "r' = c \<or> r' = proc_list s'"
      using ok(2,3) ps'(2,3) tick(5) True by simp_all
    then show ?thesis unfolding tick(3) by (intro life_okI [OF ps'(1)])
  next
    case False
    then have "s' = ?s" using schedule_early [OF False, of esp] tick(4) by simp
    then show ?thesis using ok False tick(5) unfolding tick(3) by (intro life_okI [of _ "ring_procs s"]) simp_all
  qed
next
  case (spawn x s)
  have ok: "procs_ring s (ring_procs s)" "c \<in> set (ring_procs s)" "pr_state (procs s c) \<noteq> PROC_STOPPED"
    using assms(2) by (simp_all add: spawn(1) life_ok_def)
  obtain p ps where ps: "ring_procs s = p # ps" using ok(2) by (cases "ring_procs s") auto
  have n: "n_proc s = of_nat (length (p # ps))" "length (p # ps) < 2 ^ 31" using ok(1) unfolding ps procs_ring_def by blast+
  have "unat (n_proc s) = length (p # ps)" unfolding n(1) by (rule unat_of_nat_u32) (use n(2) in simp)
  then have "length ps < 2 ^ 30" using spawn(7) by (simp add: word_less_nat_alt)
  from sched_add_proc_ring [OF ok(1) [unfolded ps] _ spawn(4) this] have "procs_ring (sched_add_proc x s) (p # x # ps)"
    using spawn(5) ps by simp
  then show ?thesis using ok(2,3) ps unfolding spawn(3) by (intro life_okI) (auto simp: sched_add_proc_states)
next
  case (quit r s code)
  have ok: "procs_ring s (ring_procs s)" "c \<in> set (ring_procs s)" "pr_state (procs s c) \<noteq> PROC_STOPPED" "r = proc_list s"
    using assms(2) quit(4) by (auto simp: quit(1) life_ok_def)
  have "proc_list s \<noteq> 0" using procs_ring_head [OF ok(1)] ok(1) by (auto simp: procs_ring_def)
  note e = end_proc_state [OF this, of code]
  show ?thesis using end_proc_ring [OF ok(1)] ok quit(4) unfolding quit(3) by (intro life_okI) (auto simp: e)
next
  case (reap tid s)
  have ok: "procs_ring s (ring_procs s)" "c \<in> set (ring_procs s)" "pr_state (procs s c) \<noteq> PROC_STOPPED"
    using assms(2) by (simp_all add: reap(1) life_ok_def)
  obtain ps qs where ps: "ring_procs s = ps @ get_proc_by_id tid s # qs" using reap(4) by (auto dest: split_list)
  have c: "c \<in> set (qs @ ps)" using ok(2) reap(4) ps by auto
  then have "qs @ ps \<noteq> []" by auto
  from sched_remove_proc_ring [OF ok(1) [unfolded ps] refl this] have "procs_ring (sched_remove_proc tid s) (qs @ ps)" .
  then show ?thesis using c ok(3) unfolding reap(3) by (intro life_okI) (auto simp: sched_remove_proc_states)
qed

text \<open>C13: However programs start, run, end and are removed, the scheduler's ring stays whole: in every state that
  follows from the start the processes form one ring of as many as are counted, the console among them
  and never stopped.  So the search for the next process always returns, with a process that is not
  stopped when the time slice is over.\<close>

theorem lives_ring:
  assumes "lives c (r, s)"
  shows "procs_ring s (ring_procs s) \<and> c \<in> set (ring_procs s) \<and> pr_state (procs s c) \<noteq> PROC_STOPPED
    \<and> (\<exists>sp s'. schedule esp s = Some (sp, s') \<and> (slice_over s \<longrightarrow> pr_state (procs s' (proc_list s')) \<noteq> PROC_STOPPED))"
proof -
  have "life_ok c (r, s)" using assms
  proof (induction "(r, s)" arbitrary: r s rule: lives.induct)
    case (boot s)
    then show ?case by (intro life_okI) auto
  next
    case (step x ev r s)
    then show ?case by (cases x) (auto intro: life_step_ok)
  qed
  then have ok: "procs_ring s (ring_procs s)" "c \<in> set (ring_procs s)" "pr_state (procs s c) \<noteq> PROC_STOPPED"
    by (simp_all add: life_ok_def)
  show ?thesis
  proof (cases "slice_over s")
    case True
    from schedule_late [OF ok True, of esp] show ?thesis using ok by auto
  next
    case False
    then show ?thesis using ok schedule_early [OF False, of esp] by auto
  qed
qed

section \<open>The time slice after a removal\<close>

lemma sched_remove_keeps:
  "threads (sched_remove_proc tid s) = threads s"
  "pr_thread_list (procs (sched_remove_proc tid s) p) = pr_thread_list (procs s p)"
  by (simp_all add: sched_remove_proc_def Let_def set_pr_next_def set_pr_prec_def upd_proc_def)

text \<open>C14: Removing a program makes the process behind it the running one, though it is the console's code that
  runs on.  With a third process \<open>q\<close> in the ring the next switch saves the console's stack pointer in
  \<open>q\<close>'s thread: \<open>q\<close>'s own stack pointer is lost, and the console's thread keeps an old one.\<close>

theorem sched_remove_misattributes:
  fixes s :: "'a proc_state_scheme"
  defines "t \<equiv> \<lambda>p. pr_thread_list (procs s p)"
  assumes "procs_ring s (c # a # q # ps)" "get_proc_by_id tid s = a" "pr_state (procs s c) \<noteq> PROC_STOPPED"
    "t q \<noteq> t c" "sint (th_time (threads s (t q))) < sint (ucast (k :: u8) :: u32)"
  shows "\<exists>sp s'. schedule esp ((sched_remove_proc tid s)\<lparr>pit_ticks := k\<rparr>) = Some (sp, s')
    \<and> th_esp_kernel (threads s' (t q)) = esp \<and> th_esp_kernel (threads s' (t c)) = th_esp_kernel (threads s (t c))"
proof -
  let ?s = "(sched_remove_proc tid s)\<lparr>pit_ticks := k\<rparr>"
  have "procs_ring (sched_remove_proc tid s) (q # ps @ [c])"
    using sched_remove_proc_ring [of s "[c]" a "q # ps" tid] assms(2,3) by simp
  moreover from this have "proc_list (sched_remove_proc tid s) = q" by (simp add: procs_ring_def)
  ultimately have r: "procs_ring ?s (q # ps @ [c])" "proc_list ?s = q" by (simp_all add: procs_ring_def)
  have t: "cur_thread ?s = t q" unfolding cur_thread_def r(2) by (simp add: sched_remove_keeps t_def)
  have "pr_state (procs ?s c) \<noteq> PROC_STOPPED" using assms(4) by (simp add: sched_remove_proc_states)
  moreover have "slice_over ?s" using assms(6) unfolding slice_over_def t by (simp add: sched_remove_keeps get_tick_count_def)
  ultimately obtain s' where s': "schedule esp ?s = Some (th_esp_kernel (threads s' (cur_thread s')), s')"
    "threads s' = (threads ?s)(cur_thread ?s := (threads ?s (cur_thread ?s))\<lparr>th_esp_kernel := esp\<rparr>)"
    using schedule_late [OF r(1), of c esp] by auto
  show ?thesis using s'(1) assms(5) by (intro exI conjI) (assumption, simp_all add: s'(2) t sched_remove_keeps)
qed

section \<open>Witnesses\<close>

definition demo_alone :: proc_state where
  "demo_alone = demo_sched\<lparr>procs := \<lambda>_. demo_proc 0x100 0x10, n_proc := 1\<rparr>"

lemma demo_alone_ring: "procs_ring demo_alone [0x10]"
  by (simp add: demo_alone_def procs_ring_def ring_of_def demo_sched_simps demo_proc_def)

theorem lives_ring_witness:
  "lives 0x10 (0x10, sched_add_proc 0x20 demo_alone)
    \<and> procs_ring (sched_add_proc 0x20 demo_alone) (ring_procs (sched_add_proc 0x20 demo_alone))"
proof -
  have "lives 0x10 (0x10, demo_alone)"
    by (rule lives.boot [OF demo_alone_ring]) (simp add: demo_alone_def demo_proc_def PROC_ACTIVE_def PROC_STOPPED_def)
  moreover have "life_step 0x10 (0x10, demo_alone) (Spawn 0x20) (0x10, sched_add_proc 0x20 demo_alone)"
  proof (rule life_step.spawn)
    show "0x20 \<notin> set (ring_procs demo_alone)" unfolding ring_procs_eq [OF demo_alone_ring] by simp
  qed (simp_all add: demo_alone_def demo_proc_def)
  ultimately have "lives 0x10 (0x10, sched_add_proc 0x20 demo_alone)" by (rule lives.step)
  from lives_ring [OF this] this show ?thesis by blast
qed

text \<open>The console, the program of thread 2 and the drawing process.\<close>

definition demo_three :: proc_state where
  "demo_three = demo_sched\<lparr>procs := (\<lambda>_. demo_proc 0x100 0)(0x10 := (demo_proc 0x100 0x20)\<lparr>pr_prec := 0x30\<rparr>,
     0x20 := (demo_proc 0x200 0x30)\<lparr>pr_prec := 0x10\<rparr>, 0x30 := (demo_proc 0x300 0x10)\<lparr>pr_prec := 0x20\<rparr>),
     threads := (threads demo_sched)(0x300 := demo_thread 3 0x300), n_proc := 3\<rparr>"

lemma demo_three_simps:
  "threads demo_three = (\<lambda>_. demo_thread 1 0x100)(0x200 := demo_thread 2 0x200, 0x300 := demo_thread 3 0x300)"
  "procs demo_three = (\<lambda>_. demo_proc 0x100 0)(0x10 := (demo_proc 0x100 0x20)\<lparr>pr_prec := 0x30\<rparr>,
     0x20 := (demo_proc 0x200 0x30)\<lparr>pr_prec := 0x10\<rparr>, 0x30 := (demo_proc 0x300 0x10)\<lparr>pr_prec := 0x20\<rparr>)"
  "proc_list demo_three = 0x10" "n_proc demo_three = 3"
  by (simp_all add: demo_three_def demo_sched_simps)

lemma demo_three_find: "get_proc_by_id 2 demo_three = 0x20"
proof -
  have "nat (sint (3 :: u32)) = Suc (Suc (Suc 0))" "nat (sint (1 :: u32)) = Suc 0" by simp_all
  then show ?thesis
    by (simp only: get_proc_by_id_def demo_three_simps) (simp add: demo_three_simps demo_thread_def demo_proc_def)
qed

theorem sched_remove_misattributes_witness:
  "\<exists>sp s'. schedule 0x7000 ((sched_remove_proc 2 demo_three)\<lparr>pit_ticks := 20\<rparr>) = Some (sp, s')
    \<and> th_esp_kernel (threads s' 0x300) = 0x7000 \<and> th_esp_kernel (threads s' 0x100) = 0x5001"
proof -
  have "procs_ring demo_three [0x10, 0x20, 0x30]"
    by (simp add: procs_ring_def ring_of_def demo_three_simps demo_proc_def)
  from sched_remove_misattributes [OF this demo_three_find, of 20 "0x7000"] show ?thesis
    by (simp add: demo_three_simps demo_thread_def demo_proc_def PROC_ACTIVE_def PROC_STOPPED_def)
qed

end
