(* ===== verification/Start.thy ===== *)
theory Start
  imports Proc
begin

text \<open>
  A kernel process from its start to its first time slice: \<open>start_kernel_proc\<close> takes two blocks of the kernel
  heap, maps two pages for the stack, pushes the frame that the return from the scheduler pops and enters the
  process in the ring.  The parts that take part are Kheap, Vmm with Pmm and Paging, Thread and Sched.
\<close>

section \<open>One directory and the allocators\<close>

text \<open>The memory that the mapping of a page works on.\<close>

definition mm_area :: "u32 \<Rightarrow> 'a vmm_state_scheme \<Rightarrow> u32 set" where
  "mm_area d s = pmm_area s \<union> region (pg_bitmap s) 64 \<union> region d 4096 \<union> region 0x200000 0x200000"

definition one_ok :: "u32 \<Rightarrow> 'a vmm_state_scheme \<Rightarrow> bool" where
  "one_ok d s \<longleftrightarrow> vm_ok d s \<and> pmm_ok s \<and> pmm_apart d s"

lemma dir_area_mm: "vm_ok d s \<Longrightarrow> dir_area d s \<subseteq> mm_area d s"
  using dir_area_sub [of d s] unfolding mm_area_def by blast

lemma one_ok_cong:
  assumes "one_ok d s" "pmm s' = pmm s" "pg_bitmap s' = pg_bitmap s" "\<forall>x \<in> mm_area d s. ram s' x = ram s x"
  shows "one_ok d s'" "get_phys_addr s' d w = get_phys_addr s d w" "n < 2 ^ 20 \<Longrightarrow> pmm_used s' n = pmm_used s n"
    "n < 512 \<Longrightarrow> pg_used s' n = pg_used s n" "pde s' d w = pde s d w" "mm_area d s' = mm_area d s"
proof -
  have ok: "vm_ok d s" "pmm_ok s" "pmm_apart d s" using assms(1) by (simp_all add: one_ok_def)
  have keep: "\<forall>x \<in> dir_area d s. ram s' x = ram s x" using dir_area_mm [OF ok(1)] assms(4) by blast
  note c = dir_area_cong [OF assms(3) keep ok(1)]
  show used: "pmm_used s' n = pmm_used s n" if "n < 2 ^ 20" for n
    by (rule pmm_used_outside [OF that]) (use assms(2,4) in \<open>auto simp: mm_area_def\<close>)
  show "get_phys_addr s' d w = get_phys_addr s d w" "n < 512 \<Longrightarrow> pg_used s' n = pg_used s n" "pde s' d w = pde s d w"
    using c(3-5) by blast+
  show "mm_area d s' = mm_area d s" using assms(2,3) by (simp add: mm_area_def pmm_area_def)
  have "pmm_ok s'" using ok(2) used [of 0] assms(2) by (simp add: pmm_ok_def)
  then show "one_ok d s'" using c(1) ok(3) assms(2,3) by (simp add: one_ok_def pmm_apart_def pmm_area_def)
qed

lemma one_ok_counts:
  fixes s s' :: "'a vmm_state_scheme"
  assumes "one_ok d s" "pmm s' = pmm s" "pg_bitmap s' = pg_bitmap s" "\<forall>x \<in> mm_area d s. ram s' x = ram s x"
  shows "free_blocks s' = free_blocks s" "free_tables s' = free_tables s"
    "{k \<in> pmm_frames s'. \<not> pmm_used s' k} = {k \<in> pmm_frames s. \<not> pmm_used s k}"
proof -
  note c = one_ok_cong(3,4) [OF assms]
  have "pmm_frames s' = pmm_frames s" by (simp add: pmm_frames_def assms(2))
  then show "{k \<in> pmm_frames s'. \<not> pmm_used s' k} = {k \<in> pmm_frames s. \<not> pmm_used s k}"
    using c(1) pmm_frames_bound [of s] assms(1) by (auto simp: one_ok_def)
  then show "free_blocks s' = free_blocks s" by (simp add: free_blocks_def)
  have "{n. n < 512 \<and> \<not> pg_used s' n} = {n. n < 512 \<and> \<not> pg_used s n}" using c(2) by blast
  then show "free_tables s' = free_tables s" by (simp add: free_tables_def)
qed

text \<open>\<open>vmm_map\<close> takes a free block and translates the page to it.\<close>

lemma vmm_map_step:
  assumes "one_ok d s" "n \<in> pmm_frames s" "\<not> pmm_used s n" "pde s d v \<noteq> 0 \<or> (\<exists>n<512. \<not> pg_used s n)"
  obtains k s' where "vmm_map d v KERNEL_FLAGS s = (1, s')" "one_ok d s'" "k \<in> pmm_frames s" "\<not> pmm_used s k" "k < 2 ^ 20"
    "\<And>j. j < 2 ^ 20 \<Longrightarrow> pmm_used s' j \<longleftrightarrow> j = k \<or> pmm_used s j" "pmm_frames s' = pmm_frames s"
    "\<And>w. get_phys_addr s' d w = (if drop_bit 12 w = drop_bit 12 v then frame_addr k else get_phys_addr s d w)"
    "\<And>w. pde s' d w \<noteq> 0 \<longleftrightarrow> pd_index w = pd_index v \<or> pde s d w \<noteq> 0"
    "\<And>x. x \<notin> mm_area d s \<Longrightarrow> ram s' x = ram s x" "mm_area d s' = mm_area d s"
    "s' = s\<lparr>pmm := pmm s', ram := ram s', pg_used_blocks := pg_used_blocks s'\<rparr>"
proof -
  have ok: "vm_ok d s" "pmm_ok s" "pmm_apart d s" using assms(1) by (simp_all add: one_ok_def)
  obtain k s1 where s1: "pmm_malloc s = (frame_addr k, s1)" "k \<in> pmm_frames s" "\<not> pmm_used s k" "k \<noteq> 0" "k < 2 ^ 20"
      "\<And>j. j < 2 ^ 20 \<Longrightarrow> pmm_used s1 j \<longleftrightarrow> j = k \<or> pmm_used s j" "pmm_ok s1" "\<And>x. x \<notin> pmm_area s \<Longrightarrow> ram s1 x = ram s x"
      "s1 = s\<lparr>pmm := pmm s1, ram := ram s1\<rparr>" "mi_map (pmm s1) = mi_map (pmm s)" "pmm_frames s1 = pmm_frames s"
    by (rule pmm_malloc_take [OF ok(2) assms(2,3)]) (rule that)
  have bm: "pg_bitmap s1 = pg_bitmap s" by (subst s1(9)) simp
  have keep: "\<forall>x \<in> dir_area d s. ram s1 x = ram s x"
    using dir_area_sub [OF ok(1)] ok(3) s1(8) by (fastforce simp: pmm_apart_def)
  note d1 = dir_area_cong [OF bm keep ok(1)]
  have 1: "pde s1 d v \<noteq> 0 \<or> (\<exists>n<512. \<not> pg_used s1 n)" using assms(4) d1(4,5) by metis
  obtain j s2 where s2: "vmm_map_phys d v (frame_addr k) KERNEL_FLAGS s1 = (1, s2)" "vm_ok d s2"
      "\<And>w. get_phys_addr s2 d w = (if drop_bit 12 w = drop_bit 12 v then frame_addr k AND NOT 0xFFF else get_phys_addr s1 d w)"
      "\<And>w. pde s2 d w \<noteq> 0 \<longleftrightarrow> pd_index w = pd_index v \<or> pde s1 d w \<noteq> 0"
    by (rule vmm_map_phys_effect [OF d1(1) 1 flags_small(1)]) (rule that)
  have fp: "footprint d s1 s2" by (rule map_phys_footprint [OF d1(1) 1 flags_small(1) s2(1)])
  then have only: "paging_only s1 s2" by (simp add: footprint_def)
  have apart1: "pmm_apart d s1" using ok(3) bm s1(10) by (simp add: pmm_apart_def pmm_area_def)
  have used: "pmm_used s2 j = pmm_used s1 j" if "j < 2 ^ 20" for j by (rule footprint_pmm [OF s2(2) fp apart1 that])
  have area: "mm_area d s2 = mm_area d s"
    using paging_only_simps(1,2) [OF only] bm s1(10) by (simp add: mm_area_def pmm_area_def)
  have "one_ok d s2"
    using s2(2) s1(7) used [of 0] apart1 paging_only_simps(1,2) [OF only] by (simp add: one_ok_def pmm_ok_def pmm_apart_def pmm_area_def)
  moreover have "vmm_map d v KERNEL_FLAGS s = (1, s2)"
    using s1(1) s2(1) frame_addr_ne [OF s1(4,5)] by (simp add: vmm_map_def vmm_map_phys_def Let_def)
  moreover have "ram s2 x = ram s x" if x: "x \<notin> mm_area d s" for x
  proof -
    have "x \<notin> dir_area d s2" using x dir_area_mm [OF s2(2)] area by blast
    then have "ram s2 x = ram s1 x" using fp by (simp add: footprint_def)
    also have "\<dots> = ram s x" using x by (intro s1(8)) (simp add: mm_area_def)
    finally show ?thesis .
  qed
  moreover have "s2 = s\<lparr>pmm := pmm s2, ram := ram s2, pg_used_blocks := pg_used_blocks s2\<rparr>"
  proof -
    obtain m b where "s2 = s1\<lparr>ram := m, pg_used_blocks := b\<rparr>" using only unfolding paging_only_def by blast
    also have "\<dots> = (s\<lparr>pmm := pmm s1, ram := ram s1\<rparr>)\<lparr>ram := m, pg_used_blocks := b\<rparr>" by (subst s1(9)) (rule refl)
    finally have "s2 = s\<lparr>pmm := pmm s1, ram := m, pg_used_blocks := b\<rparr>" by simp
    then show ?thesis by simp
  qed
  moreover have "get_phys_addr s2 d w = (if drop_bit 12 w = drop_bit 12 v then frame_addr k else get_phys_addr s d w)" for w
    using s2(3) d1(3) frame_addr_page by simp
  moreover have "\<And>j. j < 2 ^ 20 \<Longrightarrow> pmm_used s2 j \<longleftrightarrow> j = k \<or> pmm_used s j" using used s1(6) by simp
  moreover have "pmm_frames s2 = pmm_frames s" using paging_only_simps(2) [OF only] s1(11) by (simp add: pmm_frames_def)
  moreover have "pde s2 d w \<noteq> 0 \<longleftrightarrow> pd_index w = pd_index v \<or> pde s d w \<noteq> 0" for w using s2(4) d1(4) by simp
  ultimately show ?thesis using that [of s2 k] s1(2,3,5) area by blast
qed

section \<open>The two blocks\<close>

text \<open>What of the heap the start writes to or reads: the block of the process at \<open>a\<close> with the name in it, the
  block of the thread at \<open>b\<close>, the headers behind both, and the headers of the resulting chain.\<close>

definition proc_block :: "u32 \<Rightarrow> u32 set" where "proc_block a = region a 32 \<union> region (a + 896) 16"
definition thread_block :: "u32 \<Rightarrow> u32 set" where "thread_block b = region b 16 \<union> region (b + 1280) 16"

lemma kheap_at_cong:
  assumes "kheap_at s bs" "kheap s' = kheap s" "\<forall>b \<in> set bs. \<forall>x \<in> region (fst b) 16. ram s' x = ram s x"
  shows "kheap_at s' bs"
proof -
  have "blocks (ram s') p bs = blocks (ram s) p bs" for p using assms(3) by (intro blocks_cong) blast
  then show ?thesis using assms(1,2) by (simp add: kheap_at_def)
qed

lemma new_proc_step:
  assumes "kheap_at s bs" "get_used_heap s < get_heap_size s" "fit 40 bs = Some (a, bs')" "room a 40"
    "cstr (ram s) name nm" "length nm < 16" "region name (Suc (length nm)) \<inter> proc_block a = {}"
  shows "\<exists>m. new_proc name s = Some (a + 16, upd_proc (a + 16) (\<lambda>p. p\<lparr>pr_name := nm, pr_state := PROC_NEW\<rparr>)
      (kheap_add_used 56 (s\<lparr>ram := m\<rparr>)))
    \<and> kheap_at (kheap_add_used 56 (s\<lparr>ram := m\<rparr>)) bs' \<and> (\<forall>x. x \<notin> proc_block a \<longrightarrow> m x = ram s x)"
proof -
  let ?p = "a + 16" and ?n = "Suc (length nm)"
  have sub: "region ?p ?n \<subseteq> region a 32" using region_off [of 16 ?n 32 a] assms(6) by simp
  have a16: "region a 16 \<subseteq> region a 32" by (rule region_mono) simp
  from kmalloc_step [OF assms(1-4)] obtain m1 where m1: "kmalloc 40 s = Some (?p, kheap_add_used 56 (s\<lparr>ram := m1\<rparr>))"
    "kheap_at (kheap_add_used 56 (s\<lparr>ram := m1\<rparr>)) bs'" "\<forall>x. x \<notin> region a 16 \<union> region (a + 896) 16 \<longrightarrow> m1 x = ram s x"
    by (auto simp: add.commute [of _ a])
  let ?m = "store_bytes m1 ?p (nm @ [0])" and ?s = "kheap_add_used 56 (s\<lparr>ram := m1\<rparr>)"
  have "ram s x = m1 x" if "x \<in> region name ?n" for x
  proof -
    have "x \<notin> region a 16 \<union> region (a + 896) 16" using that assms(7) a16 unfolding proc_block_def by blast
    then show ?thesis using m1(3) by simp
  qed
  then have n: "cstr m1 name nm" using cstr_cong [of nm name "ram s" m1] assms(5,6) by simp
  have "region name ?n \<inter> region ?p ?n = {}" using assms(7) sub unfolding proc_block_def by blast
  then have cpy: "strcpy m1 ?p name = Some ?m" using n assms(6) by (intro strcpy_cstr) simp_all
  have "load_bytes ?m ?p (length nm) = nm"
  proof (rule nth_equalityI)
    fix i assume "i < length (load_bytes ?m ?p (length nm))"
    then show "load_bytes ?m ?p (length nm) ! i = nm ! i"
      using assms(6) by (simp add: load_bytes_nth store_bytes_nth nth_append)
  qed simp
  moreover have "?s\<lparr>ram := ?m\<rparr> = kheap_add_used 56 (s\<lparr>ram := ?m\<rparr>)" "ram ?s = m1" by (simp_all add: kheap_add_used_def)
  ultimately have eq: "new_proc name s = Some (?p, upd_proc ?p (\<lambda>p. p\<lparr>pr_name := nm, pr_state := PROC_NEW\<rparr>)
      (kheap_add_used 56 (s\<lparr>ram := ?m\<rparr>)))"
    using m1(1) n cpy by (simp add: new_proc_def)
  have "?m x = m1 x" if "b \<in> set bs'" "x \<in> region (fst b) 16" for b x
  proof -
    have "region ?p ?n \<inter> region (fst b) 16 = {}"
      using m1(2) assms(6) that(1) by (intro payload_apart [OF _ assms(3,4)]) (simp_all add: kheap_at_def)
    then have "x \<notin> region ?p (length (nm @ [0]))" using that(2) by auto
    then show ?thesis by (rule store_bytes_outside)
  qed
  then have "kheap_at (kheap_add_used 56 (s\<lparr>ram := ?m\<rparr>)) bs'" by (intro kheap_at_cong [OF m1(2)]) (simp_all add: kheap_add_used_def)
  moreover have "?m x = ram s x" if "x \<notin> proc_block a" for x
  proof -
    have "x \<notin> region ?p (length (nm @ [0]))" "x \<notin> region a 16 \<union> region (a + 896) 16" using that sub a16 by (auto simp: proc_block_def)
    then show ?thesis using m1(3) by (simp add: store_bytes_outside)
  qed
  ultimately show ?thesis using eq by blast
qed

lemma create_thread_step:
  assumes "kheap_at s bs" "get_used_heap s < get_heap_size s" "fit 64 bs = Some (b, bs')" "room b 64" "b + 16 \<noteq> 0"
  shows "\<exists>m. create_thread s = Some (b + 16, upd_thread (b + 16) (\<lambda>x. x\<lparr>th_pid := next_pid s, th_main := 0, th_time := 10,
      th_state := PROC_NEW, th_next := b + 16, th_prec := b + 16\<rparr>)
      ((kheap_add_used 80 (s\<lparr>ram := m\<rparr>))\<lparr>next_pid := next_pid s + 1\<rparr>))
    \<and> kheap_at (kheap_add_used 80 (s\<lparr>ram := m\<rparr>)) bs' \<and> (\<forall>x. x \<notin> thread_block b \<longrightarrow> m x = ram s x)"
proof -
  from kmalloc_step [OF assms(1-4)] obtain m where "kmalloc 64 s = Some (b + 16, kheap_add_used 80 (s\<lparr>ram := m\<rparr>))"
    "kheap_at (kheap_add_used 80 (s\<lparr>ram := m\<rparr>)) bs'" "\<forall>x. x \<notin> thread_block b \<longrightarrow> m x = ram s x" by (auto simp: thread_block_def add.commute [of _ b])
  moreover have "next_pid (kheap_add_used 80 (s\<lparr>ram := m\<rparr>)) = next_pid s" by (simp add: kheap_add_used_def)
  ultimately show ?thesis using assms(5) by (intro exI [of _ m]) (simp add: create_thread_def Let_def)
qed

section \<open>Stack and frame\<close>

abbreviation KSTACK :: u32 where "KSTACK \<equiv> KERNEL_SPACE_END + 0x5000"

definition kernel_thread :: "thread \<Rightarrow> thread" where
  "kernel_thread x = x\<lparr>th_esp := KSTACK, th_stack_limit := KSTACK + PAGE_SIZE,
     th_stack_kernel_limit := KSTACK + PAGE_SIZE + PAGE_SIZE, th_esp_kernel := KSTACK + 0x1FC0\<rparr>"

text \<open>What the return from the scheduler pops, from the stack pointer upwards: segment registers, \<open>ebp\<close>, six zero
  registers, then entry point, code segment, flags, stack pointer and data segment.\<close>

definition entry_frame :: "u32 \<Rightarrow> u32 list" where
  "entry_frame addr = [0x10, 0x10, 0x10, 0x10, KSTACK + PAGE_SIZE, 0, 0, 0, 0, 0, 0, addr, 0x8, 0x202, KSTACK, 0x10]"

text \<open>The two pages of the stack are translated to fresh frames, all others as before.\<close>

definition stack_mapped :: "u32 \<Rightarrow> 'a vmm_state_scheme \<Rightarrow> 'a vmm_state_scheme \<Rightarrow> bool" where
  "stack_mapped d s s' \<longleftrightarrow> (\<exists>k1 k2. k1 \<noteq> k2 \<and> {k1, k2} \<subseteq> {k \<in> pmm_frames s. \<not> pmm_used s k}
     \<and> (\<forall>w. get_phys_addr s' d w = (if drop_bit 12 w = drop_bit 12 KSTACK then frame_addr k1
          else if drop_bit 12 w = drop_bit 12 (KSTACK + PAGE_SIZE) then frame_addr k2 else get_phys_addr s d w)))"

lemma two_pages:
  assumes "one_ok d s" "2 \<le> free_blocks s" "pde s d KSTACK \<noteq> 0 \<or> 1 \<le> free_tables s"
    "\<And>s. pmm (f s) = pmm s \<and> ram (f s) = ram s \<and> pg_bitmap (f s) = pg_bitmap s"
  obtains s1 s2 where "vmm_map d KSTACK KERNEL_FLAGS s = (1, s1)" "vmm_map d (KSTACK + PAGE_SIZE) KERNEL_FLAGS (f s1) = (1, s2)"
    "s1 = s\<lparr>pmm := pmm s1, ram := ram s1, pg_used_blocks := pg_used_blocks s1\<rparr>"
    "s2 = (f s1)\<lparr>pmm := pmm s2, ram := ram s2, pg_used_blocks := pg_used_blocks s2\<rparr>"
    "one_ok d s2" "stack_mapped d s s2" "mm_area d s2 = mm_area d s" "\<And>x. x \<notin> mm_area d s \<Longrightarrow> ram s2 x = ram s x"
proof -
  have ok: "pmm_ok s" using assms(1) by (simp add: one_ok_def)
  obtain n1 n2 where n: "n1 \<in> pmm_frames s" "\<not> pmm_used s n1" "n2 \<in> pmm_frames s" "\<not> pmm_used s n2" "n1 \<noteq> n2"
    using two_of_card [OF assms(2) [unfolded free_blocks_def]] by blast
  have "\<exists>j<512. \<not> pg_used s j" if "1 \<le> free_tables s"
    using that unfolding free_tables_def by (metis (no_types, lifting) card.empty empty_Collect_eq not_one_le_zero)
  then have t: "pde s d KSTACK \<noteq> 0 \<or> (\<exists>j<512. \<not> pg_used s j)" using assms(3) by blast
  obtain k1 s1 where s1: "vmm_map d KSTACK KERNEL_FLAGS s = (1, s1)" "one_ok d s1" "k1 \<in> pmm_frames s" "\<not> pmm_used s k1" "k1 < 2 ^ 20"
    "\<And>j. j < 2 ^ 20 \<Longrightarrow> pmm_used s1 j \<longleftrightarrow> j = k1 \<or> pmm_used s j" "pmm_frames s1 = pmm_frames s"
    "\<And>w. get_phys_addr s1 d w = (if drop_bit 12 w = drop_bit 12 KSTACK then frame_addr k1 else get_phys_addr s d w)"
    "\<And>w. pde s1 d w \<noteq> 0 \<longleftrightarrow> pd_index w = pd_index KSTACK \<or> pde s d w \<noteq> 0"
    "\<And>x. x \<notin> mm_area d s \<Longrightarrow> ram s1 x = ram s x" "mm_area d s1 = mm_area d s"
    "s1 = s\<lparr>pmm := pmm s1, ram := ram s1, pg_used_blocks := pg_used_blocks s1\<rparr>"
    by (rule vmm_map_step [OF assms(1) n(1,2) t]) (rule that)
  have f: "pmm (f s1) = pmm s1" "ram (f s1) = ram s1" "pg_bitmap (f s1) = pg_bitmap s1" using assms(4) by simp_all
  have "\<forall>x \<in> mm_area d s1. ram (f s1) x = ram s1 x" by (simp add: f)
  note c = one_ok_cong [OF s1(2) f(1,3) this]
  have fr: "pmm_frames (f s1) = pmm_frames s" using s1(7) by (simp add: pmm_frames_def f)
  obtain n where n': "n \<in> pmm_frames s" "\<not> pmm_used s n" "n \<noteq> k1" using n by metis
  then have "\<not> pmm_used s1 n" using s1(6) pmm_frames_bound [OF ok] by blast
  then have free: "n \<in> pmm_frames (f s1)" "\<not> pmm_used (f s1) n" using n'(1) fr c(3) pmm_frames_bound [OF ok] by auto
  have "pd_index (KSTACK + PAGE_SIZE) = pd_index KSTACK" by (simp add: pd_index_def KERNEL_SPACE_END_def PAGE_SIZE_def)
  then have "pde (f s1) d (KSTACK + PAGE_SIZE) \<noteq> 0" using s1(9) c(5) by simp
  then have t2: "pde (f s1) d (KSTACK + PAGE_SIZE) \<noteq> 0 \<or> (\<exists>j<512. \<not> pg_used (f s1) j)" by blast
  obtain k2 s2 where s2: "vmm_map d (KSTACK + PAGE_SIZE) KERNEL_FLAGS (f s1) = (1, s2)" "one_ok d s2"
    "k2 \<in> pmm_frames (f s1)" "\<not> pmm_used (f s1) k2" "k2 < 2 ^ 20"
    "\<And>w. get_phys_addr s2 d w = (if drop_bit 12 w = drop_bit 12 (KSTACK + PAGE_SIZE) then frame_addr k2 else get_phys_addr (f s1) d w)"
    "\<And>x. x \<notin> mm_area d (f s1) \<Longrightarrow> ram s2 x = ram (f s1) x" "mm_area d s2 = mm_area d (f s1)"
    "s2 = (f s1)\<lparr>pmm := pmm s2, ram := ram s2, pg_used_blocks := pg_used_blocks s2\<rparr>"
    by (rule vmm_map_step [OF c(1) free t2]) (rule that)
  have k: "k2 \<in> pmm_frames s" "\<not> pmm_used s k2" "k1 \<noteq> k2" using s2(3-5) fr c(3) s1(6) by auto
  have "drop_bit 12 KSTACK \<noteq> drop_bit 12 (KSTACK + PAGE_SIZE)" by (simp add: KERNEL_SPACE_END_def PAGE_SIZE_def)
  then have "stack_mapped d s s2"
    unfolding stack_mapped_def using k s1(3,4,8) s2(6) c(2) by (intro exI [of _ k1] exI [of _ k2]) auto
  then show ?thesis using that [OF s1(1) s2(1) s1(12) s2(9,2)] s1(10,11) s2(7,8) c(6) f(2) by simp
qed

lemma kernel_stack_step:
  assumes "pr_pdir (procs s p) = d" "one_ok d s" "2 \<le> free_blocks s" "pde s d KSTACK \<noteq> 0 \<or> 1 \<le> free_tables s"
    "mm_area d s \<inter> region (KSTACK + 0x1FC0) 64 = {}"
  shows "\<exists>q m u. kernel_stack p t s = s\<lparr>pmm := q, pg_used_blocks := u, ram := m, threads := (threads s)(t := kernel_thread (threads s t))\<rparr>
    \<and> one_ok d (kernel_stack p t s) \<and> stack_mapped d s (kernel_stack p t s)
    \<and> stack_words m (KSTACK + 0x1FC0) 16 = entry_frame (th_eip (threads s t))
    \<and> (\<forall>x. x \<notin> mm_area d s \<union> region (KSTACK + 0x1FC0) 64 \<longrightarrow> m x = ram s x)"
proof -
  let ?sp = "KSTACK + 0x1FC0" and ?g = "\<lambda>x. x\<lparr>th_esp := KSTACK, th_stack_limit := KSTACK + PAGE_SIZE, th_esp_kernel := KSTACK + PAGE_SIZE,
     th_stack_kernel_limit := KSTACK + PAGE_SIZE + PAGE_SIZE\<rparr>"
  have f: "pmm (upd_thread t ?g z) = pmm z \<and> ram (upd_thread t ?g z) = ram z \<and> pg_bitmap (upd_thread t ?g z) = pg_bitmap z"
    for z :: "'a proc_state_scheme" by (simp add: upd_thread_def)
  obtain s1 s2 where s1: "vmm_map d KSTACK KERNEL_FLAGS s = (1, s1)" and s2: "vmm_map d (KSTACK + PAGE_SIZE) KERNEL_FLAGS (upd_thread t ?g s1) = (1, s2)"
    and e1: "s1 = s\<lparr>pmm := pmm s1, ram := ram s1, pg_used_blocks := pg_used_blocks s1\<rparr>"
    and e2: "s2 = (upd_thread t ?g s1)\<lparr>pmm := pmm s2, ram := ram s2, pg_used_blocks := pg_used_blocks s2\<rparr>"
    and mm: "one_ok d s2" "stack_mapped d s s2" "mm_area d s2 = mm_area d s" "\<And>x. x \<notin> mm_area d s \<Longrightarrow> ram s2 x = ram s x"
    by (rule two_pages [OF assms(2-4) f]) (rule that)
  have p1: "procs (upd_thread t ?g s1) = procs s" "th_esp_kernel (threads (upd_thread t ?g s1) t) = KSTACK + PAGE_SIZE" by (subst e1, simp)+
  have "s2 = s\<lparr>threads := (threads s)(t := ?g (threads s t)), pmm := pmm s2, ram := ram s2, pg_used_blocks := pg_used_blocks s2\<rparr>"
    by (subst e2, subst e1) (simp add: upd_thread_def)
  then obtain q m2 u where s2': "s2 = s\<lparr>threads := (threads s)(t := ?g (threads s t)), pmm := q, ram := m2, pg_used_blocks := u\<rparr>" by blast
  have p2: "th_esp (threads s2 t) = KSTACK" "th_eip (threads s2 t) = th_eip (threads s t)" "th_stack_limit (threads s2 t) = KSTACK + PAGE_SIZE"
    "th_stack_kernel_limit (threads s2 t) = KSTACK + PAGE_SIZE + PAGE_SIZE" "ram s2 = m2" by (simp_all add: s2')
  let ?ws = "[0x10, KSTACK, 0x202, 0x8, th_eip (threads s t), 0, 0, 0, 0, 0, 0, KSTACK + PAGE_SIZE, 0x10, 0x10, 0x10, 0x10]"
  have "KSTACK + PAGE_SIZE + PAGE_SIZE - of_nat (4 * length ?ws) = ?sp" "4 * length ?ws = 64" "length ?ws = 16" by (simp_all add: PAGE_SIZE_def)
  with push_words [of ?ws "KSTACK + PAGE_SIZE + PAGE_SIZE" m2] obtain m where
    m: "fold push32 ?ws (KSTACK + PAGE_SIZE + PAGE_SIZE, m2) = (?sp, m)" "stack_words m ?sp 16 = rev ?ws" "\<forall>x. x \<notin> region ?sp 64 \<longrightarrow> m x = m2 x"
    by (simp only:) auto
  let ?s = "s\<lparr>pmm := q, pg_used_blocks := u, ram := m, threads := (threads s)(t := kernel_thread (threads s t))\<rparr>"
  have "kernel_stack p t s = upd_thread t (th_esp_kernel_update (\<lambda>_. ?sp)) (s2\<lparr>ram := m\<rparr>)"
    by (simp only: kernel_stack_def Let_def assms(1) s1 prod.case p1 s2 p2 m(1))
  also have "\<dots> = ?s" by (simp add: s2' upd_thread_def kernel_thread_def)
  finally have eq: "kernel_stack p t s = ?s" .
  have keep: "\<forall>x \<in> mm_area d s2. ram ?s x = ram s2 x" using assms(5) mm(3) m(3) by (auto simp: s2')
  have "pmm ?s = pmm s2" "pg_bitmap ?s = pg_bitmap s2" by (simp_all add: s2')
  note c = one_ok_cong(1,2) [OF mm(1) this keep]
  have "stack_mapped d s ?s" using mm(2) unfolding stack_mapped_def c(2) .
  moreover have "stack_words m ?sp 16 = entry_frame (th_eip (threads s t))" unfolding m(2) entry_frame_def by simp
  moreover have "\<forall>x. x \<notin> mm_area d s \<union> region ?sp 64 \<longrightarrow> m x = ram s x" using m(3) mm(4) by (simp add: s2')
  ultimately show ?thesis using c(1) unfolding eq by (intro exI [of _ q] exI [of _ m] exI [of _ u]) simp
qed

section \<open>From the blocks to the ring\<close>

text \<open>The last steps of \<open>start_kernel_proc\<close>.\<close>

abbreviation enter_ring :: "u32 \<Rightarrow> u32 \<Rightarrow> 'a proc_state_scheme \<Rightarrow> 'a proc_state_scheme" where
  "enter_ring p t s \<equiv> sched_add_proc p (upd_proc p (pr_state_update (\<lambda>_. PROC_ACTIVE))
     (upd_thread t (th_state_update (\<lambda>_. PROC_ACTIVE)) (upd_proc p (pr_threads_update (\<lambda>_. 1)) s)))"

lemma kheap_add_used_fields:
  fixes s :: "'a proc_state_scheme" and d :: u32 and m :: mem
  defines "s' \<equiv> kheap_add_used d (s\<lparr>ram := m\<rparr>)"
  shows "threads s' = threads s" "procs s' = procs s" "proc_list s' = proc_list s" "n_proc s' = n_proc s" "next_pid s' = next_pid s"
    "pmm s' = pmm s" "pg_bitmap s' = pg_bitmap s" "kern_dir s' = kern_dir s" "ram s' = m"
    "get_used_heap s' = get_used_heap s + d" "get_heap_size s' = get_heap_size s"
  by (simp_all add: s'_def kheap_add_used_def get_used_heap_def get_heap_size_def)

lemma start_blocks:
  assumes heap: "kheap_at s bs" "fit 40 bs = Some (a, bs1)" "room a 40" "fit 64 bs1 = Some (b, bs2)" "room b 64"
      "unat (get_used_heap s) + 56 < unat (get_heap_size s)" "b + 16 \<noteq> 0"
    and name: "cstr (ram s) name nm" "length nm < 16" "region name (Suc (length nm)) \<inter> proc_block a = {}"
  obtains s' where "start_kernel_proc name addr s = (let z = enter_ring (a + 16) (b + 16) (kernel_stack (a + 16) (b + 16) s')
      in Some (th_pid (threads z (b + 16)), z))"
    "kheap_at s' bs2" "\<forall>x. x \<notin> proc_block a \<union> thread_block b \<longrightarrow> ram s' x = ram s x"
    "pmm s' = pmm s" "pg_bitmap s' = pg_bitmap s" "kern_dir s' = kern_dir s" "proc_list s' = proc_list s" "n_proc s' = n_proc s"
    "procs s' = (procs s)(a + 16 := (procs s (a + 16))\<lparr>pr_name := nm, pr_state := PROC_NEW, pr_pdir := kern_dir s, pr_thread_list := b + 16\<rparr>)"
    "threads s' = (threads s)(b + 16 := (threads s (b + 16))\<lparr>th_pid := next_pid s, th_time := 10, th_state := PROC_NEW,
       th_next := b + 16, th_prec := b + 16, th_main := 1, th_parent := a + 16, th_eip := addr\<rparr>)"
proof -
  let ?p = "a + 16" and ?t = "b + 16"
  have "unat (get_heap_size s) < 2 ^ LENGTH(32)" by (rule unsigned_less)
  then have less: "get_used_heap s < get_heap_size s" "get_used_heap s + 56 < get_heap_size s"
    using heap(6) by (simp_all add: word_less_nat_alt unat_word_ariths)
  let ?f = "\<lambda>p. p\<lparr>pr_name := nm, pr_state := PROC_NEW\<rparr>" and ?g = "\<lambda>x. x\<lparr>th_pid := next_pid s, th_main := 0, th_time := 10,
    th_state := PROC_NEW, th_next := ?t, th_prec := ?t\<rparr>"
  from new_proc_step [OF heap(1) less(1) heap(2,3) name] obtain m1 where
    m1: "new_proc name s = Some (?p, upd_proc ?p ?f (kheap_add_used 56 (s\<lparr>ram := m1\<rparr>)))"
      "kheap_at (kheap_add_used 56 (s\<lparr>ram := m1\<rparr>)) bs1" "\<forall>x. x \<notin> proc_block a \<longrightarrow> m1 x = ram s x" by blast
  define z where "z = upd_proc ?p ?f (kheap_add_used 56 (s\<lparr>ram := m1\<rparr>))"
  have z: "get_kern_directory z = kern_dir s" by (simp add: z_def upd_proc_def get_kern_directory_def kheap_add_used_fields)
  define s1 where "s1 = upd_proc ?p (pr_pdir_update (\<lambda>_. kern_dir s)) z"
  have s1: "threads s1 = threads s" "proc_list s1 = proc_list s" "n_proc s1 = n_proc s" "next_pid s1 = next_pid s" "pmm s1 = pmm s"
    "pg_bitmap s1 = pg_bitmap s" "kern_dir s1 = kern_dir s" "ram s1 = m1" "get_used_heap s1 = get_used_heap s + 56" "get_heap_size s1 = get_heap_size s"
    "procs s1 = (procs s)(?p := (procs s ?p)\<lparr>pr_name := nm, pr_state := PROC_NEW, pr_pdir := kern_dir s\<rparr>)"
    using kheap_add_used_fields [where s = s and d = 56 and m = m1]
    by (simp_all add: s1_def z_def upd_proc_def get_used_heap_def get_heap_size_def)
  have "kheap_at s1 bs1" by (rule kheap_at_cong [OF m1(2)]) (simp_all add: s1_def z_def upd_proc_def)
  moreover have "get_used_heap s1 < get_heap_size s1" using less(2) by (simp add: s1)
  ultimately obtain m2 where m2: "create_thread s1 = Some (?t, upd_thread ?t ?g ((kheap_add_used 80 (s1\<lparr>ram := m2\<rparr>))\<lparr>next_pid := next_pid s + 1\<rparr>))"
      "kheap_at (kheap_add_used 80 (s1\<lparr>ram := m2\<rparr>)) bs2" "\<forall>x. x \<notin> thread_block b \<longrightarrow> m2 x = m1 x"
    using create_thread_step [of s1 bs1 b bs2] heap(4,5,7) s1(4,8) by auto
  define c where "c = upd_thread ?t ?g ((kheap_add_used 80 (s1\<lparr>ram := m2\<rparr>))\<lparr>next_pid := next_pid s + 1\<rparr>)"
  define s2 where "s2 = upd_thread ?t (\<lambda>x. x\<lparr>th_main := 1, th_parent := ?p, th_eip := addr\<rparr>) (upd_proc ?p (pr_thread_list_update (\<lambda>_. ?t)) c)"
  have eq: "start_kernel_proc name addr s = (let z = enter_ring ?p ?t (kernel_stack ?p ?t s2) in Some (th_pid (threads z ?t), z))"
    unfolding start_kernel_proc_def m1(1) z_def [symmetric] bind.bind_lunit prod.case Let_def z s1_def [symmetric] m2(1) c_def [symmetric]
      if_not_P [OF heap(7)] s2_def [symmetric] by (rule refl)
  have "kheap_at s2 bs2" by (rule kheap_at_cong [OF m2(2)]) (simp_all add: s2_def c_def upd_proc_def upd_thread_def)
  moreover have "\<forall>x. x \<notin> proc_block a \<union> thread_block b \<longrightarrow> ram s2 x = ram s x"
    using m1(3) m2(3) by (simp add: s2_def c_def upd_proc_def upd_thread_def kheap_add_used_fields)
  ultimately show ?thesis
    by (rule that [OF eq]) (simp_all add: s2_def c_def upd_proc_def upd_thread_def kheap_add_used_fields s1)
qed

lemma sched_add_keeps:
  "threads (sched_add_proc x s) = threads s" "ram (sched_add_proc x s) = ram s" "kheap (sched_add_proc x s) = kheap s"
  "pmm (sched_add_proc x s) = pmm s" "pg_bitmap (sched_add_proc x s) = pg_bitmap s"
  "pr_name (procs (sched_add_proc x s) q) = pr_name (procs s q)" "pr_state (procs (sched_add_proc x s) q) = pr_state (procs s q)"
  "pr_pdir (procs (sched_add_proc x s) q) = pr_pdir (procs s q)" "pr_threads (procs (sched_add_proc x s) q) = pr_threads (procs s q)"
  "pr_thread_list (procs (sched_add_proc x s) q) = pr_thread_list (procs s q)"
  by (simp_all add: sched_add_proc_def Let_def set_pr_next_def set_pr_prec_def upd_proc_def sched_state_def)

text \<open>The next switch from \<open>p\<close> goes to the process behind it.\<close>

lemma schedule_next:
  assumes "procs_ring s (p # x # ps)" "pr_state (procs s x) \<noteq> PROC_STOPPED" "p \<noteq> x" "cur_thread s \<noteq> pr_thread_list (procs s x)"
    "sint (th_time (threads s (cur_thread s))) < sint (ucast (k :: u8) :: u32)"
  shows "\<exists>s'. schedule esp (s\<lparr>pit_ticks := k\<rparr>) = Some (th_esp_kernel (threads s (pr_thread_list (procs s x))), s')
    \<and> proc_list s' = x \<and> cr3 s' = pr_pdir (procs s x)"
proof -
  let ?s = "s\<lparr>pit_ticks := k\<rparr>"
  have cur: "cur_thread ?s = cur_thread s" by (simp add: cur_thread_def)
  have "procs_ring ?s (p # x # ps)" using assms(1) by (simp only: procs_ring_ticks)
  moreover have "(x # ps) @ [p] = [] @ x # (ps @ [p])" "\<forall>a \<in> set []. pr_state (procs ?s a) = PROC_STOPPED" by simp_all
  moreover have "pr_state (procs ?s x) \<noteq> PROC_STOPPED" "sint (th_time (threads ?s (cur_thread ?s))) < sint (get_tick_count ?s)"
    using assms(2,5) by (simp_all add: cur get_tick_count_def)
  ultimately obtain s' where s': "schedule esp ?s = Some (th_esp_kernel (threads s' (cur_thread s')), s')" "procs_ring s' (x # (ps @ [p]) @ [])"
    "threads s' = (threads ?s)(cur_thread ?s := (threads ?s (cur_thread ?s))\<lparr>th_esp_kernel := esp\<rparr>)"
    "procs s' = (procs ?s)(p := (procs ?s p)\<lparr>pr_thread_list := th_next (threads ?s (cur_thread ?s))\<rparr>)" "cr3 s' = pr_pdir (procs ?s x)"
    using schedule_switch [of ?s p "x # ps" "[]" x "ps @ [p]" "cur_thread ?s" esp] by blast
  have x: "proc_list s' = x" using s'(2) by (simp add: procs_ring_def)
  have "cur_thread s' = pr_thread_list (procs s x)" using assms(3) by (simp add: cur_thread_def x s'(4))
  then show ?thesis using s'(1,5) x assms(4) by (simp add: s'(3) cur)
qed

text \<open>A process with one thread, made ready in the state \<open>s\<close>, joins the ring.\<close>

lemma enter_ring_step:
  fixes s v :: "'a proc_state_scheme" and x t :: u32
  defines "w \<equiv> enter_ring x t v"
  assumes ring: "procs_ring s (p # ps)" "x \<notin> set (p # ps)" "x \<noteq> 0" "length ps < 2 ^ 30" "cur_thread s \<noteq> t"
    and v: "procs v = (procs s)(x := (procs s x)\<lparr>pr_name := nm, pr_state := PROC_NEW, pr_pdir := d, pr_thread_list := t\<rparr>)"
      "proc_list v = proc_list s" "n_proc v = n_proc s" "\<forall>t'. t' \<noteq> t \<longrightarrow> threads v t' = threads s t'"
      "th_next (threads v t) = t" "th_prec (threads v t) = t"
  shows "procs_ring w (p # x # ps)" "threads_ring w x [t]" "pr_name (procs w x) = nm" "th_pid (threads w t) = th_pid (threads v t)"
    "ram w = ram v" "kheap w = kheap v" "pmm w = pmm v" "pg_bitmap w = pg_bitmap v"
    "sint (th_time (threads s (cur_thread s))) < sint (ucast (k :: u8) :: u32) \<Longrightarrow>
       \<exists>s2. schedule esp (w\<lparr>pit_ticks := k\<rparr>) = Some (th_esp_kernel (threads v t), s2) \<and> proc_list s2 = x \<and> cr3 s2 = d"
proof -
  define y where "y = upd_proc x (pr_state_update (\<lambda>_. PROC_ACTIVE)) (upd_thread t (th_state_update (\<lambda>_. PROC_ACTIVE))
    (upd_proc x (pr_threads_update (\<lambda>_. 1)) v))"
  have y: "procs y = (procs s)(x := (procs s x)\<lparr>pr_name := nm, pr_pdir := d, pr_thread_list := t, pr_threads := 1, pr_state := PROC_ACTIVE\<rparr>)"
    "proc_list y = proc_list s" "n_proc y = n_proc s" "threads y = (threads v)(t := (threads v t)\<lparr>th_state := PROC_ACTIVE\<rparr>)"
    by (simp_all add: y_def upd_proc_def upd_thread_def v(1-3))
  note w = w_def [folded y_def, THEN meta_eq_to_obj_eq]
  have links: "proc_next y = proc_next s" "proc_prec y = proc_prec s" by (auto simp: y(1))
  have "procs_ring y (p # ps)" using ring(1) unfolding procs_ring_def y(2,3) links .
  from sched_add_proc_ring [OF this ring(2-4)] show wr: "procs_ring w (p # x # ps)" by (simp add: w)
  show "threads_ring w x [t]" by (simp add: threads_ring_def ring_of_def w sched_add_keeps y(1,4) v(5,6))
  show "pr_name (procs w x) = nm" "th_pid (threads w t) = th_pid (threads v t)" by (simp_all add: w sched_add_keeps y(1,4))
  show "ram w = ram v" "kheap w = kheap v" "pmm w = pmm v" "pg_bitmap w = pg_bitmap v"
    by (simp_all add: w sched_add_keeps y_def upd_proc_def upd_thread_def)
  assume late: "sint (th_time (threads s (cur_thread s))) < sint (ucast (k :: u8) :: u32)"
  have head: "proc_list s = p" "proc_list w = p" "p \<noteq> x" using ring(1,2) wr by (auto simp: procs_ring_def)
  then have cur: "cur_thread w = cur_thread s" by (simp add: cur_thread_def w sched_add_keeps y(1))
  have x: "pr_state (procs w x) \<noteq> PROC_STOPPED" "pr_thread_list (procs w x) = t" "pr_pdir (procs w x) = d"
    by (simp_all add: w sched_add_keeps y(1) PROC_ACTIVE_def PROC_STOPPED_def)
  have "threads w (cur_thread w) = threads s (cur_thread s)" "th_esp_kernel (threads w t) = th_esp_kernel (threads v t)"
    using v(4) ring(5) unfolding cur by (simp_all add: w sched_add_keeps y(4))
  with schedule_next [OF wr x(1) head(3), of k esp] x(2,3) late ring(5)
  show "\<exists>s2. schedule esp (w\<lparr>pit_ticks := k\<rparr>) = Some (th_esp_kernel (threads v t), s2) \<and> proc_list s2 = x \<and> cr3 s2 = d"
    by (simp add: cur)
qed

text \<open>C12: \<open>start_kernel_proc\<close> makes a process that runs.  With two free blocks of the kernel heap, two free blocks of
  memory and a table for the stack, and the areas of heap, mapping and stack apart, the call returns the
  next id; the new process stands in the ring behind the running one, with one thread; its stack is
  mapped to two fresh frames and holds the frame with the given entry point; ring, heap and directory keep
  their invariants.  When the running thread's time slice is over, the scheduler switches to it.\<close>

theorem start_kernel_proc_runs:
  fixes s :: "'a proc_state_scheme" and a b :: u32
  defines "d \<equiv> kern_dir s" and "H \<equiv> proc_block a \<union> thread_block b" and "sp \<equiv> KSTACK + 0x1FC0"
  assumes heap: "kheap_at s bs" "fit 40 bs = Some (a, bs1)" "room a 40" "fit 64 bs1 = Some (b, bs2)" "room b 64"
      "unat (get_used_heap s) + 56 < unat (get_heap_size s)"
    and name: "cstr (ram s) name nm" "length nm < 16" "region name (Suc (length nm)) \<inter> proc_block a = {}"
    and memory: "one_ok d s" "2 \<le> free_blocks s" "pde s d KSTACK \<noteq> 0 \<or> 1 \<le> free_tables s"
    and areas: "sorted_wrt (\<lambda>X Y. X \<inter> Y = {}) [H \<union> (\<Union>c \<in> set bs2. region (fst c) 16), mm_area d s, region sp 64]"
    and ring: "procs_ring s (p # ps)" "a + 16 \<notin> set (p # ps)" "0 \<notin> {a + 16, b + 16}" "length ps < 2 ^ 30" "cur_thread s \<noteq> b + 16"
  shows "\<exists>s'. start_kernel_proc name addr s = Some (next_pid s, s')
    \<and> procs_ring s' (p # (a + 16) # ps) \<and> threads_ring s' (a + 16) [b + 16]
    \<and> pr_name (procs s' (a + 16)) = nm \<and> stack_words (ram s') sp 16 = entry_frame addr
    \<and> stack_mapped d s s' \<and> one_ok d s' \<and> kheap_at s' bs2
    \<and> (\<forall>k esp. sint (th_time (threads s (cur_thread s))) < sint (ucast (k :: u8) :: u32) \<longrightarrow>
         (\<exists>s2. schedule esp (s'\<lparr>pit_ticks := k\<rparr>) = Some (sp, s2) \<and> proc_list s2 = a + 16 \<and> cr3 s2 = d))"
proof -
  let ?p = "a + 16" and ?t = "b + 16" and ?HH = "H \<union> (\<Union>c \<in> set bs2. region (fst c) 16)"
  have dis: "?HH \<inter> mm_area d s = {}" "?HH \<inter> region sp 64 = {}" "mm_area d s \<inter> region sp 64 = {}" using areas by simp_all
  have t0: "?t \<noteq> 0" "?p \<noteq> 0" using ring(3) by auto
  obtain u where u: "start_kernel_proc name addr s = (let z = enter_ring ?p ?t (kernel_stack ?p ?t u) in Some (th_pid (threads z ?t), z))"
    "kheap_at u bs2" "\<forall>x. x \<notin> H \<longrightarrow> ram u x = ram s x" "pmm u = pmm s" "pg_bitmap u = pg_bitmap s" "kern_dir u = d"
    "proc_list u = proc_list s" "n_proc u = n_proc s"
    "procs u = (procs s)(?p := (procs s ?p)\<lparr>pr_name := nm, pr_state := PROC_NEW, pr_pdir := d, pr_thread_list := ?t\<rparr>)"
    "threads u = (threads s)(?t := (threads s ?t)\<lparr>th_pid := next_pid s, th_time := 10, th_state := PROC_NEW,
       th_next := ?t, th_prec := ?t, th_main := 1, th_parent := ?p, th_eip := addr\<rparr>)"
    by (rule start_blocks [OF heap t0(1) name, folded H_def d_def]) (rule that)
  have same: "\<forall>x \<in> mm_area d s. ram u x = ram s x" using u(3) dis(1) by blast
  note c = one_ok_cong [OF memory(1) u(4,5) same] and n = one_ok_counts [OF memory(1) u(4,5) same]
  have "pr_pdir (procs u ?p) = d" by (simp add: u(9))
  from kernel_stack_step [OF this c(1), of ?t] obtain q m g where
    v: "kernel_stack ?p ?t u = u\<lparr>pmm := q, pg_used_blocks := g, ram := m, threads := (threads u)(?t := kernel_thread (threads u ?t))\<rparr>"
      "one_ok d (kernel_stack ?p ?t u)" "stack_mapped d u (kernel_stack ?p ?t u)" "stack_words m sp 16 = entry_frame addr"
      "\<forall>x. x \<notin> mm_area d s \<union> region sp 64 \<longrightarrow> m x = ram u x"
    using memory(2,3) dis(3) by (auto simp: c(5,6) n(1,2) sp_def u(10))
  let ?v = "kernel_stack ?p ?t u" and ?w = "enter_ring ?p ?t (kernel_stack ?p ?t u)"
  have vf: "procs ?v = procs u" "proc_list ?v = proc_list s" "n_proc ?v = n_proc s" "kheap ?v = kheap u" "ram ?v = m"
    "threads ?v = (threads u)(?t := kernel_thread (threads u ?t))" by (simp_all add: v(1) u(7,8))
  have vt: "\<forall>t'. t' \<noteq> ?t \<longrightarrow> threads ?v t' = threads s t'" "th_next (threads ?v ?t) = ?t" "th_prec (threads ?v ?t) = ?t"
    "th_esp_kernel (threads ?v ?t) = sp" "th_pid (threads ?v ?t) = next_pid s"
    by (simp_all add: vf(6) u(10) kernel_thread_def sp_def)
  note w = enter_ring_step [OF ring(1,2) t0(2) ring(4,5) vf(1) [unfolded u(9)] vf(2,3) vt(1-3)]
  have eq: "start_kernel_proc name addr s = Some (next_pid s, ?w)" using w(4) unfolding u(1) Let_def vt(5) by simp
  have "\<forall>x \<in> mm_area d ?v. ram ?w x = ram ?v x" by (simp only: w(5)) simp
  note cw = one_ok_cong [OF v(2) w(7,8) this]
  have maps: "stack_mapped d s ?w" using v(3) unfolding stack_mapped_def cw(2) n(3) c(2) .
  have "ram ?w x = ram u x" if "x \<in> ?HH" for x
  proof -
    have "x \<notin> mm_area d s \<union> region sp 64" using dis(1,2) that by blast
    then show ?thesis unfolding w(5) vf(5) using v(5) by blast
  qed
  then have kh: "kheap_at ?w bs2" by (intro kheap_at_cong [OF u(2)]) (auto simp only: w(6) vf(4))
  have "stack_words (ram ?w) sp 16 = entry_frame addr" unfolding w(5) vf(5) by (rule v(4))
  with eq w(1-3,9) maps cw(1) kh show ?thesis unfolding vt(4) by blast
qed

section \<open>An example\<close>

lemma kheap_init_simps:
  fixes s :: "'a kheap_state_scheme"
  shows "pmm (kheap_init k s) = pmm s" "pg_bitmap (kheap_init k s) = pg_bitmap s" "kern_dir (kheap_init k s) = kern_dir s"
    "get_used_heap (kheap_init k s) = 16" "get_heap_size (kheap_init k s) = HEAP_END - k"
    "x \<notin> region k 16 \<Longrightarrow> ram (kheap_init k s) x = ram s x"
  by (simp_all add: kheap_init_def Let_def get_used_heap_def get_heap_size_def set_h_outside)

lemma kheap_init_procs:
  fixes s :: "'a proc_state_scheme"
  shows "procs (kheap_init k s) = procs s" "threads (kheap_init k s) = threads s" "proc_list (kheap_init k s) = proc_list s"
    "n_proc (kheap_init k s) = n_proc s" "next_pid (kheap_init k s) = next_pid s"
  by (simp_all add: kheap_init_def Let_def)

lemma one_ok_retype:
  fixes s :: "'a vmm_state_scheme" and s' :: "'b vmm_state_scheme"
  assumes "pmm s' = pmm s" "pg_bitmap s' = pg_bitmap s" "ram s' = ram s"
  shows "one_ok d s' = one_ok d s" "free_blocks s' = free_blocks s" "free_tables s' = free_tables s" "mm_area d s' = mm_area d s"
  using assms by (simp_all add: one_ok_def vm_ok_def pg_ok_def pg_used_def pmm_ok_def pmm_apart_def pmm_area_def pmm_used_def
      free_blocks_def free_tables_def pmm_frames_def mm_area_def)

text \<open>The two processes of Sched with the directory of Spaces, an empty heap and a name at \<open>0x2000\<close>.\<close>

definition demo_bare :: proc_state where
  "demo_bare = demo_sched\<lparr>ram := ram demo_two, pmm := pmm demo_two, pg_bitmap := 0x1100, kern_dir := 0x10000\<rparr>"

definition demo_start :: proc_state where
  "demo_start = (let s = kheap_init 0x100000 demo_bare in s\<lparr>ram := store_bytes (ram s) 0x2000 (lit ''draw'' @ [0])\<rparr>)"

lemma demo_bare_simps:
  "ram demo_bare = ram demo_two" "pmm demo_bare = pmm demo_two" "pg_bitmap demo_bare = 0x1100" "kern_dir demo_bare = 0x10000"
  "procs demo_bare = procs demo_sched" "threads demo_bare = threads demo_sched" "proc_list demo_bare = 0x10" "n_proc demo_bare = 2"
  by (simp_all add: demo_bare_def demo_sched_simps)

lemma demo_start_simps:
  "pmm demo_start = pmm demo_two" "pg_bitmap demo_start = 0x1100" "kern_dir demo_start = 0x10000"
  "procs demo_start = procs demo_sched" "threads demo_start = threads demo_sched" "proc_list demo_start = 0x10" "n_proc demo_start = 2"
  "get_used_heap demo_start = 16" "get_heap_size demo_start = 0x100000"
  by (simp_all add: demo_start_def Let_def kheap_init_simps kheap_init_procs demo_bare_simps HEAP_END_def get_used_heap_def get_heap_size_def)
    (simp_all add: kheap_init_def Let_def HEAP_END_def)

lemma demo_start_area: "mm_area 0x10000 demo_bare = region 0x40000 0x20000 \<union> region 0x1100 64 \<union> region 0x10000 4096 \<union> region 0x200000 0x200000"
  by (simp add: mm_area_def pmm_area_def demo_bare_simps demo_two_simps)

lemma demo_start_ok:
  "one_ok 0x10000 demo_start" "2 \<le> free_blocks demo_start" "1 \<le> free_tables demo_start" "mm_area 0x10000 demo_start = mm_area 0x10000 demo_bare"
proof -
  have b: "one_ok 0x10000 demo_bare" "2 \<le> free_blocks demo_bare" "1 \<le> free_tables demo_bare"
    using one_ok_retype [of demo_bare demo_two] demo_two_ok demo_two_counts
    by (simp_all add: demo_bare_simps demo_two_simps one_ok_def two_ok_def)
  have l: "length (lit ''draw'' @ [0]) = 5" by (simp add: lit_def)
  have "mm_area 0x10000 demo_bare \<inter> (region 0x100000 16 \<union> region 0x2000 5) = {}"
    unfolding demo_start_area by (simp add: Int_Un_distrib Int_Un_distrib2 region_apart region_apart2)
  then have d: "x \<notin> region 0x100000 16" "x \<notin> region 0x2000 (length (lit ''draw'' @ [0]))" if "x \<in> mm_area 0x10000 demo_bare" for x
    using that unfolding l by blast+
  have same: "\<forall>x \<in> mm_area 0x10000 demo_bare. ram demo_start x = ram demo_bare x"
    by (simp add: demo_start_def Let_def store_bytes_outside [OF d(2)] kheap_init_simps(6) [OF d(1)])
  have f: "pmm demo_start = pmm demo_bare" "pg_bitmap demo_start = pg_bitmap demo_bare" by (simp_all add: demo_start_simps demo_bare_simps)
  show "one_ok 0x10000 demo_start" "mm_area 0x10000 demo_start = mm_area 0x10000 demo_bare" by (rule one_ok_cong(1,6) [OF b(1) f same])+
  show "2 \<le> free_blocks demo_start" "1 \<le> free_tables demo_start" unfolding one_ok_counts(1,2) [OF b(1) f same] by (rule b)+
qed

lemma demo_start_heap: "kheap_at demo_start [(0x100000, 0xFFFF0, True)]"
proof -
  have "kheap_at (kheap_init 0x100000 demo_bare) [(0x100000, 0xFFFF0, True)]"
    using kheap_init_at [of "0x100000" demo_bare] by (simp add: HEAP_END_def)
  moreover have "region 0x100000 16 \<inter> region 0x2000 (length (lit ''draw'' @ [0])) = {}" by (simp add: lit_def region_apart2)
  ultimately show ?thesis
    by (elim kheap_at_cong) (auto simp: demo_start_def Let_def intro!: store_bytes_outside)
qed

theorem start_kernel_proc_runs_witness:
  "\<exists>s'. start_kernel_proc 0x2000 0x12345 demo_start = Some (next_pid demo_start, s') \<and> procs_ring s' [0x10, 0x100010, 0x20]
    \<and> stack_words (ram s') 0x407FC0 16 = entry_frame 0x12345"
proof -
  let ?bs = "[(0x100000, 0xFFFF0, True)]" and ?bs1 = "cut 0x100000 0xFFFF0 40"
  have fit: "fit 40 ?bs = Some (0x100000, ?bs1)" "fit 64 ?bs1 = Some (0x100380, (0x100000, 40, False) # cut 0x100380 0xFFFB8 64)"
    by (simp_all add: cut_def)
  have nm: "cstr (ram demo_start) 0x2000 (lit ''draw'')"
    by (simp add: demo_start_def Let_def lit_def store_bytes_def)
  have ring: "procs_ring demo_start (0x10 # [0x20])" "cur_thread demo_start \<noteq> 0x100380 + 16"
    using demo_sched_rings(1) by (simp_all add: procs_ring_def demo_start_simps demo_sched_simps cur_thread_def demo_proc_def)
  have areas: "sorted_wrt (\<lambda>X Y. X \<inter> Y = {}) [proc_block 0x100000 \<union> thread_block 0x100380
      \<union> (\<Union>c \<in> set ((0x100000, 40, False) # cut 0x100380 0xFFFB8 64). region (fst c) 16), mm_area (kern_dir demo_start) demo_start, region (KSTACK + 0x1FC0) 64]"
    by (simp add: demo_start_simps(3) demo_start_ok(4) demo_start_area proc_block_def thread_block_def cut_def KERNEL_SPACE_END_def
        Int_Un_distrib Int_Un_distrib2 region_apart region_apart2)
  have name: "region 0x2000 (Suc (length (lit ''draw''))) \<inter> proc_block 0x100000 = {}" "length (lit ''draw'') < 16"
    by (simp_all add: lit_def proc_block_def Int_Un_distrib region_apart)
  have used: "unat (get_used_heap demo_start) + 56 < unat (get_heap_size demo_start)" by (simp add: demo_start_simps)
  show ?thesis
    using start_kernel_proc_runs [OF demo_start_heap fit(1) _ fit(2) _ used nm name(2,1) _ demo_start_ok(2) _ areas ring(1) _ _ _ ring(2), of "0x12345"]
      demo_start_ok(1,3) by (simp add: room_def demo_start_simps(3) KERNEL_SPACE_END_def) blast
qed

end
