(* ===== verification/Stop.thy ===== *)
theory Stop
  imports Start
begin

text \<open>
  The end of a thread that is not the main one: \<open>stop_thread\<close> takes it out of the ring of its process, unmaps the
  pages of its stacks and its heap and releases its block, but the process keeps the pointer to the block.  The
  theorem follows all of this through Thread, Vmm with Pmm and Paging, and Kheap.
\<close>

section \<open>Unmapping\<close>

text \<open>\<open>vmm_unmap\<close> leaves the page without a translation, whether it had one or not, and writes to the bitmap of
  blocks and to the page's table only.\<close>

lemma pmm_free_step:
  shows "mi_map (pmm (pmm_free a s)) = mi_map (pmm s)" "x \<notin> pmm_area s \<Longrightarrow> ram (pmm_free a s) x = ram s x"
proof -
  have n: "a div BLOCKS_LEN = of_nat (unat (a div BLOCKS_LEN))" by simp
  have "unat a < 2 ^ 32" using unsigned_less [of a] by simp
  then have k: "unat (a div BLOCKS_LEN) < 2 ^ 20" by (simp add: BLOCKS_LEN_def unat_div less_mult_imp_div_less)
  have "same_outside s (pmm_free a s)"
    unfolding pmm_free_def using same_outside_step(2) [OF k, of s "- 1"] n by simp
  then show "mi_map (pmm (pmm_free a s)) = mi_map (pmm s)" "x \<notin> pmm_area s \<Longrightarrow> ram (pmm_free a s) x = ram s x"
    by (simp_all add: same_outside_def pmm_area_def)
qed

lemma pmm_free_pg [simp]: "pg_bitmap (pmm_free a s) = pg_bitmap (s :: 'a vmm_state_scheme)"
  by (simp add: pmm_free_def pmm_unset_bit_def pmm_add_used_def)

lemma vmm_unmap_step:
  fixes s :: "'a vmm_state_scheme"
  assumes "vm_ok d s" "pmm_apart d s"
  shows "vm_ok d (vmm_unmap d v s)" "pmm_apart d (vmm_unmap d v s)" "mm_area d (vmm_unmap d v s) = mm_area d s"
    "x \<notin> mm_area d s \<Longrightarrow> ram (vmm_unmap d v s) x = ram s x"
    "get_phys_addr (vmm_unmap d v s) d w = (if drop_bit 12 w = drop_bit 12 v then 0 else get_phys_addr s d w)"
proof -
  consider (none) "pde s d v = 0" "vmm_unmap d v s = s"
    | (empty) "pde s d v \<noteq> 0" "get_phys_addr s d v = 0" "vmm_unmap d v s = kprint (''Error unmapping memory'' @ NL) [] s"
    | (page) "pde s d v \<noteq> 0" "get_phys_addr s d v \<noteq> 0" "vmm_unmap d v s = set_pte d v 0 (pmm_free (get_phys_addr s d v) s)"
    by (cases "pde s d v = 0"; cases "get_phys_addr s d v = 0") (simp_all add: vmm_unmap_def Let_def)
  then have "vm_ok d (vmm_unmap d v s) \<and> pmm_apart d (vmm_unmap d v s) \<and> mm_area d (vmm_unmap d v s) = mm_area d s
    \<and> (\<forall>x. x \<notin> mm_area d s \<longrightarrow> ram (vmm_unmap d v s) x = ram s x)
    \<and> (\<forall>w. get_phys_addr (vmm_unmap d v s) d w = (if drop_bit 12 w = drop_bit 12 v then 0 else get_phys_addr s d w))"
  proof cases
    case none
    have "get_phys_addr s d w = 0" if "drop_bit 12 w = drop_bit 12 v" for w
      using none(1) same_page [of w v] that by (simp add: get_phys_addr_pte slot_pde)
    with none(2) assms show ?thesis by simp
  next
    case empty
    have "get_phys_addr s d w = 0" if "drop_bit 12 w = drop_bit 12 v" for w
    proof -
      have "pde s d w = pde s d v" "pte s d w = pte s d v"
        using same_page [of w v] that by (simp_all add: slot_pde pte_def)
      then have "get_phys_addr s d w = get_phys_addr s d v" by (simp only: get_phys_addr_pte)
      then show ?thesis using empty(2) by simp
    qed
    moreover have "vm_ok d (kprint f xs s) = vm_ok d s" "pmm_apart d (kprint f xs s) = pmm_apart d s" "mm_area d (kprint f xs s) = mm_area d s"
      "ram (kprint f xs s) = ram s" "get_phys_addr (kprint f xs s) d w = get_phys_addr s d w" for f xs w
      by (simp_all add: kprint_def vm_ok_def pg_ok_def pg_used_def pmm_apart_def pmm_area_def mm_area_def get_phys_addr_def pde_def)
    ultimately show ?thesis using assms unfolding empty(3) by simp
  next
    case page
    define a where "a = get_phys_addr s d v"
    let ?s1 = "pmm_free a s"
    have keep: "\<forall>x \<in> dir_area d s. ram ?s1 x = ram s x"
      using dir_area_sub [OF assms(1)] assms(2) pmm_free_step(2) [of _ s] by (fastforce simp: pmm_apart_def)
    note c = dir_area_cong [OF pmm_free_pg keep assms(1)]
    have v: "pde ?s1 d v \<noteq> 0" using page(1) unfolding c(4) .
    note e = set_pte_effect [OF c(1) v, where x = 0]
    have same: "mi_map (pmm (set_pte d v 0 ?s1)) = mi_map (pmm s)" "pg_bitmap (set_pte d v 0 ?s1) = pg_bitmap s"
      by (simp_all add: set_pte_def pmm_free_step(1))
    then have area: "mm_area d (set_pte d v 0 ?s1) = mm_area d s" "pmm_apart d (set_pte d v 0 ?s1) = pmm_apart d s"
      by (simp_all add: mm_area_def pmm_apart_def pmm_area_def)
    have out: "ram (set_pte d v 0 ?s1) x = ram s x" if "x \<notin> mm_area d s" for x
    proof -
      have "x \<notin> dir_area d ?s1" using that dir_area_mm [OF c(1)] by (auto simp: mm_area_def pmm_area_def pmm_free_step(1))
      then have "x \<notin> region (table (pde ?s1 d v)) 4096" using tables_pde [OF v] unfolding dir_area_def by blast
      then have "ram (set_pte d v 0 ?s1) x = ram ?s1 x" by (rule set_pte_outside)
      also have "\<dots> = ram s x" using that by (intro pmm_free_step(2)) (simp add: mm_area_def)
      finally show ?thesis .
    qed
    have trans: "get_phys_addr (set_pte d v 0 ?s1) d w = (if drop_bit 12 w = drop_bit 12 v then 0 else get_phys_addr s d w)" for w
    proof (cases "pde ?s1 d w = 0")
      case True
      then have "get_phys_addr s d w = 0" using c(4) by (simp add: get_phys_addr_pte)
      then show ?thesis using True by (simp add: get_phys_addr_pte e(2))
    next
      case False
      have "get_phys_addr s d w = push_bit 12 (drop_bit 12 (pte ?s1 d w))"
        using c(3) [of w] False by (simp add: get_phys_addr_pte [of ?s1])
      then show ?thesis using e(3) [OF False] False by (simp add: get_phys_addr_pte [of "set_pte d v 0 ?s1"] e(2))
    qed
    show ?thesis unfolding page(3) [folded a_def] using e(1) area assms(2) out trans by blast
  qed
  then show "vm_ok d (vmm_unmap d v s)" "pmm_apart d (vmm_unmap d v s)" "mm_area d (vmm_unmap d v s) = mm_area d s"
    "x \<notin> mm_area d s \<Longrightarrow> ram (vmm_unmap d v s) x = ram s x"
    "get_phys_addr (vmm_unmap d v s) d w = (if drop_bit 12 w = drop_bit 12 v then 0 else get_phys_addr s d w)"
    by blast+
qed

text \<open>The pages of a thread.\<close>

definition thread_pages :: "thread \<Rightarrow> u32 list" where
  "thread_pages x = [th_stack_limit x - PAGE_SIZE, th_stack_kernel_limit x - PAGE_SIZE]
     @ map (\<lambda>i. th_heap x + of_nat i * PAGE_SIZE) [0..<4]"

lemma unmap_thread_pages: "unmap_thread d x s = fold (vmm_unmap d) (thread_pages x) s"
  by (simp add: unmap_thread_def thread_pages_def Let_def fold_map comp_def)

lemma unmap_pages:
  fixes s :: "'a vmm_state_scheme"
  assumes "vm_ok d s" "pmm_apart d s"
  shows "vm_ok d (fold (vmm_unmap d) vs s) \<and> mm_area d (fold (vmm_unmap d) vs s) = mm_area d s
    \<and> (\<forall>x. x \<notin> mm_area d s \<longrightarrow> ram (fold (vmm_unmap d) vs s) x = ram s x)
    \<and> (\<forall>w. get_phys_addr (fold (vmm_unmap d) vs s) d w = (if drop_bit 12 w \<in> drop_bit 12 ` set vs then 0 else get_phys_addr s d w))"
  using assms
proof (induction vs arbitrary: s)
  case (Cons v vs)
  note st = vmm_unmap_step [OF Cons.prems, where v = v]
  from Cons.IH [OF st(1,2)] show ?case unfolding fold_simps st(3) using st(4,5) by (auto simp: image_iff)
qed simp

lemma vmm_unmap_heap [simp]:
  fixes s :: "'a kheap_state_scheme"
  shows "kheap (fold (vmm_unmap d) vs s) = kheap s" "pg_bitmap (fold (vmm_unmap d) vs s) = pg_bitmap s"
  by (induction vs arbitrary: s)
    (simp_all add: vmm_unmap_def set_pte_def pmm_free_def pmm_unset_bit_def pmm_add_used_def kprint_def Let_def)

section \<open>The theorem\<close>

lemma sched_on_cong:
  fixes s :: "'a proc_state_scheme"
  shows "kheap_at (enable_int (sched_state i s)) bs = kheap_at s bs" "get_used_heap (enable_int (sched_state i s)) = get_used_heap s"
    "get_heap_size (enable_int (sched_state i s)) = get_heap_size s" "get_phys_addr (enable_int (sched_state i s)) d w = get_phys_addr s d w"
    "procs (enable_int (sched_state i s)) = procs s"
  by (simp_all add: enable_int_def sched_state_def kheap_at_def get_used_heap_def get_heap_size_def get_phys_addr_def pde_def)

text \<open>C31: the thread that runs ends and is not the main one.  Its block \<open>t\<close> is in use in the kernel heap.  Then
  \<open>stop_thread\<close> comes to its final loop; the six pages of the thread's stacks and heap have lost their
  translation, all others keep theirs; its block is released, with the used bytes of the heap reduced by its
  size; the ring is left with the other threads.  But the process still has \<open>t\<close> as its first thread, and its old
  count of threads.  Any later allocation for which the released block is the first fit returns \<open>t\<close> again,
  while the process still refers to it.\<close>
theorem stop_thread_dangles:
  fixes s :: "'a proc_state_scheme"
  assumes run: "proc_list s = cur" "cur \<noteq> 0" "pr_thread_list (procs s cur) = t" "th_main (threads s t) \<noteq> 1"
      "pr_pdir (procs s cur) = d" "ring_of (thread_next s) (thread_prec s) (t # q # qs)"
    and heap: "kheap_at s bs" "(t - 16, sz, False) \<in> set bs"
    and memory: "vm_ok d s" "pmm_apart d s" "(\<Union>b \<in> set bs. region (fst b) 16) \<inter> mm_area d s = {}"
  shows "\<exists>s'. stop_thread code s = Some s'
    \<and> kheap_at s' (release (t - 16) bs) \<and> get_used_heap s' = get_used_heap s - sz
    \<and> (\<forall>w. get_phys_addr s' d w = (if drop_bit 12 w \<in> drop_bit 12 ` set (thread_pages (threads s t)) then 0 else get_phys_addr s d w))
    \<and> ring_of (thread_next s') (thread_prec s') (q # qs) \<and> t \<notin> set (q # qs)
    \<and> pr_thread_list (procs s' cur) = t \<and> pr_threads (procs s' cur) = pr_threads (procs s cur)
    \<and> (\<forall>len bs2. fit len (release (t - 16) bs) = Some (t - 16, bs2) \<and> room (t - 16) len \<and> get_used_heap s - sz < get_heap_size s
        \<longrightarrow> (\<exists>s2. kmalloc len s' = Some (t, s2) \<and> pr_thread_list (procs s2 cur) = t))"
proof -
  define s1 where "s1 = unlink_thread t (sched_state 0 s)"
  define s2 where "s2 = unmap_thread d (threads s1 t) s1"
  have l: "ram s1 = ram s" "pmm s1 = pmm s" "pg_bitmap s1 = pg_bitmap s" "kheap s1 = kheap s" "procs s1 = procs s"
    by (simp_all add: s1_def unlink_thread_def set_th_next_def set_th_prec_def upd_thread_def sched_state_def Let_def)
  have pages: "thread_pages (threads s1 t) = thread_pages (threads s t)"
    by (simp add: s1_def unlink_thread_def set_th_next_def set_th_prec_def upd_thread_def sched_state_def Let_def thread_pages_def)
  have l': "vm_ok d s1" "pmm_apart d s1" "mm_area d s1 = mm_area d s" "get_phys_addr s1 d w = get_phys_addr s d w" for w
    using memory(1,2) l by (simp_all add: vm_ok_def pg_ok_def pg_used_def pmm_apart_def pmm_area_def mm_area_def get_phys_addr_def pde_def)
  note u = unmap_pages [OF l'(1,2), of "thread_pages (threads s t)"]
  have s2: "s2 = fold (vmm_unmap d) (thread_pages (threads s t)) s1" by (simp add: s2_def unmap_thread_pages pages)
  have "ram s2 x = ram s x" if "x \<notin> mm_area d s" for x using u that l(1) l'(3) unfolding s2 by simp
  then have "kheap_at s2 bs" using memory(3) by (intro kheap_at_cong [OF heap(1)]) (auto simp: s2 l(4))
  from kfree_step [OF this heap(2)] obtain m where m: "kfree t s2 = Some (kheap_add_used (- sz) (s2\<lparr>ram := m\<rparr>))"
    "kheap_at (kheap_add_used (- sz) (s2\<lparr>ram := m\<rparr>)) (release (t - 16) bs)" "\<forall>x. x \<notin> region (t - 16) 16 \<longrightarrow> m x = ram s2 x"
    by auto
  let ?s3 = "kheap_add_used (- sz) (s2\<lparr>ram := m\<rparr>)"
  let ?s' = "enable_int (sched_state 1 ?s3)"
  have "get_cur_proc (sched_state 0 s) = cur" "procs (sched_state 0 s) = procs s" "threads (sched_state 0 s) = threads s"
    using run(1) by (simp_all add: get_cur_proc_def sched_state_def)
  then have stop: "stop_thread code s = Some ?s'"
    using run(2-5) m(1) by (simp add: stop_thread_def Let_def s1_def [symmetric] l(5) s2_def [symmetric])
  note r = stop_thread_ring [OF stop run(1-4,6)]
  have used: "get_used_heap ?s' = get_used_heap s - sz" "get_heap_size ?s' = get_heap_size s"
    unfolding sched_on_cong by (simp_all add: s2 l(4) kheap_add_used_def get_used_heap_def get_heap_size_def)
  have kh: "kheap_at ?s' (release (t - 16) bs)" using m(2) by (simp only: sched_on_cong)
  have s2a: "vm_ok d s2" "mm_area d s2 = mm_area d s" using u l'(3) unfolding s2 by simp_all
  have "region (t - 16) 16 \<inter> mm_area d s = {}" using heap(2) memory(3) by force
  then have "\<forall>x \<in> dir_area d s2. ram ?s3 x = ram s2 x"
    using m(3) dir_area_mm [OF s2a(1)] s2a(2) by (auto simp: kheap_add_used_def)
  moreover have "pg_bitmap ?s3 = pg_bitmap s2" by (simp add: kheap_add_used_def)
  ultimately have "get_phys_addr ?s3 d w = get_phys_addr s2 d w" for w using dir_area_cong(3) s2a(1) by blast
  then have trans: "\<forall>w. get_phys_addr ?s' d w
      = (if drop_bit 12 w \<in> drop_bit 12 ` set (thread_pages (threads s t)) then 0 else get_phys_addr s d w)"
    using u l'(4) unfolding s2 by (simp add: sched_on_cong)
  have again: "\<exists>s2. kmalloc len ?s' = Some (t, s2) \<and> pr_thread_list (procs s2 cur) = t"
    if "fit len (release (t - 16) bs) = Some (t - 16, bs2) \<and> room (t - 16) len \<and> get_used_heap s - sz < get_heap_size s" for len bs2
  proof -
    from kmalloc_step [OF kh, of len "t - 16" bs2] that used obtain m2
      where "kmalloc len ?s' = Some (t - 16 + 16, kheap_add_used (len + 16) (?s'\<lparr>ram := m2\<rparr>))" by auto
    moreover have "pr_thread_list (procs ?s' cur) = t" using r by blast
    ultimately show ?thesis by (simp add: kheap_add_used_def)
  qed
  show ?thesis
    by (rule exI [of _ ?s'], intro conjI) (use stop kh used(1) trans r again in blast)+
qed

section \<open>An example\<close>

text \<open>The state of Start, where process \<open>0x10\<close> runs a thread whose block is the first of the heap, beside the
  thread \<open>0x300\<close>.\<close>

definition demo_stop :: proc_state where
  "demo_stop = (case kmalloc 64 demo_start of
     Some (t, s) \<Rightarrow> s\<lparr>threads := (threads s)(t := (demo_thread 1 0x300)\<lparr>th_main := 0, th_stack_limit := 0x805000,
         th_stack_kernel_limit := 0x806000, th_heap := 0x810000\<rparr>, 0x300 := demo_thread 3 t),
       procs := (procs s)(0x10 := (demo_proc t 0x20)\<lparr>pr_threads := 2\<rparr>)\<rparr>
   | None \<Rightarrow> demo_start)"

lemma demo_stop_simps:
  "kheap_at demo_stop [(0x100000, 64, False), (0x100500, 0xFFFA0, True)]" "get_used_heap demo_stop = 96" "get_heap_size demo_stop = 0x100000"
  "one_ok 0x10000 demo_stop" "mm_area 0x10000 demo_stop = mm_area 0x10000 demo_bare" "proc_list demo_stop = 0x10"
  "threads demo_stop 0x100010 = (demo_thread 1 0x300)\<lparr>th_main := 0, th_stack_limit := 0x805000, th_stack_kernel_limit := 0x806000,
     th_heap := 0x810000\<rparr>" "threads demo_stop 0x300 = demo_thread 3 0x100010"
  "procs demo_stop 0x10 = (demo_proc 0x100010 0x20)\<lparr>pr_threads := 2\<rparr>"
proof -
  let ?bs = "[(0x100000, 0xFFFF0, True)]"
  have "fit 64 ?bs = Some (0x100000, cut 0x100000 0xFFFF0 64)" "room 0x100000 64" "get_used_heap demo_start < get_heap_size demo_start"
    by (simp_all add: room_def demo_start_simps)
  from kmalloc_step [OF demo_start_heap this(3,1,2)] obtain m where
    m: "kmalloc 64 demo_start = Some (0x100010, kheap_add_used 80 (demo_start\<lparr>ram := m\<rparr>))"
      "kheap_at (kheap_add_used 80 (demo_start\<lparr>ram := m\<rparr>)) (cut 0x100000 0xFFFF0 64)"
      "\<forall>x. x \<notin> region 0x100000 16 \<union> region 0x100500 16 \<longrightarrow> m x = ram demo_start x"
    by auto
  have d: "demo_stop = (kheap_add_used 80 (demo_start\<lparr>ram := m\<rparr>))
      \<lparr>threads := (threads demo_start)(0x100010 := (demo_thread 1 0x300)\<lparr>th_main := 0, th_stack_limit := 0x805000,
         th_stack_kernel_limit := 0x806000, th_heap := 0x810000\<rparr>, 0x300 := demo_thread 3 0x100010),
       procs := (procs demo_start)(0x10 := (demo_proc 0x100010 0x20)\<lparr>pr_threads := 2\<rparr>)\<rparr>"
    by (simp add: demo_stop_def m(1) kheap_add_used_def)
  have "kheap_at demo_stop (cut 0x100000 0xFFFF0 64)" by (rule kheap_at_cong [OF m(2)]) (simp_all add: d kheap_add_used_def)
  then show "kheap_at demo_stop [(0x100000, 64, False), (0x100500, 0xFFFA0, True)]" by (simp add: cut_def)
  have "get_used_heap demo_stop = get_used_heap demo_start + 80" "get_heap_size demo_stop = get_heap_size demo_start"
    by (simp_all add: d kheap_add_used_def get_used_heap_def get_heap_size_def)
  then show "get_used_heap demo_stop = 96" "get_heap_size demo_stop = 0x100000" by (simp_all add: demo_start_simps)
  have "mm_area 0x10000 demo_start \<inter> (region 0x100000 16 \<union> region 0x100500 16) = {}"
    unfolding demo_start_ok(4) demo_start_area by (simp add: Int_Un_distrib Int_Un_distrib2 region_apart region_apart2)
  then have "\<forall>x \<in> mm_area 0x10000 demo_start. ram demo_stop x = ram demo_start x"
    using m(3) by (auto simp: d kheap_add_used_def)
  moreover have "pmm demo_stop = pmm demo_start" "pg_bitmap demo_stop = pg_bitmap demo_start" by (simp_all add: d kheap_add_used_def)
  ultimately have "one_ok 0x10000 demo_stop" "mm_area 0x10000 demo_stop = mm_area 0x10000 demo_start"
    using one_ok_cong(1,6) [OF demo_start_ok(1)] by blast+
  then show "one_ok 0x10000 demo_stop" "mm_area 0x10000 demo_stop = mm_area 0x10000 demo_bare" by (simp_all add: demo_start_ok(4))
  show "proc_list demo_stop = 0x10"
    "threads demo_stop 0x100010 = (demo_thread 1 0x300)\<lparr>th_main := 0, th_stack_limit := 0x805000, th_stack_kernel_limit := 0x806000,
       th_heap := 0x810000\<rparr>" "threads demo_stop 0x300 = demo_thread 3 0x100010"
    "procs demo_stop 0x10 = (demo_proc 0x100010 0x20)\<lparr>pr_threads := 2\<rparr>"
    by (simp_all add: d kheap_add_used_def demo_start_simps)
qed

text \<open>After the end of the thread the heap is one free block again, and the next block of 64 bytes is the one that
  the process still takes for its first thread.\<close>

theorem stop_thread_dangles_witness:
  "\<exists>s' s2. stop_thread 0 demo_stop = Some s' \<and> kheap_at s' [(0x100000, 0xFFFF0, True)]
    \<and> ring_of (thread_next s') (thread_prec s') [0x300] \<and> pr_threads (procs s' 0x10) = 2
    \<and> kmalloc 64 s' = Some (0x100010, s2) \<and> pr_thread_list (procs s2 0x10) = 0x100010"
proof -
  let ?bs = "[(0x100000, 64, False), (0x100500, 0xFFFA0, True)]"
  have rel: "release 0x100000 ?bs = [(0x100000, 0xFFFF0, True)]" by simp
  have fit: "fit 64 (release 0x100000 ?bs) = Some (0x100000, cut 0x100000 0xFFFF0 64)" "room 0x100000 64" unfolding rel by (simp_all add: room_def)
  have t: "pr_thread_list (procs demo_stop 0x10) = 0x100010" "th_main (threads demo_stop 0x100010) \<noteq> 1" "pr_pdir (procs demo_stop 0x10) = 0x10000"
    by (simp_all add: demo_stop_simps demo_proc_def)
  have ring: "ring_of (thread_next demo_stop) (thread_prec demo_stop) (0x100010 # 0x300 # [])"
    by (simp add: ring_of_def demo_stop_simps demo_thread_def)
  have mem: "vm_ok 0x10000 demo_stop" "pmm_apart 0x10000 demo_stop" using demo_stop_simps(4) by (simp_all add: one_ok_def)
  have areas: "(\<Union>b \<in> set ?bs. region (fst b) 16) \<inter> mm_area 0x10000 demo_stop = {}"
    unfolding demo_stop_simps(5) demo_start_area by (simp add: Int_Un_distrib Int_Un_distrib2 region_apart region_apart2)
  have "(0x100010 - 16, 64, False) \<in> set (?bs :: block list)" by simp
  from stop_thread_dangles [OF demo_stop_simps(6) _ t ring demo_stop_simps(1) this mem areas, of 0]
  obtain s' where s': "stop_thread 0 demo_stop = Some s'" "kheap_at s' (release 0x100000 ?bs)" "ring_of (thread_next s') (thread_prec s') [0x300]"
      "pr_threads (procs s' 0x10) = pr_threads (procs demo_stop 0x10)"
      "\<forall>len bs2. fit len (release 0x100000 ?bs) = Some (0x100000, bs2) \<and> room 0x100000 len \<and> get_used_heap demo_stop - 64 < get_heap_size demo_stop
        \<longrightarrow> (\<exists>s2. kmalloc len s' = Some (0x100010, s2) \<and> pr_thread_list (procs s2 0x10) = 0x100010)"
    by auto
  have "pr_threads (procs s' 0x10) = 2" by (simp add: s'(4) demo_stop_simps)
  moreover have "get_used_heap demo_stop - 64 < get_heap_size demo_stop" by (simp add: demo_stop_simps)
  then obtain s2 where "kmalloc 64 s' = Some (0x100010, s2)" "pr_thread_list (procs s2 0x10) = 0x100010" using s'(5) fit by blast
  ultimately show ?thesis using s'(1-3) unfolding rel by blast
qed

end
