(* ===== verification/Programs.thy ===== *)
theory Programs
  imports Userlib
begin

text \<open>
  The programs under \<open>apps\<close> that run on the kernel: \<open>example/main.c\<close>, \<open>editor/editor.c\<close> and
  \<open>multiprocessing/mproc.c\<close>, as calls of the user library.  \<open>nb\<close> are the number buffers of \<open>vsprintf\<close> and \<open>n\<close>, \<open>c\<close> the
  addresses of the local variables whose addresses the program passes on.
\<close>

section \<open>example\<close>

text \<open>One question: a prompt, the answer read by a conversion, and the answer shown.\<close>

definition ask ::
  "'a console console_env \<Rightarrow> user_regs \<Rightarrow> u32 \<Rightarrow> string \<Rightarrow> string \<Rightarrow> u32 \<Rightarrow> string \<Rightarrow> ('a console \<Rightarrow> u32) \<Rightarrow> 'a console
     \<Rightarrow> (unit, 'a console) ending option" where
  "ask e r nb question conv p reply v s =
     and_then (printf e r nb (ce_lit e question) [] s) (\<lambda>_ s.
     and_then (scanf e r (ce_lit e conv) [p] s) (\<lambda>_ s.
       printf e r nb (ce_lit e reply) [v s] s))"

definition example_main ::
  "'a console console_env \<Rightarrow> user_regs \<Rightarrow> u32 \<Rightarrow> u32 \<Rightarrow> u32 \<Rightarrow> 'a console \<Rightarrow> (u32, 'a console) ending option" where
  "example_main e r nb n c s =
     and_then (ask e r nb ''Inserisci un numero: '' ''%d'' n (''Il numero e'' @ [CHR 0x27] @ '': %d'' @ NL) (\<lambda>s. read32 (ram s) n) (set32 n 0 s)) (\<lambda>_ s.
     and_then (ask e r nb ''Inserisci un carattere: '' ''%c'' c (''Il carattere e'' @ [CHR 0x27] @ '': %c'' @ NL) (\<lambda>s. scast (ram s c)) s) (\<lambda>_ s.
     and_then (malloc e r 64 s) (\<lambda>p s.
     and_then (ask e r nb ''Inserisci una stringa: '' ''%s'' p (''La stringa e'' @ [CHR 0x27] @ '': %s'' @ NL) (\<lambda>_. p) s) (\<lambda>_ s.
     and_then (free e r p s) (\<lambda>_ s. Some (Returns 0 s))))))"

section \<open>editor\<close>

definition editor_main ::
  "'a console console_env \<Rightarrow> user_regs \<Rightarrow> u32 \<Rightarrow> u32 \<Rightarrow> u32 \<Rightarrow> 'a console \<Rightarrow> (u32, 'a console) ending option" where
  "editor_main e r nb argc argv s =
     (if sint argc < 2 then Some (Returns 1 s)
      else
        and_then (printf e r nb (ce_lit e (''Welcome'' @ NL)) [] s) (\<lambda>_ s.
        and_then (fopen e r (read32 (ram s) (argv + 4)) (ce_lit e ''r'') s) (\<lambda>f s.
        and_then (fclose e r f s) (\<lambda>_ s. Some (Returns 0 s)))))"

section \<open>multiprocessing\<close>

definition mproc_main :: "'a console console_env \<Rightarrow> user_regs \<Rightarrow> u32 \<Rightarrow> 'a console \<Rightarrow> (u32, 'a console) ending option" where
  "mproc_main e r nb s =
     and_then (fork e r s) (\<lambda>pid s.
       if pid = 0 then
         and_then (printf e r nb (ce_lit e (''Siamo nel figlio'' @ NL)) [] s) (\<lambda>_ s.
         and_then (exit e r 0 s) (\<lambda>_ s. Some (Returns 0 s)))
       else
         and_then (printf e r nb (ce_lit e (''Siamo nel padre: %x'' @ NL)) [pid] s) (\<lambda>_ s. Some (Spins s)))"

text \<open>Neither of the two threads comes to the end of \<open>main\<close>: the child ends in the call of \<open>exit\<close>, which the
  kernel does not return from, and the parent's loop has no end.\<close>

lemma and_then_Returns:
  "and_then x f = Some (Returns v s') \<longleftrightarrow> (\<exists>w z. x = Some (Returns w z) \<and> f w z = Some (Returns v s'))"
proof (cases x)
  case (Some y)
  then show ?thesis by (cases y) simp_all
qed simp

lemma exit_stays: "exit e r code s \<noteq> Some (Returns v s')"
  by (cases "stop_thread code s") (simp_all add: exit_def syscall_call_def syscalls_def MAX_SYSCALL_def Let_def)

theorem mproc_main_stays: "mproc_main e r nb s \<noteq> Some (Returns v s')"
  by (auto simp: mproc_main_def and_then_Returns exit_stays split: if_splits)

end
