(* ===== verification/Spec2Isabelle.thy ===== *)
theory Spec2Isabelle
  imports Boot Draw Pager Printf Fatwrite Life Stop Programs
begin

text \<open>
  Verification development of hoho-os, a kernel for one 32-bit x86 processor written in C.

  \<^bold>\<open>The program.\<close>  \<open>kmain\<close> (\<open>src/main.c\<close>) sets the parts up one after the other: the screen, the bitmap
  of physical blocks, paging with the kernel mapped one to one, the kernel heap, the descriptor tables and
  interrupt controllers, keyboard and mouse, the system call gate, the file system with its two kinds of
  disks, and the scheduler, which never comes back.  From then on the timer interrupt calls \<open>schedule\<close>, the
  console process reads lines and executes commands, and a command may start a program: an address space is
  created, the file is read through the virtual file system and the FAT driver, its segments are copied to
  their addresses, stacks and heap are built, and the process joins the scheduler's ring.  A program calls
  the kernel through \<open>int 0x72\<close>; an exception ends in a panic or in the end of the process.

  \<^bold>\<open>The state.\<close>  One record grows from theory to theory, by extension, as the parts build on each other:
  memory, processor and bitmap (\<open>pmm_state\<close>, Pmm), directories (Vmm), kernel heap (Kheap), ports and
  interrupt tables (Cpu), processes and threads (Sched), devices, mounted file systems and open files (Fat),
  disk controllers (Floppy, Ata), keyboard and mouse (Input), screen (Video), windows (Gui), console
  (Console).  An operation is stated on the smallest record that has what it uses and is polymorphic in the
  rest, so every later part can call it.  The last record, \<open>'a console\<close>, is the state of the kernel.

  \<^item> Memory is one total map from 32-bit addresses to bytes (\<open>ram\<close>), read and written by \<open>read16\<close>,
    \<open>read32\<close>, \<open>write32\<close> and the string routines.  Everything the code reaches through a pointer to raw
    memory is in it: page directories and tables, bitmap of tables, heap headers, strings, directory entries,
    ELF headers, interrupt frames, video memory.  Structures that the code only uses through typed pointers
    (processes, threads, devices, open files) are maps from their addresses to records, and the same
    addresses come from \<open>kmalloc\<close>.
  \<^item> Memory is linear: an access goes to the address as it is, without a walk of the page tables.  The
    kernel's own space is mapped one to one (theorem \<open>map_kernel_identity\<close>); for addresses of programs
    the page tables are computed and their translation (\<open>get_phys_addr\<close>) is what theorems speak about.
  \<^item> Integers are words of the width the code gives them, so that they wrap round; signed comparisons go
    through \<open>sint\<close>.
  \<^item> Devices are scripts: \<open>port_reads\<close> is what the next reads of ports will answer, and \<open>port_writes\<close> is the
    list of what was sent.  \<open>kbd_irqs\<close> counts the key interrupts to come, each answered from the script; a
    wait without an interrupt to come does not end.
  \<^item> Messages to the console are recorded with format and arguments (\<open>klog\<close>, by \<open>kprint\<close>).  How a format
    becomes text and how text reaches the screen are modelled on their own, by \<open>vsprintf\<close>, \<open>printk\<close> and
    \<open>console_print\<close>.
  \<^item> A function returns \<open>option\<close> when the code may not return: the value None means that a loop never
    ends or that an access has no meaning (an index outside an array, a call through a null table).  Loops
    whose end is not evident are \<open>partial_function (option)\<close>, with no bound on the number of rounds; that they
    end is part of the theorems, which state that the result is \<open>Some\<close>.  Loops over the heap and lists of the
    kernel with a given length are structural recursions on that length.

  \<^bold>\<open>The theories.\<close>

  \<^item> Prelude: reading and writing of words in memory, regions of addresses, general facts.  Cells: arrays
    of cells in memory.  Cstring: \<open>lib/string.c\<close>; the central notion is \<open>cstr m p s\<close>, the string at an
    address, and \<open>renders\<close>, an inductive description of the text of a format.
  \<^item> Bitmap: searches in a bitmap of words and the locale \<open>frame_allocator\<close> (what an allocation promises, and
    that allocations are distinct).  Pmm (\<open>mm/mm.c\<close>) and Paging (\<open>mm/paging.c\<close>) interpret it.
  \<^item> Vmm (\<open>mm/vmm.c\<close>): directories and tables, with the invariant \<open>dir_ok\<close>; Spaces: mapping one frame in
    two directories.
  \<^item> Heap: the chain of block headers that both heaps use, its abstraction to a list of blocks (\<open>blocks\<close>) and
    first fit on that list (\<open>fit\<close>); Kheap (\<open>mm/kheap.c\<close>) and Uheap (\<open>mm/heap.c\<close>) refine it.
  \<^item> Cpu: ports (\<open>drivers/io.c\<close>), descriptor tables (\<open>hal/gdt.c\<close>, \<open>idt.c\<close>, \<open>tss.c\<close>), \<open>hal.c\<close>, timer and
    interrupt controllers (\<open>drivers/x86/pit.c\<close>, \<open>pic.c\<close>).
  \<^item> Ring: doubly linked rings with the locale \<open>ring_store\<close>, interpreted for processes (Sched,
    \<open>proc/sched.c\<close>) and threads (Thread, \<open>proc/thread.c\<close>).
  \<^item> Elf (\<open>proc/elf.c\<close>) and Proc (\<open>proc/proc.c\<close>): loading, starting and removing programs.  Start: a kernel
    process from its start to its first time slice.  Stop: the end of a thread, with its pages and its block.
    Life: the processes under every sequence of timer
    interrupts, starts, ends and removals, as a step relation.
  \<^item> Device (\<open>hal/device.c\<close>), Fat (\<open>fs/fat.c\<close>), Vfs (\<open>fs/vfs.c\<close>): registry of devices, file system, mount
    table.  Fatwrite: writing a file and reading it back.  Dma, Floppy, Ata: the drivers of \<open>drivers/x86/dma.c\<close>, \<open>drivers/floppy\<close> and \<open>drivers/ata\<close>.
  \<^item> Input: keyboard and mouse, with the locale \<open>line_loop\<close> for a routine that reads a line; it is
    interpreted for \<open>gets\<close> here and for the console's loop in Console.
  \<^item> Video (\<open>drivers/video/video.c\<close>): text terminal and frame buffer; Draw: what the drawing routines paint;
    Gui (\<open>gui/window.c\<close>, \<open>drivers/graphics.c\<close>): windows and text areas.
  \<^item> Console (\<open>apps/console.c\<close>, \<open>console_gui.c\<close>, \<open>commands.c\<close>, \<open>drivers/x86/cpu.c\<close>): line input, arguments,
    commands; Pager: reading a whole file to the console.
  \<^item> Traps (\<open>hal/exception.c\<close>, \<open>syscall.c\<close>, \<open>panic.c\<close>), Userlib (\<open>lib/stdio.c\<close>, \<open>stdlib.c\<close>, \<open>unistd.c\<close>,
    \<open>system_calls.c\<close>), Printf (\<open>printf\<close> of a user program down to the screen), Programs (the programs under
    \<open>apps\<close>), Boot (\<open>main.c\<close>).

  A definition has the name of the C function it translates; a loop or part of a function that has a
  definition of its own is named after it (\<open>gets_loop\<close>, \<open>vs_conv\<close>, \<open>schedule\<close>'s \<open>next_ready\<close>).  Fields of
  packed structures are accessors with the structure's prefix (\<open>eh_entry\<close>, \<open>dir_attrs\<close>, \<open>h_size\<close>, \<open>r_eax\<close>).

  \<^bold>\<open>What is shown.\<close>

  \<^item> Allocators: the least free block is returned, allocations are distinct, exhaustion is answered by an
    address instead of 0; the bitmap after \<open>pmm_init\<close>; the kernel heap is first fit up to the cut of the chain,
    and a sequence of calls that returns a block in use.
  \<^item> Paging: a mapping changes the translation of one page; the kernel is mapped one to one.
  \<^item> Scheduling: a switch saves and restores the right thread; every runnable process is reached within a
    number of switches given by the ring; the search returns.
  \<^item> Processes: a started kernel process is switched to and enters at its address; the ring stays whole
    whatever the processes do, and what a removal does to the process behind; stacks mapped in both directories
    to the same frames, the frames that the return from an interrupt pops; the frames of a loaded segment; the
    end of a thread, which unmaps its pages and releases its block but leaves the process pointing to it.
  \<^item> Text: \<open>vsprintf\<close> writes the described text, \<open>printk\<close> leaves the cursor and cells of an abstract terminal,
    number conversion, comparison and copying of strings.
  \<^item> Disks and files: registers and data of a sector read, the answer of a drive with both sector counts,
    cylinder arithmetic, the chain of clusters, mounting with the volume that a boot sector describes; what
    becomes of every 8.3 name on the way to the disk and back, with the cases in which its dot is lost; what is
    written is read back; reading a whole file prints the sectors of its chain in order.
  \<^item> Input: the table of keys, the edited line that a line reader hands on, the pointer's moves, cut to
    limits that lie one column and one row beyond the screen.
  \<^item> Console: the command a line stands for, arguments; exceptions never resume.

  Theorems about errors of the code state what the code does; they are listed as findings beside the
  development.

  \<^bold>\<open>Parameters.\<close>  The address of a string literal or of an assembly routine is a function of its text
  or name (\<open>ld\<close>, \<open>be_lit\<close>, \<open>ce_lit\<close>), of which only what a theorem assumes is known (\<open>literals_ok\<close>).  The
  video BIOS in v8086 mode, the processor's identification and the contents of uninitialised memory are
  arguments.  The reads and writes of a disk that are called through a device's record are functions on
  memory and medium (\<open>sector_io\<close>); \<open>ideal_device\<close> is the instance used in examples.

  \<^bold>\<open>Not modelled.\<close>  Assembly that only loads registers or switches stacks (\<open>bootloader/init.asm\<close>,
  \<open>gdt.asm\<close>, \<open>idt.asm\<close>, \<open>end_process.asm\<close>, \<open>v8086.asm\<close>): the C code that it calls and the memory frames it pushes are
  modelled.  Interrupts arrive between operations, not inside them, except where the code waits for one.
  The build files.  Caches and the TLB: \<open>flush_tlb\<close> records the addresses it is given.

  \<^bold>\<open>Bounds.\<close>  No loop has a bound of its own: the recursions run over lists and counts that the code has
  (sectors, slots of a directory, processes of the ring), and \<open>partial_function\<close> covers the rest.  Sizes in
  hypotheses (\<open>room\<close>, lengths of texts, areas apart) are those at which the code's own buffers and the heap end;
  what happens beyond them is the subject of findings.

  \<^bold>\<open>Not shown.\<close>  The definitions of \<open>start_proc\<close>, \<open>load_elf\<close> and \<open>kmain\<close> are complete, but there is no theorem
  about the whole of a call; for \<open>start_proc\<close> its parts are covered (\<open>map_segment_aliases\<close>, \<open>build_stack_maps\<close>,
  \<open>stack_fill_frames\<close>).
\<close>

end
